(* ===== verification/ASD_Prelude.thy ===== *)
theory ASD_Prelude
  imports Main "HOL-Library.Word" "HOL-Library.AList" "HOL-Library.Product_Lexorder"
begin

text \<open>
  The vocabulary the components share: the machine integer types, IP addresses
  with the total order Rust derives for them, time as nanoseconds on the monotonic
  clock, and the finite tables behind every \<^verbatim>\<open>HashMap\<close> and \<^verbatim>\<open>DashMap\<close> of the code.
  A table is an association list with distinct keys, so that \<^verbatim>\<open>len()\<close> is the length of
  the list; the order of the list stands for the iteration order, which the Rust
  maps leave unspecified.  The locale \<open>bounded_table\<close> is the interface of the
  components that admit new keys only below a capacity.
\<close>

section \<open>Collections of rewrite rules\<close>

named_theorems tbl_simps \<open>reading a table after one of its operations\<close>
named_theorems time_simps \<open>instants, durations and their differences\<close>

section \<open>Machine integers\<close>

type_synonym u8 = "8 word"
type_synonym u16 = "16 word"
type_synonym u32 = "32 word"
type_synonym u64 = "64 word"

type_synonym bytes = "u8 list"

section \<open>IP addresses\<close>

text \<open>\<^verbatim>\<open>std::net::IpAddr\<close>: the derived order puts every IPv4 address before every IPv6
  address and compares octets from the most significant one, which is the order of the
  big-endian numbers.\<close>

datatype ipaddr = V4 "32 word" | V6 "128 word"

instantiation ipaddr :: linorder
begin

fun less_eq_ipaddr :: "ipaddr \<Rightarrow> ipaddr \<Rightarrow> bool" where
  "less_eq_ipaddr (V4 a) (V4 b) = (a \<le> b)"
| "less_eq_ipaddr (V4 a) (V6 b) = True"
| "less_eq_ipaddr (V6 a) (V4 b) = False"
| "less_eq_ipaddr (V6 a) (V6 b) = (a \<le> b)"

definition less_ipaddr :: "ipaddr \<Rightarrow> ipaddr \<Rightarrow> bool" where
  "less_ipaddr a b \<longleftrightarrow> a \<le> b \<and> \<not> b \<le> a"

instance
proof
  fix x y z :: ipaddr
  show "(x < y) = (x \<le> y \<and> \<not> y \<le> x)"
    by (rule less_ipaddr_def)
  show "x \<le> x"
    by (cases x) auto
  show "x \<le> y \<Longrightarrow> y \<le> z \<Longrightarrow> x \<le> z"
    by (cases x; cases y; cases z) auto
  show "x \<le> y \<Longrightarrow> y \<le> x \<Longrightarrow> x = y"
    by (cases x; cases y) auto
  show "x \<le> y \<or> y \<le> x"
    by (cases x; cases y) auto
qed

end

fun is_v4 :: "ipaddr \<Rightarrow> bool" where
  "is_v4 (V4 _) = True"
| "is_v4 (V6 _) = False"

definition ipv4 :: "u8 \<Rightarrow> u8 \<Rightarrow> u8 \<Rightarrow> u8 \<Rightarrow> ipaddr" where
  "ipv4 a b c d = V4 (ucast a * 16777216 + ucast b * 65536 + ucast c * 256 + ucast d)"

section \<open>Time\<close>

text \<open>\<^verbatim>\<open>Instant\<close> and \<^verbatim>\<open>Duration\<close> count nanoseconds.  \<^verbatim>\<open>duration_since\<close> saturates at zero when
  the argument lies in the future, which is the subtraction of the natural numbers.\<close>

type_synonym instant = nat
type_synonym duration = nat

definition from_secs :: "nat \<Rightarrow> duration" where
  "from_secs s = s * 1000000000"

definition duration_since :: "instant \<Rightarrow> instant \<Rightarrow> duration" where
  "duration_since now earlier = now - earlier"

lemma duration_since_self [simp, time_simps]: "duration_since t t = 0"
  by (simp add: duration_since_def)

lemma duration_since_mono [time_simps]:
  "t \<le> t' \<Longrightarrow> duration_since t e \<le> duration_since t' e"
  by (simp add: duration_since_def diff_le_mono)

lemma from_secs_0 [simp]: "from_secs 0 = 0"
  by (simp add: from_secs_def)

lemma from_secs_mono [time_simps]: "from_secs a \<le> from_secs b \<longleftrightarrow> a \<le> b"
  by (simp add: from_secs_def)

section \<open>Lists\<close>

lemma find_SomeD: "find P xs = Some x \<Longrightarrow> x \<in> set xs \<and> P x"
  by (induction xs) (auto split: if_splits)

lemma set_map_filter: "set (List.map_filter f xs) = {y. \<exists>x \<in> set xs. f x = Some y}"
  by (force simp: map_filter_def)

lemma distinct_map_filter_inj:
  assumes "distinct xs" and "\<And>x y z. x \<in> set xs \<Longrightarrow> y \<in> set xs \<Longrightarrow> f x = Some z \<Longrightarrow> f y = Some z \<Longrightarrow> x = y"
  shows "distinct (List.map_filter f xs)"
  using assms
proof (induction xs)
  case (Cons x xs)
  have "distinct (List.map_filter f xs)" using Cons.prems by (intro Cons.IH) auto
  moreover have "z \<notin> set (List.map_filter f xs)" if "f x = Some z" for z
    using Cons.prems that by (fastforce simp: set_map_filter)
  ultimately show ?case by (simp add: map_filter_simps split: option.split)
qed (simp add: map_filter_simps)

section \<open>Finite tables\<close>

type_synonym ('k, 'v) tbl = "('k \<times> 'v) list"

definition tbl_ok :: "('k, 'v) tbl \<Rightarrow> bool" where
  "tbl_ok t \<longleftrightarrow> distinct (map fst t)"

definition tbl_get :: "('k, 'v) tbl \<Rightarrow> 'k \<Rightarrow> 'v option" where
  "tbl_get t k = map_of t k"

definition tbl_insert :: "('k, 'v) tbl \<Rightarrow> 'k \<Rightarrow> 'v \<Rightarrow> ('k, 'v) tbl" where
  "tbl_insert t k v = AList.update k v t"

definition tbl_remove :: "('k, 'v) tbl \<Rightarrow> 'k \<Rightarrow> ('k, 'v) tbl" where
  "tbl_remove t k = filter (\<lambda>p. fst p \<noteq> k) t"

definition tbl_retain :: "('k \<Rightarrow> 'v \<Rightarrow> bool) \<Rightarrow> ('k, 'v) tbl \<Rightarrow> ('k, 'v) tbl" where
  "tbl_retain P t = filter (\<lambda>p. P (fst p) (snd p)) t"

definition tbl_len :: "('k, 'v) tbl \<Rightarrow> nat" where
  "tbl_len t = length t"

definition tbl_keys :: "('k, 'v) tbl \<Rightarrow> 'k set" where
  "tbl_keys t = fst ` set t"

text \<open>\<^verbatim>\<open>entry(k).or_insert(d)\<close>: the value under \<open>k\<close>, or \<open>d\<close> when there is none.\<close>

definition tbl_get_or :: "('k, 'v) tbl \<Rightarrow> 'k \<Rightarrow> 'v \<Rightarrow> 'v" where
  "tbl_get_or t k d = (case tbl_get t k of Some v \<Rightarrow> v | None \<Rightarrow> d)"

lemma tbl_get_or_cases: "tbl_get t k = Some v \<Longrightarrow> tbl_get_or t k d = v"
  "tbl_get t k = None \<Longrightarrow> tbl_get_or t k d = d"
  by (simp_all add: tbl_get_or_def)

lemma tbl_ok_Nil [simp, intro]: "tbl_ok []"
  by (simp add: tbl_ok_def)

lemma tbl_ok_insert [simp, intro]: "tbl_ok t \<Longrightarrow> tbl_ok (tbl_insert t k v)"
  by (simp add: tbl_ok_def tbl_insert_def distinct_update)

lemma tbl_ok_filter: "tbl_ok t \<Longrightarrow> tbl_ok (filter P t)"
  by (simp add: tbl_ok_def distinct_map_filter)

lemma tbl_ok_remove [simp, intro]: "tbl_ok t \<Longrightarrow> tbl_ok (tbl_remove t k)"
  by (simp add: tbl_remove_def tbl_ok_filter)

lemma tbl_ok_retain [simp, intro]: "tbl_ok t \<Longrightarrow> tbl_ok (tbl_retain P t)"
  by (simp add: tbl_retain_def tbl_ok_filter)

lemma tbl_get_Nil [simp, tbl_simps]: "tbl_get [] k = None"
  by (simp add: tbl_get_def)

lemma tbl_get_insert [simp, tbl_simps]:
  "tbl_get (tbl_insert t k v) k' = (if k' = k then Some v else tbl_get t k')"
  by (simp add: tbl_get_def tbl_insert_def update_conv')

lemma tbl_get_or_insert [simp, tbl_simps]:
  "tbl_get_or (tbl_insert t k v) k' d = (if k' = k then v else tbl_get_or t k' d)"
  by (simp add: tbl_get_or_def)

lemma map_of_filter_key: "map_of (filter (\<lambda>p. fst p \<noteq> k) t) k' = (if k' = k then None else map_of t k')"
  by (induction t) auto

lemma tbl_get_remove [simp, tbl_simps]:
  "tbl_get (tbl_remove t k) k' = (if k' = k then None else tbl_get t k')"
  by (simp add: tbl_get_def tbl_remove_def map_of_filter_key)

lemma tbl_get_mem: "tbl_get t k = Some v \<Longrightarrow> (k, v) \<in> set t"
  by (simp add: tbl_get_def map_of_SomeD)

lemma tbl_mem_get: "tbl_ok t \<Longrightarrow> (k, v) \<in> set t \<Longrightarrow> tbl_get t k = Some v"
  by (simp add: tbl_get_def tbl_ok_def)

lemma tbl_get_None_iff: "tbl_get t k = None \<longleftrightarrow> k \<notin> tbl_keys t"
  by (simp add: tbl_get_def tbl_keys_def map_of_eq_None_iff)

lemma tbl_get_retain [tbl_simps]:
  assumes "tbl_ok t"
  shows "tbl_get (tbl_retain P t) k =
    (case tbl_get t k of None \<Rightarrow> None | Some v \<Rightarrow> if P k v then Some v else None)"
  using assms
proof (induction t)
  case Nil
  then show ?case by (simp add: tbl_retain_def)
next
  case (Cons p t)
  obtain k' v' where p: "p = (k', v')" by (cases p)
  from Cons.prems p have ok: "tbl_ok t" and fresh: "k' \<notin> fst ` set t"
    by (auto simp: tbl_ok_def)
  have "tbl_get t k' = None"
    using fresh by (simp add: tbl_get_def map_of_eq_None_iff)
  with Cons.IH [OF ok] show ?case
    by (cases "k = k'") (auto simp: p tbl_retain_def tbl_get_def split: option.splits if_splits)
qed

lemma tbl_keys_insert [simp, tbl_simps]: "tbl_keys (tbl_insert t k v) = insert k (tbl_keys t)"
  by (simp add: tbl_keys_def tbl_insert_def dom_update)

lemma tbl_keys_retain: "tbl_keys (tbl_retain P t) \<subseteq> tbl_keys t"
  by (auto simp: tbl_keys_def tbl_retain_def)

lemma tbl_len_Nil [simp]: "tbl_len [] = 0"
  by (simp add: tbl_len_def)

lemma length_alist_update:
  "length (AList.update k v t) = (if k \<in> fst ` set t then length t else Suc (length t))"
  by (induction t) auto

lemma tbl_len_insert [tbl_simps]:
  "tbl_len (tbl_insert t k v) = (if tbl_get t k = None then Suc (tbl_len t) else tbl_len t)"
  using tbl_get_None_iff [of t k]
  by (simp add: tbl_len_def tbl_insert_def length_alist_update tbl_keys_def)

lemma tbl_len_remove_le: "tbl_len (tbl_remove t k) \<le> tbl_len t"
  by (simp add: tbl_len_def tbl_remove_def)

lemma tbl_len_retain_le: "tbl_len (tbl_retain P t) \<le> tbl_len t"
  by (simp add: tbl_len_def tbl_retain_def)

lemma tbl_len_card: "tbl_ok t \<Longrightarrow> tbl_len t = card (tbl_keys t)"
  unfolding tbl_len_def tbl_ok_def tbl_keys_def
  using distinct_card [of "map fst t"] by simp

lemma tbl_insert_eq: "tbl_ok t \<Longrightarrow> tbl_get t k = Some v \<Longrightarrow> tbl_insert t k v = t"
  by (simp add: tbl_get_def tbl_insert_def update_triv)

lemma tbl_retain_mem: "(k, v) \<in> set (tbl_retain P t) \<longleftrightarrow> (k, v) \<in> set t \<and> P k v"
  by (auto simp: tbl_retain_def)

lemma tbl_mem_iff: "tbl_ok t \<Longrightarrow> (k, v) \<in> set t \<longleftrightarrow> tbl_get t k = Some v"
  by (blast intro: tbl_mem_get tbl_get_mem)

lemma tbl_insert_mem: "tbl_ok t \<Longrightarrow>
  (k', v') \<in> set (tbl_insert t k v) \<longleftrightarrow> (if k' = k then v' = v else (k', v') \<in> set t)"
  by (auto simp: tbl_mem_iff)

section \<open>The capacity interface\<close>

text \<open>
  The contract of a component that keeps one table of at most \<open>cap\<close> keys: every
  operation keeps the keys distinct, and an operation that adds a key is refused when
  the table is full.  Connection tracking and the quarantine list provide it.
\<close>

locale bounded_table =
  fixes table :: "'s \<Rightarrow> ('k, 'v) tbl"
    and capacity :: "'s \<Rightarrow> nat"
    and step :: "'s \<Rightarrow> 'op \<Rightarrow> 's"
  assumes step_ok: "tbl_ok (table s) \<Longrightarrow> tbl_ok (table (step s a))"
    and step_capacity: "capacity (step s a) = capacity s"
    and step_len: "tbl_len (table s) \<le> capacity s \<Longrightarrow> tbl_len (table (step s a)) \<le> capacity s"
begin

definition within :: "'s \<Rightarrow> bool" where
  "within s \<longleftrightarrow> tbl_ok (table s) \<and> tbl_len (table s) \<le> capacity s"

lemma within_step: "within s \<Longrightarrow> within (step s a)"
  using step_ok [of s a] step_capacity [of s a] step_len [of s a] by (simp add: within_def)

lemma run_capacity: "capacity (foldl step s as) = capacity s"
  by (induction "as" arbitrary: s) (simp_all add: step_capacity)

lemma within_run: "within s \<Longrightarrow> within (foldl step s as)"
  by (induction "as" arbitrary: s) (simp_all add: within_step)

theorem keys_bounded: "within s \<Longrightarrow> card (tbl_keys (table (foldl step s as))) \<le> capacity s"
  using within_run [of s "as"] run_capacity [of s "as"] tbl_len_card [of "table (foldl step s as)"]
  by (simp add: within_def)

end

section \<open>The expiry interface\<close>

text \<open>
  The contract of a component whose sweep drops the entries that have become stale: an
  entry that is stale stays so as time passes.  Then a sweep keeps exactly the fresh
  entries, sweeping twice is sweeping once at the later time, and the table never grows.
\<close>

locale expiring_table =
  fixes table :: "'s \<Rightarrow> ('k, 'v) tbl"
    and fresh :: "'s \<Rightarrow> instant \<Rightarrow> 'k \<Rightarrow> 'v \<Rightarrow> bool"
    and sweep :: "'s \<Rightarrow> instant \<Rightarrow> 's"
  assumes sweep_table: "table (sweep s now) = tbl_retain (fresh s now) (table s)"
    and fresh_sweep: "fresh (sweep s t) = fresh s"
    and fresh_antimono: "t \<le> t' \<Longrightarrow> fresh s t' k v \<Longrightarrow> fresh s t k v"
begin

lemma sweep_get: "tbl_ok (table s) \<Longrightarrow> tbl_get (table (sweep s now)) k = Some v \<longleftrightarrow>
  tbl_get (table s) k = Some v \<and> fresh s now k v"
  by (auto simp: sweep_table tbl_get_retain split: option.splits)

lemma sweep_sweep: "t \<le> t' \<Longrightarrow> table (sweep (sweep s t) t') = table (sweep s t')"
  by (auto simp: sweep_table fresh_sweep tbl_retain_def intro!: filter_cong dest: fresh_antimono)

lemma sweep_len: "tbl_len (table (sweep s now)) \<le> tbl_len (table s)"
  by (simp add: sweep_table tbl_len_retain_le)

lemma sweep_tbl_ok: "tbl_ok (table s) \<Longrightarrow> tbl_ok (table (sweep s now))"
  by (simp add: sweep_table)

lemma sweep_id: "(\<And>k v. (k, v) \<in> set (table s) \<Longrightarrow> fresh s now k v) \<Longrightarrow> table (sweep s now) = table s"
  by (auto simp: sweep_table tbl_retain_def intro!: filter_True)

end

section \<open>Options and lists\<close>

text \<open>A sequence of checks that each may report an error succeeds when every check does.\<close>

lemma checks_None_iff [simp]:
  "(case a of None \<Rightarrow> b | Some e \<Rightarrow> Some e) = None \<longleftrightarrow> a = None \<and> b = None"
  by (cases a) auto

lemma find_None_iff_filter: "find P xs = None \<longleftrightarrow> filter P xs = []"
  by (auto simp: find_None_iff filter_empty_conv)

lemma find_filter_hd: "find P xs = (case filter P xs of [] \<Rightarrow> None | x # _ \<Rightarrow> Some x)"
  by (induction xs) auto

text \<open>Two sorted lists without repetitions that have the same elements satisfying \<open>P\<close>
  have the same first one: the shape of every ``index instead of scan'' argument.\<close>

lemma find_sorted_eqI:
  fixes xs ys :: "'a::linorder list"
  assumes "sorted xs" "distinct xs" "sorted ys" "distinct ys"
    and "\<And>x. P x \<Longrightarrow> x \<in> set xs \<longleftrightarrow> x \<in> set ys"
  shows "find P xs = find P ys"
proof -
  have "set (filter P xs) = set (filter P ys)"
    using assms(5) by auto
  moreover have "sorted (filter P xs)" "distinct (filter P xs)"
    "sorted (filter P ys)" "distinct (filter P ys)"
    using assms(1-4) by (simp_all add: sorted_filter [of "\<lambda>x. x", simplified])
  ultimately have "filter P xs = filter P ys"
    by (intro sorted_distinct_set_unique)
  then show ?thesis by (simp add: find_filter_hd)
qed

lemma replicate_two: "replicate 2 x = [x, x]"
  by (simp add: numeral_2_eq_2)

lemma foldl_inv:
  assumes "\<And>s a. I s \<Longrightarrow> I (f s a)" and "I s"
  shows "I (foldl f s as)"
  using assms(2) by (induction "as" arbitrary: s) (simp_all add: assms(1))

end
