(* ===== verification/Packet.thy ===== *)
theory Packet
  imports ASD_Prelude
begin

text \<open>
  The firewall's packet classifier (\<^verbatim>\<open>firewall-perimeter/src/packet.rs\<close>).  The header
  parser is the third-party crate \<^verbatim>\<open>etherparse\<close>; its two entry points are the fields of
  the record \<open>etherparse\<close>, an argument of every definition that parses, and of its
  header types only the fields the code reads are kept.
\<close>

datatype l4proto = L4Tcp | L4Udp | L4Icmp | L4Other u8

record tcp_flags =
  syn :: bool
  ack :: bool
  fin :: bool
  rst :: bool

record parsed_packet =
  src_ip :: ipaddr
  dst_ip :: ipaddr
  proto :: l4proto
  src_port :: u16
  dst_port :: u16
  pkt_tcp_flags :: "tcp_flags option"
  payload_len :: nat

datatype parse_outcome = Parsed parsed_packet | UnclassifiableFragment | Malformed

section \<open>The interface of etherparse\<close>

datatype ip_header =
    Version4 (v4_source: "32 word") (v4_destination: "32 word") (fragments_offset: u16)
  | Version6 (v6_source: "128 word") (v6_destination: "128 word") (fragment: "u16 option")

datatype transport_header =
    Tcp u16 u16 tcp_flags
  | Udp u16 u16
  | Icmpv4
  | Icmpv6

record packet_headers =
  hdr_ip :: "ip_header option"
  hdr_transport :: "transport_header option"
  hdr_payload :: bytes

record etherparse =
  ip_from_slice :: "bytes \<Rightarrow> ip_header option"
  headers_from_ip_slice :: "bytes \<Rightarrow> packet_headers option"

section \<open>Classification\<close>

definition check_fragmentation :: "etherparse \<Rightarrow> bytes \<Rightarrow> parse_outcome option" where
  "check_fragmentation ep raw =
     (case ip_from_slice ep raw of
        None \<Rightarrow> None
      | Some ip_header \<Rightarrow>
          (case ip_header of
             Version4 _ _ off \<Rightarrow> if off \<noteq> 0 then Some UnclassifiableFragment else None
           | Version6 _ _ frag \<Rightarrow>
               (case frag of
                  Some off \<Rightarrow> if off \<noteq> 0 then Some UnclassifiableFragment else None
                | None \<Rightarrow> None)))"

fun header_addresses :: "ip_header \<Rightarrow> ipaddr \<times> ipaddr" where
  "header_addresses (Version4 s d _) = (V4 s, V4 d)"
| "header_addresses (Version6 s d _) = (V6 s, V6 d)"

fun transport_fields ::
  "transport_header option \<Rightarrow> l4proto \<times> u16 \<times> u16 \<times> tcp_flags option" where
  "transport_fields (Some (Tcp s d f)) = (L4Tcp, s, d, Some f)"
| "transport_fields (Some (Udp s d)) = (L4Udp, s, d, None)"
| "transport_fields (Some Icmpv4) = (L4Icmp, 0, 0, None)"
| "transport_fields (Some Icmpv6) = (L4Icmp, 0, 0, None)"
| "transport_fields None = (L4Other 0, 0, 0, None)"

definition parse :: "etherparse \<Rightarrow> bytes \<Rightarrow> parse_outcome" where
  "parse ep raw =
     (case check_fragmentation ep raw of
        Some outcome \<Rightarrow> outcome
      | None \<Rightarrow>
          (case headers_from_ip_slice ep raw of
             None \<Rightarrow> Malformed
           | Some headers \<Rightarrow>
               (case hdr_ip headers of
                  None \<Rightarrow> Malformed
                | Some ip_header \<Rightarrow>
                    (let (s, d) = header_addresses ip_header;
                         (pr, sp, dp, fl) = transport_fields (hdr_transport headers)
                     in Parsed \<lparr>src_ip = s, dst_ip = d, proto = pr, src_port = sp,
                          dst_port = dp, pkt_tcp_flags = fl,
                          payload_len = length (hdr_payload headers)\<rparr>))))"

section \<open>Well-formed parsed packets\<close>

text \<open>What every parsed packet satisfies: both addresses belong to one family, TCP packets
  and only they carry flags, and packets of any other protocol than TCP and UDP have
  port zero.\<close>

definition packet_wf :: "parsed_packet \<Rightarrow> bool" where
  "packet_wf p \<longleftrightarrow>
     (is_v4 (src_ip p) \<longleftrightarrow> is_v4 (dst_ip p))
   \<and> (pkt_tcp_flags p \<noteq> None \<longleftrightarrow> proto p = L4Tcp)
   \<and> (proto p \<notin> {L4Tcp, L4Udp} \<longrightarrow> src_port p = 0 \<and> dst_port p = 0)
   \<and> (proto p \<in> {L4Tcp, L4Udp, L4Icmp, L4Other 0})"

lemma header_addresses_family:
  "header_addresses h = (s, d) \<Longrightarrow> is_v4 s \<longleftrightarrow> is_v4 d"
  by (cases h) auto

lemma transport_fields_wf:
  assumes "transport_fields t = (pr, sp, dp, fl)"
  shows "(fl \<noteq> None \<longleftrightarrow> pr = L4Tcp) \<and> (pr \<notin> {L4Tcp, L4Udp} \<longrightarrow> sp = 0 \<and> dp = 0)
    \<and> pr \<in> {L4Tcp, L4Udp, L4Icmp, L4Other 0}"
  using assms by (cases t rule: transport_fields.cases) auto

lemma parse_ParsedE:
  assumes "parse ep raw = Parsed p"
  obtains headers h where
    "check_fragmentation ep raw = None"
    "headers_from_ip_slice ep raw = Some headers" "hdr_ip headers = Some h"
    "header_addresses h = (src_ip p, dst_ip p)"
    "transport_fields (hdr_transport headers) = (proto p, src_port p, dst_port p, pkt_tcp_flags p)"
    "payload_len p = length (hdr_payload headers)"
proof -
  have "check_fragmentation ep raw = None"
    using assms by (auto simp: parse_def check_fragmentation_def
        split: option.splits ip_header.splits if_splits)
  with assms show thesis
    by (auto simp: parse_def Let_def split: option.splits prod.splits intro!: that)
qed

text \<open>A non-first fragment is never classified, whatever the transport parser says.\<close>

lemma parse_fragment:
  "ip_from_slice ep raw = Some (Version4 s d off) \<Longrightarrow> off \<noteq> 0 \<Longrightarrow>
     parse ep raw = UnclassifiableFragment"
  "ip_from_slice ep raw = Some (Version6 s' d' (Some off)) \<Longrightarrow> off \<noteq> 0 \<Longrightarrow>
     parse ep raw = UnclassifiableFragment"
  by (simp_all add: parse_def check_fragmentation_def)

text \<open> Whatever the header parser returns, a packet that is classified at all has both
  addresses in one family, carries TCP flags exactly when it is TCP, and has port zero unless
  it is TCP or UDP, so that no later stage reads a port or a flag that the packet lacks.\<close>

theorem parse_packet_wf: "parse ep raw = Parsed p \<Longrightarrow> packet_wf p"
  by (erule parse_ParsedE) (use header_addresses_family transport_fields_wf packet_wf_def in blast)

definition sample_ep :: etherparse where
  "sample_ep = \<lparr>ip_from_slice = (\<lambda>_. Some (Version4 0x0A000001 0x0A000002 0)),
     headers_from_ip_slice = (\<lambda>raw. Some \<lparr>hdr_ip = Some (Version4 0x0A000001 0x0A000002 0),
        hdr_transport = Some (Packet.Udp 53 4000), hdr_payload = raw\<rparr>)\<rparr>"

theorem parse_packet_wf_witness:
  "packet_wf \<lparr>src_ip = V4 0x0A000001, dst_ip = V4 0x0A000002, proto = L4Udp, src_port = 53, dst_port = 4000,
     pkt_tcp_flags = None, payload_len = 2\<rparr>"
  by (rule parse_packet_wf [of sample_ep "[1, 2]"]) (simp add: parse_def check_fragmentation_def sample_ep_def)

end
