(* ===== verification/Text.thy ===== *)
theory Text
  imports ASD_Prelude
begin

text \<open>
  The text operations of Rust's standard library that the components use, on ASCII text:
  \<^verbatim>\<open>trim\<close>, \<^verbatim>\<open>split_once\<close>, \<^verbatim>\<open>split_whitespace\<close>, \<^verbatim>\<open>lines\<close>, \<^verbatim>\<open>strip_prefix\<close>, the unsigned decimal
  \<^verbatim>\<open>from_str\<close> and the decimal printer, with the facts that carry the round trips.
\<close>

section \<open>Splitting\<close>

definition is_space :: "char \<Rightarrow> bool" where
  "is_space c \<longleftrightarrow> c \<in> {CHR '' '', CHR 0x09, CHR 0x0A, CHR 0x0B, CHR 0x0C, CHR 0x0D}"

definition trim :: "string \<Rightarrow> string" where
  "trim s = rev (dropWhile is_space (rev (dropWhile is_space s)))"

definition split_once :: "char \<Rightarrow> string \<Rightarrow> (string \<times> string) option" where
  "split_once c s = (if c \<in> set s
     then Some (takeWhile (\<lambda>x. x \<noteq> c) s, tl (dropWhile (\<lambda>x. x \<noteq> c) s)) else None)"

lemma length_dropWhile_less [termination_simp]: "length (dropWhile P xs) < Suc (length xs)"
  by (simp add: less_Suc_eq_le length_dropWhile_le)

fun split_whitespace :: "string \<Rightarrow> string list" where
  "split_whitespace [] = []"
| "split_whitespace (c # s) =
     (if is_space c then split_whitespace s
      else (c # takeWhile (\<lambda>x. \<not> is_space x) s) # split_whitespace (dropWhile (\<lambda>x. \<not> is_space x) s))"

text \<open>\<^verbatim>\<open>str::lines\<close>: a line ends at a line feed, which with a carriage return before it is not
  part of the line; a final empty line is not reported.\<close>

definition strip_cr :: "string \<Rightarrow> string" where
  "strip_cr s = (if s \<noteq> [] \<and> last s = CHR 0x0D then butlast s else s)"

lemma length_tl_dropWhile_less [termination_simp]:
  "xs \<noteq> [] \<Longrightarrow> length (dropWhile P xs) - Suc 0 < length xs"
  using length_dropWhile_le [of P xs] by (cases xs) (auto simp: less_Suc_eq_le)

fun split_lf :: "string \<Rightarrow> string list" where
  "split_lf s =
     (if s = [] then []
      else if CHR 0x0A \<in> set s
      then strip_cr (takeWhile (\<lambda>x. x \<noteq> CHR 0x0A) s) # split_lf (tl (dropWhile (\<lambda>x. x \<noteq> CHR 0x0A) s))
      else [s])"

declare split_lf.simps [simp del]

definition lower :: "char \<Rightarrow> char" where
  "lower c = (let k = of_char c :: nat in if 65 \<le> k \<and> k \<le> 90 then char_of (k + 32) else c)"

definition upper :: "char \<Rightarrow> char" where
  "upper c = (let k = of_char c :: nat in if 97 \<le> k \<and> k \<le> 122 then char_of (k - 32) else c)"

definition eq_ignore_ascii_case :: "string \<Rightarrow> string \<Rightarrow> bool" where
  "eq_ignore_ascii_case a b \<longleftrightarrow> map lower a = map lower b"

fun join_with :: "string \<Rightarrow> string list \<Rightarrow> string" where
  "join_with sep [] = []"
| "join_with sep [s] = s"
| "join_with sep (s # t # ss) = s @ sep @ join_with sep (t # ss)"

definition strip_prefix :: "string \<Rightarrow> string \<Rightarrow> string option" where
  "strip_prefix p s = (if take (length p) s = p then Some (drop (length p) s) else None)"

lemma strip_prefix_iff: "strip_prefix p s = Some t \<longleftrightarrow> s = p @ t"
  by (auto simp: strip_prefix_def) (metis append_take_drop_id)

lemma dropWhile_none: "\<forall>c \<in> set s. \<not> P c \<Longrightarrow> dropWhile P s = s"
  by (cases s) auto

lemma trim_id: "\<forall>c \<in> set s. \<not> is_space c \<Longrightarrow> trim s = s"
  by (simp add: trim_def dropWhile_none)

lemma dropWhile_hd: "s \<noteq> [] \<Longrightarrow> \<not> P (hd s) \<Longrightarrow> dropWhile P s = s"
  by (cases s) auto

lemma trim_ends: "s \<noteq> [] \<Longrightarrow> \<not> is_space (hd s) \<Longrightarrow> \<not> is_space (last s) \<Longrightarrow> trim s = s"
  by (simp add: trim_def dropWhile_hd hd_rev)

lemma split_once_append: "c \<notin> set xs \<Longrightarrow> split_once c (xs @ c # ys) = Some (xs, ys)"
  by (induction xs) (auto simp: split_once_def)

lemma split_once_none: "c \<notin> set xs \<Longrightarrow> split_once c xs = None"
  by (simp add: split_once_def)

lemma split_lf_Nil [simp]: "split_lf [] = []"
  by (simp add: split_lf.simps)

lemma split_lf_line:
  assumes "CHR 0x0A \<notin> set l" "l \<noteq> []" "last l \<noteq> CHR 0x0D"
  shows "split_lf (l @ CHR 0x0A # s) = l # split_lf s"
proof -
  have "takeWhile (\<lambda>x. x \<noteq> CHR 0x0A) (l @ CHR 0x0A # s) = l"
    "dropWhile (\<lambda>x. x \<noteq> CHR 0x0A) (l @ CHR 0x0A # s) = CHR 0x0A # s"
    using assms(1) by (induction l) auto
  then show ?thesis using assms by (subst split_lf.simps) (simp add: strip_cr_def)
qed

section \<open>Decimal numbers\<close>

text \<open>\<^verbatim>\<open>from_str\<close> of an unsigned type with the given maximum: an optional plus sign, then digits;
  the empty text, any other character and a value above the maximum are errors.\<close>

datatype parse_int_error = Empty | InvalidDigit | PosOverflow

definition digit_value :: "char \<Rightarrow> nat option" where
  "digit_value c = (let k = of_char c :: nat in if 48 \<le> k \<and> k \<le> 57 then Some (k - 48) else None)"

fun parse_digits :: "nat \<Rightarrow> nat \<Rightarrow> string \<Rightarrow> parse_int_error + nat" where
  "parse_digits limit acc [] = Inr acc"
| "parse_digits limit acc (c # cs) =
     (case digit_value c of
        None \<Rightarrow> Inl InvalidDigit
      | Some d \<Rightarrow> if acc * 10 + d > limit then Inl PosOverflow else parse_digits limit (acc * 10 + d) cs)"

definition parse_uint :: "nat \<Rightarrow> string \<Rightarrow> parse_int_error + nat" where
  "parse_uint limit s =
     (case s of
        [] \<Rightarrow> Inl Empty
      | c # cs \<Rightarrow>
          (if c = CHR ''+'' then (if cs = [] then Inl InvalidDigit else parse_digits limit 0 cs)
           else parse_digits limit 0 s))"

lemma parse_digits_bound: "parse_digits limit acc s = Inr n \<Longrightarrow> acc \<le> limit \<Longrightarrow> n \<le> limit"
  by (induction limit acc s rule: parse_digits.induct) (auto split: option.splits if_splits)

fun show_nat :: "nat \<Rightarrow> string" where
  "show_nat n = (if n < 10 then [char_of (48 + n)] else show_nat (n div 10) @ [char_of (48 + n mod 10)])"

declare show_nat.simps [simp del]

lemma digit_value_char: "d < 10 \<Longrightarrow> digit_value (char_of (48 + d)) = Some d"
  by (simp add: digit_value_def Let_def)

lemma show_nat_nonempty [simp]: "show_nat n \<noteq> []"
  by (subst show_nat.simps) simp

lemma show_nat_digits: "c \<in> set (show_nat n) \<Longrightarrow> \<exists>d < (10::nat). c = char_of (48 + d)"
proof (induction n rule: show_nat.induct)
  case (1 n)
  then show ?case
    by (cases "n < 10") (auto simp: show_nat.simps [of n] intro: exI [of _ "n mod 10"])
qed

lemma parse_digits_append:
  "parse_digits limit acc (xs @ ys) =
     (case parse_digits limit acc xs of Inl e \<Rightarrow> Inl e | Inr a \<Rightarrow> parse_digits limit a ys)"
  by (induction limit acc xs rule: parse_digits.induct) (auto split: option.splits)

lemma parse_show_nat: "n \<le> limit \<Longrightarrow> parse_digits limit 0 (show_nat n) = Inr n"
proof (induction n rule: show_nat.induct)
  case (1 n)
  show ?case
  proof (cases "n < 10")
    case True
    then show ?thesis using 1 by (subst show_nat.simps) (simp add: digit_value_char)
  next
    case False
    then have "parse_digits limit 0 (show_nat (n div 10)) = Inr (n div 10)"
      using 1 by (intro "1.IH") auto
    then show ?thesis using False 1
      by (subst show_nat.simps) (simp add: parse_digits_append digit_value_char)
  qed
qed

lemma digit_char_range: "d < (10::nat) \<Longrightarrow> of_char (char_of (48 + d) :: char) = (48 + d :: nat)"
  by simp

lemma digit_char_not:
  assumes "d < (10::nat)"
  shows "char_of (48 + d) \<notin> {CHR ''-'', CHR ''+'', CHR ''*'', CHR ''.'', CHR ''/'', CHR '' '', CHR 0x0A, CHR 0x0D}"
    "\<not> is_space (char_of (48 + d))"
  using digit_char_range [OF assms]
  by (auto simp: is_space_def dest: arg_cong [where f = "of_char :: char \<Rightarrow> nat"])

lemma show_nat_char:
  assumes "c \<in> set (show_nat n)"
  shows "c \<notin> {CHR ''-'', CHR ''+'', CHR ''*'', CHR ''.'', CHR ''/'', CHR '' '', CHR 0x0A, CHR 0x0D}"
    "\<not> is_space c"
  using show_nat_digits [OF assms] digit_char_not by (metis, metis)

lemma show_nat_no_sep: "CHR ''-'' \<notin> set (show_nat n)" "CHR ''+'' \<notin> set (show_nat n)"
  "CHR ''*'' \<notin> set (show_nat n)" "\<forall>c \<in> set (show_nat n). \<not> is_space c"
  "CHR ''.'' \<notin> set (show_nat n)" "CHR ''/'' \<notin> set (show_nat n)" "CHR '' '' \<notin> set (show_nat n)"
  "CHR 0x0A \<notin> set (show_nat n)" "CHR 0x0D \<notin> set (show_nat n)"
  using show_nat_char by blast+

lemma parse_uint_show: "n \<le> limit \<Longrightarrow> parse_uint limit (show_nat n) = Inr n"
proof -
  assume n: "n \<le> limit"
  obtain c cs where s: "show_nat n = c # cs" by (meson show_nat_nonempty neq_Nil_conv)
  then have "c \<noteq> CHR ''+''" using show_nat_no_sep(2) [of n] by auto
  then show ?thesis using parse_show_nat [OF n] s by (simp add: parse_uint_def)
qed

end
