(* ===== verification/Fw_Config.thy ===== *)
theory Fw_Config
  imports Text
begin

text \<open>
  The firewall's configuration (\<^verbatim>\<open>firewall-perimeter/src/config.rs\<close>): its types, the two
  hand-written deserialisers, the defaults and \<^verbatim>\<open>Config::validate\<close>.  CIDR networks are
  the third-party crate \<^verbatim>\<open>ipnet\<close>: the type variable \<open>'net\<close>, with its parser and its
  membership test as arguments.  TOML itself is parsed by the crate \<^verbatim>\<open>toml\<close>.
\<close>

datatype protocol = Tcp | Udp | Icmp | Any
datatype action = Accept | Drop | Reject
datatype direction = Inbound | Outbound | AnyDir

datatype port_range = PortRange (lo: u16) (hi: u16)

fun pr_contains :: "port_range \<Rightarrow> u16 \<Rightarrow> bool" where
  "pr_contains (PortRange a b) port = (port \<ge> a \<and> port \<le> b)"

datatype 'net network_match = Cidr 'net | Alias string

record 'net alias_def =
  alias_name :: string
  alias_cidrs :: "'net list"

record 'net rule =
  rule_name :: string
  rule_protocol :: protocol
  rule_direction :: direction
  rule_src :: "'net network_match"
  rule_dst :: "'net network_match"
  rule_src_port :: port_range
  rule_dst_port :: port_range
  rule_action :: action
  rate_limit_pps :: "u32 option"
  auto_block_secs :: "u64 option"
  auto_block_threshold :: u32
  auto_block_window_secs :: u64
  rule_log :: bool

record conntrack_config =
  tcp_established_timeout_secs :: u64
  tcp_transitory_timeout_secs :: u64
  udp_timeout_secs :: u64
  max_entries :: nat

record 'net config =
  queue_num :: u16
  queue_workers :: u16
  default_policy :: action
  conntrack :: conntrack_config
  rules :: "'net rule list"
  aliases :: "'net alias_def list"
  trusted :: "ipaddr list"
  log_max_per_sec :: u64
  metrics_listen :: "string option"
  metrics_auth_token :: "string option"
  quarantine_max_entries :: nat
  sync_to_os_firewall :: bool

definition conntrack_default :: conntrack_config where
  "conntrack_default = \<lparr>tcp_established_timeout_secs = 3600, tcp_transitory_timeout_secs = 60,
     udp_timeout_secs = 30, max_entries = 250000\<rparr>"

definition default_ports :: port_range where
  "default_ports = PortRange 0 65535"

section \<open>Parsing a port range\<close>

text \<open>\<^verbatim>\<open>u16::from_str\<close>.\<close>

definition parse_u16 :: "string \<Rightarrow> parse_int_error + u16" where
  "parse_u16 s = map_sum id of_nat (parse_uint 65535 s)"

datatype port_error = BadPort parse_int_error | LoAboveHi

definition deserialize_port_range :: "string \<Rightarrow> port_error + port_range" where
  "deserialize_port_range s =
     (if s = ''*'' \<or> s = '''' then Inr (PortRange 0 65535)
      else case split_once (CHR ''-'') s of
        Some (l, h) \<Rightarrow>
          (case parse_u16 (trim l) of
             Inl e \<Rightarrow> Inl (BadPort e)
           | Inr a \<Rightarrow>
               (case parse_u16 (trim h) of
                  Inl e \<Rightarrow> Inl (BadPort e)
                | Inr b \<Rightarrow> if a > b then Inl LoAboveHi else Inr (PortRange a b)))
      | None \<Rightarrow>
          (case parse_u16 (trim s) of
             Inl e \<Rightarrow> Inl (BadPort e)
           | Inr p \<Rightarrow> Inr (PortRange p p)))"

definition deserialize_network_match ::
  "(string \<Rightarrow> 'e + 'net) \<Rightarrow> string \<Rightarrow> 'e + 'net network_match" where
  "deserialize_network_match parse_net s =
     (if take 6 s = ''alias:'' then Inr (Alias (drop 6 s)) else map_sum id Cidr (parse_net s))"

section \<open>Validation\<close>

datatype config_error =
    InvalidPortRange string
  | DuplicateAlias string
  | UndefinedAlias string string string

fun validate_ports :: "'net rule list \<Rightarrow> config_error option" where
  "validate_ports [] = None"
| "validate_ports (r # rs) =
     (if lo (rule_src_port r) > hi (rule_src_port r) \<or> lo (rule_dst_port r) > hi (rule_dst_port r)
      then Some (InvalidPortRange (rule_name r)) else validate_ports rs)"

fun validate_alias_names :: "string set \<Rightarrow> 'net alias_def list \<Rightarrow> config_error option" where
  "validate_alias_names seen [] = None"
| "validate_alias_names seen (a # as) =
     (if alias_name a \<in> seen then Some (DuplicateAlias (alias_name a))
      else validate_alias_names (insert (alias_name a) seen) as)"

fun undefined_alias :: "string set \<Rightarrow> string \<Rightarrow> string \<Rightarrow> 'net network_match \<Rightarrow> config_error option" where
  "undefined_alias names rname field (Cidr _) = None"
| "undefined_alias names rname field (Alias name) =
     (if name \<in> names then None else Some (UndefinedAlias rname field name))"

fun validate_alias_refs :: "string set \<Rightarrow> 'net rule list \<Rightarrow> config_error option" where
  "validate_alias_refs names [] = None"
| "validate_alias_refs names (r # rs) =
     (case undefined_alias names (rule_name r) ''src'' (rule_src r) of
        Some e \<Rightarrow> Some e
      | None \<Rightarrow>
          (case undefined_alias names (rule_name r) ''dst'' (rule_dst r) of
             Some e \<Rightarrow> Some e
           | None \<Rightarrow> validate_alias_refs names rs))"

definition validate :: "'net config \<Rightarrow> config_error option" where
  "validate cfg =
     (case validate_ports (rules cfg) of
        Some e \<Rightarrow> Some e
      | None \<Rightarrow>
          (case validate_alias_names {} (aliases cfg) of
             Some e \<Rightarrow> Some e
           | None \<Rightarrow> validate_alias_refs (alias_name ` set (aliases cfg)) (rules cfg)))"

section \<open>What a validated configuration satisfies\<close>

fun alias_defined :: "string set \<Rightarrow> 'net network_match \<Rightarrow> bool" where
  "alias_defined names (Cidr _) = True"
| "alias_defined names (Alias name) = (name \<in> names)"

definition config_wf :: "'net config \<Rightarrow> bool" where
  "config_wf cfg \<longleftrightarrow>
     (\<forall>r \<in> set (rules cfg). lo (rule_src_port r) \<le> hi (rule_src_port r)
        \<and> lo (rule_dst_port r) \<le> hi (rule_dst_port r))
   \<and> distinct (map alias_name (aliases cfg))
   \<and> (\<forall>r \<in> set (rules cfg). alias_defined (alias_name ` set (aliases cfg)) (rule_src r)
        \<and> alias_defined (alias_name ` set (aliases cfg)) (rule_dst r))"

lemma validate_ports_None: "validate_ports rs = None \<longleftrightarrow>
  (\<forall>r \<in> set rs. lo (rule_src_port r) \<le> hi (rule_src_port r)
     \<and> lo (rule_dst_port r) \<le> hi (rule_dst_port r))"
  by (induction rs) (auto simp: not_less)

lemma validate_alias_names_None: "validate_alias_names seen as = None \<longleftrightarrow>
  distinct (map alias_name as) \<and> alias_name ` set as \<inter> seen = {}"
  by (induction "as" arbitrary: seen) auto

lemma undefined_alias_None: "undefined_alias names n f m = None \<longleftrightarrow> alias_defined names m"
  by (cases m) auto

lemma validate_alias_refs_None: "validate_alias_refs names rs = None \<longleftrightarrow>
  (\<forall>r \<in> set rs. alias_defined names (rule_src r) \<and> alias_defined names (rule_dst r))"
  by (induction rs) (auto simp: undefined_alias_None)

text \<open> Validation accepts a configuration exactly when it is well formed: every port range
  is ordered, alias names are unique, and every alias a rule refers to is defined.\<close>

theorem validate_iff_wf: "validate cfg = None \<longleftrightarrow> config_wf cfg"
  by (simp add: validate_def config_wf_def validate_ports_None validate_alias_names_None
      validate_alias_refs_None)



section \<open>What a parsed port range satisfies\<close>

lemma deserialize_port_range_ordered:
  "deserialize_port_range s = Inr (PortRange a b) \<Longrightarrow> a \<le> b"
  by (auto simp: deserialize_port_range_def not_less split: if_splits option.splits sum.splits prod.splits)

lemma parse_u16_show: "parse_u16 (show_nat (unat p)) = Inr p"
  using unsigned_less [of p, where ?'a = nat] by (simp add: parse_u16_def parse_uint_show)

definition show_port_range :: "port_range \<Rightarrow> string" where
  "show_port_range r = (if lo r = hi r then show_nat (unat (lo r))
     else show_nat (unat (lo r)) @ ''-'' @ show_nat (unat (hi r)))"

text \<open> A port range written the way the configuration writes it, a single port or two
  ports with a dash, is read back as the same range.\<close>

theorem port_range_roundtrip:
  assumes "a \<le> b"
  shows "deserialize_port_range (show_port_range (PortRange a b)) = Inr (PortRange a b)"
proof (cases "a = b")
  case True
  have "show_nat (unat b) \<noteq> ''*''" using show_nat_no_sep(3) [of "unat b"] by auto
  then show ?thesis using True
    by (simp add: show_port_range_def deserialize_port_range_def split_once_none show_nat_no_sep
        trim_id parse_u16_show)
next
  case False
  let ?s = "show_nat (unat a) @ ''-'' @ show_nat (unat b)"
  have "?s \<noteq> ''*''" "?s \<noteq> ''''" using show_nat_no_sep(3) [of "unat a"]
    by (auto simp: append_eq_Cons_conv)
  moreover have "split_once (CHR ''-'') ?s = Some (show_nat (unat a), show_nat (unat b))"
    using split_once_append [of "CHR ''-''" "show_nat (unat a)"] show_nat_no_sep by simp
  ultimately show ?thesis using False assms
    by (simp add: show_port_range_def deserialize_port_range_def show_nat_no_sep trim_id
        parse_u16_show del: append_Cons)
qed

theorem port_range_roundtrip_witness:
  "deserialize_port_range (show_port_range (PortRange 80 443)) = Inr (PortRange 80 443)"
  by (rule port_range_roundtrip) simp

end
