(* ===== verification/Floats.thy ===== *)
theory Floats
  imports Complex_Main "HOL-Library.Log_Nat"
begin

text \<open>
  IEEE-754 binary floating point as Rust's \<^verbatim>\<open>f64\<close> and \<^verbatim>\<open>f32\<close> use it, over the rational
  numbers: a value is NaN, an infinity or a finite rational, every arithmetic result is
  rounded to nearest with ties to even at the precision of the format (gradual underflow
  included), a result beyond the largest finite number is an infinity, and every ordered
  comparison with NaN is false.  The sign of zero is not kept: no comparison and no
  operation modelled here depends on it.
  Rounding is shown monotone and exact on dyadic fractions of at most \<open>p\<close> bits.
\<close>

section \<open>Rounding\<close>

definition ilog2 :: "rat \<Rightarrow> int" where
  "ilog2 x = (let (n, d) = quotient_of x; k = bitlen n - bitlen d
     in if 2 powi k \<le> x then k else k - 1)"

definition round_even :: "rat \<Rightarrow> int" where
  "round_even x = (let f = floor x; r = x - of_int f
     in if r < 1/2 then f else if 1/2 < r then f + 1 else if even f then f else f + 1)"

definition ulp_exp :: "int \<Rightarrow> int \<Rightarrow> rat \<Rightarrow> int" where
  "ulp_exp p emin x = max (ilog2 x - (p - 1)) emin"

definition rnd :: "int \<Rightarrow> int \<Rightarrow> rat \<Rightarrow> rat" where
  "rnd p emin x = (if x = 0 then 0
     else let e = ulp_exp p emin \<bar>x\<bar> in of_int (round_even (x / 2 powi e)) * 2 powi e)"

lemma two_powi_pos [simp]: "0 < (2::rat) powi k"
  by simp

lemma two_powi_le_iff [simp]: "(2::rat) powi a \<le> 2 powi b \<longleftrightarrow> a \<le> b"
proof (cases "a \<le> b")
  case True
  then show ?thesis by (simp add: power_int_increasing)
next
  case False
  then have "(2::rat) powi b < 2 powi a" by (intro power_int_strict_increasing) auto
  with False show ?thesis by simp
qed

lemma two_powi_less_iff: "(2::rat) powi a < 2 powi b \<longleftrightarrow> a < b"
  by (meson linorder_not_le two_powi_le_iff)

lemma two_powi_add: "(2::rat) powi (a + b) = 2 powi a * 2 powi b"
  by (simp add: power_int_add)

lemma two_powi_diff: "(2::rat) powi (a - b) = 2 powi a / 2 powi b"
  by (simp add: power_int_diff)

lemma bitlen_powi_bounds:
  assumes "0 < n"
  shows "(2::rat) powi (bitlen n - 1) \<le> of_int n" "of_int n < (2::rat) powi (bitlen n)"
proof -
  from assms have b: "2 ^ nat (bitlen n - 1) \<le> n" "n < 2 ^ nat (bitlen n)"
    using bitlen_bounds [of n] by auto
  have pos: "0 \<le> bitlen n - 1"
    using assms bitlen_nonneg [of n] bitlen_eq_zero_iff [of n] by linarith
  have "(of_int (2 ^ nat (bitlen n - 1)) :: rat) \<le> of_int n"
    using b(1) by (simp only: of_int_le_iff)
  with pos show "(2::rat) powi (bitlen n - 1) \<le> of_int n"
    by (simp add: power_int_def)
  have "(of_int n :: rat) < of_int (2 ^ nat (bitlen n))"
    using b(2) by (simp only: of_int_less_iff)
  with bitlen_nonneg [of n] show "of_int n < (2::rat) powi (bitlen n)"
    by (simp add: power_int_def)
qed

lemma ilog2_bounds:
  assumes "0 < x"
  shows "2 powi (ilog2 x) \<le> x" "x < 2 powi (ilog2 x + 1)"
proof -
  obtain n d where q: "quotient_of x = (n, d)" by (cases "quotient_of x")
  have d: "0 < d" using q by (rule quotient_of_denom_pos)
  have x: "x = of_int n / of_int d" using q by (rule quotient_of_div)
  have n: "0 < n" using assms x d by (simp add: zero_less_divide_iff)
  define k where "k = bitlen n - bitlen d"
  note bn = bitlen_powi_bounds [OF n] and bd = bitlen_powi_bounds [OF d]
  have dpos: "(0::rat) < of_int d" using d by simp
  have up: "x < 2 powi (k + 1)"
  proof -
    have "(2::rat) powi (k + 1) * 2 powi (bitlen d - 1) = 2 powi (bitlen n)"
      by (simp add: k_def flip: two_powi_add)
    moreover have "(2::rat) powi (k + 1) * 2 powi (bitlen d - 1) \<le> 2 powi (k + 1) * of_int d"
      using bd(1) by (intro mult_left_mono) auto
    ultimately have "of_int n < (2::rat) powi (k + 1) * of_int d" using bn(2) by linarith
    then show ?thesis using dpos by (simp add: x divide_less_eq)
  qed
  have low: "2 powi (k - 1) \<le> x"
  proof -
    have "(2::rat) powi (k - 1) * 2 powi (bitlen d) = 2 powi (bitlen n - 1)"
      by (simp add: k_def flip: two_powi_add)
    moreover have "(2::rat) powi (k - 1) * of_int d \<le> 2 powi (k - 1) * 2 powi (bitlen d)"
      using bd(2) by (intro mult_left_mono) auto
    ultimately have "(2::rat) powi (k - 1) * of_int d \<le> of_int n" using bn(1) by linarith
    then show ?thesis using dpos by (simp add: x le_divide_eq)
  qed
  have "ilog2 x = (if 2 powi k \<le> x then k else k - 1)"
    by (simp add: ilog2_def q k_def)
  then show "2 powi (ilog2 x) \<le> x" "x < 2 powi (ilog2 x + 1)"
    using up low by (auto split: if_splits)
qed

lemma ilog2_unique:
  assumes "2 powi k \<le> x" "x < 2 powi (k + 1)"
  shows "ilog2 x = k"
proof -
  have "0 < x" using assms(1) two_powi_pos [of k] by linarith
  note b = ilog2_bounds [OF this]
  have "k < ilog2 x + 1" using assms(1) b(2) two_powi_less_iff by (metis order.strict_trans1)
  moreover have "ilog2 x < k + 1" using assms(2) b(1) two_powi_less_iff by (metis order.strict_trans1)
  ultimately show ?thesis by linarith
qed

lemma ilog2_mono: "0 < x \<Longrightarrow> x \<le> y \<Longrightarrow> ilog2 x \<le> ilog2 y"
proof -
  assume "0 < x" "x \<le> y"
  then have "(2::rat) powi ilog2 x < 2 powi (ilog2 y + 1)"
    using ilog2_bounds(1) [of x] ilog2_bounds(2) [of y] by linarith
  then show ?thesis by (simp add: two_powi_less_iff)
qed

lemma round_even_int [simp]: "round_even (of_int n) = n"
  by (simp add: round_even_def Let_def)

lemma round_even_mono: "x \<le> y \<Longrightarrow> round_even x \<le> round_even y"
proof -
  assume le: "x \<le> y"
  then have fl: "floor x \<le> floor y" by (rule floor_mono)
  show ?thesis
  proof (cases "floor x = floor y")
    case True
    with le show ?thesis by (auto simp: round_even_def Let_def)
  next
    case False
    with fl have "floor x + 1 \<le> floor y" by linarith
    moreover have "round_even x \<le> floor x + 1" by (auto simp: round_even_def Let_def)
    moreover have "floor y \<le> round_even y" by (auto simp: round_even_def Let_def)
    ultimately show ?thesis by linarith
  qed
qed

lemma round_even_nonneg: "0 \<le> x \<Longrightarrow> 0 \<le> round_even x"
  using round_even_mono [of 0 x] round_even_int [of 0] by simp

lemma floor_minus_cases: "floor (- x) = (if x = of_int (floor x) then - floor x else - floor x - 1)"
  for x :: rat
proof (cases "x = of_int (floor x)")
  case True
  then have "- x = of_int (- floor x)" by simp
  then have "floor (- x) = - floor x" by (metis floor_of_int)
  with True show ?thesis by simp
next
  case False
  with floor_correct [of x] have "of_int (- floor x - 1) \<le> - x" "- x < of_int (- floor x - 1) + 1"
    by (auto simp: le_less)
  then have "floor (- x) = - floor x - 1" by (rule floor_unique)
  with False show ?thesis by simp
qed

lemma round_even_minus: "round_even (- x) = - round_even x"
proof (cases "x = of_int (floor x)")
  case True
  then obtain n where x: "x = of_int n" by blast
  have "round_even (of_int (- n)) = - n" by (rule round_even_int)
  then show ?thesis by (simp add: x)
next
  case False
  then have f: "floor (- x) = - floor x - 1" by (simp add: floor_minus_cases)
  show ?thesis by (auto simp: round_even_def Let_def f)
qed

lemma rnd_zero [simp]: "rnd p emin 0 = 0"
  by (simp add: rnd_def)

lemma rnd_minus: "rnd p emin (- x) = - rnd p emin x"
  by (simp add: rnd_def Let_def round_even_minus minus_divide_left [symmetric])

lemma rnd_nonneg: "0 \<le> x \<Longrightarrow> 0 \<le> rnd p emin x"
  by (auto simp: rnd_def Let_def intro!: mult_nonneg_nonneg round_even_nonneg divide_nonneg_pos)

lemma rnd_pos_eq: "0 < x \<Longrightarrow> rnd p emin x =
  of_int (round_even (x / 2 powi ulp_exp p emin x)) * 2 powi ulp_exp p emin x"
  by (simp add: rnd_def Let_def)

lemma rnd_le_pow:
  assumes "0 < x" "1 \<le> p"
  shows "rnd p emin x \<le> 2 powi (ulp_exp p emin x + p)"
proof -
  define e where "e = ulp_exp p emin x"
  have "x < 2 powi (ilog2 x + 1)" using ilog2_bounds [OF assms(1)] by simp
  also have "\<dots> \<le> 2 powi (e + p)" by (simp add: e_def ulp_exp_def)
  finally have "x \<le> 2 powi e * 2 powi p" by (simp add: two_powi_add)
  then have "x / 2 powi e \<le> 2 powi p" by (simp add: divide_le_eq mult.commute)
  also have "\<dots> = of_int (2 ^ nat p)" using assms(2) by (simp add: power_int_def)
  finally have "round_even (x / 2 powi e) \<le> 2 ^ nat p"
    using round_even_mono round_even_int by metis
  then have "(of_int (round_even (x / 2 powi e)) :: rat) \<le> of_int (2 ^ nat p)"
    by (simp only: of_int_le_iff)
  also have "\<dots> = 2 powi p" using assms(2) by (simp add: power_int_def)
  finally show ?thesis using assms(1)
    by (simp add: rnd_pos_eq e_def [symmetric] two_powi_add mult.commute)
qed

lemma rnd_ge_pow:
  assumes "0 < x" "1 \<le> p" "emin < ulp_exp p emin x"
  shows "2 powi (ulp_exp p emin x + p - 1) \<le> rnd p emin x"
proof -
  define e where "e = ulp_exp p emin x"
  have e: "e + p - 1 = ilog2 x" using assms(3) by (auto simp: e_def ulp_exp_def max_def split: if_splits)
  have "2 powi (e + (p - 1)) \<le> x" using ilog2_bounds(1) [OF assms(1)] e by (simp add: algebra_simps)
  then have "2 powi (p - 1) \<le> x / 2 powi e" by (simp add: le_divide_eq two_powi_add mult.commute)
  moreover have "(2::rat) powi (p - 1) = of_int (2 ^ nat (p - 1))"
    using assms(2) by (simp add: power_int_def)
  ultimately have "2 ^ nat (p - 1) \<le> round_even (x / 2 powi e)"
    using round_even_mono round_even_int by metis
  then have "(of_int (2 ^ nat (p - 1)) :: rat) \<le> of_int (round_even (x / 2 powi e))"
    by (simp only: of_int_le_iff)
  then have "(2::rat) powi (p - 1) \<le> of_int (round_even (x / 2 powi e))"
    using assms(2) by (simp add: power_int_def)
  then have "(2::rat) powi (p - 1) * 2 powi e \<le> rnd p emin x"
    using assms(1) by (simp add: rnd_pos_eq e_def [symmetric])
  then show ?thesis
    by (simp add: e_def [symmetric] algebra_simps flip: two_powi_add)
qed

lemma rnd_mono_pos:
  assumes "0 < x" "x \<le> y" "1 \<le> p"
  shows "rnd p emin x \<le> rnd p emin y"
proof -
  let ?ex = "ulp_exp p emin x" and ?ey = "ulp_exp p emin y"
  have y: "0 < y" using assms by linarith
  have le: "?ex \<le> ?ey" using ilog2_mono [OF assms(1,2)] by (auto simp: ulp_exp_def)
  show ?thesis
  proof (cases "?ex = ?ey")
    case True
    have "round_even (x / 2 powi ?ey) \<le> round_even (y / 2 powi ?ey)"
      using assms(2) by (intro round_even_mono divide_right_mono) auto
    then show ?thesis
      using True assms(1) y by (simp add: rnd_pos_eq)
  next
    case False
    with le have lt: "?ex < ?ey" by simp
    then have "emin < ?ey" by (auto simp: ulp_exp_def)
    then have "2 powi (?ey + p - 1) \<le> rnd p emin y" using y assms(3) by (intro rnd_ge_pow)
    moreover have "rnd p emin x \<le> 2 powi (?ex + p)" using assms(1,3) by (rule rnd_le_pow)
    moreover have "(2::rat) powi (?ex + p) \<le> 2 powi (?ey + p - 1)" using lt by simp
    ultimately show ?thesis by linarith
  qed
qed

theorem rnd_mono:
  assumes "x \<le> y" "1 \<le> p"
  shows "rnd p emin x \<le> rnd p emin y"
proof -
  consider "0 < x" | "x \<le> 0" "0 \<le> y" | "y < 0" by linarith
  then show ?thesis
  proof cases
    case 1 with assms show ?thesis by (intro rnd_mono_pos)
  next
    case 2
    have "rnd p emin x \<le> 0"
      using rnd_nonneg [of "- x" p emin] 2 by (simp add: rnd_minus)
    moreover have "0 \<le> rnd p emin y" using 2 by (intro rnd_nonneg)
    ultimately show ?thesis by linarith
  next
    case 3
    then have "rnd p emin (- y) \<le> rnd p emin (- x)" using assms by (intro rnd_mono_pos) auto
    then show ?thesis by (simp add: rnd_minus)
  qed
qed

theorem rnd_dyadic_exact:
  assumes "\<bar>n\<bar> < 2 ^ nat p" "1 \<le> p" "emin \<le> - int k"
  shows "rnd p emin (of_int n / 2 ^ k) = of_int n / 2 ^ k"
proof -
  have pos: "rnd p emin (of_int m / 2 ^ k) = of_int m / 2 ^ k" if m: "0 < m" "m < 2 ^ nat p" for m
  proof -
    let ?x = "of_int m / 2 ^ k :: rat"
    define e where "e = ulp_exp p emin ?x"
    have x: "0 < ?x" using m by simp
    have "(of_int m :: rat) < of_int (2 ^ nat p)" using m(2) by (simp only: of_int_less_iff)
    then have "(of_int m :: rat) < 2 powi p" using assms(2) by (simp add: power_int_def)
    then have "?x < 2 powi (p - int k)" unfolding two_powi_diff by (simp add: divide_strict_right_mono)
    moreover have "2 powi (ilog2 ?x) \<le> ?x" using ilog2_bounds(1) [OF x] .
    ultimately have "ilog2 ?x < p - int k" using two_powi_less_iff by (metis order.strict_trans1)
    then have e0: "e \<le> - int k" using assms(3) by (simp add: e_def ulp_exp_def)
    have "(2::rat) powi (- int k) = 2 powi e * 2 powi (- int k - e)" by (simp flip: two_powi_add)
    also have "(2::rat) powi (- int k - e) = of_int (2 ^ nat (- int k - e))" using e0 by (simp add: power_int_def)
    finally have "?x = of_int (m * 2 ^ nat (- int k - e)) * 2 powi e"
      by (simp add: power_int_minus divide_inverse mult_ac)
    then have q: "?x / 2 powi e = of_int (m * 2 ^ nat (- int k - e))" by simp
    have "of_int (round_even (?x / 2 powi e)) = ?x / 2 powi e" unfolding q round_even_int by (rule refl)
    then show ?thesis using x by (simp add: rnd_pos_eq e_def [symmetric])
  qed
  consider "n = 0" | "0 < n" | "n < 0" by linarith
  then show ?thesis
  proof cases
    case 1 then show ?thesis by simp
  next
    case 2 with assms(1) show ?thesis by (intro pos) auto
  next
    case 3
    then have "rnd p emin (of_int (- n) / 2 ^ k) = of_int (- n) / 2 ^ k" using assms(1) by (intro pos) auto
    then show ?thesis using rnd_minus [of p emin "of_int n / 2 ^ k"] by simp
  qed
qed

lemma rnd_int_exact:
  assumes "\<bar>n\<bar> < 2 ^ nat p" "1 \<le> p" "emin \<le> 0"
  shows "rnd p emin (of_int n) = of_int n"
  using rnd_dyadic_exact [of n p emin 0] assms by simp

section \<open>Values and operations\<close>

datatype flt = NaN | Inf bool \<comment> \<open>true for the negative one\<close> | Fin rat

type_synonym f64 = flt
type_synonym f32 = flt

definition mk_flt :: "int \<Rightarrow> int \<Rightarrow> int \<Rightarrow> rat \<Rightarrow> flt" where
  "mk_flt p emin emax x = (let r = rnd p emin x
     in if 2 powi emax \<le> \<bar>r\<bar> then Inf (r < 0) else Fin r)"

definition mk_f64 :: "rat \<Rightarrow> f64" where
  "mk_f64 = mk_flt 53 (- 1074) 1024"

definition mk_f32 :: "rat \<Rightarrow> f32" where
  "mk_f32 = mk_flt 24 (- 149) 128"

text \<open>The ordered comparisons; every one is false when an operand is NaN.\<close>

fun flt_le :: "flt \<Rightarrow> flt \<Rightarrow> bool" where
  "flt_le NaN _ = False"
| "flt_le _ NaN = False"
| "flt_le (Inf s) y = (s \<or> y = Inf False)"
| "flt_le (Fin a) (Inf s) = (\<not> s)"
| "flt_le (Fin a) (Fin b) = (a \<le> b)"

fun flt_lt :: "flt \<Rightarrow> flt \<Rightarrow> bool" where
  "flt_lt NaN _ = False"
| "flt_lt _ NaN = False"
| "flt_lt (Inf s) y = (s \<and> y \<noteq> Inf True)"
| "flt_lt (Fin a) (Inf s) = (\<not> s)"
| "flt_lt (Fin a) (Fin b) = (a < b)"

abbreviation flt_ge :: "flt \<Rightarrow> flt \<Rightarrow> bool" where
  "flt_ge x y \<equiv> flt_le y x"

text \<open>Arithmetic in the format given by its rounding \<open>mk\<close>.\<close>

fun flt_add :: "(rat \<Rightarrow> flt) \<Rightarrow> flt \<Rightarrow> flt \<Rightarrow> flt" where
  "flt_add mk NaN _ = NaN"
| "flt_add mk _ NaN = NaN"
| "flt_add mk (Inf s) (Inf t) = (if s = t then Inf s else NaN)"
| "flt_add mk (Inf s) (Fin _) = Inf s"
| "flt_add mk (Fin _) (Inf t) = Inf t"
| "flt_add mk (Fin a) (Fin b) = mk (a + b)"

fun flt_neg :: "flt \<Rightarrow> flt" where
  "flt_neg NaN = NaN"
| "flt_neg (Inf s) = Inf (\<not> s)"
| "flt_neg (Fin a) = Fin (- a)"

definition flt_sub :: "(rat \<Rightarrow> flt) \<Rightarrow> flt \<Rightarrow> flt \<Rightarrow> flt" where
  "flt_sub mk x y = flt_add mk x (flt_neg y)"

fun flt_mul :: "(rat \<Rightarrow> flt) \<Rightarrow> flt \<Rightarrow> flt \<Rightarrow> flt" where
  "flt_mul mk NaN _ = NaN"
| "flt_mul mk _ NaN = NaN"
| "flt_mul mk (Inf s) (Inf t) = Inf (s \<noteq> t)"
| "flt_mul mk (Inf s) (Fin b) = (if b = 0 then NaN else Inf (s \<noteq> (b < 0)))"
| "flt_mul mk (Fin a) (Inf t) = (if a = 0 then NaN else Inf ((a < 0) \<noteq> t))"
| "flt_mul mk (Fin a) (Fin b) = mk (a * b)"

text \<open>Division; the code divides by positive finite numbers only, so the sign of a zero
  divisor, which the model does not keep, never decides a result.\<close>

fun flt_div :: "(rat \<Rightarrow> flt) \<Rightarrow> flt \<Rightarrow> flt \<Rightarrow> flt" where
  "flt_div mk NaN _ = NaN"
| "flt_div mk _ NaN = NaN"
| "flt_div mk (Inf s) (Inf t) = NaN"
| "flt_div mk (Inf s) (Fin b) = Inf (s \<noteq> (b < 0))"
| "flt_div mk (Fin a) (Inf t) = Fin 0"
| "flt_div mk (Fin a) (Fin b) = (if b = 0 then (if a = 0 then NaN else Inf (a < 0)) else mk (a / b))"

text \<open>\<^verbatim>\<open>f64::min\<close> and \<^verbatim>\<open>f64::max\<close> ignore a NaN operand; \<^verbatim>\<open>f64::clamp\<close> keeps a NaN.\<close>

definition flt_min :: "flt \<Rightarrow> flt \<Rightarrow> flt" where
  "flt_min x y = (if x = NaN then y else if y = NaN then x else if flt_le x y then x else y)"

definition flt_max :: "flt \<Rightarrow> flt \<Rightarrow> flt" where
  "flt_max x y = (if x = NaN then y else if y = NaN then x else if flt_le x y then y else x)"

definition flt_clamp :: "flt \<Rightarrow> flt \<Rightarrow> flt \<Rightarrow> flt" where
  "flt_clamp x lo hi = (if flt_lt x lo then lo else if flt_lt hi x then hi else x)"

text \<open>\<^verbatim>\<open>x as f32\<close> rounds; \<^verbatim>\<open>x as f64\<close> of an \<^verbatim>\<open>f32\<close> is exact, so it is the identity here.\<close>

fun f64_to_f32 :: "f64 \<Rightarrow> f32" where
  "f64_to_f32 NaN = NaN"
| "f64_to_f32 (Inf s) = Inf s"
| "f64_to_f32 (Fin a) = mk_f32 a"

abbreviation (input) f64_add :: "f64 \<Rightarrow> f64 \<Rightarrow> f64" where "f64_add \<equiv> flt_add mk_f64"
abbreviation (input) f64_sub :: "f64 \<Rightarrow> f64 \<Rightarrow> f64" where "f64_sub \<equiv> flt_sub mk_f64"
abbreviation (input) f64_mul :: "f64 \<Rightarrow> f64 \<Rightarrow> f64" where "f64_mul \<equiv> flt_mul mk_f64"
abbreviation (input) f64_div :: "f64 \<Rightarrow> f64 \<Rightarrow> f64" where "f64_div \<equiv> flt_div mk_f64"
abbreviation (input) f32_add :: "f32 \<Rightarrow> f32 \<Rightarrow> f32" where "f32_add \<equiv> flt_add mk_f32"
abbreviation (input) f32_div :: "f32 \<Rightarrow> f32 \<Rightarrow> f32" where "f32_div \<equiv> flt_div mk_f32"

text \<open>\<^verbatim>\<open>n as f64\<close> for an unsigned integer, and \<^verbatim>\<open>Duration::as_secs_f64\<close>:
  the whole seconds plus the nanoseconds divided by ten to the ninth, each rounded.\<close>

definition f64_of_nat :: "nat \<Rightarrow> f64" where
  "f64_of_nat n = mk_f64 (of_nat n)"

definition f32_of_nat :: "nat \<Rightarrow> f32" where
  "f32_of_nat n = mk_f32 (of_nat n)"

definition as_secs_f64 :: "nat \<Rightarrow> f64" where
  "as_secs_f64 ns = f64_add (f64_of_nat (ns div 1000000000))
     (f64_div (f64_of_nat (ns mod 1000000000)) (f64_of_nat 1000000000))"

lemma flt_lt_NaN [simp]: "\<not> flt_lt x NaN" "\<not> flt_lt NaN x" "\<not> flt_le x NaN" "\<not> flt_le NaN x"
  by (cases x; simp)+

lemma flt_lt_not_le: "x \<noteq> NaN \<Longrightarrow> y \<noteq> NaN \<Longrightarrow> flt_lt x y \<longleftrightarrow> \<not> flt_le y x"
  by (cases x; cases y) auto

lemma mk_f64_nat_exact:
  assumes "n < 2 ^ 53"
  shows "mk_f64 (of_nat n) = Fin (of_nat n)"
proof -
  have "int n < 2 ^ 53" using assms by (simp add: zless_nat_eq_int_zless [symmetric])
  then have r: "rnd 53 (- 1074) (of_int (int n)) = of_int (int n)"
    by (intro rnd_int_exact) auto
  have "(of_nat n :: rat) < of_nat (2 ^ 53)" using assms by (simp only: of_nat_less_iff)
  then have "(of_nat n :: rat) < 2 powi 1024" by simp
  with r show ?thesis by (simp add: mk_f64_def mk_flt_def Let_def)
qed

lemma f64_of_nat_exact [simp]: "n < 2 ^ 53 \<Longrightarrow> f64_of_nat n = Fin (of_nat n)"
  by (simp add: f64_of_nat_def mk_f64_nat_exact)

fun flt_nonneg :: "flt \<Rightarrow> bool" where
  "flt_nonneg NaN = False"
| "flt_nonneg (Inf s) = (\<not> s)"
| "flt_nonneg (Fin y) = (0 \<le> y)"

lemma mk_f64_nonneg: "0 \<le> x \<Longrightarrow> flt_nonneg (mk_f64 x)"
  using rnd_nonneg [of x 53 "- 1074"] by (auto simp: mk_f64_def mk_flt_def Let_def)

lemma f64_of_nat_nonneg: "flt_nonneg (f64_of_nat n)"
  unfolding f64_of_nat_def by (rule mk_f64_nonneg) simp

lemma nonneg_add: "flt_nonneg x \<Longrightarrow> flt_nonneg z \<Longrightarrow> flt_nonneg (f64_add x z)"
  by (cases x; cases z) (simp_all add: mk_f64_nonneg)

lemma nonneg_mul_pos: "flt_nonneg x \<Longrightarrow> 0 < b \<Longrightarrow> flt_nonneg (f64_mul x (Fin b))"
  by (cases x) (simp_all add: mk_f64_nonneg)

lemma nonneg_min_Fin:
  "flt_nonneg t \<Longrightarrow> 0 \<le> b \<Longrightarrow> \<exists>x. flt_min t (Fin b) = Fin x \<and> 0 \<le> x \<and> x \<le> b"
  by (cases t) (simp_all add: flt_min_def)

lemma as_secs_f64_nonneg: "flt_nonneg (as_secs_f64 d)"
proof -
  have s: "d mod 1000000000 < 2 ^ 53" by (rule less_trans [of _ 1000000000]) auto
  have "f64_div (f64_of_nat (d mod 1000000000)) (f64_of_nat 1000000000)
    = mk_f64 (of_nat (d mod 1000000000) / 1000000000)"
    using s by simp
  moreover have "flt_nonneg (mk_f64 (of_nat (d mod 1000000000) / 1000000000))"
    by (rule mk_f64_nonneg) simp
  ultimately show ?thesis
    unfolding as_secs_f64_def by (intro nonneg_add f64_of_nat_nonneg) simp
qed

lemma as_secs_f64_0 [simp]: "as_secs_f64 0 = Fin 0"
  using mk_f64_nat_exact [of 0] by (simp add: as_secs_f64_def)

text \<open>Rounding keeps an upper bound that is an exact integer.\<close>

lemma mk_f64_le_nat:
  assumes "0 \<le> x" "x \<le> of_nat n" "n < 2 ^ 53"
  shows "\<exists>y. mk_f64 x = Fin y \<and> 0 \<le> y \<and> y \<le> of_nat n"
proof -
  have "int n < 2 ^ 53" using assms(3) by (simp add: zless_nat_eq_int_zless [symmetric])
  then have "rnd 53 (- 1074) (of_int (int n)) = of_int (int n)" by (intro rnd_int_exact) auto
  then have le: "rnd 53 (- 1074) x \<le> of_nat n"
    using rnd_mono [of x "of_nat n" 53 "- 1074"] assms(2) by simp
  have "(of_nat n :: rat) < of_nat (2 ^ 53)" using assms(3) by (simp only: of_nat_less_iff)
  then have "(of_nat n :: rat) < 2 powi 1024" by simp
  moreover have "0 \<le> rnd 53 (- 1074) x" using assms(1) by (rule rnd_nonneg)
  ultimately show ?thesis using le by (auto simp: mk_f64_def mk_flt_def Let_def)
qed

end
