(* ===== verification/Rate_Limit.thy ===== *)
theory Rate_Limit
  imports ASD_Prelude Floats
begin

text \<open>
  The token buckets of \<^verbatim>\<open>firewall-perimeter/src/rate_limit.rs\<close>: one bucket per source
  address and rule, refilled in proportion to the elapsed time, with the \<^verbatim>\<open>f64\<close>
  arithmetic of the code.  \<^verbatim>\<open>entry\<close> holds the bucket's lock for the whole of \<^verbatim>\<open>allow\<close>, so
  each call is one step.
\<close>

record bucket =
  tokens :: f64
  last_refill :: instant

type_synonym rate_limiter = "(ipaddr \<times> u32, bucket) tbl"

definition rl_new :: rate_limiter where
  "rl_new = []"

definition burst_of :: "u32 \<Rightarrow> f64" where
  "burst_of rate_pps = flt_max (f64_of_nat (unat rate_pps)) (Fin 1)"

definition refill :: "bucket \<Rightarrow> instant \<Rightarrow> u32 \<Rightarrow> f64" where
  "refill b now rate_pps =
     (let elapsed = as_secs_f64 (duration_since now (last_refill b))
      in flt_min (f64_add (tokens b) (f64_mul elapsed (f64_of_nat (unat rate_pps))))
           (burst_of rate_pps))"

definition allow :: "rate_limiter \<Rightarrow> instant \<Rightarrow> ipaddr \<Rightarrow> u32 \<Rightarrow> u32 \<Rightarrow> bool \<times> rate_limiter" where
  "allow rl now src rule_id rate_pps =
     (if rate_pps = 0 then (True, rl)
      else
        let b = tbl_get_or rl (src, rule_id) \<lparr>tokens = burst_of rate_pps, last_refill = now\<rparr>;
            t = refill b now rate_pps
        in if flt_ge t (Fin 1)
           then (True, tbl_insert rl (src, rule_id) \<lparr>tokens = f64_sub t (Fin 1), last_refill = now\<rparr>)
           else (False, tbl_insert rl (src, rule_id) \<lparr>tokens = t, last_refill = now\<rparr>))"

definition rl_sweep :: "rate_limiter \<Rightarrow> instant \<Rightarrow> duration \<Rightarrow> rate_limiter" where
  "rl_sweep rl now max_idle = tbl_retain (\<lambda>_ b. duration_since now (last_refill b) < max_idle) rl"

section \<open>The buckets stay finite and within the burst\<close>

definition bucket_ok :: "bucket \<Rightarrow> bool" where
  "bucket_ok b \<longleftrightarrow> (\<exists>x. tokens b = Fin x \<and> 0 \<le> x)"

definition rl_inv :: "rate_limiter \<Rightarrow> bool" where
  "rl_inv rl \<longleftrightarrow> tbl_ok rl \<and> (\<forall>p \<in> set rl. bucket_ok (snd p))"

lemma rl_inv_get: "rl_inv rl \<Longrightarrow> tbl_get rl k = Some b \<Longrightarrow> bucket_ok b"
  by (drule tbl_get_mem) (auto simp: rl_inv_def)

lemma rl_invI:
  assumes "tbl_ok rl" "\<And>k b. tbl_get rl k = Some b \<Longrightarrow> bucket_ok b"
  shows "rl_inv rl"
  using assms by (fastforce simp: rl_inv_def dest: tbl_mem_get)

declare of_nat_unat [simp del]

lemma u32_lt_53: "unat (r :: u32) < 2 ^ 53"
  using unsigned_less [of r, where ?'a = nat] by simp

lemma burst_of_nonzero: "r \<noteq> 0 \<Longrightarrow> burst_of r = Fin (of_nat (unat r))"
proof -
  assume "r \<noteq> 0"
  then have "1 \<le> unat r" by (simp add: Suc_leI unat_gt_0)
  then have "(1::rat) \<le> of_nat (unat r)" by simp
  then show ?thesis
    using u32_lt_53 [of r] by (auto simp: burst_of_def flt_max_def)
qed

lemma refill_bounds:
  assumes "bucket_ok b" "r \<noteq> 0"
  shows "\<exists>x. refill b now r = Fin x \<and> 0 \<le> x \<and> x \<le> of_nat (unat r)"
proof -
  have r: "0 < (of_nat (unat r) :: rat)" using assms(2) by (simp add: unat_gt_0)
  have "flt_nonneg (tokens b)" using assms(1) by (auto simp: bucket_ok_def)
  moreover have "flt_nonneg (f64_mul (as_secs_f64 (duration_since now (last_refill b)))
      (f64_of_nat (unat r)))"
    using nonneg_mul_pos [OF as_secs_f64_nonneg r] u32_lt_53 [of r] by simp
  ultimately show ?thesis
    unfolding refill_def Let_def burst_of_nonzero [OF assms(2)]
    by (intro nonneg_min_Fin nonneg_add) auto
qed

lemma sub_one_bounds:
  assumes "1 \<le> x" "x \<le> of_nat n" "n < 2 ^ 53"
  shows "\<exists>y. f64_sub (Fin x) (Fin 1) = Fin y \<and> 0 \<le> y \<and> y \<le> of_nat n"
  using mk_f64_le_nat [of "x - 1" n] assms by (simp add: flt_sub_def)

lemma get_or_ok: "rl_inv rl \<Longrightarrow> r \<noteq> 0 \<Longrightarrow>
  bucket_ok (tbl_get_or rl k \<lparr>tokens = burst_of r, last_refill = now\<rparr>)"
  by (cases "tbl_get rl k") (auto simp: tbl_get_or_def bucket_ok_def burst_of_nonzero
      dest: rl_inv_get [unfolded bucket_ok_def])

text \<open>The bucket a call leaves behind holds between zero and \<open>rate_pps\<close> tokens, and
  the packet passes exactly when the refilled bucket had a whole token.\<close>

lemma allow_bucket:
  assumes "rl_inv rl" "r \<noteq> 0"
  shows "\<exists>x. tbl_get (snd (allow rl now src rid r)) (src, rid)
      = Some \<lparr>tokens = Fin x, last_refill = now\<rparr> \<and> 0 \<le> x \<and> x \<le> of_nat (unat r)"
proof -
  let ?b = "tbl_get_or rl (src, rid) \<lparr>tokens = burst_of r, last_refill = now\<rparr>"
  obtain x where x: "refill ?b now r = Fin x" "0 \<le> x" "x \<le> of_nat (unat r)"
    using refill_bounds [OF get_or_ok [OF assms] assms(2)] by blast
  then show ?thesis
    using sub_one_bounds [of x "unat r"] u32_lt_53 [of r] assms(2)
    by (cases "1 \<le> x") (auto simp: allow_def Let_def)
qed

lemma allow_other: "k \<noteq> (src, rid) \<Longrightarrow> tbl_get (snd (allow rl now src rid r)) k = tbl_get rl k"
  by (simp add: allow_def Let_def)

lemma allow_zero [simp]: "allow rl now src rid 0 = (True, rl)"
  by (simp add: allow_def)

lemma allow_tbl_ok: "tbl_ok rl \<Longrightarrow> tbl_ok (snd (allow rl now src rid r))"
  by (simp add: allow_def Let_def)

lemma allow_inv: "rl_inv rl \<Longrightarrow> rl_inv (snd (allow rl now src rid r))"
proof (cases "r = 0")
  case False
  assume inv: "rl_inv rl"
  show ?thesis
  proof (rule rl_invI)
    show "tbl_ok (snd (allow rl now src rid r))"
      using inv by (simp add: rl_inv_def allow_tbl_ok)
  next
    fix k b assume get: "tbl_get (snd (allow rl now src rid r)) k = Some b"
    show "bucket_ok b"
    proof (cases "k = (src, rid)")
      case True
      then show ?thesis
        using allow_bucket [OF inv False, of now src rid] get by (auto simp: bucket_ok_def)
    next
      case False
      then show ?thesis using get rl_inv_get [OF inv] by (simp add: allow_other)
    qed
  qed
qed simp

lemma rl_sweep_inv: "rl_inv rl \<Longrightarrow> rl_inv (rl_sweep rl now d)"
  by (auto simp: rl_inv_def rl_sweep_def tbl_retain_def tbl_ok_filter)

lemma rl_new_inv [simp]: "rl_inv rl_new"
  by (simp add: rl_inv_def rl_new_def)

section \<open>A burst\<close>

text \<open>A run of \<open>n\<close> calls for one source and rule at one instant.\<close>

fun allow_burst :: "rate_limiter \<Rightarrow> instant \<Rightarrow> ipaddr \<Rightarrow> u32 \<Rightarrow> u32 \<Rightarrow> nat \<Rightarrow> bool list" where
  "allow_burst rl now src rid r 0 = []"
| "allow_burst rl now src rid r (Suc n) =
     (let (ok, rl') = allow rl now src rid r in ok # allow_burst rl' now src rid r n)"

lemma refill_same_instant:
  assumes "r \<noteq> 0" "k \<le> unat r"
  shows "refill \<lparr>tokens = Fin (of_nat k), last_refill = now\<rparr> now r = Fin (of_nat k)"
proof -
  have k: "k < 2 ^ 53" using assms(2) u32_lt_53 [of r] by linarith
  then have "mk_f64 (of_nat k) = Fin (of_nat k)" by (rule mk_f64_nat_exact)
  moreover have "mk_f64 0 = Fin 0" using mk_f64_nat_exact [of 0] by simp
  ultimately show ?thesis
    using assms u32_lt_53 [of r] by (simp add: refill_def burst_of_nonzero flt_min_def)
qed

lemma allow_same_instant:
  assumes "r \<noteq> 0" "k \<le> unat r"
    and "tbl_get_or rl (src, rid) \<lparr>tokens = burst_of r, last_refill = now\<rparr>
      = \<lparr>tokens = Fin (of_nat k), last_refill = now\<rparr>"
  shows "allow rl now src rid r =
    (0 < k, tbl_insert rl (src, rid) \<lparr>tokens = Fin (of_nat (k - 1)), last_refill = now\<rparr>)"
proof -
  have "mk_f64 (of_nat k - 1) = Fin (of_nat (k - 1))" if "0 < k"
  proof -
    have "k - 1 < 2 ^ 53" using assms(2) u32_lt_53 [of r] by linarith
    then show ?thesis using mk_f64_nat_exact [of "k - 1"] that by (simp add: of_nat_diff)
  qed
  then show ?thesis
    using assms refill_same_instant [OF assms(1,2), of now]
    by (cases k) (auto simp: allow_def Let_def flt_sub_def)
qed

lemma allow_burst_from:
  assumes "r \<noteq> 0" "k \<le> unat r"
    and "tbl_get_or rl (src, rid) \<lparr>tokens = burst_of r, last_refill = now\<rparr>
      = \<lparr>tokens = Fin (of_nat k), last_refill = now\<rparr>"
  shows "allow_burst rl now src rid r n = replicate (min n k) True @ replicate (n - k) False"
  using assms(2,3)
proof (induction n arbitrary: rl k)
  case (Suc n)
  have "allow_burst (tbl_insert rl (src, rid) \<lparr>tokens = Fin (of_nat (k - 1)), last_refill = now\<rparr>)
      now src rid r n = replicate (min n (k - 1)) True @ replicate (n - (k - 1)) False"
    using Suc.prems by (intro Suc.IH) (auto simp: tbl_get_or_def)
  then show ?case
    using allow_same_instant [OF assms(1) Suc.prems]
    by (cases k) (simp_all flip: replicate_Suc replicate_append_same)
qed simp

text \<open> A source that a rule has not seen yet gets exactly \<open>rate_pps\<close> packets of that rule
  through at one instant, whatever the number it sends, and not one more; the double-precision
  token arithmetic loses nothing for any 32-bit rate.\<close>

theorem allow_burst_fresh:
  assumes "r \<noteq> 0" "tbl_get rl (src, rid) = None"
  shows "allow_burst rl now src rid r n =
    replicate (min n (unat r)) True @ replicate (n - unat r) False"
  using assms by (intro allow_burst_from) (auto simp: tbl_get_or_def burst_of_nonzero)

theorem allow_burst_fresh_witness:
  "allow_burst rl_new 5 (V4 0x0A000001) 7 2 4 = [True, True, False, False]"
  using allow_burst_fresh [of 2 rl_new "V4 0x0A000001" 7 5 4]
  by (simp add: rl_new_def replicate_two del: allow_burst.simps)

end
