(* ===== verification/Threshold.thy ===== *)
theory Threshold
  imports ASD_Prelude
begin

text \<open>
  The match counters of \<^verbatim>\<open>firewall-perimeter/src/threshold.rs\<close> that decide when a rule's
  automatic ban fires.  A counter is keyed by rule index and source and carries the
  instant its current window began.
\<close>

type_synonym threshold_tracker = "(nat \<times> ipaddr, u32 \<times> instant) tbl"

definition tt_new :: threshold_tracker where
  "tt_new = []"

definition record_and_check ::
  "threshold_tracker \<Rightarrow> instant \<Rightarrow> nat \<Rightarrow> ipaddr \<Rightarrow> u32 \<Rightarrow> duration \<Rightarrow> bool \<times> threshold_tracker" where
  "record_and_check tr now rule_idx ip threshold window =
     (if threshold \<le> 1 then (True, tr)
      else
        let entry = tbl_get_or tr (rule_idx, ip) (0, now);
            entry = (if duration_since now (snd entry) > window then (0, now) else entry);
            count = fst entry + 1;
            reached = (count \<ge> threshold)
        in (reached, tbl_insert tr (rule_idx, ip) (if reached then (0, now) else (count, snd entry))))"

definition tt_sweep :: "threshold_tracker \<Rightarrow> instant \<Rightarrow> duration \<Rightarrow> threshold_tracker" where
  "tt_sweep tr now max_idle = tbl_retain (\<lambda>_ e. duration_since now (snd e) < max_idle) tr"

text \<open>The verdicts of a run of matches of one rule by one source.\<close>

fun tt_run :: "threshold_tracker \<Rightarrow> nat \<Rightarrow> ipaddr \<Rightarrow> u32 \<Rightarrow> duration \<Rightarrow> instant list \<Rightarrow> bool list" where
  "tt_run tr r ip th w [] = []"
| "tt_run tr r ip th w (t # ts) =
     (let (hit, tr') = record_and_check tr t r ip th w in hit # tt_run tr' r ip th w ts)"

lemma record_and_check_one: "th \<le> 1 \<Longrightarrow> record_and_check tr now r ip th w = (True, tr)"
  by (simp add: record_and_check_def)

lemma record_and_check_other:
  "k \<noteq> (r, ip) \<Longrightarrow> tbl_get (snd (record_and_check tr now r ip th w)) k = tbl_get tr k"
  by (simp add: record_and_check_def Let_def)

lemma record_and_check_tbl_ok: "tbl_ok tr \<Longrightarrow> tbl_ok (snd (record_and_check tr now r ip th w))"
  by (simp add: record_and_check_def Let_def)

text \<open>The count a counter really has at an instant: zero when absent or out of window.\<close>

definition live_count :: "threshold_tracker \<Rightarrow> instant \<Rightarrow> duration \<Rightarrow> nat \<times> ipaddr \<Rightarrow> u32" where
  "live_count tr now w k =
     (case tbl_get tr k of None \<Rightarrow> 0 | Some (c, s) \<Rightarrow> if duration_since now s > w then 0 else c)"

definition stored_count :: "threshold_tracker \<Rightarrow> nat \<times> ipaddr \<Rightarrow> nat" where
  "stored_count tr k = (case tbl_get tr k of None \<Rightarrow> 0 | Some (c, _) \<Rightarrow> unat c)"

lemma live_le_stored: "unat (live_count tr now w k) \<le> stored_count tr k"
  by (auto simp: live_count_def stored_count_def split: option.split)

lemma record_and_check_step:
  assumes "1 < th" "stored_count tr (r, ip) < unat th"
  shows "\<exists>s. record_and_check tr now r ip th w =
      (let n = unat (live_count tr now w (r, ip)) + 1
       in (n = unat th, tbl_insert tr (r, ip) (if n = unat th then (0, now) else (of_nat n, s))))
    \<and> (s = now \<or> (\<exists>c. tbl_get tr (r, ip) = Some (c, s)))"
proof -
  let ?c = "live_count tr now w (r, ip)"
  have lt: "unat ?c < unat th" using assms(2) live_le_stored le_less_trans by blast
  then have "unat ?c + 1 < 2 ^ 32" using unsigned_less [of th, where ?'a = nat] by simp
  then have u: "unat (?c + 1) = unat ?c + 1" by (simp add: unat_word_ariths)
  have ge: "(th \<le> ?c + 1) = (unat ?c + 1 = unat th)"
    using lt by (auto simp: word_le_nat_alt u)
  have eq: "?c + 1 = of_nat (unat ?c + 1)" by simp
  show ?thesis
    using assms(1) ge eq
    by (auto simp: record_and_check_def Let_def live_count_def tbl_get_or_def not_le add.commute
        split: option.splits if_splits)
qed

lemma record_and_check_stored:
  assumes "1 < th" "stored_count tr (r, ip) < unat th"
  shows "fst (record_and_check tr now r ip th w) \<longleftrightarrow> unat (live_count tr now w (r, ip)) + 1 = unat th"
    and "stored_count (snd (record_and_check tr now r ip th w)) (r, ip) =
      (if unat (live_count tr now w (r, ip)) + 1 = unat th then 0
       else unat (live_count tr now w (r, ip)) + 1)"
proof -
  obtain s where st: "record_and_check tr now r ip th w =
      (let n = unat (live_count tr now w (r, ip)) + 1
       in (n = unat th, tbl_insert tr (r, ip) (if n = unat th then (0, now) else (of_nat n, s))))"
    using record_and_check_step [OF assms] by blast
  have "unat (live_count tr now w (r, ip)) + 1 \<le> unat th"
    using assms(2) live_le_stored [of tr now w "(r, ip)"] by simp
  then have "unat (of_nat (unat (live_count tr now w (r, ip)) + 1) :: u32)
      = unat (live_count tr now w (r, ip)) + 1"
    using unsigned_less [of th, where ?'a = nat] by (simp add: unat_of_nat del: of_nat_Suc of_nat_add)
  then show "fst (record_and_check tr now r ip th w) \<longleftrightarrow> unat (live_count tr now w (r, ip)) + 1 = unat th"
    "stored_count (snd (record_and_check tr now r ip th w)) (r, ip) =
      (if unat (live_count tr now w (r, ip)) + 1 = unat th then 0
       else unat (live_count tr now w (r, ip)) + 1)"
    by (simp_all add: st Let_def stored_count_def)
qed

text \<open>Each ban is paid for: \<open>k\<close> bans need \<open>k\<close> times the threshold matches by that source.\<close>

lemma tt_run_pays:
  assumes "1 < th" "stored_count tr (r, ip) < unat th"
  shows "unat th * length (filter (\<lambda>b. b) (tt_run tr r ip th w ts)) \<le> stored_count tr (r, ip) + length ts"
  using assms(2)
proof (induction ts arbitrary: tr)
  case (Cons t ts)
  let ?live = "unat (live_count tr t w (r, ip))"
  obtain hit tr' where step: "record_and_check tr t r ip th w = (hit, tr')" by fastforce
  have st: "hit \<longleftrightarrow> ?live + 1 = unat th"
    "stored_count tr' (r, ip) = (if ?live + 1 = unat th then 0 else ?live + 1)"
    using record_and_check_stored [OF assms(1) Cons.prems, of t w] by (simp_all add: step)
  have "?live + 1 \<le> unat th" "?live \<le> stored_count tr (r, ip)"
    using Cons.prems live_le_stored [of tr t w "(r, ip)"] by simp_all
  then have "stored_count tr' (r, ip) < unat th" using st assms(1) by (auto simp: word_less_nat_alt)
  then have "unat th * length (filter (\<lambda>b. b) (tt_run tr' r ip th w ts)) \<le> stored_count tr' (r, ip) + length ts"
    by (rule Cons.IH)
  then show ?case
    using st \<open>?live \<le> stored_count tr (r, ip)\<close> by (auto simp: step split: if_splits)
qed simp

text \<open>Inside one window the ban fires on exactly every \<open>threshold\<close>-th match.\<close>

lemma tt_run_window:
  assumes "1 < th" "\<forall>t \<in> set ts. t0 \<le> t \<and> t \<le> t0 + w"
    and "stored_count tr (r, ip) < unat th"
    and "\<forall>c s. tbl_get tr (r, ip) = Some (c, s) \<longrightarrow> t0 \<le> s"
  shows "tt_run tr r ip th w ts =
    map (\<lambda>i. unat th dvd stored_count tr (r, ip) + Suc i) [0..<length ts]"
  using assms(2-4)
proof (induction ts arbitrary: tr)
  case (Cons t ts)
  have t: "t0 \<le> t" "t \<le> t0 + w" using Cons.prems(1) by simp_all
  let ?c = "stored_count tr (r, ip)"
  have live: "unat (live_count tr t w (r, ip)) = ?c"
    using Cons.prems(3) t
    by (auto simp: live_count_def stored_count_def duration_since_def split: option.splits)
  obtain hit tr' where step: "record_and_check tr t r ip th w = (hit, tr')" by fastforce
  have st: "hit \<longleftrightarrow> ?c + 1 = unat th" "stored_count tr' (r, ip) = (if ?c + 1 = unat th then 0 else ?c + 1)"
    using record_and_check_stored [OF assms(1) Cons.prems(2), of t w] by (simp_all add: step live)
  have s: "\<forall>c s. tbl_get tr' (r, ip) = Some (c, s) \<longrightarrow> t0 \<le> s"
    using record_and_check_step [OF assms(1) Cons.prems(2), of t w] t Cons.prems(3)
    by (auto simp: step Let_def split: if_splits)
  have "stored_count tr' (r, ip) < unat th"
    using st Cons.prems(2) assms(1) by (auto simp: word_less_nat_alt)
  then have IH: "tt_run tr' r ip th w ts
      = map (\<lambda>i. unat th dvd stored_count tr' (r, ip) + Suc i) [0..<length ts]"
    using Cons.prems(1) s by (intro Cons.IH) auto
  have hit: "hit \<longleftrightarrow> unat th dvd ?c + 1"
    using st(1) Cons.prems(2) by (auto dest: dvd_imp_le)
  have tail: "(unat th dvd stored_count tr' (r, ip) + Suc i) = (unat th dvd ?c + Suc (Suc i))" for i
  proof (cases "?c + 1 = unat th")
    case True
    then have "?c + Suc (Suc i) = unat th + Suc i" by simp
    then show ?thesis using True st(2) by (simp only: dvd_add_triv_left_iff) simp
  qed (simp add: st(2))
  show ?case
    using IH hit tail map_upt_Suc [of "\<lambda>i. unat th dvd ?c + Suc i" "length ts"]
    by (simp add: step del: upt_Suc)
qed simp

text \<open> For matches of one rule by one source that all lie within one window, the automatic
  ban fires exactly at every match whose number is a multiple of the threshold.\<close>

theorem tt_run_fresh:
  assumes "1 < th" "tbl_get tr (r, ip) = None" "\<forall>t \<in> set ts. t0 \<le> t \<and> t \<le> t0 + w"
  shows "tt_run tr r ip th w ts = map (\<lambda>i. unat th dvd Suc i) [0..<length ts]"
  using tt_run_window [OF assms(1,3)] assms(1,2)
  by (simp add: stored_count_def word_less_nat_alt)

theorem tt_run_fresh_witness:
  "tt_run tt_new 0 (ipv4 10 0 0 1) 2 10 [3, 4, 5, 6] = [False, True, False, True]"
  using tt_run_fresh [of 2 tt_new 0 "ipv4 10 0 0 1" "[3, 4, 5, 6]" 3 10]
  by (simp add: tt_new_def upt_rec)

text \<open> The window that the documentation calls rolling is fixed at the first match: with
  threshold three and a window of ten, the matches at 8, 11 and 12 lie within four units of
  each other and fire no ban, because the match at 11 restarts the count.\<close>

theorem threshold_window_not_rolling:
  "tt_run tt_new 0 (ipv4 10 0 0 1) 3 10 [0, 8, 11, 12] = [False, False, False, False]
   \<and> tt_run tt_new 0 (ipv4 10 0 0 1) 3 10 [8, 11, 12] = [False, False, True]"
  by (simp add: tt_new_def record_and_check_def tbl_get_or_def duration_since_def Let_def word_le_nat_alt)

end
