(* ===== verification/Engine.thy ===== *)
theory Engine
  imports Packet Fw_Config Rate_Limit Threshold "HOL-Library.Multiset"
begin

text \<open>
  The policy engine (\<^verbatim>\<open>firewall-perimeter/src/engine.rs\<close>): construction of the port index
  from the configuration, evaluation of the first packet of a flow, and maintenance.  The
  membership test of a CIDR network is \<^verbatim>\<open>ipnet\<close>'s and an argument.  A panic of the code (an
  index out of the rules' range) is the value \<open>None\<close>.
\<close>

datatype verdict = VAccept | VDrop | VReject

record decision =
  dec_verdict :: verdict
  dec_rule_name :: string
  dec_log :: bool
  dec_auto_block :: "u64 option"

record 'net engine =
  eng_rules :: "'net rule list"
  eng_aliases :: "(string, 'net list) tbl"
  exact_port_index :: "(u8 \<times> u16, nat list) tbl"
  wildcard_rules :: "nat list"
  eng_default :: action
  eng_trusted :: "ipaddr list"
  rate_limiter :: rate_limiter
  threshold_tracker :: threshold_tracker

fun rule_proto_num :: "protocol \<Rightarrow> u8 option" where
  "rule_proto_num protocol.Tcp = Some 6"
| "rule_proto_num protocol.Udp = Some 17"
| "rule_proto_num protocol.Icmp = Some 1"
| "rule_proto_num protocol.Any = None"

fun pkt_proto_num :: "l4proto \<Rightarrow> u8" where
  "pkt_proto_num L4Tcp = 6"
| "pkt_proto_num L4Udp = 17"
| "pkt_proto_num L4Icmp = 1"
| "pkt_proto_num (L4Other n) = n"

fun proto_matches :: "protocol \<Rightarrow> l4proto \<Rightarrow> bool" where
  "proto_matches protocol.Any _ = True"
| "proto_matches protocol.Tcp L4Tcp = True"
| "proto_matches protocol.Udp L4Udp = True"
| "proto_matches protocol.Icmp L4Icmp = True"
| "proto_matches _ _ = False"

fun direction_matches :: "direction \<Rightarrow> parsed_packet \<Rightarrow> bool" where
  "direction_matches _ _ = True"

section \<open>Construction\<close>

definition is_exact_port :: "'net rule \<Rightarrow> bool" where
  "is_exact_port r \<longleftrightarrow> lo (rule_dst_port r) = hi (rule_dst_port r)"

type_synonym port_index = "(u8 \<times> u16, nat list) tbl \<times> nat list"

fun index_rule :: "port_index \<Rightarrow> nat \<times> 'net rule \<Rightarrow> port_index" where
  "index_rule (exact, wild) (idx, r) =
     (case (rule_proto_num (rule_protocol r), is_exact_port r) of
        (Some p, True) \<Rightarrow>
          (let key = (p, lo (rule_dst_port r))
           in (tbl_insert exact key (tbl_get_or exact key [] @ [idx]), wild))
      | _ \<Rightarrow> (exact, wild @ [idx]))"

definition build_index :: "'net rule list \<Rightarrow> port_index" where
  "build_index rs = foldl index_rule ([], []) (enumerate 0 rs)"

definition alias_table :: "'net alias_def list \<Rightarrow> (string, 'net list) tbl" where
  "alias_table as = foldl (\<lambda>t a. tbl_insert t (alias_name a) (alias_cidrs a)) [] as"

definition engine_new :: "'net config \<Rightarrow> 'net engine" where
  "engine_new cfg =
     (let (exact, wild) = build_index (rules cfg)
      in \<lparr>eng_rules = rules cfg, eng_aliases = alias_table (aliases cfg), exact_port_index = exact,
          wildcard_rules = wild, eng_default = default_policy cfg, eng_trusted = trusted cfg,
          rate_limiter = rl_new, threshold_tracker = tt_new\<rparr>)"

section \<open>Matching\<close>

fun network_matches :: "('net \<Rightarrow> ipaddr \<Rightarrow> bool) \<Rightarrow> 'net engine \<Rightarrow> 'net network_match \<Rightarrow> ipaddr \<Rightarrow> bool" where
  "network_matches contains eng (Cidr net) ip = contains net ip"
| "network_matches contains eng (Alias name) ip =
     (case tbl_get (eng_aliases eng) name of
        Some cidrs \<Rightarrow> \<exists>net \<in> set cidrs. contains net ip
      | None \<Rightarrow> False)"

definition rule_matches :: "('net \<Rightarrow> ipaddr \<Rightarrow> bool) \<Rightarrow> 'net engine \<Rightarrow> 'net rule \<Rightarrow> parsed_packet \<Rightarrow> bool" where
  "rule_matches contains eng r pkt \<longleftrightarrow>
     proto_matches (rule_protocol r) (proto pkt)
     \<and> network_matches contains eng (rule_src r) (src_ip pkt)
     \<and> network_matches contains eng (rule_dst r) (dst_ip pkt)
     \<and> pr_contains (rule_src_port r) (src_port pkt)
     \<and> pr_contains (rule_dst_port r) (dst_port pkt)
     \<and> direction_matches (rule_direction r) pkt"

definition gate_auto_block ::
  "'net engine \<Rightarrow> instant \<Rightarrow> nat \<Rightarrow> 'net rule \<Rightarrow> ipaddr \<Rightarrow> u64 option \<times> 'net engine" where
  "gate_auto_block eng now rule_idx r ip =
     (case auto_block_secs r of
        None \<Rightarrow> (None, eng)
      | Some secs \<Rightarrow>
          (let (reached, tr) = record_and_check (threshold_tracker eng) now rule_idx ip
                 (auto_block_threshold r) (from_secs (unat (auto_block_window_secs r)))
           in (if reached then Some secs else None, eng\<lparr>threshold_tracker := tr\<rparr>)))"

fun verdict_of :: "action \<Rightarrow> verdict" where
  "verdict_of Accept = VAccept"
| "verdict_of Drop = VDrop"
| "verdict_of Reject = VReject"

section \<open>Evaluation\<close>

text \<open>What the loop of \<^verbatim>\<open>evaluate\<close> does with the first rule that matches.\<close>

definition apply_rule ::
  "'net engine \<Rightarrow> instant \<Rightarrow> nat \<Rightarrow> 'net rule \<Rightarrow> parsed_packet \<Rightarrow> decision \<times> 'net engine" where
  "apply_rule eng now idx r pkt =
     (let (allowed, eng) =
            (case rate_limit_pps r of
               None \<Rightarrow> (True, eng)
             | Some rate \<Rightarrow>
                 (let (ok, rl) = allow (rate_limiter eng) now (src_ip pkt) (of_nat idx) rate
                  in (ok, eng\<lparr>rate_limiter := rl\<rparr>)))
      in if \<not> allowed
         then let (ab, eng) = gate_auto_block eng now idx r (src_ip pkt)
              in (\<lparr>dec_verdict = VDrop, dec_rule_name = rule_name r @ '':rate-limit-exceeded'',
                   dec_log = True, dec_auto_block = ab\<rparr>, eng)
         else
           let verdict = verdict_of (rule_action r);
               (ab, eng) = (if verdict = VAccept then (None, eng)
                            else gate_auto_block eng now idx r (src_ip pkt))
           in (\<lparr>dec_verdict = verdict, dec_rule_name = rule_name r, dec_log = rule_log r,
                dec_auto_block = ab\<rparr>, eng))"

definition default_decision :: "'net engine \<Rightarrow> decision" where
  "default_decision eng = \<lparr>dec_verdict = verdict_of (eng_default eng), dec_rule_name = ''default-policy'',
     dec_log = True, dec_auto_block = None\<rparr>"

definition trusted_decision :: decision where
  "trusted_decision = \<lparr>dec_verdict = VAccept, dec_rule_name = ''trusted-bypass'', dec_log = False,
     dec_auto_block = None\<rparr>"

fun eval_candidates :: "('net \<Rightarrow> ipaddr \<Rightarrow> bool) \<Rightarrow> 'net engine \<Rightarrow> instant \<Rightarrow> parsed_packet \<Rightarrow> nat list
  \<Rightarrow> (decision \<times> 'net engine) option" where
  "eval_candidates contains eng now pkt [] = Some (default_decision eng, eng)"
| "eval_candidates contains eng now pkt (idx # rest) =
     (if idx \<ge> length (eng_rules eng) then None
      else
        let r = eng_rules eng ! idx
        in if \<not> rule_matches contains eng r pkt then eval_candidates contains eng now pkt rest
           else Some (apply_rule eng now idx r pkt))"

definition candidates :: "'net engine \<Rightarrow> parsed_packet \<Rightarrow> nat list" where
  "candidates eng pkt =
     sort (tbl_get_or (exact_port_index eng) (pkt_proto_num (proto pkt), dst_port pkt) []
           @ wildcard_rules eng)"

definition evaluate :: "('net \<Rightarrow> ipaddr \<Rightarrow> bool) \<Rightarrow> 'net engine \<Rightarrow> instant \<Rightarrow> parsed_packet
  \<Rightarrow> (decision \<times> 'net engine) option" where
  "evaluate contains eng now pkt =
     (if src_ip pkt \<in> set (eng_trusted eng) then Some (trusted_decision, eng)
      else eval_candidates contains eng now pkt (candidates eng pkt))"

definition periodic_maintenance :: "'net engine \<Rightarrow> instant \<Rightarrow> 'net engine" where
  "periodic_maintenance eng now =
     eng\<lparr>rate_limiter := rl_sweep (rate_limiter eng) now (from_secs 300),
         threshold_tracker := tt_sweep (threshold_tracker eng) now (from_secs 300)\<rparr>"

definition is_trusted :: "'net engine \<Rightarrow> ipaddr \<Rightarrow> bool" where
  "is_trusted eng ip \<longleftrightarrow> ip \<in> set (eng_trusted eng)"

section \<open>The specification: a linear scan\<close>

definition first_match :: "('net \<Rightarrow> ipaddr \<Rightarrow> bool) \<Rightarrow> 'net engine \<Rightarrow> parsed_packet \<Rightarrow> nat option" where
  "first_match contains eng pkt =
     find (\<lambda>i. rule_matches contains eng (eng_rules eng ! i) pkt) [0..<length (eng_rules eng)]"

definition evaluate_linear :: "('net \<Rightarrow> ipaddr \<Rightarrow> bool) \<Rightarrow> 'net engine \<Rightarrow> instant \<Rightarrow> parsed_packet
  \<Rightarrow> decision \<times> 'net engine" where
  "evaluate_linear contains eng now pkt =
     (if src_ip pkt \<in> set (eng_trusted eng) then (trusted_decision, eng)
      else case first_match contains eng pkt of
        Some i \<Rightarrow> apply_rule eng now i (eng_rules eng ! i) pkt
      | None \<Rightarrow> (default_decision eng, eng))"

section \<open>The index is right\<close>

definition exact_key :: "'net rule \<Rightarrow> (u8 \<times> u16) option" where
  "exact_key r = (if is_exact_port r
     then map_option (\<lambda>p. (p, lo (rule_dst_port r))) (rule_proto_num (rule_protocol r)) else None)"

definition index_ok :: "'net rule list \<Rightarrow> port_index \<Rightarrow> bool" where
  "index_ok rs ix \<longleftrightarrow>
     (\<forall>k. tbl_get_or (fst ix) k [] = filter (\<lambda>i. exact_key (rs ! i) = Some k) [0..<length rs])
     \<and> snd ix = filter (\<lambda>i. exact_key (rs ! i) = None) [0..<length rs]"

lemma index_rule_eq: "index_rule ix (idx, r) = (case exact_key r of
    Some k \<Rightarrow> (tbl_insert (fst ix) k (tbl_get_or (fst ix) k [] @ [idx]), snd ix)
  | None \<Rightarrow> (fst ix, snd ix @ [idx]))"
  by (cases ix) (auto simp: exact_key_def Let_def split: option.split)

lemma filter_nth_snoc: "filter (\<lambda>i. P ((rs @ [r]) ! i)) [0..<length (rs @ [r])] =
  filter (\<lambda>i. P (rs ! i)) [0..<length rs] @ (if P r then [length rs] else [])"
proof -
  have "filter (\<lambda>i. P ((rs @ [r]) ! i)) [0..<length rs] = filter (\<lambda>i. P (rs ! i)) [0..<length rs]"
    by (rule filter_cong) (simp_all add: nth_append)
  then show ?thesis by simp
qed

lemma index_ok_snoc:
  assumes "index_ok rs ix"
  shows "index_ok (rs @ [r]) (index_rule ix (length rs, r))"
proof -
  have "tbl_get_or (fst ix) k [] = filter (\<lambda>i. exact_key (rs ! i) = Some k) [0..<length rs]" for k
    using assms unfolding index_ok_def by blast
  moreover have "snd ix = filter (\<lambda>i. exact_key (rs ! i) = None) [0..<length rs]"
    using assms by (simp add: index_ok_def)
  ultimately show ?thesis
    unfolding index_ok_def filter_nth_snoc [where P = "\<lambda>x. exact_key x = _"] index_rule_eq
    by (auto simp: tbl_get_or_insert split: option.split)
qed

lemma build_index_ok: "index_ok rs (build_index rs)"
proof (induction rs rule: rev_induct)
  case Nil
  then show ?case by (simp add: build_index_def index_ok_def tbl_get_or_def)
next
  case (snoc r rs)
  then show ?case using index_ok_snoc by (simp add: build_index_def enumerate_append_eq)
qed

definition engine_inv :: "'net engine \<Rightarrow> bool" where
  "engine_inv eng \<longleftrightarrow> index_ok (eng_rules eng) (exact_port_index eng, wildcard_rules eng)
     \<and> rl_inv (rate_limiter eng) \<and> tbl_ok (threshold_tracker eng)"

lemma engine_new_inv: "engine_inv (engine_new cfg)"
  using build_index_ok [of "rules cfg"]
  by (simp add: engine_inv_def engine_new_def case_prod_beta Let_def tt_new_def)

text \<open>A rule that matches a packet and has a key is filed under the packet's own key.\<close>

lemma matching_key:
  assumes "rule_matches contains eng r pkt" "exact_key r = Some k"
  shows "k = (pkt_proto_num (proto pkt), dst_port pkt)"
proof -
  have "rule_proto_num (rule_protocol r) = Some p \<Longrightarrow> p = pkt_proto_num (proto pkt)" for p
    using assms(1) by (cases "rule_protocol r"; cases "proto pkt") (auto simp: rule_matches_def)
  moreover have "is_exact_port r \<Longrightarrow> lo (rule_dst_port r) = dst_port pkt"
    using assms(1) by (cases "rule_dst_port r") (auto simp: rule_matches_def is_exact_port_def)
  ultimately show ?thesis using assms(2) by (auto simp: exact_key_def split: if_splits)
qed

lemma mset_filter_or: "mset (filter (\<lambda>i. f i = Some k) xs @ filter (\<lambda>i. f i = None) xs)
  = mset (filter (\<lambda>i. f i \<in> {None, Some k}) xs)"
  by (induction xs) auto

lemma candidates_eq:
  assumes "engine_inv eng"
  shows "candidates eng pkt =
    filter (\<lambda>i. exact_key (eng_rules eng ! i) \<in> {None, Some (pkt_proto_num (proto pkt), dst_port pkt)})
      [0..<length (eng_rules eng)]" (is "_ = filter ?P ?is")
proof -
  let ?k = "(pkt_proto_num (proto pkt), dst_port pkt)"
  let ?e = "filter (\<lambda>i. exact_key (eng_rules eng ! i) = Some ?k) ?is"
  let ?w = "filter (\<lambda>i. exact_key (eng_rules eng ! i) = None) ?is"
  have "mset (?e @ ?w) = mset (filter ?P ?is)"
    by (rule mset_filter_or)
  then have "sort (?e @ ?w) = filter ?P ?is"
    by (intro properties_for_sort) (simp_all add: sorted_filter [of "\<lambda>x. x", simplified])
  then show ?thesis using assms by (simp add: candidates_def engine_inv_def index_ok_def)
qed

lemma eval_candidates_find:
  assumes "\<forall>i \<in> set is. i < length (eng_rules eng)"
  shows "eval_candidates contains eng now pkt is = Some
    (case find (\<lambda>i. rule_matches contains eng (eng_rules eng ! i) pkt) is of
       Some i \<Rightarrow> apply_rule eng now i (eng_rules eng ! i) pkt
     | None \<Rightarrow> (default_decision eng, eng))"
  using assms by (induction "is") (auto simp: Let_def)

lemma candidates_first_match:
  assumes "engine_inv eng"
  shows "find (\<lambda>i. rule_matches contains eng (eng_rules eng ! i) pkt) (candidates eng pkt)
    = first_match contains eng pkt"
  unfolding first_match_def candidates_eq [OF assms]
proof (rule find_sorted_eqI)
  fix i assume "rule_matches contains eng (eng_rules eng ! i) pkt"
  from matching_key [OF this]
  show "i \<in> set (filter (\<lambda>i. exact_key (eng_rules eng ! i)
        \<in> {None, Some (pkt_proto_num (proto pkt), dst_port pkt)}) [0..<length (eng_rules eng)])
    \<longleftrightarrow> i \<in> set [0..<length (eng_rules eng)]"
    by (cases "exact_key (eng_rules eng ! i)") auto
qed (simp_all add: sorted_filter [of "\<lambda>x. x", simplified])

lemma evaluate_linear_eq:
  assumes "engine_inv eng"
  shows "evaluate contains eng now pkt = Some (evaluate_linear contains eng now pkt)"
proof -
  have "\<forall>i \<in> set (candidates eng pkt). i < length (eng_rules eng)"
    by (simp add: candidates_eq [OF assms])
  then show ?thesis
    by (simp add: evaluate_def evaluate_linear_def eval_candidates_find candidates_first_match [OF assms])
qed

section \<open>The invariant is kept\<close>

definition same_policy :: "'net engine \<Rightarrow> 'net engine \<Rightarrow> bool" where
  "same_policy e f \<longleftrightarrow> eng_rules e = eng_rules f \<and> eng_aliases e = eng_aliases f
     \<and> exact_port_index e = exact_port_index f \<and> wildcard_rules e = wildcard_rules f
     \<and> eng_default e = eng_default f \<and> eng_trusted e = eng_trusted f"

lemma same_policy_refl [simp]: "same_policy e e"
  by (simp add: same_policy_def)

lemma same_policy_trans: "same_policy e f \<Longrightarrow> same_policy f g \<Longrightarrow> same_policy e g"
  by (simp add: same_policy_def)

lemma network_matches_cong: "eng_aliases e = eng_aliases f \<Longrightarrow> network_matches c e m a = network_matches c f m a"
  by (cases m) simp_all

lemma rule_matches_cong: "same_policy e f \<Longrightarrow> rule_matches c e r pkt = rule_matches c f r pkt"
  using network_matches_cong [of e f c] by (simp add: rule_matches_def same_policy_def)

lemma first_match_cong: "same_policy e f \<Longrightarrow> first_match c e pkt = first_match c f pkt"
  using rule_matches_cong [of e f c] by (simp add: first_match_def same_policy_def)

lemma gate_auto_block_policy: "same_policy (snd (gate_auto_block e now i r a)) e"
  by (simp add: gate_auto_block_def same_policy_def split: option.split prod.split)

lemma gate_auto_block_limiter: "rate_limiter (snd (gate_auto_block e now i r a)) = rate_limiter e"
  by (simp add: gate_auto_block_def split: option.split prod.split)

lemma gate_auto_block_tracker:
  "gate_auto_block e now i r a = (case auto_block_secs r of
      None \<Rightarrow> (None, e)
    | Some secs \<Rightarrow>
       (if fst (record_and_check (threshold_tracker e) now i a (auto_block_threshold r)
                  (from_secs (unat (auto_block_window_secs r)))) then Some secs else None,
        e\<lparr>threshold_tracker := snd (record_and_check (threshold_tracker e) now i a (auto_block_threshold r)
                  (from_secs (unat (auto_block_window_secs r))))\<rparr>))"
  by (simp add: gate_auto_block_def case_prod_beta Let_def split: option.split)

text \<open>The engine after the rate limiter of a rule was asked, and the rule's outcome in terms of
  it.\<close>

definition limited :: "'net engine \<Rightarrow> instant \<Rightarrow> nat \<Rightarrow> 'net rule \<Rightarrow> parsed_packet \<Rightarrow> bool \<times> 'net engine" where
  "limited eng now idx r pkt = (case rate_limit_pps r of
     None \<Rightarrow> (True, eng)
   | Some rate \<Rightarrow>
      (fst (allow (rate_limiter eng) now (src_ip pkt) (of_nat idx) rate),
       eng\<lparr>rate_limiter := snd (allow (rate_limiter eng) now (src_ip pkt) (of_nat idx) rate)\<rparr>))"

lemma apply_rule_eq: "apply_rule eng now idx r pkt =
  (let (ok, e) = limited eng now idx r pkt;
       (ab, e') = (if ok \<and> rule_action r = Accept then (None, e) else gate_auto_block e now idx r (src_ip pkt))
   in (\<lparr>dec_verdict = if ok then verdict_of (rule_action r) else VDrop,
        dec_rule_name = if ok then rule_name r else rule_name r @ '':rate-limit-exceeded'',
        dec_log = (if ok then rule_log r else True), dec_auto_block = ab\<rparr>, e'))"
proof -
  have acc: "verdict_of (rule_action r) = VAccept \<longleftrightarrow> rule_action r = Accept"
    by (cases "rule_action r") auto
  show ?thesis
    by (simp add: apply_rule_def limited_def case_prod_beta Let_def acc split: option.split)
qed

lemma limited_policy: "same_policy (snd (limited e now i r pkt)) e"
  "threshold_tracker (snd (limited e now i r pkt)) = threshold_tracker e"
  by (simp_all add: limited_def same_policy_def split: option.split)

lemma limited_inv: "rl_inv (rate_limiter e) \<Longrightarrow> rl_inv (rate_limiter (snd (limited e now i r pkt)))"
  by (simp add: limited_def allow_inv split: option.split)

lemma apply_rule_policy: "same_policy (snd (apply_rule e now i r pkt)) e"
  using limited_policy(1) [of e now i r pkt]
    gate_auto_block_policy [of "snd (limited e now i r pkt)" now i r "src_ip pkt"]
  by (auto simp: apply_rule_eq case_prod_beta Let_def intro: same_policy_trans)

lemma engine_inv_cong: "same_policy e f \<Longrightarrow> engine_inv f \<Longrightarrow> rl_inv (rate_limiter e) \<Longrightarrow>
  tbl_ok (threshold_tracker e) \<Longrightarrow> engine_inv e"
  by (simp add: engine_inv_def same_policy_def)

lemma apply_rule_inv:
  assumes "engine_inv e"
  shows "engine_inv (snd (apply_rule e now i r pkt))"
proof (rule engine_inv_cong [OF apply_rule_policy assms])
  have rl: "rl_inv (rate_limiter e)" and tt: "tbl_ok (threshold_tracker e)"
    using assms by (simp_all add: engine_inv_def)
  show "rl_inv (rate_limiter (snd (apply_rule e now i r pkt)))"
    using limited_inv [OF rl, of now i r pkt] by (simp add: apply_rule_eq case_prod_beta Let_def gate_auto_block_limiter)
  show "tbl_ok (threshold_tracker (snd (apply_rule e now i r pkt)))"
    using tt by (simp add: apply_rule_eq case_prod_beta Let_def gate_auto_block_tracker limited_policy
        record_and_check_tbl_ok split: option.split)
qed

lemma evaluate_linear_inv: "engine_inv e \<Longrightarrow> engine_inv (snd (evaluate_linear c e now pkt))"
  by (simp add: evaluate_linear_def apply_rule_inv split: option.split)

lemma evaluate_linear_policy: "same_policy (snd (evaluate_linear c e now pkt)) e"
  by (simp add: evaluate_linear_def apply_rule_policy split: option.split)

lemma maintenance_inv: "engine_inv e \<Longrightarrow> engine_inv (periodic_maintenance e now)"
  by (simp add: engine_inv_def periodic_maintenance_def rl_sweep_inv tt_sweep_def)

lemma maintenance_policy: "same_policy (periodic_maintenance e now) e"
  by (simp add: periodic_maintenance_def same_policy_def)

section \<open>Runs of the engine\<close>

datatype eng_op = EvPacket instant parsed_packet | EvMaintenance instant

fun engine_run :: "('net \<Rightarrow> ipaddr \<Rightarrow> bool) \<Rightarrow> 'net engine \<Rightarrow> eng_op list \<Rightarrow> (decision list \<times> 'net engine) option" where
  "engine_run c e [] = Some ([], e)"
| "engine_run c e (EvPacket now pkt # ops) =
     (case evaluate c e now pkt of
        None \<Rightarrow> None
      | Some (d, e') \<Rightarrow> map_option (\<lambda>(ds, f). (d # ds, f)) (engine_run c e' ops))"
| "engine_run c e (EvMaintenance now # ops) = engine_run c (periodic_maintenance e now) ops"

fun linear_run :: "('net \<Rightarrow> ipaddr \<Rightarrow> bool) \<Rightarrow> 'net engine \<Rightarrow> eng_op list \<Rightarrow> decision list \<times> 'net engine" where
  "linear_run c e [] = ([], e)"
| "linear_run c e (EvPacket now pkt # ops) =
     (let (d, e') = evaluate_linear c e now pkt; (ds, f) = linear_run c e' ops in (d # ds, f))"
| "linear_run c e (EvMaintenance now # ops) = linear_run c (periodic_maintenance e now) ops"

lemma engine_run_linear: "engine_inv e \<Longrightarrow> engine_run c e ops = Some (linear_run c e ops)"
proof (induction ops arbitrary: e)
  case (Cons a ops)
  then show ?case
    by (cases a) (simp_all add: evaluate_linear_eq evaluate_linear_inv maintenance_inv case_prod_beta Let_def)
qed simp

text \<open>C4: From a freshly loaded configuration and over any run of packets and maintenance ticks,
  the indexed evaluation never indexes outside the rules (it does not panic) and gives, packet
  by packet, the decision and the state of a plain first-match scan over the rules in their
  written order: the port index is an optimisation and never a change of behaviour.\<close>

theorem indexed_evaluation_is_first_match:
  "engine_run contains (engine_new cfg) ops = Some (linear_run contains (engine_new cfg) ops)"
  by (rule engine_run_linear [OF engine_new_inv])

section \<open>Decisions\<close>

lemma gate_auto_block_None: "auto_block_secs r = None \<Longrightarrow> gate_auto_block e now i r a = (None, e)"
  by (simp add: gate_auto_block_def)

lemma evaluate_linear_cases:
  obtains (trusted) "src_ip pkt \<in> set (eng_trusted e)" "evaluate_linear c e now pkt = (trusted_decision, e)"
  | (default) "src_ip pkt \<notin> set (eng_trusted e)" "first_match c e pkt = None"
      "evaluate_linear c e now pkt = (default_decision e, e)"
  | (rule) i where "src_ip pkt \<notin> set (eng_trusted e)" "first_match c e pkt = Some i"
      "evaluate_linear c e now pkt = apply_rule e now i (eng_rules e ! i) pkt"
  by (cases "first_match c e pkt") (auto simp: evaluate_linear_def)

lemma first_match_Some:
  assumes "first_match c e pkt = Some i"
  shows "i < length (eng_rules e)" "rule_matches c e (eng_rules e ! i) pkt"
    "j < i \<Longrightarrow> \<not> rule_matches c e (eng_rules e ! j) pkt"
proof -
  have "find (\<lambda>i. rule_matches c e (eng_rules e ! i) pkt) [0..<length (eng_rules e)] = Some i"
    using assms by (simp add: first_match_def)
  then obtain k where k: "k < length (eng_rules e)" "rule_matches c e (eng_rules e ! k) pkt" "i = k"
      "\<forall>j<k. \<not> rule_matches c e (eng_rules e ! j) pkt"
    by (auto simp: find_Some_iff)
  then show "i < length (eng_rules e)" "rule_matches c e (eng_rules e ! i) pkt"
    "j < i \<Longrightarrow> \<not> rule_matches c e (eng_rules e ! j) pkt" by simp_all
qed

text \<open> A packet is accepted only for one of three reasons: its source is trusted; no rule matches
  it and the default policy accepts; or the first rule that matches is an accept rule whose
  rate limit, if it has one, has a token left for this source.  An accepting decision never
  asks for a ban.\<close>

theorem accept_reasons:
  assumes "engine_inv e" "evaluate contains e now pkt = Some (d, e')" "dec_verdict d = VAccept"
  shows "dec_auto_block d = None
    \<and> (src_ip pkt \<in> set (eng_trusted e)
       \<or> first_match contains e pkt = None \<and> eng_default e = Accept
       \<or> (\<exists>i. first_match contains e pkt = Some i \<and> rule_action (eng_rules e ! i) = Accept
            \<and> (\<forall>rate. rate_limit_pps (eng_rules e ! i) = Some rate \<longrightarrow>
                 fst (allow (rate_limiter e) now (src_ip pkt) (of_nat i) rate))))"
proof -
  have ev: "evaluate_linear contains e now pkt = (d, e')"
    using assms(2) by (simp add: evaluate_linear_eq [OF assms(1)])
  show ?thesis
  proof (cases rule: evaluate_linear_cases [of pkt e contains now])
    case trusted
    then show ?thesis using ev by (simp add: trusted_decision_def)
  next
    case default
    then show ?thesis
      using ev assms(3) by (cases "eng_default e") (auto simp: default_decision_def)
  next
    case (rule i)
    then show ?thesis
      using ev assms(3)
      by (cases "rule_action (eng_rules e ! i)")
        (auto simp: apply_rule_eq limited_def case_prod_beta Let_def split: option.splits if_splits)
  qed
qed

text \<open>A concrete policy: telnet is rejected, with a ban after three matches within a minute, and
  HTTPS is accepted.\<close>

definition sample_rule :: "string \<Rightarrow> u16 \<Rightarrow> action \<Rightarrow> u64 option \<Rightarrow> unit rule" where
  "sample_rule n port act ab = \<lparr>rule_name = n, rule_protocol = protocol.Tcp, rule_direction = AnyDir,
     rule_src = Cidr (), rule_dst = Cidr (), rule_src_port = PortRange 0 65535,
     rule_dst_port = PortRange port port, rule_action = act, rate_limit_pps = None,
     auto_block_secs = ab, auto_block_threshold = 3, auto_block_window_secs = 60, rule_log = False\<rparr>"

definition sample_config :: "unit config" where
  "sample_config = \<lparr>queue_num = 0, queue_workers = 1, default_policy = Drop, conntrack = conntrack_default,
     rules = [sample_rule ''reject-telnet'' 23 Reject (Some 300), sample_rule ''allow-https'' 443 Accept None],
     aliases = [], trusted = [ipv4 10 0 0 9], log_max_per_sec = 200, metrics_listen = None,
     metrics_auth_token = None, quarantine_max_entries = 100000, sync_to_os_firewall = False\<rparr>"

definition sample_packet :: "ipaddr \<Rightarrow> u16 \<Rightarrow> parsed_packet" where
  "sample_packet src port = \<lparr>src_ip = src, dst_ip = ipv4 10 0 0 2, proto = L4Tcp, src_port = 12345,
     dst_port = port, pkt_tcp_flags = Some \<lparr>syn = True, ack = False, fin = False, rst = False\<rparr>,
     payload_len = 0\<rparr>"

lemmas sample_defs = sample_config_def sample_rule_def sample_packet_def

lemma sample_engine: "eng_rules (engine_new sample_config) =
    [sample_rule ''reject-telnet'' 23 Reject (Some 300), sample_rule ''allow-https'' 443 Accept None]"
  "eng_trusted (engine_new sample_config) = [ipv4 10 0 0 9]"
  "eng_default (engine_new sample_config) = Drop"
  "eng_aliases (engine_new sample_config) = []"
  "rate_limiter (engine_new sample_config) = []" "threshold_tracker (engine_new sample_config) = []"
  by (simp_all add: engine_new_def sample_config_def case_prod_beta Let_def alias_table_def rl_new_def tt_new_def)

lemma sample_first_match:
  "first_match (\<lambda>_ _. True) (engine_new sample_config) (sample_packet src port) =
     (if port = 23 then Some 0 else if port = 443 then Some 1 else None)"
  by (auto simp: first_match_def sample_engine rule_matches_def sample_rule_def sample_packet_def upt_rec)

lemma sample_eval: "src \<noteq> ipv4 10 0 0 9 \<Longrightarrow>
  evaluate (\<lambda>_ _. True) (engine_new sample_config) now (sample_packet src 443) =
    Some (\<lparr>dec_verdict = VAccept, dec_rule_name = ''allow-https'', dec_log = False, dec_auto_block = None\<rparr>,
          engine_new sample_config)"
  unfolding evaluate_linear_eq [OF engine_new_inv] evaluate_linear_def sample_first_match
  by (simp add: sample_engine apply_rule_eq limited_def sample_rule_def, simp add: sample_packet_def)

theorem accept_reasons_witness:
  "evaluate (\<lambda>_ _. True) (engine_new sample_config) 0 (sample_packet (ipv4 10 0 0 1) 443) =
     Some (\<lparr>dec_verdict = VAccept, dec_rule_name = ''allow-https'', dec_log = False, dec_auto_block = None\<rparr>,
           engine_new sample_config)
   \<and> (\<exists>i. first_match (\<lambda>_ _. True) (engine_new sample_config) (sample_packet (ipv4 10 0 0 1) 443) = Some i
        \<and> rule_action (eng_rules (engine_new sample_config) ! i) = Accept)"
proof -
  have ne: "ipv4 10 0 0 1 \<noteq> ipv4 10 0 0 9" by (simp add: ipv4_def)
  have "ipv4 10 0 0 1 \<notin> set (eng_trusted (engine_new sample_config))"
    by (simp add: sample_engine ne)
  then show ?thesis
    using accept_reasons [OF engine_new_inv sample_eval [OF ne, of 0]]
    by (simp add: sample_eval [OF ne] sample_first_match sample_engine sample_rule_def)
qed

section \<open>Automatic bans are earned\<close>

fun bans_of :: "('net \<Rightarrow> ipaddr \<Rightarrow> bool) \<Rightarrow> 'net engine \<Rightarrow> nat \<Rightarrow> ipaddr \<Rightarrow> eng_op list \<Rightarrow> decision list \<Rightarrow> nat" where
  "bans_of c e i a (EvPacket now pkt # ops) (d # ds) =
     (if src_ip pkt = a \<and> first_match c e pkt = Some i \<and> dec_auto_block d \<noteq> None then 1 else 0)
     + bans_of c e i a ops ds"
| "bans_of c e i a (EvMaintenance now # ops) ds = bans_of c e i a ops ds"
| "bans_of c e i a _ _ = 0"

fun matches_of :: "('net \<Rightarrow> ipaddr \<Rightarrow> bool) \<Rightarrow> 'net engine \<Rightarrow> nat \<Rightarrow> ipaddr \<Rightarrow> eng_op list \<Rightarrow> nat" where
  "matches_of c e i a [] = 0"
| "matches_of c e i a (EvPacket now pkt # ops) =
     (if src_ip pkt = a \<and> first_match c e pkt = Some i then 1 else 0) + matches_of c e i a ops"
| "matches_of c e i a (EvMaintenance now # ops) = matches_of c e i a ops"

lemma bans_of_cong: "same_policy e f \<Longrightarrow> bans_of c e i a ops ds = bans_of c f i a ops ds"
proof (induction ops arbitrary: ds)
  case (Cons x ops)
  then show ?case
    using first_match_cong [of e f c] by (cases x; cases ds) simp_all
qed simp

lemma matches_of_cong: "same_policy e f \<Longrightarrow> matches_of c e i a ops = matches_of c f i a ops"
proof (induction ops)
  case (Cons x ops)
  then show ?case using first_match_cong [of e f c] by (cases x) simp_all
qed simp

lemma stored_count_other: "k \<noteq> (j, b) \<Longrightarrow>
  stored_count (snd (record_and_check tr now j b th w)) k = stored_count tr k"
  by (simp add: stored_count_def record_and_check_other)

lemma stored_count_sweep: "tbl_ok tr \<Longrightarrow> stored_count (tt_sweep tr now w) k \<le> stored_count tr k"
  by (auto simp: stored_count_def tt_sweep_def tbl_get_retain split: option.split)

abbreviation counter :: "nat \<Rightarrow> ipaddr \<Rightarrow> 'net engine \<Rightarrow> nat" where
  "counter i a e \<equiv> stored_count (threshold_tracker e) (i, a)"

text \<open>One match raises the counter by at most one, and a ban resets a counter that was one
  short of the threshold.\<close>

lemma gate_auto_block_pays:
  assumes th: "1 < auto_block_threshold r" "counter i a e < unat (auto_block_threshold r)"
    and g: "gate_auto_block e now i r a = (ab, e')"
  shows "counter i a e' < unat (auto_block_threshold r)
    \<and> (if ab \<noteq> None then unat (auto_block_threshold r) else 0) + counter i a e' \<le> counter i a e + 1"
proof -
  let ?w = "from_secs (unat (auto_block_window_secs r))"
  have "unat (live_count (threshold_tracker e) now ?w (i, a)) \<le> counter i a e"
    by (rule live_le_stored)
  then show ?thesis
    using g th record_and_check_stored [OF th, of now ?w]
    by (auto simp: gate_auto_block_tracker word_less_nat_alt split: option.splits if_splits)
qed

lemma gate_auto_block_other: "(j, b) \<noteq> (i, a) \<Longrightarrow> counter i a (snd (gate_auto_block e now j r b)) = counter i a e"
  using stored_count_other [of "(i, a)" j b] by (auto simp: gate_auto_block_tracker split: option.split)

lemma apply_rule_pays:
  assumes "1 < auto_block_threshold r" "counter i (src_ip pkt) e < unat (auto_block_threshold r)"
    and "apply_rule e now i r pkt = (d, e')"
  shows "counter i (src_ip pkt) e' < unat (auto_block_threshold r)
    \<and> (if dec_auto_block d \<noteq> None then unat (auto_block_threshold r) else 0) + counter i (src_ip pkt) e'
        \<le> counter i (src_ip pkt) e + 1"
proof -
  obtain ok f where f: "limited e now i r pkt = (ok, f)" by fastforce
  have "threshold_tracker f = threshold_tracker e" using limited_policy(2) [of e now i r pkt] by (simp add: f)
  then show ?thesis
    using assms gate_auto_block_pays [where r = r and i = i and a = "src_ip pkt" and e = f and now = now]
    by (cases "gate_auto_block f now i r (src_ip pkt)")
      (fastforce simp: apply_rule_eq f Let_def split: if_splits)
qed

lemma apply_rule_other:
  "(j, src_ip pkt) \<noteq> (i, a) \<Longrightarrow> counter i a (snd (apply_rule e now j r pkt)) = counter i a e"
  by (simp add: apply_rule_eq case_prod_beta Let_def gate_auto_block_other limited_policy)

lemma linear_run_pays:
  assumes "engine_inv e" "th = auto_block_threshold (eng_rules e ! i)" "1 < th" "counter i a e < unat th"
  shows "unat th * bans_of c e i a ops (fst (linear_run c e ops)) \<le> counter i a e + matches_of c e i a ops"
  using assms
proof (induction ops arbitrary: e)
  case (Cons x ops)
  show ?case
  proof (cases x)
    case (EvMaintenance now)
    let ?m = "periodic_maintenance e now"
    have "counter i a ?m \<le> counter i a e"
      using Cons.prems(1) by (simp add: periodic_maintenance_def engine_inv_def stored_count_sweep)
    moreover have "unat th * bans_of c ?m i a ops (fst (linear_run c ?m ops)) \<le> counter i a ?m + matches_of c ?m i a ops"
      using Cons.prems calculation maintenance_policy [of e now]
      by (intro Cons.IH maintenance_inv) (simp_all add: same_policy_def)
    ultimately show ?thesis
      unfolding EvMaintenance linear_run.simps bans_of.simps matches_of.simps
        bans_of_cong [OF maintenance_policy] matches_of_cong [OF maintenance_policy] by linarith
  next
    case (EvPacket now pkt)
    obtain d e' where ev: "evaluate_linear c e now pkt = (d, e')" by fastforce
    have pol: "same_policy e' e" and inv: "engine_inv e'"
      using evaluate_linear_policy [of c e now pkt] evaluate_linear_inv [OF Cons.prems(1), of c now pkt]
      by (simp_all add: ev)
    have pay: "counter i a e' < unat th \<and>
      unat th * (if src_ip pkt = a \<and> first_match c e pkt = Some i \<and> dec_auto_block d \<noteq> None then 1 else 0)
        + counter i a e' \<le> counter i a e + (if src_ip pkt = a \<and> first_match c e pkt = Some i then 1 else 0)"
    proof (cases rule: evaluate_linear_cases [of pkt e c now])
      case (rule j)
      then have ap: "apply_rule e now j (eng_rules e ! j) pkt = (d, e')" using ev by simp
      show ?thesis
      proof (cases "(j, src_ip pkt) = (i, a)")
        case True
        then have "counter i (src_ip pkt) e' < unat th
          \<and> (if dec_auto_block d \<noteq> None then unat th else 0) + counter i (src_ip pkt) e'
              \<le> counter i (src_ip pkt) e + 1"
          unfolding Cons.prems(2) using Cons.prems ap
          by (intro apply_rule_pays [where now = now and d = d]) simp_all
        then show ?thesis using True rule(2) by auto
      next
        case False
        then show ?thesis
          using apply_rule_other [OF False, of e now "eng_rules e ! j"] ap rule(2) Cons.prems(4) by auto
      qed
    qed (use ev Cons.prems in \<open>auto simp: trusted_decision_def default_decision_def\<close>)
    have "unat th * bans_of c e' i a ops (fst (linear_run c e' ops)) \<le> counter i a e' + matches_of c e' i a ops"
      using Cons.prems pol pay by (intro Cons.IH inv) (simp_all add: same_policy_def)
    then show ?thesis
      using pay bans_of_cong [OF pol] matches_of_cong [OF pol]
      by (simp add: EvPacket ev case_prod_beta Let_def distrib_left split: if_splits)
  qed
qed simp

text \<open>C38: Over any run from a freshly loaded configuration, a rule with a ban threshold above one
  bans a source at most once per \<open>threshold\<close> packets of that source for which it was the first
  matching rule: fewer spoofed packets than the threshold never ban the spoofed address, and
  packets of other sources or for other rules never count.\<close>

theorem bans_are_earned:
  assumes "engine_run contains (engine_new cfg) ops = Some (ds, e)"
    and "1 < auto_block_threshold (rules cfg ! i)"
  shows "unat (auto_block_threshold (rules cfg ! i)) * bans_of contains (engine_new cfg) i a ops ds
    \<le> matches_of contains (engine_new cfg) i a ops"
proof -
  have ds: "ds = fst (linear_run contains (engine_new cfg) ops)"
    using assms(1) engine_run_linear [OF engine_new_inv, of contains cfg ops] by simp
  have new: "eng_rules (engine_new cfg) = rules cfg" "threshold_tracker (engine_new cfg) = []"
    by (simp_all add: engine_new_def case_prod_beta Let_def tt_new_def)
  then have "counter i a (engine_new cfg) = 0" by (simp add: stored_count_def)
  then show ?thesis
    using linear_run_pays [OF engine_new_inv [of cfg] refl, where i = i and a = a and c = contains and ops = ops]
      assms(2)
    by (auto simp: ds new word_less_nat_alt)
qed

theorem bans_are_earned_witness:
  "\<exists>ds e. engine_run (\<lambda>_ _. True) (engine_new sample_config)
       [EvPacket 0 (sample_packet (ipv4 10 0 0 1) 23), EvPacket 5 (sample_packet (ipv4 10 0 0 1) 23)] = Some (ds, e)
     \<and> bans_of (\<lambda>_ _. True) (engine_new sample_config) 0 (ipv4 10 0 0 1)
         [EvPacket 0 (sample_packet (ipv4 10 0 0 1) 23), EvPacket 5 (sample_packet (ipv4 10 0 0 1) 23)] ds = 0"
proof -
  let ?ops = "[EvPacket 0 (sample_packet (ipv4 10 0 0 1) 23), EvPacket 5 (sample_packet (ipv4 10 0 0 1) 23)]"
  obtain ds e where run: "engine_run (\<lambda>_ _. True) (engine_new sample_config) ?ops = Some (ds, e)"
    using engine_run_linear [OF engine_new_inv] by (metis surj_pair)
  have th: "auto_block_threshold (rules sample_config ! 0) = 3"
    by (simp add: sample_config_def sample_rule_def)
  have "matches_of (\<lambda>_ _. True) (engine_new sample_config) 0 (ipv4 10 0 0 1) ?ops \<le> 2"
    by simp
  then have "bans_of (\<lambda>_ _. True) (engine_new sample_config) 0 (ipv4 10 0 0 1) ?ops ds = 0"
    using bans_are_earned [OF run, of 0 "ipv4 10 0 0 1"] by (simp add: th)
  then show ?thesis using run by blast
qed

end
