(* ===== verification/Conntrack.thy ===== *)
theory Conntrack
  imports Packet Fw_Config
begin

text \<open>
  Connection tracking (\<^verbatim>\<open>firewall-perimeter/src/conntrack.rs\<close>): the direction-agnostic
  flow key, the simplified TCP state machine, admission against the table's capacity
  and the tiered expiry.
\<close>

datatype tcp_state = SynSent | SynAckSeen | Established | FinWait | Closed

record flow_key =
  fk_proto :: u8
  ip_lo :: ipaddr
  port_lo :: u16
  ip_hi :: ipaddr
  port_hi :: u16

definition flow_key_new :: "ipaddr \<Rightarrow> u16 \<Rightarrow> ipaddr \<Rightarrow> u16 \<Rightarrow> u8 \<Rightarrow> flow_key" where
  "flow_key_new a_ip a_port b_ip b_port p =
     (if (a_ip, a_port) \<le> (b_ip, b_port)
      then \<lparr>fk_proto = p, ip_lo = a_ip, port_lo = a_port, ip_hi = b_ip, port_hi = b_port\<rparr>
      else \<lparr>fk_proto = p, ip_lo = b_ip, port_lo = b_port, ip_hi = a_ip, port_hi = a_port\<rparr>)"

record flow_entry =
  fe_state :: tcp_state
  last_seen :: instant
  fe_packets :: u64
  fe_bytes :: u64

record conn_track =
  ct_table :: "(flow_key, flow_entry) tbl"
  ct_cfg :: conntrack_config

datatype lookup_result = LkNew | LkEstablished | LkTableFull

definition ct_new :: "conntrack_config \<Rightarrow> conn_track" where
  "ct_new cfg = \<lparr>ct_table = [], ct_cfg = cfg\<rparr>"

fun proto_num :: "l4proto \<Rightarrow> u8" where
  "proto_num L4Tcp = 6"
| "proto_num L4Udp = 17"
| "proto_num L4Icmp = 1"
| "proto_num (L4Other n) = n"

definition pkt_key :: "parsed_packet \<Rightarrow> flow_key" where
  "pkt_key pkt = flow_key_new (src_ip pkt) (src_port pkt) (dst_ip pkt) (dst_port pkt) (proto_num (proto pkt))"

definition next_tcp_state :: "tcp_state \<Rightarrow> tcp_flags option \<Rightarrow> tcp_state" where
  "next_tcp_state st flags =
     (case flags of
        None \<Rightarrow> st
      | Some f \<Rightarrow>
          if rst f \<or> fin f then FinWait
          else if syn f \<and> ack f then SynAckSeen
          else if st = SynAckSeen then Established
          else st)"

definition lookup_or_admit :: "conn_track \<Rightarrow> instant \<Rightarrow> parsed_packet \<Rightarrow> lookup_result \<times> conn_track" where
  "lookup_or_admit ct now pkt =
     (let key = pkt_key pkt
      in case tbl_get (ct_table ct) key of
           Some e \<Rightarrow>
             (LkEstablished, ct\<lparr>ct_table := tbl_insert (ct_table ct) key
                \<lparr>fe_state = next_tcp_state (fe_state e) (pkt_tcp_flags pkt), last_seen = now,
                 fe_packets = fe_packets e + 1, fe_bytes = fe_bytes e + of_nat (payload_len pkt)\<rparr>\<rparr>)
         | None \<Rightarrow>
             if tbl_len (ct_table ct) \<ge> max_entries (ct_cfg ct) then (LkTableFull, ct)
             else (LkNew, ct))"

definition initial_state :: "tcp_flags option \<Rightarrow> tcp_state" where
  "initial_state flags =
     (case flags of Some f \<Rightarrow> if syn f \<and> \<not> ack f then SynSent else Established | None \<Rightarrow> Established)"

definition record_new :: "conn_track \<Rightarrow> instant \<Rightarrow> parsed_packet \<Rightarrow> conn_track" where
  "record_new ct now pkt =
     ct\<lparr>ct_table := tbl_insert (ct_table ct) (pkt_key pkt)
        \<lparr>fe_state = initial_state (pkt_tcp_flags pkt), last_seen = now, fe_packets = 1,
         fe_bytes = of_nat (payload_len pkt)\<rparr>\<rparr>"

definition flow_timeout :: "conntrack_config \<Rightarrow> flow_key \<Rightarrow> flow_entry \<Rightarrow> duration" where
  "flow_timeout cfg key e =
     (if fk_proto key = 6
      then if fe_state e = Established then from_secs (unat (tcp_established_timeout_secs cfg))
           else from_secs (unat (tcp_transitory_timeout_secs cfg))
      else from_secs (unat (udp_timeout_secs cfg)))"

definition flow_fresh :: "conn_track \<Rightarrow> instant \<Rightarrow> flow_key \<Rightarrow> flow_entry \<Rightarrow> bool" where
  "flow_fresh ct now key e \<longleftrightarrow> duration_since now (last_seen e) < flow_timeout (ct_cfg ct) key e"

definition ct_sweep_expired :: "conn_track \<Rightarrow> instant \<Rightarrow> conn_track" where
  "ct_sweep_expired ct now = ct\<lparr>ct_table := tbl_retain (flow_fresh ct now) (ct_table ct)\<rparr>"

definition ct_len :: "conn_track \<Rightarrow> nat" where
  "ct_len ct = tbl_len (ct_table ct)"

section \<open>The flow key\<close>

lemma flow_key_new_sym: "flow_key_new a p b q n = flow_key_new b q a p n"
  by (auto simp: flow_key_new_def not_le)

text \<open>Two packets share a key exactly when they belong to the two directions of one
  5-tuple.\<close>

lemma flow_key_new_eq_iff:
  "flow_key_new a p b q n = flow_key_new a' p' b' q' n' \<longleftrightarrow>
     n = n' \<and> ((a, p) = (a', p') \<and> (b, q) = (b', q') \<or> (a, p) = (b', q') \<and> (b, q) = (a', p'))"
  by (auto simp: flow_key_new_def not_le split: if_splits)

definition reply_of :: "parsed_packet \<Rightarrow> parsed_packet \<Rightarrow> bool" where
  "reply_of p q \<longleftrightarrow> src_ip q = dst_ip p \<and> dst_ip q = src_ip p \<and> src_port q = dst_port p
     \<and> dst_port q = src_port p \<and> proto q = proto p"

lemma pkt_key_reply: "reply_of p q \<Longrightarrow> pkt_key q = pkt_key p"
  by (simp add: reply_of_def pkt_key_def flow_key_new_sym)

lemma lookup_after_record:
  "pkt_key q = pkt_key p \<Longrightarrow> fst (lookup_or_admit (record_new ct now p) now' q) = LkEstablished"
  by (simp add: lookup_or_admit_def record_new_def Let_def)

lemma lookup_unknown: "tbl_get (ct_table ct) (pkt_key p) = None \<Longrightarrow>
  lookup_or_admit ct now p = (if tbl_len (ct_table ct) \<ge> max_entries (ct_cfg ct) then LkTableFull else LkNew, ct)"
  by (simp add: lookup_or_admit_def)

lemma lookup_cfg [simp]: "ct_cfg (snd (lookup_or_admit ct now p)) = ct_cfg ct"
  by (simp add: lookup_or_admit_def Let_def split: option.split)

lemma lookup_keys: "tbl_keys (ct_table (snd (lookup_or_admit ct now p))) = tbl_keys (ct_table ct)"
  using tbl_get_None_iff [of "ct_table ct" "pkt_key p"]
  by (auto simp: lookup_or_admit_def Let_def split: option.split)

lemma lookup_tbl_ok: "tbl_ok (ct_table ct) \<Longrightarrow> tbl_ok (ct_table (snd (lookup_or_admit ct now p)))"
  by (simp add: lookup_or_admit_def Let_def split: option.split)

lemma lookup_len: "tbl_len (ct_table (snd (lookup_or_admit ct now p))) = tbl_len (ct_table ct)"
  by (simp add: lookup_or_admit_def Let_def tbl_len_insert split: option.split)

lemma lookup_established_iff:
  "fst (lookup_or_admit ct now p) = LkEstablished \<longleftrightarrow> pkt_key p \<in> tbl_keys (ct_table ct)"
  using tbl_get_None_iff [of "ct_table ct" "pkt_key p"]
  by (auto simp: lookup_or_admit_def Let_def split: option.split)

section \<open>Capacity\<close>

text \<open>The packet path as the worker drives it: a flow is recorded only after a lookup
  answered ``new'' and the policy accepted.\<close>

datatype ct_op = CtPacket instant parsed_packet bool | CtSweep instant

fun ct_step :: "conn_track \<Rightarrow> ct_op \<Rightarrow> conn_track" where
  "ct_step ct (CtPacket now p policy_accepts) =
     (let (r, ct') = lookup_or_admit ct now p
      in if r = LkNew \<and> policy_accepts then record_new ct' now p else ct')"
| "ct_step ct (CtSweep now) = ct_sweep_expired ct now"

lemma record_new_cfg [simp]: "ct_cfg (record_new ct now p) = ct_cfg ct"
  by (simp add: record_new_def)

lemma record_new_tbl_ok: "tbl_ok (ct_table ct) \<Longrightarrow> tbl_ok (ct_table (record_new ct now p))"
  by (simp add: record_new_def)

lemma record_new_len: "tbl_len (ct_table (record_new ct now p)) \<le> Suc (tbl_len (ct_table ct))"
  by (simp add: record_new_def tbl_len_insert)

lemma lookup_new_room:
  "lookup_or_admit ct now p = (LkNew, ct') \<Longrightarrow> ct' = ct \<and> tbl_len (ct_table ct) < max_entries (ct_cfg ct)"
  by (auto simp: lookup_or_admit_def Let_def split: option.splits if_splits)

lemma ct_step_packet: "ct_step ct (CtPacket now p acc) =
  (if fst (lookup_or_admit ct now p) = LkNew \<and> acc then record_new (snd (lookup_or_admit ct now p)) now p
   else snd (lookup_or_admit ct now p))"
  by (simp add: case_prod_beta)

lemma ct_step_len:
  assumes "tbl_len (ct_table s) \<le> max_entries (ct_cfg s)"
  shows "tbl_len (ct_table (ct_step s a)) \<le> max_entries (ct_cfg s)"
proof (cases a)
  case (CtPacket now p acc)
  obtain r ct' where l: "lookup_or_admit s now p = (r, ct')" by fastforce
  have "tbl_len (ct_table ct') = tbl_len (ct_table s)"
    using lookup_len [of s now p] by (simp add: l)
  then show ?thesis
    using assms lookup_new_room [of s now p ct'] record_new_len [of ct' now p]
    by (auto simp: CtPacket l)
next
  case (CtSweep now)
  then show ?thesis
    using assms tbl_len_retain_le [of "flow_fresh s now" "ct_table s"] by (simp add: ct_sweep_expired_def)
qed

interpretation ctb: bounded_table ct_table "\<lambda>ct. max_entries (ct_cfg ct)" ct_step
proof
  fix s :: conn_track and a
  show "tbl_ok (ct_table s) \<Longrightarrow> tbl_ok (ct_table (ct_step s a))"
    by (cases a) (simp_all add: ct_step_packet record_new_tbl_ok lookup_tbl_ok ct_sweep_expired_def
        del: ct_step.simps(1))
  show "max_entries (ct_cfg (ct_step s a)) = max_entries (ct_cfg s)"
    by (cases a) (simp_all add: ct_step_packet ct_sweep_expired_def del: ct_step.simps(1))
qed (rule ct_step_len)

section \<open>Expiry\<close>

lemma flow_fresh_antimono: "t \<le> t' \<Longrightarrow> flow_fresh ct t' k e \<Longrightarrow> flow_fresh ct t k e"
  using duration_since_mono [of t t' "last_seen e"] by (auto simp: flow_fresh_def)

interpretation cte: expiring_table ct_table flow_fresh ct_sweep_expired
  by unfold_locales
    (auto simp: ct_sweep_expired_def flow_fresh_def fun_eq_iff dest: flow_fresh_antimono [unfolded flow_fresh_def])

section \<open>The TCP state machine\<close>

lemma next_tcp_state_not_closed: "st \<noteq> Closed \<Longrightarrow> next_tcp_state st f \<noteq> Closed"
  by (auto simp: next_tcp_state_def split: option.split)

lemma next_tcp_state_established:
  "next_tcp_state st f = Established \<Longrightarrow> st = Established \<or> st = SynAckSeen"
  by (auto simp: next_tcp_state_def split: option.splits if_splits)

definition is_syn_ack :: "tcp_flags option \<Rightarrow> bool" where
  "is_syn_ack f \<longleftrightarrow> (\<exists>g. f = Some g \<and> syn g \<and> ack g \<and> \<not> rst g \<and> \<not> fin g)"

lemma next_tcp_state_synack: "next_tcp_state st f = SynAckSeen \<Longrightarrow> st = SynAckSeen \<or> is_syn_ack f"
  by (auto simp: next_tcp_state_def is_syn_ack_def split: option.splits if_splits)

text \<open>A half-open flow stays half-open until a SYN-ACK is seen.\<close>

text \<open> A connection that was opened by a SYN, or is being torn down, never becomes
  established without a SYN-ACK: whatever other segments are seen, it stays half open and with
  the short timeout.\<close>

theorem half_open_until_syn_ack:
  assumes "st \<in> {SynSent, FinWait}" "\<forall>f \<in> set fs. \<not> is_syn_ack f"
  shows "foldl next_tcp_state st fs \<in> {SynSent, FinWait}"
  using assms
proof (induction fs arbitrary: st)
  case (Cons f fs)
  have "next_tcp_state st f \<in> {SynSent, FinWait}"
    using Cons.prems by (auto simp: next_tcp_state_def is_syn_ack_def split: option.splits)
  then show ?case using Cons by simp
qed simp

theorem half_open_until_syn_ack_witness:
  "foldl next_tcp_state SynSent [Some \<lparr>syn = True, ack = False, fin = False, rst = False\<rparr>,
     Some \<lparr>syn = False, ack = True, fin = False, rst = False\<rparr>] \<in> {SynSent, FinWait}"
  by (rule half_open_until_syn_ack) (auto simp: is_syn_ack_def)

text \<open>Once a FIN or RST was seen, the flow never becomes established again without a new
  handshake.\<close>

lemma lookup_entry:
  assumes "tbl_get (ct_table ct) (pkt_key p) = Some e"
  shows "tbl_get (ct_table (snd (lookup_or_admit ct now p))) (pkt_key p) =
    Some \<lparr>fe_state = next_tcp_state (fe_state e) (pkt_tcp_flags p), last_seen = now,
      fe_packets = fe_packets e + 1, fe_bytes = fe_bytes e + of_nat (payload_len p)\<rparr>"
  using assms by (simp add: lookup_or_admit_def)

end
