(* ===== verification/Chan.thy ===== *)
theory Chan
  imports ASD_Prelude
begin

text \<open>
  The bounded channel of \<^verbatim>\<open>firewall-perimeter/src/chan.rs\<close>.  First its operations as one
  critical section each: every one of them holds the queue's lock from its first read of
  the queue to its last write, so a call, or one turn of the loop of a blocking call, is
  one step; a turn that would go to sleep on a condition variable answers \<open>WouldWait\<close>.
  Then the threads: an interleaving of these sections with the notifications that the
  code issues after it released the lock, with the two atomics that are written outside
  it, and with spurious wake-ups.
\<close>

section \<open>The operations\<close>

record 'a shared =
  queue :: "'a list"
  max_capacity :: nat
  sender_count :: nat
  receiver_alive :: bool

datatype 'a send_error = SendDisconnected 'a
datatype 'a try_send_error = TsDisconnected 'a | TsFull 'a
datatype 'a send_timeout_error = StDisconnected 'a | StTimeout 'a
datatype recv_error = RecvDisconnected
datatype try_recv_error = TrEmpty | TrDisconnected

datatype ('e, 'r) turn = Done "'e + 'r" | WouldWait

text \<open>\<open>None\<close> is the panic on capacity zero.\<close>

definition bounded :: "nat \<Rightarrow> 'a shared option" where
  "bounded max_elements =
     (if max_elements > 0
      then Some \<lparr>queue = [], max_capacity = max_elements, sender_count = 1, receiver_alive = True\<rparr>
      else None)"

definition try_send :: "'a shared \<Rightarrow> 'a \<Rightarrow> ('a try_send_error + unit) \<times> 'a shared" where
  "try_send ch item =
     (if \<not> receiver_alive ch then (Inl (TsDisconnected item), ch)
      else if length (queue ch) \<ge> max_capacity ch then (Inl (TsFull item), ch)
      else (Inr (), ch\<lparr>queue := queue ch @ [item]\<rparr>))"

definition send_turn :: "'a shared \<Rightarrow> 'a \<Rightarrow> ('a send_error, unit) turn \<times> 'a shared" where
  "send_turn ch item =
     (if \<not> receiver_alive ch then (Done (Inl (SendDisconnected item)), ch)
      else if length (queue ch) < max_capacity ch
      then (Done (Inr ()), ch\<lparr>queue := queue ch @ [item]\<rparr>)
      else (WouldWait, ch))"

definition send_timeout_turn ::
  "'a shared \<Rightarrow> 'a \<Rightarrow> instant \<Rightarrow> instant \<Rightarrow> ('a send_timeout_error, unit) turn \<times> 'a shared" where
  "send_timeout_turn ch item deadline now =
     (if \<not> receiver_alive ch then (Done (Inl (StDisconnected item)), ch)
      else if length (queue ch) < max_capacity ch
      then (Done (Inr ()), ch\<lparr>queue := queue ch @ [item]\<rparr>)
      else if deadline > now then (WouldWait, ch)
      else (Done (Inl (StTimeout item)), ch))"

definition recv_turn :: "'a shared \<Rightarrow> (recv_error, 'a) turn \<times> 'a shared" where
  "recv_turn ch =
     (case queue ch of
        item # rest \<Rightarrow> (Done (Inr item), ch\<lparr>queue := rest\<rparr>)
      | [] \<Rightarrow> if sender_count ch = 0 then (Done (Inl RecvDisconnected), ch) else (WouldWait, ch))"

definition try_recv :: "'a shared \<Rightarrow> (try_recv_error + 'a) \<times> 'a shared" where
  "try_recv ch =
     (case queue ch of
        item # rest \<Rightarrow> (Inr item, ch\<lparr>queue := rest\<rparr>)
      | [] \<Rightarrow> if sender_count ch = 0 then (Inl TrDisconnected, ch) else (Inl TrEmpty, ch))"

definition clone_sender :: "'a shared \<Rightarrow> 'a shared" where
  "clone_sender ch = ch\<lparr>sender_count := sender_count ch + 1\<rparr>"

text \<open>The flag says whether this was the last sender, which then signals the receiver.\<close>

definition drop_sender :: "'a shared \<Rightarrow> bool \<times> 'a shared" where
  "drop_sender ch = (sender_count ch = 1, ch\<lparr>sender_count := sender_count ch - 1\<rparr>)"

definition drop_receiver :: "'a shared \<Rightarrow> 'a shared" where
  "drop_receiver ch = ch\<lparr>receiver_alive := False\<rparr>"

lemma try_send_capacity [simp]: "max_capacity (snd (try_send ch x)) = max_capacity ch"
  by (simp add: try_send_def)

lemma try_send_bound: "length (queue ch) \<le> max_capacity ch \<Longrightarrow>
  length (queue (snd (try_send ch x))) \<le> max_capacity ch"
  by (simp add: try_send_def)

lemma try_send_cases:
  obtains "fst (try_send ch x) = Inr ()" "snd (try_send ch x) = ch\<lparr>queue := queue ch @ [x]\<rparr>"
      "receiver_alive ch" "length (queue ch) < max_capacity ch"
  | "fst (try_send ch x) = Inl (TsFull x)" "snd (try_send ch x) = ch"
      "receiver_alive ch" "max_capacity ch \<le> length (queue ch)"
  | "fst (try_send ch x) = Inl (TsDisconnected x)" "snd (try_send ch x) = ch" "\<not> receiver_alive ch"
  by (cases "receiver_alive ch"; cases "length (queue ch) \<ge> max_capacity ch") (auto simp: try_send_def)

section \<open>First in, first out\<close>

text \<open>
  The interface of a lossless queue: a step takes at most one item in at the back or out
  at the front.  Then what was accepted is what was delivered followed by what is still
  queued, in order.
\<close>

locale fifo =
  fixes content :: "'s \<Rightarrow> 'a list"
    and step :: "'s \<Rightarrow> 'op \<Rightarrow> 's"
    and accepted :: "'s \<Rightarrow> 'op \<Rightarrow> 'a list"
    and delivered :: "'s \<Rightarrow> 'op \<Rightarrow> 'a list"
  assumes step_content: "content s @ accepted s a = delivered s a @ content (step s a)"
begin

fun accepted_run :: "'s \<Rightarrow> 'op list \<Rightarrow> 'a list" where
  "accepted_run s [] = []"
| "accepted_run s (a # as) = accepted s a @ accepted_run (step s a) as"

fun delivered_run :: "'s \<Rightarrow> 'op list \<Rightarrow> 'a list" where
  "delivered_run s [] = []"
| "delivered_run s (a # as) = delivered s a @ delivered_run (step s a) as"

theorem fifo_run: "content s @ accepted_run s as = delivered_run s as @ content (foldl step s as)"
proof (induction "as" arbitrary: s)
  case (Cons a as)
  have "content s @ accepted_run s (a # as) = delivered s a @ content (step s a) @ accepted_run (step s a) as"
    using step_content [of s a] by (metis accepted_run.simps(2) append_assoc)
  then show ?case using Cons.IH [of "step s a"] by simp
qed simp

end

datatype 'a chan_op = ChTrySend 'a | ChSend 'a | ChSendTimeout 'a instant instant | ChRecv | ChTryRecv
  | ChClone | ChDropSender | ChDropReceiver

fun chan_step :: "'a shared \<Rightarrow> 'a chan_op \<Rightarrow> 'a shared" where
  "chan_step ch (ChTrySend x) = snd (try_send ch x)"
| "chan_step ch (ChSend x) = snd (send_turn ch x)"
| "chan_step ch (ChSendTimeout x d now) = snd (send_timeout_turn ch x d now)"
| "chan_step ch ChRecv = snd (recv_turn ch)"
| "chan_step ch ChTryRecv = snd (try_recv ch)"
| "chan_step ch ChClone = clone_sender ch"
| "chan_step ch ChDropSender = snd (drop_sender ch)"
| "chan_step ch ChDropReceiver = drop_receiver ch"

fun chan_accepted :: "'a shared \<Rightarrow> 'a chan_op \<Rightarrow> 'a list" where
  "chan_accepted ch (ChTrySend x) = (if fst (try_send ch x) = Inr () then [x] else [])"
| "chan_accepted ch (ChSend x) = (if fst (send_turn ch x) = Done (Inr ()) then [x] else [])"
| "chan_accepted ch (ChSendTimeout x d now) =
     (if fst (send_timeout_turn ch x d now) = Done (Inr ()) then [x] else [])"
| "chan_accepted ch _ = []"

fun chan_delivered :: "'a shared \<Rightarrow> 'a chan_op \<Rightarrow> 'a list" where
  "chan_delivered ch ChRecv = (case fst (recv_turn ch) of Done (Inr x) \<Rightarrow> [x] | _ \<Rightarrow> [])"
| "chan_delivered ch ChTryRecv = (case fst (try_recv ch) of Inr x \<Rightarrow> [x] | _ \<Rightarrow> [])"
| "chan_delivered ch _ = []"

lemmas chan_defs = try_send_def send_turn_def send_timeout_turn_def recv_turn_def try_recv_def
  clone_sender_def drop_sender_def drop_receiver_def

interpretation chf: fifo queue chan_step chan_accepted chan_delivered
proof
  fix s :: "'a shared" and a
  show "queue s @ chan_accepted s a = chan_delivered s a @ queue (chan_step s a)"
    by (cases a) (auto simp: chan_defs split: list.split)
qed

lemma chan_step_capacity: "max_capacity (chan_step ch a) = max_capacity ch"
  by (cases a) (auto simp: chan_defs split: list.split)

lemma chan_step_bound: "length (queue ch) \<le> max_capacity ch \<Longrightarrow>
  length (queue (chan_step ch a)) \<le> max_capacity ch"
  by (cases a) (auto simp: chan_defs split: list.split)

lemma chan_run_bound: "length (queue ch) \<le> max_capacity ch \<Longrightarrow>
  length (queue (foldl chan_step ch as)) \<le> max_capacity ch"
  by (induction "as" arbitrary: ch) (simp, metis chan_step_bound chan_step_capacity foldl_Cons)

section \<open>The threads\<close>

text \<open>
  The program counters of the calls in progress and of the receiver.  A call of the sending
  side is inside a blocking \<^verbatim>\<open>send\<close> or \<^verbatim>\<open>send_timeout\<close> (about to take the lock, or parked on
  \<^verbatim>\<open>not_full\<close>), past its push with the notification still to come, or past the decrement of
  a \<^verbatim>\<open>drop\<close> with the notification still to come; a slot that is idle holds no call.  Several
  calls may share one handle, as the worker threads share the quarantine's.  There is one
  receiver.  A parked thread may wake for no reason; \<^verbatim>\<open>notify_one\<close> wakes one parked thread,
  any one, if there is one.
\<close>

datatype 'a spc = SIdle | STry 'a | SParked 'a | SNotify | SDropNotify
datatype rpc = RIdle | RTry | RParked | RNotify | RDropNotify | RGone

record 'a system =
  chan :: "'a shared"
  calls :: "nat \<Rightarrow> 'a spc"
  receiver :: rpc

definition set_pc :: "'a system \<Rightarrow> nat \<Rightarrow> 'a spc \<Rightarrow> 'a system" where
  "set_pc s i pc = s\<lparr>calls := (calls s)(i := pc)\<rparr>"

definition init_system :: "nat \<Rightarrow> 'a system" where
  "init_system cap = \<lparr>chan = \<lparr>queue = [], max_capacity = cap, sender_count = 1, receiver_alive = True\<rparr>,
     calls = (\<lambda>_. SIdle), receiver = RIdle\<rparr>"

definition wake_receiver :: "'a system \<Rightarrow> 'a system" where
  "wake_receiver s = s\<lparr>receiver := if receiver s = RParked then RTry else receiver s\<rparr>"

fun wake_pc :: "'a spc \<Rightarrow> 'a spc" where
  "wake_pc (SParked x) = STry x"
| "wake_pc pc = pc"

definition wake_all_senders :: "'a system \<Rightarrow> 'a system" where
  "wake_all_senders s = s\<lparr>calls := wake_pc \<circ> calls s\<rparr>"

inductive chan_sys_step :: "'a system \<Rightarrow> 'a system \<Rightarrow> bool" where
  \<comment> \<open>the sending side\<close>
  try_send_ok: "calls s i = SIdle \<Longrightarrow> sender_count (chan s) > 0 \<Longrightarrow>
     try_send (chan s) x = (Inr (), ch') \<Longrightarrow> chan_sys_step s ((set_pc s i SNotify)\<lparr>chan := ch'\<rparr>)"
| send_call: "calls s i = SIdle \<Longrightarrow> sender_count (chan s) > 0 \<Longrightarrow> chan_sys_step s (set_pc s i (STry x))"
| send_push: "calls s i = STry x \<Longrightarrow> send_turn (chan s) x = (Done (Inr ()), ch') \<Longrightarrow>
     chan_sys_step s ((set_pc s i SNotify)\<lparr>chan := ch'\<rparr>)"
| send_disconnected: "calls s i = STry x \<Longrightarrow> send_turn (chan s) x = (Done (Inl e), ch') \<Longrightarrow>
     chan_sys_step s (set_pc s i SIdle)"
| send_park: "calls s i = STry x \<Longrightarrow> send_turn (chan s) x = (WouldWait, ch') \<Longrightarrow>
     chan_sys_step s (set_pc s i (SParked x))"
| send_timeout: "calls s i = STry x \<Longrightarrow>
     send_timeout_turn (chan s) x deadline now = (Done (Inl (StTimeout x)), ch') \<Longrightarrow>
     chan_sys_step s (set_pc s i SIdle)"
| sender_spurious: "calls s i = SParked x \<Longrightarrow> chan_sys_step s (set_pc s i (STry x))"
| notify_not_empty: "calls s i = SNotify \<Longrightarrow> chan_sys_step s (wake_receiver (set_pc s i SIdle))"
| clone: "sender_count (chan s) > 0 \<Longrightarrow> chan_sys_step s (s\<lparr>chan := clone_sender (chan s)\<rparr>)"
| drop_last: "calls s i = SIdle \<Longrightarrow> drop_sender (chan s) = (True, ch') \<Longrightarrow>
     chan_sys_step s ((set_pc s i SDropNotify)\<lparr>chan := ch'\<rparr>)"
| drop_other: "sender_count (chan s) > 0 \<Longrightarrow> drop_sender (chan s) = (False, ch') \<Longrightarrow>
     chan_sys_step s (s\<lparr>chan := ch'\<rparr>)"
| drop_notify: "calls s i = SDropNotify \<Longrightarrow> chan_sys_step s (wake_receiver (set_pc s i SIdle))"
  \<comment> \<open>the receiver\<close>
| recv_call: "receiver s = RIdle \<Longrightarrow> chan_sys_step s (s\<lparr>receiver := RTry\<rparr>)"
| recv_pop: "receiver s = RTry \<Longrightarrow> recv_turn (chan s) = (Done (Inr x), ch') \<Longrightarrow>
     chan_sys_step s (s\<lparr>receiver := RNotify, chan := ch'\<rparr>)"
| recv_disconnected: "receiver s = RTry \<Longrightarrow> recv_turn (chan s) = (Done (Inl e), ch') \<Longrightarrow>
     chan_sys_step s (s\<lparr>receiver := RIdle\<rparr>)"
| recv_park: "receiver s = RTry \<Longrightarrow> recv_turn (chan s) = (WouldWait, ch') \<Longrightarrow>
     chan_sys_step s (s\<lparr>receiver := RParked\<rparr>)"
| receiver_spurious: "receiver s = RParked \<Longrightarrow> chan_sys_step s (s\<lparr>receiver := RTry\<rparr>)"
| notify_not_full_one: "receiver s = RNotify \<Longrightarrow> calls s i = SParked x \<Longrightarrow>
     chan_sys_step s ((set_pc s i (STry x))\<lparr>receiver := RIdle\<rparr>)"
| notify_not_full_none: "receiver s = RNotify \<Longrightarrow> \<forall>i x. calls s i \<noteq> SParked x \<Longrightarrow>
     chan_sys_step s (s\<lparr>receiver := RIdle\<rparr>)"
| receiver_drop: "receiver s = RIdle \<Longrightarrow>
     chan_sys_step s (s\<lparr>receiver := RDropNotify, chan := drop_receiver (chan s)\<rparr>)"
| receiver_drop_notify: "receiver s = RDropNotify \<Longrightarrow>
     chan_sys_step s ((wake_all_senders s)\<lparr>receiver := RGone\<rparr>)"

inductive reachable :: "nat \<Rightarrow> 'a system \<Rightarrow> bool" for cap where
  reach_init: "reachable cap (init_system cap)"
| reach_step: "reachable cap s \<Longrightarrow> chan_sys_step s t \<Longrightarrow> reachable cap t"

subsection \<open>The invariant\<close>

definition trying :: "'a system \<Rightarrow> nat set" where
  "trying s = {i. \<exists>x. calls s i = STry x}"

definition parked :: "'a system \<Rightarrow> nat set" where
  "parked s = {i. \<exists>x. calls s i = SParked x}"

definition active :: "'a system \<Rightarrow> nat set" where
  "active s = {i. calls s i \<noteq> SIdle}"

definition notifying :: "'a system \<Rightarrow> nat set" where
  "notifying s = {i. calls s i = SNotify \<or> calls s i = SDropNotify}"

text \<open>A parked receiver with something to see has a notification on its way; parked senders
  with room in the queue are covered, slot by slot, by a receiver about to notify or by
  calls that are awake and will look at the queue; parked senders of a dead receiver have
  its wake-all on its way.\<close>

definition base_inv :: "nat \<Rightarrow> 'a system \<Rightarrow> bool" where
  "base_inv cap s \<longleftrightarrow> max_capacity (chan s) = cap \<and> length (queue (chan s)) \<le> cap \<and> finite (active s)
     \<and> (receiver_alive (chan s) \<longleftrightarrow> receiver s \<noteq> RDropNotify \<and> receiver s \<noteq> RGone)"

definition recv_inv :: "'a system \<Rightarrow> bool" where
  "recv_inv s \<longleftrightarrow>
     (receiver s = RParked \<and> (queue (chan s) \<noteq> [] \<or> sender_count (chan s) = 0) \<longrightarrow> notifying s \<noteq> {})"

definition send_inv :: "nat \<Rightarrow> 'a system \<Rightarrow> bool" where
  "send_inv cap s \<longleftrightarrow> (receiver_alive (chan s) \<and> parked s \<noteq> {} \<longrightarrow>
     cap \<le> length (queue (chan s)) + (if receiver s = RNotify then 1 else 0) + card (trying s))"

definition drop_inv :: "'a system \<Rightarrow> bool" where
  "drop_inv s \<longleftrightarrow> (receiver s = RGone \<longrightarrow> parked s = {})"

lemma trying_set_pc: "trying (set_pc s i pc) =
  (if \<exists>x. pc = STry x then insert i (trying s) else trying s - {i})"
  by (auto simp: trying_def set_pc_def)

lemma parked_set_pc: "parked (set_pc s i pc) =
  (if \<exists>x. pc = SParked x then insert i (parked s) else parked s - {i})"
  by (auto simp: parked_def set_pc_def)

lemma notifying_set_pc: "notifying (set_pc s i pc) =
  (if pc = SNotify \<or> pc = SDropNotify then insert i (notifying s) else notifying s - {i})"
  by (auto simp: notifying_def set_pc_def)

lemma slot_simps [simp]:
  "calls s i = SIdle \<Longrightarrow> notifying s - {i} = notifying s"
  "calls s i = STry x \<Longrightarrow> notifying s - {i} = notifying s"
  "calls s i = SParked x \<Longrightarrow> notifying s - {i} = notifying s"
  "calls s i = SIdle \<Longrightarrow> trying s - {i} = trying s"
  "calls s i = SParked x \<Longrightarrow> trying s - {i} = trying s"
  "calls s i = SNotify \<Longrightarrow> trying s - {i} = trying s"
  "calls s i = SDropNotify \<Longrightarrow> trying s - {i} = trying s"
  "calls s i = SIdle \<Longrightarrow> parked s - {i} = parked s"
  "calls s i = STry x \<Longrightarrow> parked s - {i} = parked s"
  "calls s i = SNotify \<Longrightarrow> parked s - {i} = parked s"
  "calls s i = SDropNotify \<Longrightarrow> parked s - {i} = parked s"
  by (auto simp: notifying_def trying_def parked_def)

lemma active_set_pc: "active (set_pc s i pc) = (if pc = SIdle then active s - {i} else insert i (active s))"
  by (auto simp: active_def set_pc_def)

lemma sys_update_sets [simp]:
  "trying (s\<lparr>chan := c\<rparr>) = trying s" "trying (s\<lparr>receiver := r\<rparr>) = trying s"
  "parked (s\<lparr>chan := c\<rparr>) = parked s" "parked (s\<lparr>receiver := r\<rparr>) = parked s"
  "active (s\<lparr>chan := c\<rparr>) = active s" "active (s\<lparr>receiver := r\<rparr>) = active s"
  "notifying (s\<lparr>chan := c\<rparr>) = notifying s" "notifying (s\<lparr>receiver := r\<rparr>) = notifying s"
  by (simp_all add: trying_def parked_def active_def notifying_def)

lemma set_pc_fields [simp]: "chan (set_pc s i pc) = chan s" "receiver (set_pc s i pc) = receiver s"
  "calls (set_pc s i pc) = (calls s)(i := pc)"
  by (simp_all add: set_pc_def)

lemma wake_receiver_fields [simp]: "chan (wake_receiver s) = chan s" "calls (wake_receiver s) = calls s"
  "trying (wake_receiver s) = trying s" "parked (wake_receiver s) = parked s"
  "active (wake_receiver s) = active s" "receiver (wake_receiver s) \<noteq> RParked"
  by (simp_all add: wake_receiver_def trying_def parked_def active_def)

lemma wake_receiver_eq: "receiver (wake_receiver s) = (if receiver s = RParked then RTry else receiver s)"
  by (simp add: wake_receiver_def)

lemma wake_pc_not_parked: "wake_pc pc \<noteq> SParked x"
  by (cases pc) auto

lemma wake_all_fields [simp]: "chan (wake_all_senders s) = chan s" "parked (wake_all_senders s) = {}"
  "active (wake_all_senders s) = active s"
proof -
  have "wake_pc pc = SIdle \<longleftrightarrow> pc = SIdle" for pc :: "'a spc" by (cases pc) auto
  then show "active (wake_all_senders s) = active s" by (simp add: active_def wake_all_senders_def)
qed (simp_all add: wake_all_senders_def parked_def wake_pc_not_parked)

lemma trying_sub_active: "trying s \<subseteq> active s"
  by (auto simp: trying_def active_def)

lemma finite_trying: "finite (active s) \<Longrightarrow> finite (trying s)"
  by (rule finite_subset [OF trying_sub_active])

lemma trying_memI: "calls s i = STry x \<Longrightarrow> i \<in> trying s"
  by (auto simp: trying_def)

lemma parked_memI: "calls s i = SParked x \<Longrightarrow> i \<in> parked s"
  by (auto simp: parked_def)

lemma card_trying_start:
  assumes "finite (active s)" "\<forall>x. calls s i \<noteq> STry x"
  shows "card (insert i (trying s)) = Suc (card (trying s))"
proof -
  have "i \<notin> trying s" using assms(2) by (simp add: trying_def)
  then show ?thesis by (rule card_insert_disjoint [OF finite_trying [OF assms(1)]])
qed

lemma card_trying_stop: "card (trying s) \<le> Suc (card (trying s - {i}))"
  by (cases "finite (trying s)") (auto simp: card_Diff_singleton_if)

lemma parked_empty_iff: "parked s = {} \<longleftrightarrow> (\<forall>i x. calls s i \<noteq> SParked x)"
  by (auto simp: parked_def)

lemmas turn_defs = try_send_def send_turn_def send_timeout_turn_def recv_turn_def drop_sender_def
  drop_receiver_def clone_sender_def

lemma base_inv_step: "chan_sys_step s t \<Longrightarrow> base_inv cap s \<Longrightarrow> base_inv cap t"
  by (induction rule: chan_sys_step.induct)
    (auto simp: base_inv_def active_set_pc turn_defs wake_receiver_eq split: if_splits list.splits)

lemma recv_inv_step: "chan_sys_step s t \<Longrightarrow> recv_inv s \<Longrightarrow> recv_inv t"
  by (induction rule: chan_sys_step.induct)
    (auto simp: recv_inv_def notifying_set_pc turn_defs split: if_splits list.splits)

lemma drop_inv_step:
  assumes "chan_sys_step s t" "drop_inv s" "base_inv cap s"
  shows "drop_inv t"
  using assms
  by (induction rule: chan_sys_step.induct)
    (auto simp: drop_inv_def base_inv_def parked_set_pc turn_defs wake_receiver_eq
      split: if_splits list.splits)

lemma send_inv_step:
  assumes "chan_sys_step s t" "send_inv cap s" "base_inv cap s"
  shows "send_inv cap t"
  using assms
proof (induction rule: chan_sys_step.induct)
  case (send_call s i x)
  then show ?case
    by (auto simp: send_inv_def base_inv_def trying_set_pc parked_set_pc card_trying_start)
next
  case (send_push s i x ch')
  then show ?case
    using card_trying_stop [of s i]
    by (auto simp: send_inv_def base_inv_def trying_set_pc parked_set_pc turn_defs simp del: card_Diff_insert
      split: if_splits)
next
  case (sender_spurious s i x)
  then show ?case
    using parked_memI [of s i x]
    by (auto simp: send_inv_def base_inv_def trying_set_pc parked_set_pc card_trying_start)
next
  case (notify_not_full_one s i x)
  then show ?case
    using parked_memI [of s i x]
    by (auto simp: send_inv_def base_inv_def trying_set_pc parked_set_pc card_trying_start)
next
  case (notify_not_full_none s)
  then have "parked s = {}" by (simp add: parked_empty_iff)
  then show ?case by (simp add: send_inv_def)
qed (auto simp: send_inv_def base_inv_def trying_set_pc parked_set_pc turn_defs wake_receiver_eq
    split: if_splits list.splits)

lemma init_inv: "base_inv cap (init_system cap)" "recv_inv (init_system cap)"
  "send_inv cap (init_system cap)" "drop_inv (init_system cap)"
  by (auto simp: init_system_def base_inv_def recv_inv_def send_inv_def drop_inv_def active_def
    parked_def)

lemma reachable_inv:
  "reachable cap s \<Longrightarrow> base_inv cap s \<and> recv_inv s \<and> send_inv cap s \<and> drop_inv s"
proof (induction rule: reachable.induct)
  case reach_init
  then show ?case by (simp add: init_inv)
next
  case (reach_step s t)
  then show ?case
    by (blast intro: base_inv_step recv_inv_step send_inv_step drop_inv_step)
qed

subsection \<open>No wake-up is lost\<close>

text \<open>C5: In every state that any interleaving of senders, the receiver, clones, drops and
  spurious wake-ups reaches, the queue holds at most its capacity; a receiver that sleeps
  while an item is queued or every sender is gone has a notification pending whose delivery
  wakes it; while a sender sleeps although the queue has room, the receiver is about to
  notify or another sender is awake and about to look at the queue; and senders asleep
  after the receiver is gone have its wake-all pending.\<close>

theorem no_lost_wakeup:
  assumes "reachable cap s"
  shows "length (queue (chan s)) \<le> cap
    \<and> (receiver s = RParked \<and> (queue (chan s) \<noteq> [] \<or> sender_count (chan s) = 0)
        \<longrightarrow> (\<exists>i. (calls s i = SNotify \<or> calls s i = SDropNotify)
              \<and> chan_sys_step s (wake_receiver (set_pc s i SIdle))
              \<and> receiver (wake_receiver (set_pc s i SIdle)) = RTry))
    \<and> (receiver_alive (chan s) \<and> calls s j = SParked x \<and> length (queue (chan s)) < cap
        \<longrightarrow> receiver s = RNotify \<or> (\<exists>i y. calls s i = STry y))
    \<and> (\<not> receiver_alive (chan s) \<and> calls s j = SParked x \<longrightarrow> receiver s = RDropNotify)"
proof (intro conjI impI)
  have base: "base_inv cap s" and recv: "recv_inv s" and send: "send_inv cap s" and gone: "drop_inv s"
    using reachable_inv [OF assms] by simp_all
  show "length (queue (chan s)) \<le> cap" using base by (simp add: base_inv_def)
  show "\<exists>i. (calls s i = SNotify \<or> calls s i = SDropNotify)
      \<and> chan_sys_step s (wake_receiver (set_pc s i SIdle))
      \<and> receiver (wake_receiver (set_pc s i SIdle)) = RTry"
    if p: "receiver s = RParked \<and> (queue (chan s) \<noteq> [] \<or> sender_count (chan s) = 0)"
  proof -
    obtain i where i: "calls s i = SNotify \<or> calls s i = SDropNotify"
      using recv p by (auto simp: recv_inv_def notifying_def)
    then have "chan_sys_step s (wake_receiver (set_pc s i SIdle))"
      by (blast intro: notify_not_empty drop_notify)
    then show ?thesis using i p by (auto simp: wake_receiver_eq)
  qed
  show "receiver s = RNotify \<or> (\<exists>i y. calls s i = STry y)"
    if "receiver_alive (chan s) \<and> calls s j = SParked x \<and> length (queue (chan s)) < cap"
  proof (rule ccontr)
    assume "\<not> (receiver s = RNotify \<or> (\<exists>i y. calls s i = STry y))"
    then have "card (trying s) = 0" "receiver s \<noteq> RNotify" by (simp_all add: trying_def)
    moreover have "parked s \<noteq> {}" using that parked_memI by fastforce
    ultimately show False using send that by (simp add: send_inv_def)
  qed
  show "receiver s = RDropNotify" if "\<not> receiver_alive (chan s) \<and> calls s j = SParked x"
    using that base gone parked_memI [of s j x] by (auto simp: base_inv_def drop_inv_def)
qed

text \<open>The property applies to the initial state of a channel of capacity two and to a state
  in which the receiver slept before the first item came.\<close>

theorem no_lost_wakeup_witness:
  "let s0 = init_system 2 :: nat system;
       s1 = s0\<lparr>receiver := RTry\<rparr>; s2 = s1\<lparr>receiver := RParked\<rparr>;
       s3 = (set_pc s2 0 SNotify)\<lparr>chan := snd (try_send (chan s2) 7)\<rparr>
   in reachable 2 s3 \<and> receiver s3 = RParked \<and> queue (chan s3) = [7]
      \<and> (\<exists>i. (calls s3 i = SNotify \<or> calls s3 i = SDropNotify)
              \<and> receiver (wake_receiver (set_pc s3 i SIdle)) = RTry)"
proof -
  define s0 where "s0 = (init_system 2 :: nat system)"
  define s1 where "s1 = s0\<lparr>receiver := RTry\<rparr>"
  define s2 where "s2 = s1\<lparr>receiver := RParked\<rparr>"
  define s3 where "s3 = (set_pc s2 0 SNotify)\<lparr>chan := snd (try_send (chan s2) 7)\<rparr>"
  have "reachable 2 s0" unfolding s0_def by (rule reach_init)
  moreover have "chan_sys_step s0 s1" unfolding s1_def by (rule recv_call) (simp add: s0_def init_system_def)
  moreover have "chan_sys_step s1 s2" unfolding s2_def
    by (rule recv_park [where ch' = "chan s1"])
      (simp_all add: s1_def s0_def init_system_def recv_turn_def)
  moreover have "chan_sys_step s2 s3" unfolding s3_def
    by (rule try_send_ok) (simp_all add: s2_def s1_def s0_def init_system_def try_send_def)
  ultimately have "reachable 2 s3" by (blast intro: reach_step)
  moreover have "receiver s3 = RParked" "queue (chan s3) = [7]"
    by (simp_all add: s3_def s2_def s1_def s0_def init_system_def try_send_def)
  ultimately have "reachable 2 s3 \<and> receiver s3 = RParked \<and> queue (chan s3) = [7]
      \<and> (\<exists>i. (calls s3 i = SNotify \<or> calls s3 i = SDropNotify)
              \<and> receiver (wake_receiver (set_pc s3 i SIdle)) = RTry)"
    using no_lost_wakeup [of 2 s3] by fastforce
  then show ?thesis by (simp only: s3_def s2_def s1_def s0_def Let_def)
qed

text \<open>C39: From any state of the channel and for any sequence of operations, the items that
  were queued followed by those that the senders were told are accepted are exactly the items
  delivered, in order, followed by what is still queued: nothing is lost, duplicated or
  reordered, and the queue never grows beyond its capacity.\<close>

theorem channel_fifo:
  assumes "length (queue ch) \<le> max_capacity ch"
  shows "queue ch @ chf.accepted_run ch ops = chf.delivered_run ch ops @ queue (foldl chan_step ch ops)
    \<and> length (queue (foldl chan_step ch ops)) \<le> max_capacity ch"
  using chf.fifo_run [of ch ops] chan_run_bound [OF assms] by simp

theorem channel_fifo_witness:
  "let ch = the (bounded 1) :: nat shared; ops = [ChTrySend 5, ChTrySend 6, ChRecv, ChTrySend 8] in
     chf.accepted_run ch ops = [5, 8] \<and> chf.delivered_run ch ops = [5]
     \<and> [] @ [5, 8] = [5] @ queue (foldl chan_step ch ops)"
proof -
  let ?ch = "the (bounded 1) :: nat shared" and ?ops = "[ChTrySend 5, ChTrySend 6, ChRecv, ChTrySend 8]"
  have a: "chf.accepted_run ?ch ?ops = [5, 8]" and d: "chf.delivered_run ?ch ?ops = [5]"
    and q: "queue ?ch = []" and c: "max_capacity ?ch = 1"
    by (simp_all add: bounded_def chan_defs)
  show ?thesis
    using channel_fifo [of ?ch ?ops] unfolding a d q c Let_def by simp
qed

end
