(* ===== verification/Quarantine.thy ===== *)
theory Quarantine
  imports Chan
begin

text \<open>
  The ban list of \<^verbatim>\<open>firewall-perimeter/src/quarantine.rs\<close> and its consumer, the worker of
  \<^verbatim>\<open>sync_worker.rs\<close> that replays bans into the host's own firewall.  The list is a table
  from addresses to the instant at which the ban ends; every change of it is also offered,
  without blocking, to the worker's bounded queue.
\<close>

datatype sync_job = SjBan ipaddr duration | SjUnban ipaddr

record quarantine =
  q_table :: "(ipaddr, instant) tbl"
  q_max_entries :: nat
  bans_total :: u64
  capacity_rejections :: u64
  sync_dropped :: u64
  os_sync :: "sync_job shared option"

definition quarantine_new :: "nat \<Rightarrow> quarantine" where
  "quarantine_new n = \<lparr>q_table = [], q_max_entries = n, bans_total = 0, capacity_rejections = 0,
     sync_dropped = 0, os_sync = None\<rparr>"

definition with_os_sync :: "nat \<Rightarrow> sync_job shared \<Rightarrow> quarantine" where
  "with_os_sync n tx = \<lparr>q_table = [], q_max_entries = n, bans_total = 0, capacity_rejections = 0,
     sync_dropped = 0, os_sync = Some tx\<rparr>"

definition enqueue_sync :: "quarantine \<Rightarrow> sync_job \<Rightarrow> quarantine" where
  "enqueue_sync q job =
     (case os_sync q of
        None \<Rightarrow> q
      | Some tx \<Rightarrow>
          (case try_send tx job of
             (Inl (TsFull _), tx') \<Rightarrow> q\<lparr>os_sync := Some tx', sync_dropped := sync_dropped q + 1\<rparr>
           | (_, tx') \<Rightarrow> q\<lparr>os_sync := Some tx'\<rparr>))"

definition ban :: "quarantine \<Rightarrow> instant \<Rightarrow> ipaddr \<Rightarrow> duration \<Rightarrow> bool \<times> quarantine" where
  "ban q now ip d =
     (let new_expiry = now + d
      in if tbl_get (q_table q) ip = None \<and> tbl_len (q_table q) \<ge> q_max_entries q
         then (False, q\<lparr>capacity_rejections := capacity_rejections q + 1\<rparr>)
         else
           let expiry = (case tbl_get (q_table q) ip of
                 Some expiry \<Rightarrow> if new_expiry > expiry then new_expiry else expiry
               | None \<Rightarrow> new_expiry)
           in (True, enqueue_sync
                 (q\<lparr>q_table := tbl_insert (q_table q) ip expiry, bans_total := bans_total q + 1\<rparr>)
                 (SjBan ip d)))"

definition is_active :: "quarantine \<Rightarrow> instant \<Rightarrow> ipaddr \<Rightarrow> bool" where
  "is_active q now ip = (case tbl_get (q_table q) ip of Some expiry \<Rightarrow> now < expiry | None \<Rightarrow> False)"

definition manual_unban :: "quarantine \<Rightarrow> ipaddr \<Rightarrow> bool \<times> quarantine" where
  "manual_unban q ip =
     (let was_present = tbl_get (q_table q) ip \<noteq> None;
          q' = q\<lparr>q_table := tbl_remove (q_table q) ip\<rparr>
      in (was_present, if was_present then enqueue_sync q' (SjUnban ip) else q'))"

definition q_fresh :: "quarantine \<Rightarrow> instant \<Rightarrow> ipaddr \<Rightarrow> instant \<Rightarrow> bool" where
  "q_fresh q now ip expiry \<longleftrightarrow> now < expiry"

definition q_sweep_expired :: "quarantine \<Rightarrow> instant \<Rightarrow> quarantine" where
  "q_sweep_expired q now =
     (let expired = map fst (filter (\<lambda>p. \<not> q_fresh q now (fst p) (snd p)) (q_table q));
          q' = q\<lparr>q_table := tbl_retain (q_fresh q now) (q_table q)\<rparr>
      in foldl (\<lambda>q ip. enqueue_sync q (SjUnban ip)) q' expired)"

definition active_count :: "quarantine \<Rightarrow> nat" where
  "active_count q = tbl_len (q_table q)"

section \<open>Field lemmas\<close>

lemma enqueue_sync_fields [simp]:
  "q_table (enqueue_sync q j) = q_table q" "q_max_entries (enqueue_sync q j) = q_max_entries q"
  "bans_total (enqueue_sync q j) = bans_total q"
  "capacity_rejections (enqueue_sync q j) = capacity_rejections q"
  by (auto simp: enqueue_sync_def split: option.split sum.split try_send_error.split prod.split)

lemma enqueue_fold_fields [simp]:
  "q_table (foldl (\<lambda>q ip. enqueue_sync q (SjUnban ip)) q ips) = q_table q"
  "q_max_entries (foldl (\<lambda>q ip. enqueue_sync q (SjUnban ip)) q ips) = q_max_entries q"
  by (induction ips arbitrary: q) simp_all

lemma q_sweep_table [simp]: "q_table (q_sweep_expired q now) = tbl_retain (q_fresh q now) (q_table q)"
  "q_max_entries (q_sweep_expired q now) = q_max_entries q"
  by (simp_all add: q_sweep_expired_def Let_def)

lemma ban_fields [simp]: "q_max_entries (snd (ban q now ip d)) = q_max_entries q"
  by (simp add: ban_def Let_def)

lemma manual_unban_fields [simp]: "q_max_entries (snd (manual_unban q ip)) = q_max_entries q"
  "q_table (snd (manual_unban q ip)) = tbl_remove (q_table q) ip"
  by (simp_all add: manual_unban_def Let_def)

lemma ban_refused_table: "\<not> fst (ban q now ip d) \<Longrightarrow> q_table (snd (ban q now ip d)) = q_table q"
  by (simp add: ban_def Let_def split: if_splits)

lemma ban_accepted_iff:
  "fst (ban q now ip d) \<longleftrightarrow> tbl_get (q_table q) ip \<noteq> None \<or> tbl_len (q_table q) < q_max_entries q"
  by (auto simp: ban_def Let_def)

text \<open>A recorded ban adds its own interval to what was banned before and changes nothing
  else: it extends and never shortens.\<close>

lemma is_active_ban:
  assumes "fst (ban q now ip d)"
  shows "is_active (snd (ban q now ip d)) t ip' \<longleftrightarrow> is_active q t ip' \<or> ip' = ip \<and> t < now + d"
  using assms by (auto simp: ban_def Let_def is_active_def split: option.splits if_splits)

lemma is_active_unban: "is_active (snd (manual_unban q ip)) t ip' \<longleftrightarrow> is_active q t ip' \<and> ip' \<noteq> ip"
  by (simp add: is_active_def)

lemma is_active_sweep:
  assumes "tbl_ok (q_table q)" "now \<le> t"
  shows "is_active (q_sweep_expired q now) t ip \<longleftrightarrow> is_active q t ip"
  using assms by (auto simp: is_active_def tbl_get_retain q_fresh_def split: option.splits)

section \<open>The operations as one alphabet\<close>

datatype q_op = QBan instant ipaddr duration | QUnban ipaddr | QSweep instant | QWorkerTakes

fun worker_takes :: "quarantine \<Rightarrow> quarantine" where
  "worker_takes q = q\<lparr>os_sync := map_option (\<lambda>tx. snd (try_recv tx)) (os_sync q)\<rparr>"

fun q_step :: "quarantine \<Rightarrow> q_op \<Rightarrow> quarantine" where
  "q_step q (QBan now ip d) = snd (ban q now ip d)"
| "q_step q (QUnban ip) = snd (manual_unban q ip)"
| "q_step q (QSweep now) = q_sweep_expired q now"
| "q_step q QWorkerTakes = worker_takes q"

lemma ban_tbl_ok: "tbl_ok (q_table q) \<Longrightarrow> tbl_ok (q_table (snd (ban q now ip d)))"
  by (simp add: ban_def Let_def)

lemma ban_len: "tbl_len (q_table q) \<le> q_max_entries q \<Longrightarrow>
  tbl_len (q_table (snd (ban q now ip d))) \<le> q_max_entries q"
  by (auto simp: ban_def Let_def tbl_len_insert)

interpretation qb: bounded_table q_table q_max_entries q_step
proof
  fix s :: quarantine and a
  show "tbl_ok (q_table s) \<Longrightarrow> tbl_ok (q_table (q_step s a))"
    by (cases a) (simp_all add: ban_tbl_ok)
  show "q_max_entries (q_step s a) = q_max_entries s"
    by (cases a) simp_all
  show "tbl_len (q_table s) \<le> q_max_entries s \<Longrightarrow> tbl_len (q_table (q_step s a)) \<le> q_max_entries s"
    by (cases a) (auto simp: ban_len intro: order_trans [OF tbl_len_remove_le] order_trans [OF tbl_len_retain_le])
qed

interpretation qe: expiring_table q_table q_fresh q_sweep_expired
  by unfold_locales (auto simp: q_fresh_def fun_eq_iff)

section \<open>Independence of the host firewall\<close>

text \<open>Two lists that agree on the table and its capacity, whatever the state of their sync
  queues.\<close>

definition same_bans :: "quarantine \<Rightarrow> quarantine \<Rightarrow> bool" where
  "same_bans q r \<longleftrightarrow> q_table q = q_table r \<and> q_max_entries q = q_max_entries r"

lemma same_bans_step: "same_bans q r \<Longrightarrow> same_bans (q_step q a) (q_step r a)"
  by (cases a) (auto simp: same_bans_def ban_def Let_def q_fresh_def [abs_def])

lemma same_bans_worker: "same_bans q r \<Longrightarrow> same_bans (worker_takes q) r"
  by (simp add: same_bans_def)

lemma same_bans_run: "same_bans q r \<Longrightarrow> same_bans (foldl q_step q as) (foldl q_step r as)"
  by (induction "as" arbitrary: q r) (simp_all add: same_bans_step)

lemma same_bans_skip_worker:
  "same_bans q r \<Longrightarrow> same_bans (foldl q_step q as) (foldl q_step r (filter (\<lambda>a. a \<noteq> QWorkerTakes) as))"
proof (induction "as" arbitrary: q r)
  case (Cons a as)
  then show ?case
    by (cases "a = QWorkerTakes") (simp_all add: same_bans_worker same_bans_step del: worker_takes.simps)
qed simp

section \<open>A ban holds\<close>

fun op_spares :: "ipaddr \<Rightarrow> instant \<Rightarrow> q_op \<Rightarrow> bool" where
  "op_spares ip t (QUnban ip') = (ip' \<noteq> ip)"
| "op_spares ip t (QSweep now) = (now \<le> t)"
| "op_spares ip t _ = True"

lemma is_active_step:
  assumes "tbl_ok (q_table q)" "op_spares ip t a" "is_active q t ip"
  shows "is_active (q_step q a) t ip"
proof (cases a)
  case (QBan now ip' d)
  show ?thesis
  proof (cases "fst (ban q now ip' d)")
    case True
    then show ?thesis using assms(3) by (simp add: QBan is_active_ban)
  next
    case False
    then show ?thesis using assms(3) by (simp add: QBan is_active_def ban_refused_table)
  qed
next
  case (QSweep now)
  then show ?thesis using assms by (simp add: is_active_sweep)
qed (use assms in \<open>simp_all add: is_active_def\<close>)

lemma is_active_run:
  assumes "tbl_ok (q_table q)" "\<forall>a \<in> set as. op_spares ip t a" "is_active q t ip"
  shows "is_active (foldl q_step q as) t ip"
  using assms
  by (induction "as" arbitrary: q) (simp_all add: is_active_step qb.step_ok)

text \<open> A ban that was recorded is in force at every instant before its end, whatever bans,
  unbans of other addresses, sweeps and worker activity come in between: later bans never
  shorten it, the sweep never removes it early and a full or dead sync queue never loses
  it.\<close>

theorem ban_holds:
  assumes "tbl_ok (q_table q)" "fst (ban q now ip d)" "t < now + d"
    "\<forall>a \<in> set as. op_spares ip t a"
  shows "is_active (foldl q_step (snd (ban q now ip d)) as) t ip"
  using assms by (intro is_active_run) (simp_all add: ban_tbl_ok is_active_ban)

theorem ban_holds_witness:
  "let q = with_os_sync 2 (the (bounded 1)); a = ipv4 10 0 0 1; b = ipv4 10 0 0 2;
       ops = [QBan 5 a 1, QSweep 50, QUnban b, QBan 60 b 9]
   in fst (ban q 0 a 100) \<and> is_active (foldl q_step (snd (ban q 0 a 100)) ops) 99 a"
proof -
  let ?q = "with_os_sync 2 (the (bounded 1))" and ?a = "ipv4 10 0 0 1" and ?b = "ipv4 10 0 0 2"
  have "fst (ban ?q 0 ?a 100)" by (simp add: with_os_sync_def ban_accepted_iff)
  moreover have "is_active (foldl q_step (snd (ban ?q 0 ?a 100))
      [QBan 5 ?a 1, QSweep 50, QUnban ?b, QBan 60 ?b 9]) 99 ?a"
    by (rule ban_holds) (use calculation in \<open>simp_all add: with_os_sync_def ipv4_def\<close>)
  ultimately show ?thesis by (simp only: Let_def)
qed

text \<open> Enforcement does not depend on the host firewall: two ban lists that agree on their
  table answer every later query alike after any operations, whether or not they have a sync
  queue, whatever is in it, and whether or not the worker ever takes a job.\<close>

theorem bans_independent_of_sync:
  assumes "q_table q = q_table r" "q_max_entries q = q_max_entries r"
  shows "is_active (foldl q_step q as) t ip
    = is_active (foldl q_step r (filter (\<lambda>a. a \<noteq> QWorkerTakes) as)) t ip"
  using same_bans_skip_worker [of q r "as"] assms by (simp add: same_bans_def is_active_def)

theorem bans_independent_of_sync_witness:
  "let q = with_os_sync 3 (the (bounded 1)); r = quarantine_new 3; a = ipv4 10 0 0 1; b = ipv4 10 0 0 2;
       ops = [QBan 0 a 9, QBan 0 b 9, QWorkerTakes, QSweep 4]
   in is_active (foldl q_step q ops) 8 b = is_active (foldl q_step r [QBan 0 a 9, QBan 0 b 9, QSweep 4]) 8 b"
  using bans_independent_of_sync [of "with_os_sync 3 (the (bounded 1))" "quarantine_new 3"
    "[QBan 0 (ipv4 10 0 0 1) 9, QBan 0 (ipv4 10 0 0 2) 9, QWorkerTakes, QSweep 4]" 8 "ipv4 10 0 0 2"]
  by (simp add: with_os_sync_def quarantine_new_def del: q_step.simps)

section \<open>The sync worker\<close>

text \<open>
  The worker's loop over the jobs it receives.  The backend, a command line tool of the host,
  is a parameter: its two calls on a state of its own, answering whether they succeeded.
  \<open>running\<close> is the shutdown flag as read before each job.  The result is the backend's
  state and the number of failures counted.
\<close>

record 'b os_firewall_sync =
  sync_ban :: "'b \<Rightarrow> ipaddr \<Rightarrow> duration \<Rightarrow> bool \<times> 'b"
  sync_unban :: "'b \<Rightarrow> ipaddr \<Rightarrow> bool \<times> 'b"

definition sync_queue_capacity :: nat where
  "sync_queue_capacity = 4096"

definition run_job :: "'b os_firewall_sync \<Rightarrow> 'b \<Rightarrow> sync_job \<Rightarrow> bool \<times> 'b" where
  "run_job backend b job = (case job of
     SjBan ip d \<Rightarrow> sync_ban backend b ip d
   | SjUnban ip \<Rightarrow> sync_unban backend b ip)"

fun worker_loop :: "'b os_firewall_sync \<Rightarrow> 'b \<times> u64 \<Rightarrow> (bool \<times> sync_job) list \<Rightarrow> 'b \<times> u64" where
  "worker_loop backend st [] = st"
| "worker_loop backend (b, failures) ((running, job) # jobs) =
     (if \<not> running then (b, failures)
      else
        let (ok, b') = run_job backend b job
        in worker_loop backend (b', if ok then failures else failures + 1) jobs)"

definition jobs_of :: "quarantine \<Rightarrow> sync_job list" where
  "jobs_of q = (case os_sync q of None \<Rightarrow> [] | Some tx \<Rightarrow> queue tx)"

definition sync_room :: "quarantine \<Rightarrow> nat \<Rightarrow> bool" where
  "sync_room q n = (case os_sync q of None \<Rightarrow> False
     | Some tx \<Rightarrow> receiver_alive tx \<and> length (queue tx) + n \<le> max_capacity tx)"

lemma enqueue_sync_room:
  assumes "sync_room q (Suc n)"
  shows "jobs_of (enqueue_sync q j) = jobs_of q @ [j]" "sync_room (enqueue_sync q j) n"
    "sync_dropped (enqueue_sync q j) = sync_dropped q"
  using assms by (auto simp: sync_room_def jobs_of_def enqueue_sync_def try_send_def split: option.splits)

lemma enqueue_fold_room:
  "sync_room q (length ips) \<Longrightarrow>
   jobs_of (foldl (\<lambda>q ip. enqueue_sync q (SjUnban ip)) q ips) = jobs_of q @ map SjUnban ips"
  by (induction ips arbitrary: q) (simp_all add: enqueue_sync_room)

lemma sweep_jobs:
  assumes "sync_room q (length (filter (\<lambda>p. \<not> q_fresh q now (fst p) (snd p)) (q_table q)))"
  shows "jobs_of (q_sweep_expired q now) =
    jobs_of q @ map (SjUnban \<circ> fst) (filter (\<lambda>p. \<not> q_fresh q now (fst p) (snd p)) (q_table q))"
proof -
  have room: "sync_room (q\<lparr>q_table := t\<rparr>) n = sync_room q n" "jobs_of (q\<lparr>q_table := t\<rparr>) = jobs_of q" for t n
    by (simp_all add: sync_room_def jobs_of_def)
  show ?thesis using assms
    by (simp add: q_sweep_expired_def Let_def enqueue_fold_room room)
qed

text \<open>While the worker runs, a job is applied to the backend exactly once and in order, and a
  failure of the backend never stops the loop.\<close>

lemma worker_loop_all:
  "worker_loop backend (b, n) (map (Pair True) jobs) =
     (foldl (\<lambda>b j. snd (run_job backend b j)) b jobs, snd (worker_loop backend (b, n) (map (Pair True) jobs)))"
  by (induction jobs arbitrary: b n) (simp_all add: case_prod_beta Let_def)

text \<open> A sweep leaves a query at any later instant unchanged, keeps exactly the bans that have
  not ended, and, when the sync queue has room, hands the worker one unban job for each ban
  that ended, after the jobs already queued; the worker then applies all of them to the
  host's firewall, in that order.\<close>

theorem sweep_expired_ok:
  fixes backend :: "'b os_firewall_sync"
  assumes "tbl_ok (q_table q)" "now \<le> t"
    and "expired = map fst (filter (\<lambda>p. snd p \<le> now) (q_table q))"
    and "sync_room q (length expired)"
  shows "is_active (q_sweep_expired q now) t ip = is_active q t ip
    \<and> (tbl_get (q_table (q_sweep_expired q now)) ip = Some e \<longleftrightarrow> tbl_get (q_table q) ip = Some e \<and> now < e)
    \<and> fst (worker_loop backend (b, 0) (map (Pair True) (jobs_of (q_sweep_expired q now)))) =
        foldl (\<lambda>b ip. snd (sync_unban backend b ip))
          (foldl (\<lambda>b j. snd (run_job backend b j)) b (jobs_of q)) expired"
proof (intro conjI)
  have ex: "map (SjUnban \<circ> fst) (filter (\<lambda>p. \<not> q_fresh q now (fst p) (snd p)) (q_table q)) = map SjUnban expired"
    "filter (\<lambda>p. \<not> q_fresh q now (fst p) (snd p)) (q_table q) = filter (\<lambda>p. snd p \<le> now) (q_table q)"
    by (simp_all add: assms(3) q_fresh_def not_less)
  have jobs: "jobs_of (q_sweep_expired q now) = jobs_of q @ map SjUnban expired"
    using assms(4) sweep_jobs [of q now] by (simp add: ex assms(3))
  show "is_active (q_sweep_expired q now) t ip = is_active q t ip" by (rule is_active_sweep [OF assms(1,2)])
  show "tbl_get (q_table (q_sweep_expired q now)) ip = Some e \<longleftrightarrow> tbl_get (q_table q) ip = Some e \<and> now < e"
    using qe.sweep_get [OF assms(1)] by (simp add: q_fresh_def)
  show "fst (worker_loop backend (b, 0) (map (Pair True) (jobs_of (q_sweep_expired q now)))) =
      foldl (\<lambda>b ip. snd (sync_unban backend b ip))
        (foldl (\<lambda>b j. snd (run_job backend b j)) b (jobs_of q)) expired"
    by (subst worker_loop_all) (simp add: jobs foldl_map run_job_def)
qed

theorem sweep_expired_ok_witness:
  "let a = ipv4 10 0 0 1; b = ipv4 10 0 0 2;
       q = (with_os_sync 4 (the (bounded 3)))\<lparr>q_table := [(a, 5), (b, 9)]\<rparr>;
       backend = \<lparr>sync_ban = (\<lambda>s ip d. (True, insert ip s)), sync_unban = (\<lambda>s ip. (True, s - {ip}))\<rparr>
   in is_active (q_sweep_expired q 6) 7 b = is_active q 7 b
      \<and> fst (worker_loop backend ({a, b}, 0) (map (Pair True) (jobs_of (q_sweep_expired q 6)))) = {a, b} - {a}"
proof -
  let ?a = "ipv4 10 0 0 1" and ?b = "ipv4 10 0 0 2"
  let ?q = "(with_os_sync 4 (the (bounded 3)))\<lparr>q_table := [(?a, 5), (?b, 9)]\<rparr>"
  let ?backend = "\<lparr>sync_ban = (\<lambda>s ip d. (True, insert ip s)), sync_unban = (\<lambda>s ip. (True, s - {ip}))\<rparr>
    :: ipaddr set os_firewall_sync"
  have "tbl_ok (q_table ?q)" "sync_room ?q (length [?a])" "jobs_of ?q = []"
    by (simp_all add: with_os_sync_def tbl_ok_def ipv4_def sync_room_def bounded_def jobs_of_def)
  then show ?thesis
    using sweep_expired_ok [of ?q 6 7 "[?a]" ?b 9 ?backend "{?a, ?b}"]
    unfolding Let_def by simp
qed

end
