(* ===== verification/Log_Gate.thy ===== *)
theory Log_Gate
  imports ASD_Prelude
begin

text \<open>
  The log throttle of \<^verbatim>\<open>firewall-perimeter/src/log_gate.rs\<close>.  A call that finds the window
  older than one second starts a new one; the counters are 64-bit atomics that wrap.
\<close>

record log_gate =
  max_per_sec :: u64
  window_start :: instant
  emitted_this_window :: u64
  suppressed_this_window :: u64

datatype gate_result = Emit | Suppress

definition lg_new :: "u64 \<Rightarrow> instant \<Rightarrow> log_gate" where
  "lg_new m now = \<lparr>max_per_sec = m, window_start = now, emitted_this_window = 0,
     suppressed_this_window = 0\<rparr>"

definition roll_window :: "log_gate \<Rightarrow> instant \<Rightarrow> log_gate" where
  "roll_window g now =
     (if duration_since now (window_start g) \<ge> from_secs 1
      then g\<lparr>window_start := now, emitted_this_window := 0, suppressed_this_window := 0\<rparr> else g)"

definition gate_check :: "log_gate \<Rightarrow> instant \<Rightarrow> gate_result \<times> log_gate" where
  "gate_check g now =
     (if max_per_sec g = 0 then (Emit, g)
      else
        let g = roll_window g now;
            before = emitted_this_window g;
            g = g\<lparr>emitted_this_window := before + 1\<rparr>
        in if before < max_per_sec g then (Emit, g)
           else (Suppress, g\<lparr>suppressed_this_window := suppressed_this_window g + 1\<rparr>))"

definition take_suppressed_count :: "log_gate \<Rightarrow> u64 \<times> log_gate" where
  "take_suppressed_count g = (suppressed_this_window g, g\<lparr>suppressed_this_window := 0\<rparr>)"

fun gate_run :: "log_gate \<Rightarrow> instant list \<Rightarrow> gate_result list \<times> log_gate" where
  "gate_run g [] = ([], g)"
| "gate_run g (t # ts) =
     (let (r, g') = gate_check g t; (rs, g'') = gate_run g' ts in (r # rs, g''))"

lemma gate_check_max: "max_per_sec (snd (gate_check g now)) = max_per_sec g"
  by (auto simp: gate_check_def roll_window_def Let_def)

lemma gate_run_unlimited: "max_per_sec g = 0 \<Longrightarrow> gate_run g ts = (replicate (length ts) Emit, g)"
  by (induction ts) (auto simp: gate_check_def)

lemma unat_Suc_word: "unat (w :: u64) + 1 < 2 ^ 64 \<Longrightarrow> unat (w + 1) = unat w + 1"
  by (simp add: unat_word_ariths)

text \<open>Inside one window the gate emits up to the limit and suppresses everything after,
  and the suppressed counter counts exactly the suppressed events.\<close>

text \<open> Inside one window the gate lets through exactly as many log lines as the limit
  still allows and suppresses all that follow, and its suppressed counter grows by exactly
  the number it suppressed.\<close>

theorem gate_run_window:
  assumes "max_per_sec g \<noteq> 0"
    and "\<forall>t \<in> set ts. duration_since t (window_start g) < from_secs 1"
    and "unat (emitted_this_window g) + length ts < 2 ^ 64"
    and "unat (suppressed_this_window g) + length ts < 2 ^ 64"
  shows "\<exists>g'. gate_run g ts =
      (replicate (min (length ts) (unat (max_per_sec g) - unat (emitted_this_window g))) Emit @
       replicate (length ts - (unat (max_per_sec g) - unat (emitted_this_window g))) Suppress, g')
    \<and> unat (suppressed_this_window g') = unat (suppressed_this_window g)
       + (length ts - (unat (max_per_sec g) - unat (emitted_this_window g)))
    \<and> unat (emitted_this_window g') = unat (emitted_this_window g) + length ts
    \<and> window_start g' = window_start g \<and> max_per_sec g' = max_per_sec g"
  using assms
proof (induction ts arbitrary: g)
  case (Cons t ts)
  have roll: "roll_window g t = g" using Cons.prems(2) by (simp add: roll_window_def)
  let ?e = "unat (emitted_this_window g)" and ?m = "unat (max_per_sec g)"
  have e: "unat (emitted_this_window g + 1) = ?e + 1"
    using Cons.prems(3) by (intro unat_Suc_word) simp
  have s: "unat (suppressed_this_window g + 1) = unat (suppressed_this_window g) + 1"
    using Cons.prems(4) by (intro unat_Suc_word) simp
  show ?case
  proof (cases "?e < ?m")
    case True
    then have step: "gate_check g t = (Emit, g\<lparr>emitted_this_window := emitted_this_window g + 1\<rparr>)"
      using Cons.prems(1) by (simp add: gate_check_def roll word_less_nat_alt)
    have "Suc (?m - Suc ?e) = ?m - ?e" using True by simp
    then show ?thesis
      using Cons.IH [of "g\<lparr>emitted_this_window := emitted_this_window g + 1\<rparr>"] Cons.prems e True
      by (auto simp: step simp flip: replicate_Suc)
  next
    case False
    then have step: "gate_check g t = (Suppress, g\<lparr>emitted_this_window := emitted_this_window g + 1,
        suppressed_this_window := suppressed_this_window g + 1\<rparr>)"
      using Cons.prems(1) by (simp add: gate_check_def roll word_less_nat_alt Let_def)
    show ?thesis
      using Cons.IH [of "g\<lparr>emitted_this_window := emitted_this_window g + 1,
          suppressed_this_window := suppressed_this_window g + 1\<rparr>"] Cons.prems e s False
      by (auto simp: step)
  qed
qed simp

theorem gate_run_window_witness:
  "\<exists>g'. gate_run (lg_new 2 0) [1, 2, 3] = ([Emit, Emit, Suppress], g') \<and> unat (suppressed_this_window g') = 1"
  using gate_run_window [of "lg_new 2 0" "[1, 2, 3]"]
  by (auto simp add: lg_new_def duration_since_def from_secs_def replicate_two simp del: gate_run.simps)

text \<open>The first event of the next window resets the suppressed count, read or not.\<close>

text \<open> The number of suppressed lines is lost at every roll of the window: a check that
  finds the window over resets the counter before anyone has read it, so the maintenance tick
  reports only what the last second suppressed.\<close>

theorem gate_check_forgets:
  assumes "max_per_sec g \<noteq> 0" "from_secs 1 \<le> duration_since now (window_start g)"
  shows "suppressed_this_window (snd (gate_check g now)) = 0"
  using assms by (simp add: gate_check_def roll_window_def Let_def word_gt_0)

theorem gate_check_forgets_witness:
  "suppressed_this_window (snd (gate_run (lg_new 1 0) [1, 2, 3])) = 2
   \<and> suppressed_this_window (snd (gate_check (snd (gate_run (lg_new 1 0) [1, 2, 3])) 2000000000)) = 0"
  using gate_check_forgets [of "snd (gate_run (lg_new 1 0) [1, 2, 3])" 2000000000]
  by (simp add: lg_new_def gate_check_def roll_window_def duration_since_def from_secs_def)

end
