(* ===== verification/Reject.thy ===== *)
theory Reject
  imports Packet
begin

text \<open>
  Active rejection (\<^verbatim>\<open>firewall-perimeter/src/reject.rs\<close>): which reply a rejected packet gets,
  the hand-built ICMPv4 message and its checksum.  The writers of the crate \<^verbatim>\<open>etherparse\<close>
  are the fields of the record \<open>packet_builder\<close>, \<open>None\<close> being a write error; the raw socket
  is the list of datagrams sent, and an error of \<^verbatim>\<open>send_to\<close> is only logged.
\<close>

record packet_builder =
  build_tcp_rst :: "ipaddr \<Rightarrow> ipaddr \<Rightarrow> u16 \<Rightarrow> u16 \<Rightarrow> bytes option"
  build_ip :: "ipaddr \<Rightarrow> ipaddr \<Rightarrow> u8 \<Rightarrow> bytes \<Rightarrow> bytes option"
  icmpv6_port_unreachable :: "ipaddr \<Rightarrow> ipaddr \<Rightarrow> bytes \<Rightarrow> bytes option"

section \<open>The Internet checksum\<close>

unbundle bit_operations_syntax

fun be_sum :: "u32 \<Rightarrow> bytes \<Rightarrow> u32" where
  "be_sum acc (a # b # rest) = be_sum (acc + (push_bit 8 (ucast a) OR ucast b)) rest"
| "be_sum acc [a] = acc + push_bit 8 (ucast a)"
| "be_sum acc [] = acc"

lemma low_half: "(s :: u32) AND 0xFFFF = take_bit 16 s"
  by (simp add: take_bit_eq_mask mask_eq_exp_minus_1)

lemma unat_drop_16: "unat (drop_bit 16 (s :: u32)) = unat s div 65536"
  by (simp add: drop_bit_eq_div unat_div_distrib)

lemma unat_take_16: "unat (take_bit 16 (s :: u32)) = unat s mod 65536"
  by (simp add: take_bit_eq_mod unat_mod_distrib)

lemma unat_fold:
  fixes s :: u32
  shows "unat ((s AND 0xFFFF) + drop_bit 16 s) = unat s mod 65536 + unat s div 65536"
proof -
  have "unat s < 2 ^ 32" using unsigned_less [of s, where ?'a = nat] by simp
  then have "unat s div 65536 < 65536" by (simp add: less_mult_imp_div_less)
  then have "unat s mod 65536 + unat s div 65536 < 131072"
    using mod_less_divisor [of 65536 "unat s"] by simp
  then show ?thesis
    unfolding low_half unat_word_ariths(1) unat_drop_16 unat_take_16 by simp
qed

lemma drop_16_iff: "drop_bit 16 (s :: u32) = 0 \<longleftrightarrow> unat s < 65536"
  using unat_drop_16 [of s] unsigned_eq_0_iff [of "drop_bit 16 s", where ?'a = nat]
  by (simp add: div_eq_0_iff)

lemma fold_carry_decreases: "drop_bit 16 s \<noteq> 0 \<Longrightarrow> unat (((s :: u32) AND 0xFFFF) + drop_bit 16 s) < unat s"
  unfolding unat_fold drop_16_iff
  using div_mult_mod_eq [of "unat s" 65536] div_greater_zero_iff [of "unat s" 65536] by linarith

function fold_carry :: "u32 \<Rightarrow> u32" where
  "fold_carry s = (if drop_bit 16 s \<noteq> 0 then fold_carry ((s AND 0xFFFF) + drop_bit 16 s) else s)"
  by auto
termination
proof (relation "measure unat")
  fix s :: u32 assume "drop_bit 16 s \<noteq> 0"
  then show "((s AND 0xFFFF) + drop_bit 16 s, s) \<in> measure unat"
    unfolding in_measure by (rule fold_carry_decreases)
qed simp

declare fold_carry.simps [simp del]

definition icmpv4_checksum :: "bytes \<Rightarrow> u16" where
  "icmpv4_checksum data = NOT (ucast (fold_carry (be_sum 0 data)))"

definition icmp_unreachable_v4 :: "bytes \<Rightarrow> bytes" where
  "icmp_unreachable_v4 original =
     (let echo = take 28 original;
          msg = [3, 3, 0, 0, 0, 0, 0, 0] @ echo;
          checksum = icmpv4_checksum msg
      in msg[2 := ucast (drop_bit 8 checksum), 3 := ucast (checksum AND 0xFF)])"

section \<open>The replies\<close>

definition send_tcp_rst :: "packet_builder \<Rightarrow> ipaddr \<Rightarrow> ipaddr \<Rightarrow> parsed_packet \<Rightarrow> (ipaddr \<times> bytes) list" where
  "send_tcp_rst pb src dst pkt =
     (case build_tcp_rst pb dst src (dst_port pkt) (src_port pkt) of
        None \<Rightarrow> [] | Some out \<Rightarrow> [(src, out)])"

definition send_icmp_unreachable_v4 :: "packet_builder \<Rightarrow> ipaddr \<Rightarrow> ipaddr \<Rightarrow> bytes \<Rightarrow> (ipaddr \<times> bytes) list" where
  "send_icmp_unreachable_v4 pb src dst original =
     (case build_ip pb dst src 1 (icmp_unreachable_v4 original) of
        None \<Rightarrow> [] | Some out \<Rightarrow> [(src, out)])"

definition send_icmpv6_unreachable :: "packet_builder \<Rightarrow> ipaddr \<Rightarrow> ipaddr \<Rightarrow> bytes \<Rightarrow> (ipaddr \<times> bytes) list" where
  "send_icmpv6_unreachable pb src dst original =
     (let echoed = take 64 original
      in case icmpv6_port_unreachable pb dst src echoed of
           None \<Rightarrow> []
         | Some header \<Rightarrow>
             (case build_ip pb dst src 58 (header @ echoed) of
                None \<Rightarrow> [] | Some out \<Rightarrow> [(src, out)]))"

definition reject :: "packet_builder \<Rightarrow> parsed_packet \<Rightarrow> bytes \<Rightarrow> (ipaddr \<times> bytes) list" where
  "reject pb pkt original =
     (case (src_ip pkt, dst_ip pkt) of
        (V4 s, V4 d) \<Rightarrow>
          (if proto pkt = L4Tcp then send_tcp_rst pb (V4 s) (V4 d) pkt
           else send_icmp_unreachable_v4 pb (V4 s) (V4 d) original)
      | (V6 s, V6 d) \<Rightarrow>
          (if proto pkt = L4Tcp then send_tcp_rst pb (V6 s) (V6 d) pkt
           else send_icmpv6_unreachable pb (V6 s) (V6 d) original)
      | _ \<Rightarrow> [])"

section \<open>The checksum verifies at the receiver\<close>

text \<open>The sum over natural numbers, which the 32-bit accumulator holds exactly for messages of
  up to 128 KiB.\<close>

fun nat_sum :: "bytes \<Rightarrow> nat" where
  "nat_sum (a # b # rest) = 256 * unat a + unat b + nat_sum rest"
| "nat_sum [a] = 256 * unat a"
| "nat_sum [] = 0"

lemma u8_lt: "unat (a :: u8) < 256"
  using unsigned_less [of a, where ?'a = nat] by simp

lemma be_pair: "unat (push_bit 8 (ucast (a :: u8)) OR ucast (b :: u8) :: u32) = 256 * unat a + unat b"
proof -
  have "push_bit 8 (ucast a :: u32) OR ucast b = push_bit 8 (ucast a) + ucast b"
    by (rule disjunctive_add [symmetric]) (auto simp: bit_push_bit_iff bit_ucast_iff dest: bit_imp_le_length)
  moreover have up: "unat (ucast (x :: u8) :: u32) = unat x" for x
    using u8_lt [of x] by (simp add: unsigned_ucast_eq take_bit_nat_eq_self)
  moreover have "unat (push_bit 8 (ucast a) :: u32) = 256 * unat a"
    using u8_lt [of a] up [of a] by (simp add: push_bit_eq_mult unat_word_ariths)
  ultimately show ?thesis using u8_lt [of a] u8_lt [of b] by (simp add: unat_word_ariths)
qed

lemma be_last: "unat (push_bit 8 (ucast (a :: u8)) :: u32) = 256 * unat a"
  using be_pair [of a 0] by simp

lemma nat_sum_le: "nat_sum data \<le> 65535 * ((length data + 1) div 2)"
proof (induction data rule: nat_sum.induct)
  case (1 a b rest)
  then show ?case using u8_lt [of a] u8_lt [of b] by simp
next
  case (2 a)
  then show ?case using u8_lt [of a] by simp
qed simp

lemma unat_be_sum: "unat acc + nat_sum data < 2 ^ 32 \<Longrightarrow> unat (be_sum acc data) = unat acc + nat_sum data"
  by (induction acc data rule: be_sum.induct) (simp_all add: unat_word_ariths be_pair be_last)

lemma fold_carry_spec: "unat (fold_carry s) < 65536 \<and> unat (fold_carry s) mod 65535 = unat s mod 65535
  \<and> (unat (fold_carry s) = 0 \<longleftrightarrow> unat s = 0)"
proof (induction s rule: fold_carry.induct)
  case (1 s)
  show ?case
  proof (cases "drop_bit 16 s = 0")
    case True
    then show ?thesis by (subst (1 2 3) fold_carry.simps) (simp add: drop_16_iff)
  next
    case False
    let ?s' = "(s AND 0xFFFF) + drop_bit 16 s"
    have "unat s = 65535 * (unat s div 65536) + (unat s mod 65536 + unat s div 65536)"
      using div_mult_mod_eq [of "unat s" 65536] by linarith
    then have "unat s mod 65535 = unat ?s' mod 65535"
      unfolding unat_fold by (metis mod_mult_self4)
    moreover have "unat ?s' = 0 \<longleftrightarrow> unat s = 0"
      unfolding unat_fold using div_mult_mod_eq [of "unat s" 65536] by (metis add_is_0 div_0 mod_0 mult_0)
    ultimately show ?thesis using 1 False by (subst (1 2 3) fold_carry.simps) simp
  qed
qed

lemma unat_not_u16: "unat (NOT (w :: u16)) = 65535 - unat w"
proof -
  have "NOT w = - 1 - w" by (simp add: not_eq_complement)
  then show ?thesis by (simp add: unat_sub word_order.extremum unsigned_minus_1_eq_mask mask_eq_exp_minus_1)
qed

lemma unat_ucast_16: "unat (x :: u32) < 65536 \<Longrightarrow> unat (ucast x :: u16) = unat x"
  by (simp add: unsigned_ucast_eq take_bit_nat_eq_self)

lemma mod_zero_top: "g mod k = 0 \<Longrightarrow> g \<noteq> 0 \<Longrightarrow> g < k + 1 \<Longrightarrow> g = (k :: nat)"
  using dvd_imp_le [of k g] by (simp add: dvd_eq_mod_eq_0)

lemma checksum_nat:
  assumes "nat_sum data < 2 ^ 32"
  shows "\<exists>f. unat (icmpv4_checksum data) = 65535 - f \<and> f < 65536 \<and> f mod 65535 = nat_sum data mod 65535
    \<and> (f = 0 \<longleftrightarrow> nat_sum data = 0)"
proof -
  let ?f = "unat (fold_carry (be_sum 0 data))"
  have f: "?f < 65536 \<and> ?f mod 65535 = nat_sum data mod 65535 \<and> (?f = 0 \<longleftrightarrow> nat_sum data = 0)"
    using fold_carry_spec [of "be_sum 0 data"] unat_be_sum [of 0 data] assms by simp
  have "unat (icmpv4_checksum data) = 65535 - ?f"
    unfolding icmpv4_checksum_def unat_not_u16 unat_ucast_16 [OF conjunct1 [OF f]] ..
  from conjI [OF this f] show ?thesis by (rule exI)
qed

lemma two_bytes: "256 * unat (ucast (drop_bit 8 (c :: u16)) :: u8) + unat (ucast (c AND 0xFF) :: u8) = unat c"
proof -
  have c: "unat c < 65536" using unsigned_less [of c, where ?'a = nat] by simp
  have "c AND 0xFF = take_bit 8 c" by (simp add: take_bit_eq_mask mask_eq_exp_minus_1)
  then have "unat (c AND 0xFF) = unat c mod 256" by (simp add: take_bit_eq_mod unat_mod_distrib)
  then have "unat (ucast (c AND 0xFF) :: u8) = unat c mod 256"
    by (simp add: unsigned_ucast_eq take_bit_eq_mod)
  moreover have "unat (drop_bit 8 c) = unat c div 256" by (simp add: drop_bit_eq_div unat_div_distrib)
  then have "unat (ucast (drop_bit 8 c) :: u8) = unat c div 256"
    using c by (simp add: unsigned_ucast_eq take_bit_eq_mod less_mult_imp_div_less)
  ultimately show ?thesis by simp
qed

text \<open>Whatever the echoed bytes, a receiver that sums the whole message, checksum included, gets
  the all-ones word that RFC 1071 asks for, so that the checksum of the message is zero.\<close>

lemma checksum_verifies:
  assumes "nat_sum (a # b # 0 # 0 # rest) < 2 ^ 31" "(a, b) \<noteq> (0, 0)"
    and "c = icmpv4_checksum (a # b # 0 # 0 # rest)"
  shows "icmpv4_checksum (a # b # ucast (drop_bit 8 c) # ucast (c AND 0xFF) # rest) = 0"
proof -
  let ?n = "nat_sum (a # b # 0 # 0 # rest)"
  let ?m = "nat_sum (a # b # ucast (drop_bit 8 c) # ucast (c AND 0xFF) # rest)"
  obtain f where f: "unat c = 65535 - f" "f < 65536" "f mod 65535 = ?n mod 65535" "f = 0 \<longleftrightarrow> ?n = 0"
    using checksum_nat [of "a # b # 0 # 0 # rest"] assms(1,3) by auto
  have m: "?m = ?n + unat c" using two_bytes [of c] by simp
  have "(a, b) \<noteq> (0, 0) \<Longrightarrow> ?n \<noteq> 0" by (auto simp: unsigned_eq_0_iff)
  then have pos: "?m \<noteq> 0" using assms(2) by (simp only: m add_is_0) blast
  have "(?m + f) mod 65535 = (?n + 65535) mod 65535" using m f(1,2) by simp
  then have "(?m + f) mod 65535 = f mod 65535" using f(3) by simp
  then have dvd: "?m mod 65535 = 0"
    by (metis add_diff_cancel_right' diff_add_inverse2 mod_eq_dvd_iff_nat le_add2 mod_0_imp_dvd dvd_imp_mod_0)
  have "?m < 2 ^ 32" using m f(1) assms(1) by simp
  then obtain g where g: "unat (icmpv4_checksum (a # b # ucast (drop_bit 8 c) # ucast (c AND 0xFF) # rest)) = 65535 - g"
    "g < 65536" "g mod 65535 = ?m mod 65535" "g = 0 \<longleftrightarrow> ?m = 0"
    using checksum_nat [OF \<open>?m < 2 ^ 32\<close>] by (elim exE conjE)
  have "g = 65535" using mod_zero_top [of g 65535] g(2-4) dvd pos by simp
  then show ?thesis using g(1) by (simp add: unsigned_eq_0_iff)
qed

lemma icmp_unreachable_v4_shape:
  "icmp_unreachable_v4 original =
     (let rest = [0, 0, 0, 0] @ take 28 original; c = icmpv4_checksum (3 # 3 # 0 # 0 # rest)
      in 3 # 3 # ucast (drop_bit 8 c) # ucast (c AND 0xFF) # rest)"
  by (simp add: icmp_unreachable_v4_def Let_def)

text \<open> The hand-built ICMPv4 port-unreachable message is type 3 code 3, carries at most the
  first 28 bytes of the rejected packet, and its checksum verifies: recomputing the Internet
  checksum over the whole message gives zero, whatever bytes are echoed.\<close>

theorem icmp_unreachable_ok:
  "take 2 (icmp_unreachable_v4 original) = [3, 3]
   \<and> drop 8 (icmp_unreachable_v4 original) = take 28 original
   \<and> length (icmp_unreachable_v4 original) \<le> 36
   \<and> icmpv4_checksum (icmp_unreachable_v4 original) = 0"
proof -
  let ?rest = "[0, 0, 0, 0] @ take 28 original"
  have "nat_sum (3 # 3 # 0 # 0 # ?rest) \<le> 65535 * ((length (3 # 3 # 0 # 0 # ?rest :: bytes) + 1) div 2)"
    by (rule nat_sum_le)
  also have "\<dots> \<le> 65535 * 18" by (intro mult_le_mono2 div_le_mono [of _ 37, simplified]) simp
  finally have "nat_sum (3 # 3 # 0 # 0 # ?rest) < 2 ^ 31" by simp
  then have "icmpv4_checksum (icmp_unreachable_v4 original) = 0"
    unfolding icmp_unreachable_v4_shape Let_def by (intro checksum_verifies) simp_all
  then show ?thesis by (simp add: icmp_unreachable_v4_shape Let_def)
qed

text \<open>A reply goes to the source of the rejected packet and to nobody else, at most once.\<close>

lemma reject_to_source: "(a, out) \<in> set (reject pb pkt original) \<Longrightarrow> a = src_ip pkt"
  by (auto simp: reject_def send_tcp_rst_def send_icmp_unreachable_v4_def send_icmpv6_unreachable_def Let_def
      split: ipaddr.splits option.splits if_splits)

lemma reject_once: "length (reject pb pkt original) \<le> 1"
  by (auto simp: reject_def send_tcp_rst_def send_icmp_unreachable_v4_def send_icmpv6_unreachable_def Let_def
      split: ipaddr.splits option.splits if_splits)

end
