(* ===== verification/Ingestion.thy ===== *)
theory Ingestion
  imports Packet
begin

text \<open>
  The hand-over of accepted packets to the analysis lanes
  (\<^verbatim>\<open>firewall-perimeter/src/ingestion.rs\<close>).  The broadcast channel is tokio's: a send never
  blocks and its result is ignored, so the model keeps the sequence of packets sent; what a
  receiver gets from it is the list of events that \<open>recv_lane\<close> consumes.
\<close>

datatype ing_protocol = IpTcp | IpUdp | IpIcmp | IpOther u8

fun ing_protocol_from :: "l4proto \<Rightarrow> ing_protocol" where
  "ing_protocol_from L4Tcp = IpTcp"
| "ing_protocol_from L4Udp = IpUdp"
| "ing_protocol_from L4Icmp = IpIcmp"
| "ing_protocol_from (L4Other n) = IpOther n"

record ing_flow_key =
  ifk_src_ip :: ipaddr
  ifk_dst_ip :: ipaddr
  ifk_src_port :: u16
  ifk_dst_port :: u16
  ifk_protocol :: ing_protocol

definition ing_flow_key_from :: "parsed_packet \<Rightarrow> ing_flow_key" where
  "ing_flow_key_from p = \<lparr>ifk_src_ip = src_ip p, ifk_dst_ip = dst_ip p, ifk_src_port = src_port p,
     ifk_dst_port = dst_port p, ifk_protocol = ing_protocol_from (proto p)\<rparr>"

datatype ing_direction = Ingress | Egress

record ingested_packet =
  ing_flow :: ing_flow_key
  captured_at :: instant
  ifindex :: u32
  ing_direction :: ing_direction
  ing_payload :: bytes
  ing_seq :: u64

definition from_accepted :: "parsed_packet \<Rightarrow> bytes \<Rightarrow> u32 \<Rightarrow> ing_direction \<Rightarrow> instant \<Rightarrow> ingested_packet" where
  "from_accepted parsed raw ifx dir now =
     \<lparr>ing_flow = ing_flow_key_from parsed, captured_at = now, ifindex = ifx, ing_direction = dir,
      ing_payload = raw, ing_seq = 0\<rparr>"

record lane_metrics =
  delivered :: u64
  lagged :: u64

record ingestion_pipeline =
  ing_tx :: "ingested_packet list"
  ing_captured :: u64
  ing_bytes :: u64
  lane_nsm :: lane_metrics
  lane_clamav :: lane_metrics
  lane_spectral :: lane_metrics
  next_seq :: u64

definition ingestion_new :: ingestion_pipeline where
  "ingestion_new = (let lane = \<lparr>delivered = 0, lagged = 0\<rparr>
     in \<lparr>ing_tx = [], ing_captured = 0, ing_bytes = 0, lane_nsm = lane, lane_clamav = lane,
         lane_spectral = lane, next_seq = 0\<rparr>)"

text \<open>The sample values of the exposition text, in its order.\<close>

definition snapshot :: "ingestion_pipeline \<Rightarrow> u64 list" where
  "snapshot pl = [ing_captured pl, ing_bytes pl, delivered (lane_nsm pl), delivered (lane_clamav pl),
     delivered (lane_spectral pl), lagged (lane_nsm pl), lagged (lane_clamav pl), lagged (lane_spectral pl)]"

definition submit :: "ingestion_pipeline \<Rightarrow> ingested_packet \<Rightarrow> ingestion_pipeline" where
  "submit pl pkt =
     pl\<lparr>next_seq := next_seq pl + 1, ing_captured := ing_captured pl + 1,
        ing_bytes := ing_bytes pl + of_nat (length (ing_payload pkt)),
        ing_tx := ing_tx pl @ [pkt\<lparr>ing_seq := next_seq pl\<rparr>]\<rparr>"

datatype lane_event = LaneOk ingested_packet | LaneLagged u64 | LaneClosed

datatype lane_result = LanePacket ingested_packet | LaneEnd | LaneWaiting

text \<open>The events left over are the ones the next call sees; \<open>LaneWaiting\<close> is a call that is
  still blocked after all of them.\<close>

fun recv_lane :: "lane_event list \<Rightarrow> lane_metrics \<Rightarrow> lane_result \<times> lane_metrics \<times> lane_event list" where
  "recv_lane [] m = (LaneWaiting, m, [])"
| "recv_lane (LaneOk pkt # es) m = (LanePacket pkt, m\<lparr>delivered := delivered m + 1\<rparr>, es)"
| "recv_lane (LaneLagged n # es) m = recv_lane es (m\<lparr>lagged := lagged m + n\<rparr>)"
| "recv_lane (LaneClosed # es) m = (LaneEnd, m, es)"

section \<open>Sequence numbers\<close>

definition ing_inv :: "ingestion_pipeline \<Rightarrow> bool" where
  "ing_inv pl \<longleftrightarrow> map ing_seq (ing_tx pl) = map of_nat [0..<length (ing_tx pl)]
     \<and> next_seq pl = of_nat (length (ing_tx pl)) \<and> ing_captured pl = of_nat (length (ing_tx pl))
     \<and> ing_bytes pl = of_nat (sum_list (map (length \<circ> ing_payload) (ing_tx pl)))"

lemma ingestion_new_inv [simp]: "ing_inv ingestion_new"
  by (simp add: ing_inv_def ingestion_new_def Let_def)

lemma submit_inv: "ing_inv pl \<Longrightarrow> ing_inv (submit pl pkt)"
  by (simp add: ing_inv_def submit_def)

text \<open>As long as fewer than \<open>2 ^ 64\<close> packets were submitted, their numbers are distinct and
  increase by one, so a consumer sees a gap for every packet its lane dropped.\<close>

lemma seq_gapless:
  assumes "ing_inv pl" "length (ing_tx pl) \<le> 2 ^ 64" "i < length (ing_tx pl)"
  shows "unat (ing_seq (ing_tx pl ! i)) = i"
proof -
  have "map ing_seq (ing_tx pl) ! i = map of_nat [0..<length (ing_tx pl)] ! i"
    using assms(1) by (simp add: ing_inv_def)
  then have "ing_seq (ing_tx pl ! i) = of_nat i" using assms(3) by simp
  then show ?thesis using assms(2,3) by (simp add: unat_of_nat)
qed

section \<open>A lagging lane\<close>

fun lag_sum :: "lane_event list \<Rightarrow> u64" where
  "lag_sum [] = 0"
| "lag_sum (LaneLagged n # es) = n + lag_sum es"
| "lag_sum (LaneOk _ # es) = 0"
| "lag_sum (LaneClosed # es) = 0"

text \<open>A lag is counted and skipped, never an error: the call returns the next packet.\<close>

lemma recv_lane_skips:
  "recv_lane (map LaneLagged ns @ LaneOk pkt # es) m =
     (LanePacket pkt, m\<lparr>delivered := delivered m + 1, lagged := lagged m + sum_list ns\<rparr>, es)"
  by (induction ns arbitrary: m) (simp_all add: add.assoc)

end
