(* ===== verification/Ip_Parse.thy ===== *)
theory Ip_Parse
  imports Text
begin

text \<open>
  The textual form of IP addresses as Rust's standard library reads it
  (\<^verbatim>\<open>impl FromStr for IpAddr\<close>): dotted decimal without leading zeros, and colon-separated
  hexadecimal groups with at most one double colon and an optional embedded IPv4 tail.  A
  reader takes the remaining text and answers a value with what is left.
\<close>

type_synonym 'a reader = "string \<Rightarrow> ('a \<times> string) option"

definition digit_of :: "nat \<Rightarrow> char \<Rightarrow> nat option" where
  "digit_of radix c =
     (let k = of_char c :: nat;
          d = (if 48 \<le> k \<and> k \<le> 57 then k - 48
               else if 97 \<le> k \<and> k \<le> 122 then k - 87
               else if 65 \<le> k \<and> k \<le> 90 then k - 55 else radix)
      in if d < radix then Some d else None)"

fun take_digits :: "nat \<Rightarrow> string \<Rightarrow> nat list \<times> string" where
  "take_digits radix [] = ([], [])"
| "take_digits radix (c # cs) =
     (case digit_of radix c of
        None \<Rightarrow> ([], c # cs)
      | Some d \<Rightarrow>
          (let (ds, rest) = take_digits radix cs in (d # ds, rest)))"

text \<open>\<^verbatim>\<open>read_number\<close>: all digits that follow; too many of them, none, a value above the type's
  maximum or a forbidden leading zero is a failure.\<close>

definition read_number :: "nat \<Rightarrow> nat \<Rightarrow> nat \<Rightarrow> bool \<Rightarrow> nat reader" where
  "read_number radix max_digits limit allow_zero_prefix s =
     (let (ds, rest) = take_digits radix s;
          v = foldl (\<lambda>acc d. acc * radix + d) 0 ds
      in if ds = [] \<or> length ds > max_digits \<or> v > limit then None
         else if \<not> allow_zero_prefix \<and> hd ds = 0 \<and> length ds > 1 then None
         else Some (v, rest))"

fun read_given_char :: "char \<Rightarrow> unit reader" where
  "read_given_char c (x # xs) = (if x = c then Some ((), xs) else None)"
| "read_given_char c [] = None"

definition read_separator :: "char \<Rightarrow> nat \<Rightarrow> 'a reader \<Rightarrow> 'a reader" where
  "read_separator sep index inner s =
     (if index > 0 then (case read_given_char sep s of None \<Rightarrow> None | Some (_, s') \<Rightarrow> inner s')
      else inner s)"

definition read_octet :: "nat \<Rightarrow> nat reader" where
  "read_octet i = read_separator (CHR ''.'') i (read_number 10 3 255 False)"

definition read_ipv4 :: "(nat list) reader" where
  "read_ipv4 s =
     (case read_octet 0 s of None \<Rightarrow> None | Some (a, s) \<Rightarrow>
     (case read_octet 1 s of None \<Rightarrow> None | Some (b, s) \<Rightarrow>
     (case read_octet 2 s of None \<Rightarrow> None | Some (c, s) \<Rightarrow>
     (case read_octet 3 s of None \<Rightarrow> None | Some (d, s) \<Rightarrow> Some ([a, b, c, d], s)))))"

text \<open>\<open>read_groups i n\<close> reads groups number \<open>i\<close> and up, at most \<open>n\<close> of them; the flag says
  that the last two came from an embedded IPv4 address.\<close>

fun read_groups :: "nat \<Rightarrow> nat \<Rightarrow> string \<Rightarrow> nat list \<times> bool \<times> string" where
  "read_groups i 0 s = ([], False, s)"
| "read_groups i (Suc n) s =
     (case (if n > 0 then read_separator (CHR '':'') i read_ipv4 s else None) of
        Some (os, s') \<Rightarrow> ([os ! 0 * 256 + os ! 1, os ! 2 * 256 + os ! 3], True, s')
      | None \<Rightarrow>
          (case read_separator (CHR '':'') i (read_number 16 4 65535 True) s of
             None \<Rightarrow> ([], False, s)
           | Some (g, s') \<Rightarrow>
               (let (gs, v4, rest) = read_groups (Suc i) n s' in (g # gs, v4, rest))))"

definition read_ipv6 :: "(nat list) reader" where
  "read_ipv6 s =
     (let (head, head_v4, s1) = read_groups 0 8 s
      in if length head = 8 then Some (head, s1)
         else if head_v4 then None
         else case read_given_char (CHR '':'') s1 of None \<Rightarrow> None | Some (_, s2) \<Rightarrow>
             (case read_given_char (CHR '':'') s2 of None \<Rightarrow> None | Some (_, s3) \<Rightarrow>
                (let (tail, _, s4) = read_groups 0 (7 - length head) s3
                 in Some (head @ replicate (8 - length head - length tail) 0 @ tail, s4))))"

definition parse_ip :: "string \<Rightarrow> ipaddr option" where
  "parse_ip s =
     (case read_ipv4 s of
        Some (os, rest) \<Rightarrow> if rest = [] then Some (V4 (foldl (\<lambda>acc g. acc * 256 + of_nat g) 0 os)) else None
      | None \<Rightarrow>
          (case read_ipv6 s of
             Some (gs, rest) \<Rightarrow> if rest = [] then Some (V6 (foldl (\<lambda>acc g. acc * 65536 + of_nat g) 0 gs)) else None
           | None \<Rightarrow> None))"

end
