(* ===== verification/Fw_Metrics.thy ===== *)
theory Fw_Metrics
  imports Quarantine Ip_Parse Fw_Config
begin

text \<open>
  The counters and the metrics and control endpoint of \<^verbatim>\<open>firewall-perimeter/src/metrics.rs\<close>:
  the request parser, the bearer-token comparison and the two routes.  The counters are
  64-bit atomics.  The text of a \<^verbatim>\<open>/metrics\<close> answer is the list of its sample values; the
  request is the decoded text of one read from the socket.
\<close>

record metrics =
  accepted :: u64
  dropped :: u64
  rejected :: u64
  conntrack_established_hits :: u64
  conntrack_table_full :: u64
  parse_failures :: u64
  fragment_drops :: u64
  logs_suppressed :: u64
  quarantine_blocks :: u64
  quarantine_bans :: u64
  quarantine_sync_failures :: u64
  quarantine_manual_unbans :: u64
  auth_failures :: u64

definition metrics_new :: metrics where
  "metrics_new = \<lparr>accepted = 0, dropped = 0, rejected = 0, conntrack_established_hits = 0,
     conntrack_table_full = 0, parse_failures = 0, fragment_drops = 0, logs_suppressed = 0,
     quarantine_blocks = 0, quarantine_bans = 0, quarantine_sync_failures = 0,
     quarantine_manual_unbans = 0, auth_failures = 0\<rparr>"

definition render :: "metrics \<Rightarrow> u64 \<Rightarrow> u64 \<Rightarrow> u64 \<Rightarrow> u64 \<Rightarrow> u64 \<Rightarrow> u64 \<Rightarrow> u64 list" where
  "render m active_flows rule_count q_active q_bans q_rejections q_sync_dropped =
     [accepted m, dropped m, rejected m, conntrack_established_hits m, conntrack_table_full m,
      parse_failures m, fragment_drops m, logs_suppressed m, quarantine_blocks m, q_bans,
      q_rejections, quarantine_sync_failures m, q_sync_dropped, quarantine_manual_unbans m,
      auth_failures m, active_flows, q_active, rule_count]"

section \<open>The request parser\<close>

record parsed_request =
  req_method :: string
  req_path :: string
  bearer_token :: "string option"

fun split_crlf :: "string \<Rightarrow> string list" where
  "split_crlf (a # b # s) =
     (if a = CHR 0x0D \<and> b = CHR 0x0A then [] # split_crlf s
      else case split_crlf (b # s) of [] \<Rightarrow> [[a]] | l # ls \<Rightarrow> (a # l) # ls)"
| "split_crlf s = [s]"

fun header_token :: "string option \<Rightarrow> string list \<Rightarrow> string option" where
  "header_token tok [] = tok"
| "header_token tok (line # lines) =
     (if line = [] then tok
      else header_token
        (case split_once (CHR '':'') line of
           None \<Rightarrow> tok
         | Some (name, v) \<Rightarrow>
             if eq_ignore_ascii_case (trim name) ''authorization''
             then (case strip_prefix ''Bearer '' (trim v) of Some t \<Rightarrow> Some (trim t) | None \<Rightarrow> tok)
             else tok) lines)"

definition parse_request :: "string \<Rightarrow> parsed_request option" where
  "parse_request raw =
     (case split_crlf raw of
        [] \<Rightarrow> None
      | request_line # lines \<Rightarrow>
          (case split_whitespace request_line of
             m # p # _ \<Rightarrow> Some \<lparr>req_method = m, req_path = p, bearer_token = header_token None lines\<rparr>
           | _ \<Rightarrow> None))"

section \<open>The token comparison\<close>

unbundle bit_operations_syntax

definition byte_of :: "char \<Rightarrow> u8" where
  "byte_of c = of_nat (of_char c)"

definition tokens_match :: "string \<Rightarrow> string \<Rightarrow> bool" where
  "tokens_match provided expected =
     (let a = map byte_of provided; b = map byte_of expected
      in if length a \<noteq> length b then False
         else foldl (\<lambda>diff (x, y). diff OR (x XOR y)) 0 (zip a b) = 0)"

lemma byte_of_inject [simp]: "byte_of c = byte_of d \<longleftrightarrow> c = d"
proof
  assume "byte_of c = byte_of d"
  then have "(of_char c :: nat) mod 256 = of_char d mod 256"
    by (simp add: byte_of_def word_of_nat_eq_iff take_bit_eq_mod)
  moreover have "(of_char x :: nat) < 256" for x by simp
  ultimately show "c = d" by simp
qed simp

lemma xor_eq_0: "(x :: u8) XOR y = 0 \<Longrightarrow> x = y"
  by (simp add: bit_eq_iff bit_xor_iff)

lemma diff_fold_zero: "foldl (\<lambda>diff (x, y). diff OR (x XOR y)) (z :: u8) ps = 0 \<longleftrightarrow> z = 0 \<and> (\<forall>(x, y) \<in> set ps. x = y)"
proof (induction ps arbitrary: z)
  case (Cons p ps)
  have "z OR (x XOR y) = 0 \<longleftrightarrow> z = 0 \<and> x = y" for x y :: u8
    by (auto simp: or_eq_0_iff dest: xor_eq_0)
  with Cons show ?case by (cases p) auto
qed simp

text \<open>The comparison that never stops early is equality.\<close>

lemma tokens_match_iff: "tokens_match a b \<longleftrightarrow> a = b"
proof -
  have "(\<forall>(x, y) \<in> set (zip (map byte_of a) (map byte_of b)). x = y) \<longleftrightarrow> a = b" if "length a = length b"
    using that by (induction a b rule: list_induct2) auto
  then show ?thesis by (auto simp: tokens_match_def Let_def diff_fold_zero)
qed

section \<open>The endpoint\<close>

datatype response = RespOk "u64 list" | RespUnbanned | RespBadRequest string | RespUnauthorized
  | RespNotFound string

definition serve_request ::
  "string option \<Rightarrow> u64 \<Rightarrow> u64 \<Rightarrow> u64 list \<Rightarrow> metrics \<Rightarrow> quarantine \<Rightarrow> string \<Rightarrow> response \<times> metrics \<times> quarantine" where
  "serve_request auth_token active_flows rule_count ingestion_samples m q raw =
     (case parse_request raw of
        None \<Rightarrow> (RespBadRequest ''malformed request'', m, q)
      | Some req \<Rightarrow>
          if (case auth_token of
                Some expected \<Rightarrow>
                  \<not> (case bearer_token req of Some t \<Rightarrow> tokens_match t expected | None \<Rightarrow> False)
              | None \<Rightarrow> False)
          then (RespUnauthorized, m\<lparr>auth_failures := auth_failures m + 1\<rparr>, q)
          else if req_method req = ''GET'' \<and> req_path req = ''/metrics''
          then (RespOk (render m active_flows rule_count (of_nat (active_count q)) (bans_total q)
                  (capacity_rejections q) (sync_dropped q) @ ingestion_samples), m, q)
          else if req_method req = ''POST''
          then (case strip_prefix ''/quarantine/unban/'' (req_path req) of
                  None \<Rightarrow> (RespNotFound ''no such route'', m, q)
                | Some ip_str \<Rightarrow>
                    (case parse_ip ip_str of
                       None \<Rightarrow> (RespBadRequest ''invalid IP address'', m, q)
                     | Some a \<Rightarrow>
                         (let m = m\<lparr>quarantine_manual_unbans := quarantine_manual_unbans m + 1\<rparr>;
                              (was_banned, q) = manual_unban q a
                          in (if was_banned then RespUnbanned else RespNotFound ''that IP was not quarantined'', m, q))))
          else (RespNotFound ''no such route'', m, q))"

text \<open> With a token configured, a request changes the ban list only if it carries exactly that
  token as its bearer token, is a POST to the unban route and names an address in the textual
  form of the standard library; then exactly that address is no longer banned and every other
  ban is as before.\<close>

theorem unban_requires_token:
  assumes "serve_request (Some expected) fl rc ing m q raw = (r, m', q')" "q_table q' \<noteq> q_table q"
  shows "\<exists>req ip_str a. parse_request raw = Some req \<and> bearer_token req = Some expected
    \<and> req_method req = ''POST'' \<and> req_path req = ''/quarantine/unban/'' @ ip_str \<and> parse_ip ip_str = Some a
    \<and> r = RespUnbanned \<and> (\<forall>t b. is_active q' t b \<longleftrightarrow> is_active q t b \<and> b \<noteq> a)"
proof -
  obtain req where req: "parse_request raw = Some req"
    using assms by (auto simp: serve_request_def split: option.splits)
  have tok: "bearer_token req = Some expected"
    using assms req by (auto simp: serve_request_def tokens_match_iff split: option.splits if_splits)
  then have post: "req_method req = ''POST''"
    using assms req by (auto simp: serve_request_def tokens_match_iff split: option.splits if_splits)
  obtain s where strip: "strip_prefix ''/quarantine/unban/'' (req_path req) = Some s"
    using assms req tok by (auto simp: serve_request_def tokens_match_iff split: option.splits if_splits)
  obtain a where a: "parse_ip s = Some a"
    using assms req tok post strip by (auto simp: serve_request_def tokens_match_iff split: option.splits)
  have q': "q' = snd (manual_unban q a)" "r = (if fst (manual_unban q a) then RespUnbanned
      else RespNotFound ''that IP was not quarantined'')"
    using assms(1) req tok post strip a by (auto simp: serve_request_def tokens_match_iff Let_def case_prod_beta)
  have "fst (manual_unban q a)"
  proof (rule ccontr)
    assume "\<not> fst (manual_unban q a)"
    then have "tbl_get (q_table q) a = None" by (simp add: manual_unban_def Let_def)
    then have "a \<notin> tbl_keys (q_table q)" by (simp add: tbl_get_None_iff)
    then have "tbl_remove (q_table q) a = q_table q"
      by (auto simp: tbl_remove_def tbl_keys_def filter_id_conv)
    then show False using assms(2) q'(1) by simp
  qed
  then show ?thesis
    using req tok post strip [unfolded strip_prefix_iff] a q' by (auto simp: is_active_unban)
qed

text \<open>A request as a client sends it, for an address that is banned.\<close>

definition sample_request :: string where
  "sample_request = ''POST /quarantine/unban/10.0.0.1 HTTP/1.1'' @ [CHR 0x0D, CHR 0x0A]
     @ ''authorization: Bearer tok'' @ [CHR 0x0D, CHR 0x0A, CHR 0x0D, CHR 0x0A]"

lemma sample_request_parses: "parse_request sample_request =
  Some \<lparr>req_method = ''POST'', req_path = ''/quarantine/unban/10.0.0.1'', bearer_token = Some ''tok''\<rparr>"
  by code_simp

lemma sample_ip: "parse_ip ''10.0.0.1'' = Some (ipv4 10 0 0 1)"
  by (simp add: parse_ip_def read_ipv4_def read_octet_def read_number_def read_separator_def digit_of_def
      ipv4_def Let_def)

theorem unban_requires_token_witness:
  "\<exists>r m' q'. serve_request (Some ''tok'') 0 0 [] metrics_new
       (snd (ban (quarantine_new 4) 0 (ipv4 10 0 0 1) 100)) sample_request = (r, m', q')
     \<and> r = RespUnbanned \<and> \<not> is_active q' 5 (ipv4 10 0 0 1)"
proof -
  let ?q = "snd (ban (quarantine_new 4) 0 (ipv4 10 0 0 1) 100)"
  have tbl: "q_table ?q = [(ipv4 10 0 0 1, 100)]"
    by (simp add: ban_def quarantine_new_def Let_def tbl_insert_def tbl_get_def)
  obtain r m' q' where s: "serve_request (Some ''tok'') 0 0 [] metrics_new ?q sample_request = (r, m', q')"
    by (metis prod_cases3)
  then have q': "q' = snd (manual_unban ?q (ipv4 10 0 0 1))"
    by (simp add: serve_request_def sample_request_parses tokens_match_iff strip_prefix_def sample_ip Let_def
        case_prod_beta)
  then have "q_table q' \<noteq> q_table ?q" by (simp add: tbl tbl_remove_def)
  from unban_requires_token [OF s this] obtain req ip_str a where
    h: "parse_request sample_request = Some req" "req_path req = ''/quarantine/unban/'' @ ip_str"
      "parse_ip ip_str = Some a" "r = RespUnbanned" "\<forall>t b. is_active q' t b \<longleftrightarrow> is_active ?q t b \<and> b \<noteq> a"
    by blast
  then have "a = ipv4 10 0 0 1" by (auto simp: sample_request_parses sample_ip)
  then show ?thesis using s h(4,5) by blast
qed

end
