(* ===== verification/Nfqueue.thy ===== *)
theory Nfqueue
  imports Engine Conntrack Quarantine Log_Gate Reject Ingestion Fw_Metrics
begin

text \<open>
  The inline packet loop of \<^verbatim>\<open>firewall-perimeter/src/nfqueue.rs\<close> and the process around it
  (\<^verbatim>\<open>main.rs\<close>): the state that the worker threads, the maintenance thread, the signal thread
  and the control endpoint share, the handler of one queued packet, the maintenance tick, the
  reload and the admin's unban.  A handler is one step and reads the clock once.  What the
  environment decides is in the message: the bytes, the interfaces, and whether the kernel
  takes the verdict; the raw socket of the rejecter may be missing.
\<close>

datatype nfq_verdict = NfAccept | NfDrop

record message =
  msg_payload :: bytes
  msg_indev :: u32
  msg_outdev :: u32
  msg_now :: instant
  verdict_posts :: bool

record 'net firewall =
  fw_engine :: "'net engine"
  fw_conntrack :: conn_track
  fw_quarantine :: quarantine
  fw_metrics :: metrics
  fw_log_gate :: log_gate
  fw_ingestion :: ingestion_pipeline

text \<open>The outside world of a worker: the packet parser, the CIDR membership test and, when the
  raw sockets could be opened, the packet builder.\<close>

record 'net world =
  w_etherparse :: etherparse
  w_contains :: "'net \<Rightarrow> ipaddr \<Rightarrow> bool"
  w_rejecter :: "packet_builder option"

record outcome =
  out_verdict :: nfq_verdict
  out_replies :: "(ipaddr \<times> bytes) list"
  out_worker_ends :: bool

definition gated_log :: "'net firewall \<Rightarrow> instant \<Rightarrow> 'net firewall" where
  "gated_log fw now =
     (case gate_check (fw_log_gate fw) now of
        (Emit, g) \<Rightarrow> fw\<lparr>fw_log_gate := g\<rparr>
      | (Suppress, g) \<Rightarrow>
          fw\<lparr>fw_log_gate := g, fw_metrics := fw_metrics fw\<lparr>logs_suppressed := logs_suppressed (fw_metrics fw) + 1\<rparr>\<rparr>)"

definition handle_fragment :: "'net firewall \<Rightarrow> message \<Rightarrow> outcome \<times> 'net firewall" where
  "handle_fragment fw msg =
     (let fw = fw\<lparr>fw_metrics := fw_metrics fw\<lparr>fragment_drops := fragment_drops (fw_metrics fw) + 1\<rparr>\<rparr>;
          fw = gated_log fw (msg_now msg)
      in (\<lparr>out_verdict = NfDrop, out_replies = [], out_worker_ends = \<not> verdict_posts msg\<rparr>, fw))"

definition handle_malformed :: "'net firewall \<Rightarrow> message \<Rightarrow> outcome \<times> 'net firewall" where
  "handle_malformed fw msg =
     (let fw = fw\<lparr>fw_metrics := fw_metrics fw\<lparr>parse_failures := parse_failures (fw_metrics fw) + 1\<rparr>\<rparr>
      in (\<lparr>out_verdict = NfDrop, out_replies = [], out_worker_ends = \<not> verdict_posts msg\<rparr>, fw))"

definition auto_quarantine :: "'net firewall \<Rightarrow> instant \<Rightarrow> parsed_packet \<Rightarrow> decision \<Rightarrow> 'net firewall" where
  "auto_quarantine fw now pkt d =
     (case dec_auto_block d of
        None \<Rightarrow> fw
      | Some secs \<Rightarrow>
          (let (recorded, q) = ban (fw_quarantine fw) now (src_ip pkt) (from_secs (unat secs));
               fw = fw\<lparr>fw_quarantine := q\<rparr>
           in if recorded
              then fw\<lparr>fw_metrics := fw_metrics fw\<lparr>quarantine_bans := quarantine_bans (fw_metrics fw) + 1\<rparr>\<rparr>
              else fw))"

definition handle_new_flow :: "'net world \<Rightarrow> 'net firewall \<Rightarrow> message \<Rightarrow> parsed_packet
  \<Rightarrow> (verdict \<times> (ipaddr \<times> bytes) list \<times> 'net firewall) option" where
  "handle_new_flow w fw msg pkt =
     (case evaluate (w_contains w) (fw_engine fw) (msg_now msg) pkt of
        None \<Rightarrow> None
      | Some (d, eng) \<Rightarrow>
          (let fw = fw\<lparr>fw_engine := eng\<rparr>;
               fw = (if dec_log d then gated_log fw (msg_now msg) else fw);
               (replies, fw) =
                 (case dec_verdict d of
                    VAccept \<Rightarrow> ([], fw\<lparr>fw_conntrack := record_new (fw_conntrack fw) (msg_now msg) pkt\<rparr>)
                  | VReject \<Rightarrow>
                      (case w_rejecter w of
                         Some pb \<Rightarrow> (reject pb pkt (msg_payload msg), fw)
                       | None \<Rightarrow> ([], fw))
                  | VDrop \<Rightarrow> ([], fw))
           in Some (dec_verdict d, replies, auto_quarantine fw (msg_now msg) pkt d)))"

definition decide :: "'net world \<Rightarrow> 'net firewall \<Rightarrow> message \<Rightarrow> parsed_packet
  \<Rightarrow> (verdict \<times> (ipaddr \<times> bytes) list \<times> 'net firewall) option" where
  "decide w fw msg pkt =
     (if \<not> is_trusted (fw_engine fw) (src_ip pkt) \<and> is_active (fw_quarantine fw) (msg_now msg) (src_ip pkt)
      then
        let fw = fw\<lparr>fw_metrics := fw_metrics fw\<lparr>quarantine_blocks := quarantine_blocks (fw_metrics fw) + 1\<rparr>\<rparr>
        in Some (VDrop, [], gated_log fw (msg_now msg))
      else
        case lookup_or_admit (fw_conntrack fw) (msg_now msg) pkt of
          (LkEstablished, ct) \<Rightarrow>
            Some (VAccept, [], fw\<lparr>fw_conntrack := ct, fw_metrics := fw_metrics fw
              \<lparr>conntrack_established_hits := conntrack_established_hits (fw_metrics fw) + 1\<rparr>\<rparr>)
        | (LkTableFull, ct) \<Rightarrow>
            Some (VDrop, [], fw\<lparr>fw_conntrack := ct, fw_metrics := fw_metrics fw
              \<lparr>conntrack_table_full := conntrack_table_full (fw_metrics fw) + 1\<rparr>\<rparr>)
        | (LkNew, ct) \<Rightarrow> handle_new_flow w (fw\<lparr>fw_conntrack := ct\<rparr>) msg pkt)"

fun count_verdict :: "verdict \<Rightarrow> metrics \<Rightarrow> metrics" where
  "count_verdict VAccept m = m\<lparr>accepted := accepted m + 1\<rparr>"
| "count_verdict VDrop m = m\<lparr>dropped := dropped m + 1\<rparr>"
| "count_verdict VReject m = m\<lparr>rejected := rejected m + 1\<rparr>"

definition hand_over :: "message \<Rightarrow> parsed_packet \<Rightarrow> ingestion_pipeline \<Rightarrow> ingestion_pipeline" where
  "hand_over msg pkt pl =
     (let (ifx, dir) = (if msg_indev msg \<noteq> 0 then (msg_indev msg, Ingress) else (msg_outdev msg, Egress))
      in submit pl (from_accepted pkt (msg_payload msg) ifx dir (msg_now msg)))"

definition finish :: "'net firewall \<Rightarrow> message \<Rightarrow> parsed_packet \<Rightarrow> verdict \<Rightarrow> 'net firewall" where
  "finish fw msg pkt v =
     (let fw = fw\<lparr>fw_metrics := count_verdict v (fw_metrics fw)\<rparr>
      in if v = VAccept then fw\<lparr>fw_ingestion := hand_over msg pkt (fw_ingestion fw)\<rparr> else fw)"

definition handle_packet :: "'net world \<Rightarrow> 'net firewall \<Rightarrow> message \<Rightarrow> (outcome \<times> 'net firewall) option" where
  "handle_packet w fw msg =
     (case parse (w_etherparse w) (msg_payload msg) of
        UnclassifiableFragment \<Rightarrow> Some (handle_fragment fw msg)
      | Malformed \<Rightarrow> Some (handle_malformed fw msg)
      | Parsed pkt \<Rightarrow>
          (case decide w fw msg pkt of
             None \<Rightarrow> None
           | Some (v, replies, fw) \<Rightarrow>
               Some (\<lparr>out_verdict = (if v = VAccept then NfAccept else NfDrop), out_replies = replies,
                      out_worker_ends = False\<rparr>, finish fw msg pkt v)))"

section \<open>The process\<close>

text \<open>\<open>sync_tx\<close> is the worker's queue, or \<open>None\<close> when the host's firewall could not be set up.\<close>

definition build_quarantine :: "'net config \<Rightarrow> sync_job shared option \<Rightarrow> quarantine" where
  "build_quarantine cfg sync_tx =
     (if \<not> sync_to_os_firewall cfg then quarantine_new (quarantine_max_entries cfg)
      else case sync_tx of
        Some tx \<Rightarrow> with_os_sync (quarantine_max_entries cfg) tx
      | None \<Rightarrow> quarantine_new (quarantine_max_entries cfg))"

definition firewall_new :: "'net config \<Rightarrow> instant \<Rightarrow> sync_job shared option \<Rightarrow> 'net firewall" where
  "firewall_new cfg now sync_tx =
     \<lparr>fw_engine = engine_new cfg, fw_conntrack = ct_new (conntrack cfg),
      fw_quarantine = build_quarantine cfg sync_tx,
      fw_metrics = metrics_new, fw_log_gate = lg_new (log_max_per_sec cfg) now,
      fw_ingestion = ingestion_new\<rparr>"

definition maintenance_tick :: "'net firewall \<Rightarrow> instant \<Rightarrow> u64 \<times> 'net firewall" where
  "maintenance_tick fw now =
     (let fw = fw\<lparr>fw_conntrack := ct_sweep_expired (fw_conntrack fw) now\<rparr>;
          fw = fw\<lparr>fw_quarantine := q_sweep_expired (fw_quarantine fw) now\<rparr>;
          fw = fw\<lparr>fw_engine := periodic_maintenance (fw_engine fw) now\<rparr>;
          (suppressed, g) = take_suppressed_count (fw_log_gate fw)
      in (suppressed, fw\<lparr>fw_log_gate := g\<rparr>))"

text \<open>\<open>None\<close> is a configuration file that does not load.\<close>

definition reload :: "'net firewall \<Rightarrow> 'net config option \<Rightarrow> 'net firewall" where
  "reload fw cfg = (case cfg of Some c \<Rightarrow> fw\<lparr>fw_engine := engine_new c\<rparr> | None \<Rightarrow> fw)"

definition admin_request :: "string option \<Rightarrow> 'net firewall \<Rightarrow> string \<Rightarrow> response \<times> 'net firewall" where
  "admin_request tok fw raw =
     (let (r, m, q) = serve_request tok (of_nat (ct_len (fw_conntrack fw)))
            (of_nat (length (eng_rules (fw_engine fw)))) (snapshot (fw_ingestion fw)) (fw_metrics fw) (fw_quarantine fw) raw
      in (r, fw\<lparr>fw_metrics := m, fw_quarantine := q\<rparr>))"

datatype 'net fw_event = FwPacket message | FwMaintenance instant | FwReload "'net config option"
  | FwAdmin "string option" string | FwSyncWorker

fun fw_step :: "'net world \<Rightarrow> 'net firewall \<Rightarrow> 'net fw_event \<Rightarrow> (outcome option \<times> 'net firewall) option" where
  "fw_step w fw (FwPacket msg) = map_option (\<lambda>(o1, fw'). (Some o1, fw')) (handle_packet w fw msg)"
| "fw_step w fw (FwMaintenance now) = Some (None, snd (maintenance_tick fw now))"
| "fw_step w fw (FwReload cfg) = Some (None, reload fw cfg)"
| "fw_step w fw (FwAdmin tok raw) = Some (None, snd (admin_request tok fw raw))"
| "fw_step w fw FwSyncWorker = Some (None, fw\<lparr>fw_quarantine := worker_takes (fw_quarantine fw)\<rparr>)"

fun fw_run :: "'net world \<Rightarrow> 'net firewall \<Rightarrow> 'net fw_event list \<Rightarrow> (outcome option list \<times> 'net firewall) option" where
  "fw_run w fw [] = Some ([], fw)"
| "fw_run w fw (e # es) =
     (case fw_step w fw e of
        None \<Rightarrow> None
      | Some (o1, fw') \<Rightarrow> map_option (\<lambda>(os, fw''). (o1 # os, fw'')) (fw_run w fw' es))"

section \<open>Frames\<close>

lemma gated_log_fields [simp]:
  "fw_engine (gated_log fw now) = fw_engine fw" "fw_conntrack (gated_log fw now) = fw_conntrack fw"
  "fw_quarantine (gated_log fw now) = fw_quarantine fw" "fw_ingestion (gated_log fw now) = fw_ingestion fw"
  by (simp_all add: gated_log_def split: prod.split gate_result.split)

text \<open>The packet counters do not see the log counter.\<close>

definition packet_counts :: "metrics \<Rightarrow> u64 \<times> u64 \<times> u64 \<times> u64 \<times> u64" where
  "packet_counts m = (accepted m, dropped m, rejected m, parse_failures m, fragment_drops m)"

lemma gated_log_counts [simp]: "packet_counts (fw_metrics (gated_log fw now)) = packet_counts (fw_metrics fw)"
  by (simp add: gated_log_def packet_counts_def split: prod.split gate_result.split)

lemma auto_quarantine_fields [simp]:
  "fw_engine (auto_quarantine fw now pkt d) = fw_engine fw"
  "fw_conntrack (auto_quarantine fw now pkt d) = fw_conntrack fw"
  "fw_ingestion (auto_quarantine fw now pkt d) = fw_ingestion fw"
  "packet_counts (fw_metrics (auto_quarantine fw now pkt d)) = packet_counts (fw_metrics fw)"
  by (simp_all add: auto_quarantine_def packet_counts_def Let_def split: option.split prod.split)

lemma auto_quarantine_bans: "fw_quarantine (auto_quarantine fw now pkt d) = (case dec_auto_block d of
    None \<Rightarrow> fw_quarantine fw
  | Some secs \<Rightarrow> snd (ban (fw_quarantine fw) now (src_ip pkt) (from_secs (unat secs))))"
  by (simp add: auto_quarantine_def Let_def split: option.split prod.split)

section \<open>The invariant of the process\<close>

definition fw_inv :: "'net firewall \<Rightarrow> bool" where
  "fw_inv fw \<longleftrightarrow> engine_inv (fw_engine fw) \<and> ctb.within (fw_conntrack fw) \<and> qb.within (fw_quarantine fw)
     \<and> ing_inv (fw_ingestion fw)"

text \<open>The new flow in terms of the linear policy.\<close>

lemma handle_new_flow_eq:
  assumes "engine_inv (fw_engine fw)"
    and "evaluate_linear (w_contains w) (fw_engine fw) (msg_now msg) pkt = (d, eng)"
  shows "\<exists>fw'. handle_new_flow w fw msg pkt = Some (dec_verdict d,
        case w_rejecter w of Some pb \<Rightarrow> if dec_verdict d = VReject then reject pb pkt (msg_payload msg) else []
          | None \<Rightarrow> [], fw')
    \<and> fw_engine fw' = eng \<and> fw_ingestion fw' = fw_ingestion fw
    \<and> packet_counts (fw_metrics fw') = packet_counts (fw_metrics fw)
    \<and> fw_conntrack fw' = (if dec_verdict d = VAccept then record_new (fw_conntrack fw) (msg_now msg) pkt
       else fw_conntrack fw)
    \<and> fw_quarantine fw' = (case dec_auto_block d of None \<Rightarrow> fw_quarantine fw
       | Some secs \<Rightarrow> snd (ban (fw_quarantine fw) (msg_now msg) (src_ip pkt) (from_secs (unat secs))))"
proof -
  have ev: "evaluate (w_contains w) (fw_engine fw) (msg_now msg) pkt = Some (d, eng)"
    by (simp add: evaluate_linear_eq [OF assms(1)] assms(2))
  show ?thesis
    by (cases "dec_verdict d"; cases "w_rejecter w"; cases "dec_auto_block d")
      (simp_all add: handle_new_flow_def ev Let_def auto_quarantine_bans)
qed

text \<open>What the handler does with a parsed packet, in one place: the three early outcomes or the
  policy's.\<close>

lemma decide_cases:
  assumes "engine_inv (fw_engine fw)"
  obtains
    (quarantined) fw' where "\<not> is_trusted (fw_engine fw) (src_ip pkt)"
      "is_active (fw_quarantine fw) (msg_now msg) (src_ip pkt)" "decide w fw msg pkt = Some (VDrop, [], fw')"
      "fw_engine fw' = fw_engine fw" "fw_conntrack fw' = fw_conntrack fw" "fw_quarantine fw' = fw_quarantine fw"
      "fw_ingestion fw' = fw_ingestion fw" "packet_counts (fw_metrics fw') = packet_counts (fw_metrics fw)"
  | (established) fw' where
      "is_trusted (fw_engine fw) (src_ip pkt) \<or> \<not> is_active (fw_quarantine fw) (msg_now msg) (src_ip pkt)"
      "pkt_key pkt \<in> tbl_keys (ct_table (fw_conntrack fw))" "decide w fw msg pkt = Some (VAccept, [], fw')"
      "fw_engine fw' = fw_engine fw" "fw_conntrack fw' = snd (lookup_or_admit (fw_conntrack fw) (msg_now msg) pkt)"
      "fw_quarantine fw' = fw_quarantine fw" "fw_ingestion fw' = fw_ingestion fw"
      "packet_counts (fw_metrics fw') = packet_counts (fw_metrics fw)"
  | (full) fw' where
      "is_trusted (fw_engine fw) (src_ip pkt) \<or> \<not> is_active (fw_quarantine fw) (msg_now msg) (src_ip pkt)"
      "pkt_key pkt \<notin> tbl_keys (ct_table (fw_conntrack fw))"
      "fst (lookup_or_admit (fw_conntrack fw) (msg_now msg) pkt) = LkTableFull"
      "decide w fw msg pkt = Some (VDrop, [], fw')"
      "fw_engine fw' = fw_engine fw" "fw_conntrack fw' = fw_conntrack fw" "fw_quarantine fw' = fw_quarantine fw"
      "fw_ingestion fw' = fw_ingestion fw" "packet_counts (fw_metrics fw') = packet_counts (fw_metrics fw)"
  | (policy) d eng replies fw' where
      "is_trusted (fw_engine fw) (src_ip pkt) \<or> \<not> is_active (fw_quarantine fw) (msg_now msg) (src_ip pkt)"
      "pkt_key pkt \<notin> tbl_keys (ct_table (fw_conntrack fw))"
      "fst (lookup_or_admit (fw_conntrack fw) (msg_now msg) pkt) = LkNew"
      "evaluate_linear (w_contains w) (fw_engine fw) (msg_now msg) pkt = (d, eng)"
      "decide w fw msg pkt = Some (dec_verdict d, replies, fw')" "fw_engine fw' = eng"
      "replies = (case w_rejecter w of Some pb \<Rightarrow> if dec_verdict d = VReject then reject pb pkt (msg_payload msg) else []
          | None \<Rightarrow> [])"
      "fw_conntrack fw' = (if dec_verdict d = VAccept then record_new (fw_conntrack fw) (msg_now msg) pkt
         else fw_conntrack fw)"
      "fw_quarantine fw' = (case dec_auto_block d of None \<Rightarrow> fw_quarantine fw
         | Some secs \<Rightarrow> snd (ban (fw_quarantine fw) (msg_now msg) (src_ip pkt) (from_secs (unat secs))))"
      "fw_ingestion fw' = fw_ingestion fw" "packet_counts (fw_metrics fw') = packet_counts (fw_metrics fw)"
proof (cases "\<not> is_trusted (fw_engine fw) (src_ip pkt) \<and> is_active (fw_quarantine fw) (msg_now msg) (src_ip pkt)")
  case True
  let ?fw = "fw\<lparr>fw_metrics := fw_metrics fw\<lparr>quarantine_blocks := quarantine_blocks (fw_metrics fw) + 1\<rparr>\<rparr>"
  have "packet_counts (fw_metrics (gated_log ?fw (msg_now msg))) = packet_counts (fw_metrics fw)"
    unfolding gated_log_counts by (simp add: packet_counts_def)
  moreover have "decide w fw msg pkt = Some (VDrop, [], gated_log ?fw (msg_now msg))"
    using True by (simp add: decide_def)
  ultimately show thesis using True by (intro quarantined [of "gated_log ?fw (msg_now msg)"]) simp_all
next
  case False
  then have go: "is_trusted (fw_engine fw) (src_ip pkt) \<or> \<not> is_active (fw_quarantine fw) (msg_now msg) (src_ip pkt)"
    by simp
  obtain r ct where l: "lookup_or_admit (fw_conntrack fw) (msg_now msg) pkt = (r, ct)" by fastforce
  have key: "r = LkEstablished \<longleftrightarrow> pkt_key pkt \<in> tbl_keys (ct_table (fw_conntrack fw))"
    using lookup_established_iff [of "fw_conntrack fw" "msg_now msg" pkt] by (simp add: l)
  have same: "r \<noteq> LkEstablished \<Longrightarrow> ct = fw_conntrack fw"
    using key l lookup_unknown [of "fw_conntrack fw" pkt "msg_now msg"] by (auto simp: tbl_get_None_iff)
  show thesis
  proof (cases r)
    case LkEstablished
    let ?fw = "fw\<lparr>fw_conntrack := ct, fw_metrics := fw_metrics fw
      \<lparr>conntrack_established_hits := conntrack_established_hits (fw_metrics fw) + 1\<rparr>\<rparr>"
    have "decide w fw msg pkt = Some (VAccept, [], ?fw)" using LkEstablished l False by (auto simp: decide_def)
    then show thesis
      using key LkEstablished l by (intro established [of ?fw, OF go]) (simp_all add: packet_counts_def)
  next
    case LkTableFull
    let ?fw = "fw\<lparr>fw_conntrack := ct, fw_metrics := fw_metrics fw
      \<lparr>conntrack_table_full := conntrack_table_full (fw_metrics fw) + 1\<rparr>\<rparr>"
    have "decide w fw msg pkt = Some (VDrop, [], ?fw)" using LkTableFull l False by (auto simp: decide_def)
    then show thesis
      using key LkTableFull l same by (intro full [of ?fw, OF go]) (simp_all add: packet_counts_def)
  next
    case LkNew
    then have ct: "fw\<lparr>fw_conntrack := ct\<rparr> = fw" using same by simp
    obtain d eng where ev: "evaluate_linear (w_contains w) (fw_engine fw) (msg_now msg) pkt = (d, eng)" by fastforce
    have "decide w fw msg pkt = handle_new_flow w fw msg pkt" using LkNew l ct False by (auto simp: decide_def)
    then show thesis
      using handle_new_flow_eq [OF assms ev] LkNew key l by (auto intro!: policy [OF go _ _ ev])
  qed
qed

lemma decide_total: "engine_inv (fw_engine fw) \<Longrightarrow> \<exists>v replies fw'. decide w fw msg pkt = Some (v, replies, fw')"
  by (erule decide_cases [of fw pkt msg w]) auto

lemma record_new_within:
  assumes "ctb.within ct" "fst (lookup_or_admit ct now pkt) = LkNew"
  shows "ctb.within (record_new ct now pkt)"
proof -
  have "lookup_or_admit ct now pkt = (LkNew, ct)"
    using assms(2) by (auto simp: lookup_or_admit_def Let_def split: option.splits if_splits)
  then show ?thesis
    using ctb.within_step [OF assms(1), of "CtPacket now pkt True"] by simp
qed

lemma lookup_within: "ctb.within ct \<Longrightarrow> ctb.within (snd (lookup_or_admit ct now pkt))"
  using ctb.within_step [of ct "CtPacket now pkt False"] by (simp add: case_prod_beta)

lemma ban_within: "qb.within q \<Longrightarrow> qb.within (snd (ban q now a d))"
  using qb.within_step [of q "QBan now a d"] by simp

lemma finish_fields [simp]:
  "fw_engine (finish fw msg pkt v) = fw_engine fw" "fw_conntrack (finish fw msg pkt v) = fw_conntrack fw"
  "fw_quarantine (finish fw msg pkt v) = fw_quarantine fw"
  "fw_ingestion (finish fw msg pkt v) = (if v = VAccept then hand_over msg pkt (fw_ingestion fw) else fw_ingestion fw)"
  "fw_metrics (finish fw msg pkt v) = count_verdict v (fw_metrics fw)"
  by (simp_all add: finish_def Let_def)

lemma hand_over_inv: "ing_inv pl \<Longrightarrow> ing_inv (hand_over msg pkt pl)"
  by (simp add: hand_over_def submit_inv split: prod.split)

lemma decide_inv:
  assumes inv: "fw_inv fw" and d: "decide w fw msg pkt = Some (v, replies, fw')"
  shows "fw_inv (finish fw' msg pkt v)"
proof -
  have parts: "engine_inv (fw_engine fw)" "ctb.within (fw_conntrack fw)" "qb.within (fw_quarantine fw)"
    "ing_inv (fw_ingestion fw)" using inv by (simp_all add: fw_inv_def)
  from parts(1) show ?thesis
  proof (cases rule: decide_cases [where pkt = pkt and msg = msg and w = w])
    case (policy dd eng rr f)
    have "engine_inv eng" using evaluate_linear_inv [OF parts(1)] policy(4) by (metis snd_conv)
    then show ?thesis
      using d policy parts by (auto simp: fw_inv_def record_new_within hand_over_inv ban_within split: option.split)
  qed (use d parts in \<open>auto simp: fw_inv_def lookup_within hand_over_inv\<close>)
qed

lemma handle_packet_inv:
  assumes "fw_inv fw"
  shows "\<exists>o1 fw'. handle_packet w fw msg = Some (o1, fw') \<and> fw_inv fw'"
proof (cases "parse (w_etherparse w) (msg_payload msg)")
  case (Parsed pkt)
  obtain v replies fw' where d: "decide w fw msg pkt = Some (v, replies, fw')"
    using decide_total [of fw w msg pkt] assms by (auto simp: fw_inv_def)
  then show ?thesis using decide_inv [OF assms d] by (simp add: handle_packet_def Parsed)
qed (use assms in \<open>simp_all add: handle_packet_def handle_fragment_def handle_malformed_def Let_def fw_inv_def\<close>)

lemma serve_request_within: "qb.within q \<Longrightarrow> serve_request tok a b c m q raw = (r, m', q') \<Longrightarrow> qb.within q'"
  using qb.within_step [of q "QUnban _"]
  by (auto simp: serve_request_def Let_def split: option.splits if_splits prod.splits)
     (metis q_step.simps(2) snd_conv qb.within_step)+

lemma fw_step_inv: "fw_inv fw \<Longrightarrow> \<exists>o1 fw'. fw_step w fw e = Some (o1, fw') \<and> fw_inv fw'"
proof (cases e)
  case (FwPacket msg)
  assume "fw_inv fw"
  then show ?thesis using handle_packet_inv [of fw w msg] by (auto simp: FwPacket)
next
  case (FwAdmin tok raw)
  assume inv: "fw_inv fw"
  obtain r m q where s: "serve_request tok (of_nat (ct_len (fw_conntrack fw))) (of_nat (length (eng_rules (fw_engine fw))))
      (snapshot (fw_ingestion fw)) (fw_metrics fw) (fw_quarantine fw) raw = (r, m, q)"
    by (metis prod_cases3)
  then show ?thesis
    using inv serve_request_within [OF _ s] by (simp add: FwAdmin admin_request_def fw_inv_def)
next
  case (FwReload c)
  assume "fw_inv fw"
  then show ?thesis by (cases c) (simp_all add: FwReload reload_def fw_inv_def engine_new_inv)
next
  case (FwMaintenance now)
  assume inv: "fw_inv fw"
  have "ctb.within (ct_sweep_expired (fw_conntrack fw) now)" "qb.within (q_sweep_expired (fw_quarantine fw) now)"
    using inv ctb.within_step [of "fw_conntrack fw" "CtSweep now"] qb.within_step [of "fw_quarantine fw" "QSweep now"]
    by (simp_all add: fw_inv_def)
  then show ?thesis
    using inv by (simp add: FwMaintenance maintenance_tick_def take_suppressed_count_def Let_def fw_inv_def maintenance_inv)
next
  case FwSyncWorker
  assume "fw_inv fw"
  then show ?thesis
    using qb.within_step [of "fw_quarantine fw" QWorkerTakes] by (simp add: FwSyncWorker fw_inv_def)
qed

lemma firewall_new_inv: "fw_inv (firewall_new cfg now tx)"
  by (simp add: fw_inv_def firewall_new_def build_quarantine_def engine_new_inv ctb.within_def qb.within_def ct_new_def
      quarantine_new_def with_os_sync_def split: option.split)

lemma fw_run_inv: "fw_inv fw \<Longrightarrow> \<exists>os fw'. fw_run w fw es = Some (os, fw') \<and> fw_inv fw'"
proof (induction es arbitrary: fw)
  case (Cons e es)
  obtain o1 fw1 where s: "fw_step w fw e = Some (o1, fw1)" "fw_inv fw1"
    using fw_step_inv [OF Cons.prems] by blast
  then show ?case using Cons.IH [OF s(2)] by auto
qed simp


section \<open>When a packet passes\<close>

lemma lookup_new_iff:
  "fst (lookup_or_admit ct now pkt) = LkNew \<longleftrightarrow>
     pkt_key pkt \<notin> tbl_keys (ct_table ct) \<and> tbl_len (ct_table ct) < max_entries (ct_cfg ct)"
  using lookup_established_iff [of ct now pkt] lookup_unknown [of ct pkt now]
  by (cases "pkt_key pkt \<in> tbl_keys (ct_table ct)") (auto simp: tbl_get_None_iff)

text \<open>C1: A queued packet is let through exactly when it parses, its source is trusted or not
  quarantined at that moment, and either its flow is already known or the table has room for
  it and the first-match policy accepts it.  Everything else, an unparseable packet and a
  non-first fragment included, is dropped.\<close>

theorem accept_iff:
  assumes "fw_inv fw" "handle_packet w fw msg = Some (o1, fw')"
  shows "out_verdict o1 = NfAccept \<longleftrightarrow>
    (\<exists>pkt. parse (w_etherparse w) (msg_payload msg) = Parsed pkt
       \<and> (is_trusted (fw_engine fw) (src_ip pkt) \<or> \<not> is_active (fw_quarantine fw) (msg_now msg) (src_ip pkt))
       \<and> (pkt_key pkt \<in> tbl_keys (ct_table (fw_conntrack fw))
          \<or> tbl_len (ct_table (fw_conntrack fw)) < max_entries (ct_cfg (fw_conntrack fw))
            \<and> dec_verdict (fst (evaluate_linear (w_contains w) (fw_engine fw) (msg_now msg) pkt)) = VAccept))"
proof (cases "parse (w_etherparse w) (msg_payload msg)")
  case (Parsed pkt)
  have "engine_inv (fw_engine fw)" using assms(1) by (simp add: fw_inv_def)
  then show ?thesis
  proof (cases rule: decide_cases [where pkt = pkt and msg = msg and w = w])
    case (full f)
    then show ?thesis using assms(2) lookup_new_iff [of "fw_conntrack fw" "msg_now msg" pkt]
      by (auto simp: handle_packet_def Parsed)
  next
    case (policy d eng rr f)
    then show ?thesis using assms(2) lookup_new_iff [of "fw_conntrack fw" "msg_now msg" pkt]
      by (auto simp: handle_packet_def Parsed split: if_splits)
  qed (use assms(2) in \<open>auto simp: handle_packet_def Parsed\<close>)
qed (use assms(2) in \<open>auto simp: handle_packet_def handle_fragment_def handle_malformed_def Let_def\<close>)

section \<open>Concrete traffic\<close>

text \<open>A parser that reads every payload as a TCP packet to port 443 (or, for the one-byte payload,
  telnet) from 10.0.0.1, and the policy of the engine's example.\<close>

definition sample_world :: "unit world" where
  "sample_world = \<lparr>w_etherparse = \<lparr>ip_from_slice = (\<lambda>_. None),
       headers_from_ip_slice = (\<lambda>raw. if raw = [] then None else Some
         \<lparr>hdr_ip = Some (Version4 0x0A000001 0x0A000002 0),
          hdr_transport = Some (transport_header.Tcp 12345 (if length raw = 1 then 23 else 443)
            \<lparr>syn = True, ack = False, fin = False, rst = False\<rparr>),
          hdr_payload = []\<rparr>)\<rparr>,
     w_contains = (\<lambda>_ _. True), w_rejecter = None\<rparr>"

definition sample_message :: "bytes \<Rightarrow> instant \<Rightarrow> message" where
  "sample_message raw now = \<lparr>msg_payload = raw, msg_indev = 2, msg_outdev = 0, msg_now = now, verdict_posts = True\<rparr>"

lemma sample_parse: "raw \<noteq> [] \<Longrightarrow> parse (w_etherparse sample_world) raw =
  Parsed (sample_packet (ipv4 10 0 0 1) (if length raw = 1 then 23 else 443))"
  by (simp add: parse_def check_fragmentation_def sample_world_def sample_packet_def ipv4_def)

lemma sample_fw: "fw_engine (firewall_new sample_config now tx) = engine_new sample_config"
  "ct_table (fw_conntrack (firewall_new sample_config now tx)) = []"
  "ct_cfg (fw_conntrack (firewall_new sample_config now tx)) = conntrack_default"
  "q_table (fw_quarantine (firewall_new sample_config now tx)) = []"
  by (simp_all add: firewall_new_def build_quarantine_def sample_config_def ct_new_def quarantine_new_def)

lemma sample_accepts: "dec_verdict (fst (evaluate_linear (\<lambda>_ _. True) (engine_new sample_config) now
    (sample_packet (ipv4 10 0 0 1) 443))) = VAccept"
proof -
  have "ipv4 10 0 0 1 \<noteq> ipv4 10 0 0 9" by (simp add: ipv4_def)
  then show ?thesis
    using sample_eval [of "ipv4 10 0 0 1" now] by (simp add: evaluate_linear_eq [OF engine_new_inv])
qed

theorem accept_iff_witness:
  "\<exists>o1 fw'. handle_packet sample_world (firewall_new sample_config 0 None) (sample_message [1, 2] 5) = Some (o1, fw')
     \<and> out_verdict o1 = NfAccept"
proof -
  let ?fw = "firewall_new sample_config 0 None" and ?m = "sample_message [1, 2] 5"
  obtain o1 fw' where h: "handle_packet sample_world ?fw ?m = Some (o1, fw')"
    using handle_packet_inv [OF firewall_new_inv] by blast
  have "parse (w_etherparse sample_world) (msg_payload ?m) = Parsed (sample_packet (ipv4 10 0 0 1) 443)"
    by (simp add: sample_message_def sample_parse)
  moreover have "\<not> is_active (fw_quarantine ?fw) 5 (ipv4 10 0 0 1)" by (simp add: is_active_def sample_fw)
  moreover have "w_contains sample_world = (\<lambda>_ _. True)" by (simp add: sample_world_def)
  ultimately have "out_verdict o1 = NfAccept"
    unfolding accept_iff [OF firewall_new_inv h]
    by (intro exI [of _ "sample_packet (ipv4 10 0 0 1) 443"])
      (simp add: sample_fw sample_accepts conntrack_default_def, simp add: sample_packet_def sample_message_def)
  then show ?thesis using h by blast
qed

section \<open>Quarantine over a run\<close>

text \<open>The events that leave a ban of \<open>a\<close> until \<open>t\<close> alone: packets and sweeps up to \<open>t\<close>, reloads that do
  not make the address trusted, and control requests that do not name it.\<close>

fun unban_target :: "string \<Rightarrow> ipaddr option" where
  "unban_target raw =
     (case parse_request raw of
        None \<Rightarrow> None
      | Some req \<Rightarrow>
          (case strip_prefix ''/quarantine/unban/'' (req_path req) of None \<Rightarrow> None | Some s \<Rightarrow> parse_ip s))"

fun event_spares :: "ipaddr \<Rightarrow> instant \<Rightarrow> 'net fw_event \<Rightarrow> bool" where
  "event_spares a t (FwPacket msg) = (msg_now msg \<le> t)"
| "event_spares a t (FwMaintenance now) = (now \<le> t)"
| "event_spares a t (FwReload (Some c)) = (a \<notin> set (trusted c))"
| "event_spares a t (FwAdmin tok raw) = (unban_target raw \<noteq> Some a)"
| "event_spares a t _ = True"

lemma is_active_antimono: "is_active q t a \<Longrightarrow> t' \<le> t \<Longrightarrow> is_active q t' a"
  by (auto simp: is_active_def split: option.splits)

lemma ban_keeps_active: "tbl_ok (q_table q) \<Longrightarrow> is_active q t a \<Longrightarrow> is_active (snd (ban q now b d)) t a"
  using is_active_step [of q a t "QBan now b d"] by simp

lemma serve_request_keeps:
  assumes "is_active q t a" "unban_target raw \<noteq> Some a" "serve_request tok x y z m q raw = (r, m', q')"
  shows "is_active q' t a"
  using assms
  by (auto simp: serve_request_def is_active_unban Let_def split: option.splits if_splits prod.splits)
    (metis is_active_unban snd_conv)+

lemma evaluate_linear_trusted: "eng_trusted (snd (evaluate_linear c e now pkt)) = eng_trusted e"
  using evaluate_linear_policy [of c e now pkt] by (simp add: same_policy_def)

lemma handle_packet_keeps:
  assumes "fw_inv fw" "is_active (fw_quarantine fw) t a" "handle_packet w fw msg = Some (o1, fw')"
  shows "is_active (fw_quarantine fw') t a \<and> eng_trusted (fw_engine fw') = eng_trusted (fw_engine fw)"
proof (cases "parse (w_etherparse w) (msg_payload msg)")
  case (Parsed pkt)
  have inv: "engine_inv (fw_engine fw)" and ok: "tbl_ok (q_table (fw_quarantine fw))"
    using assms(1) by (simp_all add: fw_inv_def qb.within_def)
  from inv show ?thesis
  proof (cases rule: decide_cases [where pkt = pkt and msg = msg and w = w])
    case (policy d eng rr f)
    then have "eng_trusted eng = eng_trusted (fw_engine fw)"
      using evaluate_linear_trusted [of "w_contains w" "fw_engine fw" "msg_now msg" pkt] by simp
    then show ?thesis
      using policy assms(2,3) ok by (auto simp: handle_packet_def Parsed ban_keeps_active split: option.split)
  qed (use assms(2,3) in \<open>auto simp: handle_packet_def Parsed\<close>)
qed (use assms(2,3) in \<open>auto simp: handle_packet_def handle_fragment_def handle_malformed_def Let_def\<close>)

lemma fw_step_keeps:
  assumes "fw_inv fw" "is_active (fw_quarantine fw) t a" "a \<notin> set (eng_trusted (fw_engine fw))"
    and "event_spares a t e" "fw_step w fw e = Some (o1, fw')"
  shows "is_active (fw_quarantine fw') t a \<and> a \<notin> set (eng_trusted (fw_engine fw'))"
proof (cases e)
  case (FwPacket msg)
  then show ?thesis using assms handle_packet_keeps [OF assms(1,2), of w msg] by auto
next
  case (FwMaintenance now)
  have "tbl_ok (q_table (fw_quarantine fw))" using assms(1) by (simp add: fw_inv_def qb.within_def)
  then show ?thesis
    using assms FwMaintenance
    by (auto simp: maintenance_tick_def take_suppressed_count_def Let_def is_active_sweep periodic_maintenance_def)
next
  case (FwReload c)
  have "eng_trusted (engine_new x) = trusted x" for x :: "'a config"
    by (simp add: engine_new_def case_prod_beta Let_def)
  then show ?thesis using assms FwReload by (cases c) (auto simp: reload_def)
next
  case (FwAdmin tok raw)
  obtain r m q where s: "serve_request tok (of_nat (ct_len (fw_conntrack fw))) (of_nat (length (eng_rules (fw_engine fw))))
      (snapshot (fw_ingestion fw)) (fw_metrics fw) (fw_quarantine fw) raw = (r, m, q)"
    by (metis prod_cases3)
  then show ?thesis
    using assms FwAdmin serve_request_keeps [OF assms(2) _ s] by (auto simp: admin_request_def)
next
  case FwSyncWorker
  then show ?thesis using assms by (auto simp: is_active_def)
qed

lemma quarantined_dropped:
  assumes "fw_inv fw" "is_active (fw_quarantine fw) t a" "a \<notin> set (eng_trusted (fw_engine fw))"
    and "msg_now msg \<le> t" "parse (w_etherparse w) (msg_payload msg) = Parsed pkt" "src_ip pkt = a"
    and "handle_packet w fw msg = Some (o1, fw')"
  shows "out_verdict o1 = NfDrop \<and> out_replies o1 = [] \<and> fw_ingestion fw' = fw_ingestion fw"
proof -
  have act: "is_active (fw_quarantine fw) (msg_now msg) a" using is_active_antimono [OF assms(2,4)] .
  have "engine_inv (fw_engine fw)" using assms(1) by (simp add: fw_inv_def)
  then show ?thesis
  proof (cases rule: decide_cases [where pkt = pkt and msg = msg and w = w])
    case (quarantined f)
    then show ?thesis using assms(5-7) by (auto simp: handle_packet_def)
  qed (use act assms(3,6) in \<open>auto simp: is_trusted_def\<close>)
qed

text \<open>C2: Once an address that is not trusted is banned until \<open>t\<close>, every packet from it up to \<open>t\<close> is
  dropped without a reply and without reaching the analysis lanes, whatever else happens in
  between: other traffic, established flows of that address, maintenance, reloads that do not
  trust it, control requests for other addresses, and any state of the host's firewall.\<close>

theorem quarantine_enforced:
  assumes "fw_inv fw" "is_active (fw_quarantine fw) t a" "a \<notin> set (eng_trusted (fw_engine fw))"
    and "\<forall>e \<in> set es. event_spares a t e" "fw_run w fw es = Some (os, fw')"
    and "i < length es" "es ! i = FwPacket msg" "parse (w_etherparse w) (msg_payload msg) = Parsed pkt"
    and "src_ip pkt = a"
  shows "\<exists>o1. os ! i = Some o1 \<and> out_verdict o1 = NfDrop \<and> out_replies o1 = []"
  using assms(1-7)
proof (induction es arbitrary: fw os i)
  case (Cons e es)
  obtain o1 fw1 os' where s: "fw_step w fw e = Some (o1, fw1)" "fw_run w fw1 es = Some (os', fw')" "os = o1 # os'"
    using Cons.prems(5) by (auto split: option.splits)
  have next_ok: "fw_inv fw1" "is_active (fw_quarantine fw1) t a" "a \<notin> set (eng_trusted (fw_engine fw1))"
    using fw_step_inv [OF Cons.prems(1), of w e] fw_step_keeps [OF Cons.prems(1-3) _ s(1)] Cons.prems(4) s(1)
    by simp_all
  show ?case
  proof (cases i)
    case 0
    then show ?thesis
      using Cons.prems quarantined_dropped [OF Cons.prems(1-3) _ assms(8,9)] s by auto
  next
    case (Suc j)
    then show ?thesis using Cons.IH [OF next_ok _ s(2), of j] Cons.prems(4,6,7) s(3) by simp
  qed
qed simp

theorem quarantine_enforced_witness:
  "let fw0 = firewall_new sample_config 0 None;
       fw = fw0\<lparr>fw_quarantine := snd (ban (fw_quarantine fw0) 0 (ipv4 10 0 0 1) 100)\<rparr>;
       es = [FwPacket (sample_message [1, 2] 5), FwMaintenance 50, FwReload None, FwPacket (sample_message [1, 2] 99)]
   in \<exists>os fw' o1. fw_run sample_world fw es = Some (os, fw') \<and> os ! 3 = Some o1 \<and> out_verdict o1 = NfDrop"
proof -
  let ?start = "firewall_new sample_config 0 None"
  let ?fw = "?start\<lparr>fw_quarantine := snd (ban (fw_quarantine ?start) 0 (ipv4 10 0 0 1) 100)\<rparr>"
  let ?es = "[FwPacket (sample_message [1, 2] 5), FwMaintenance 50, FwReload None, FwPacket (sample_message [1, 2] 99)]"
  have inv: "fw_inv ?fw" using firewall_new_inv [of sample_config 0 None] by (simp add: fw_inv_def ban_within)
  have max: "q_max_entries (fw_quarantine ?start) = 100000"
    by (simp add: firewall_new_def build_quarantine_def sample_config_def quarantine_new_def)
  have act: "is_active (fw_quarantine ?fw) 99 (ipv4 10 0 0 1)"
    using is_active_ban [of "fw_quarantine ?start" 0 "ipv4 10 0 0 1" 100 99 "ipv4 10 0 0 1"]
    by (simp add: ban_accepted_iff sample_fw max)
  have tr: "ipv4 10 0 0 1 \<notin> set (eng_trusted (fw_engine ?fw))"
    by (simp add: sample_fw sample_engine ipv4_def)
  obtain os fw' where r: "fw_run sample_world ?fw ?es = Some (os, fw')" using fw_run_inv [OF inv] by blast
  have "\<exists>o1. os ! 3 = Some o1 \<and> out_verdict o1 = NfDrop \<and> out_replies o1 = []"
    by (rule quarantine_enforced [OF inv act tr _ r, of 3 "sample_message [1, 2] 99"
        "sample_packet (ipv4 10 0 0 1) 443"])
      (simp_all add: sample_message_def sample_parse, simp add: sample_packet_def)
  then show ?thesis using r unfolding Let_def by blast
qed

section \<open>Accounting\<close>

definition is_accept :: "outcome option \<Rightarrow> bool" where
  "is_accept o1 \<longleftrightarrow> (\<exists>x. o1 = Some x \<and> out_verdict x = NfAccept)"

fun is_packet :: "'net fw_event \<Rightarrow> bool" where
  "is_packet (FwPacket _) = True"
| "is_packet _ = False"

fun accepted_payloads :: "'net fw_event list \<Rightarrow> outcome option list \<Rightarrow> bytes list" where
  "accepted_payloads (FwPacket msg # es) (o1 # os) =
     (if is_accept o1 then [msg_payload msg] else []) @ accepted_payloads es os"
| "accepted_payloads (_ # es) (_ # os) = accepted_payloads es os"
| "accepted_payloads _ _ = []"

definition handled :: "metrics \<Rightarrow> u64" where
  "handled m = accepted m + dropped m + rejected m + parse_failures m + fragment_drops m"

definition handed_over :: "'net firewall \<Rightarrow> bytes list" where
  "handed_over fw = map ing_payload (ing_tx (fw_ingestion fw))"

lemma handled_counts: "packet_counts m = packet_counts m' \<Longrightarrow> handled m = handled m'"
  "packet_counts m = packet_counts m' \<Longrightarrow> accepted m = accepted m'"
  by (simp_all add: packet_counts_def handled_def)

lemma count_verdict_counts: "handled (count_verdict v m) = handled m + 1"
  "accepted (count_verdict v m) = accepted m + (if v = VAccept then 1 else 0)"
  by (cases v; simp add: handled_def)+

lemma hand_over_payload: "map ing_payload (ing_tx (hand_over msg pkt pl)) = map ing_payload (ing_tx pl) @ [msg_payload msg]"
  by (simp add: hand_over_def submit_def from_accepted_def split: prod.split)

lemma decide_frame:
  assumes "engine_inv (fw_engine fw)" "decide w fw msg pkt = Some (v, replies, f)"
  shows "fw_ingestion f = fw_ingestion fw \<and> packet_counts (fw_metrics f) = packet_counts (fw_metrics fw)"
  using assms(1) by (cases rule: decide_cases [where pkt = pkt and msg = msg and w = w]) (use assms(2) in auto)

lemma handle_packet_accounts:
  assumes "fw_inv fw" "handle_packet w fw msg = Some (o1, fw')"
  shows "handed_over fw' = handed_over fw @ (if out_verdict o1 = NfAccept then [msg_payload msg] else [])
    \<and> handled (fw_metrics fw') = handled (fw_metrics fw) + 1
    \<and> accepted (fw_metrics fw') = accepted (fw_metrics fw) + (if out_verdict o1 = NfAccept then 1 else 0)"
proof (cases "parse (w_etherparse w) (msg_payload msg)")
  case (Parsed pkt)
  obtain v replies f where d: "decide w fw msg pkt = Some (v, replies, f)"
    and o1: "out_verdict o1 = (if v = VAccept then NfAccept else NfDrop)" and fw': "fw' = finish f msg pkt v"
    using assms(2) by (auto simp: handle_packet_def Parsed split: option.splits)
  have "fw_ingestion f = fw_ingestion fw" "packet_counts (fw_metrics f) = packet_counts (fw_metrics fw)"
    using decide_frame [OF _ d] assms(1) by (simp_all add: fw_inv_def)
  then show ?thesis
    using o1 fw' handled_counts [of "fw_metrics f" "fw_metrics fw"]
    by (simp add: handed_over_def count_verdict_counts hand_over_payload)
next
  case UnclassifiableFragment
  let ?fw = "fw\<lparr>fw_metrics := fw_metrics fw\<lparr>fragment_drops := fragment_drops (fw_metrics fw) + 1\<rparr>\<rparr>"
  have "handled (fw_metrics (gated_log ?fw (msg_now msg))) = handled (fw_metrics ?fw)"
    "accepted (fw_metrics (gated_log ?fw (msg_now msg))) = accepted (fw_metrics ?fw)"
    by (rule handled_counts, rule gated_log_counts)+
  then show ?thesis
    using assms(2) UnclassifiableFragment
    by (auto simp: handle_packet_def handle_fragment_def Let_def handed_over_def handled_def)
next
  case Malformed
  then show ?thesis
    using assms(2) by (auto simp: handle_packet_def handle_malformed_def Let_def handed_over_def handled_def)
qed

lemma serve_request_counts: "serve_request tok a b c m q raw = (r, m', q') \<Longrightarrow> packet_counts m' = packet_counts m"
  by (auto simp: serve_request_def packet_counts_def Let_def split: option.splits if_splits prod.splits)

lemma fw_step_other:
  assumes "fw_step w fw e = Some (o1, fw')" "\<not> is_packet e"
  shows "o1 = None \<and> handed_over fw' = handed_over fw \<and> packet_counts (fw_metrics fw') = packet_counts (fw_metrics fw)"
proof (cases e)
  case (FwAdmin tok raw)
  obtain r m q where s: "serve_request tok (of_nat (ct_len (fw_conntrack fw))) (of_nat (length (eng_rules (fw_engine fw))))
      (snapshot (fw_ingestion fw)) (fw_metrics fw) (fw_quarantine fw) raw = (r, m, q)"
    by (metis prod_cases3)
  then show ?thesis
    using assms FwAdmin serve_request_counts [OF s] by (auto simp: admin_request_def handed_over_def)
qed (use assms in \<open>auto simp: maintenance_tick_def take_suppressed_count_def reload_def handed_over_def Let_def
    split: option.splits\<close>)

text \<open> Over any run, the payloads handed to the analysis lanes are exactly those of the accepted
  packets, each once and in the order of the verdicts; every packet is counted in exactly one
  of the counters for accepted, dropped, rejected, unparseable and fragment, and the accepted
  counter counts the accepted ones (all modulo the counters' 64 bits).\<close>

theorem accepted_reach_lanes:
  assumes "fw_inv fw" "fw_run w fw es = Some (os, fw')"
  shows "handed_over fw' = handed_over fw @ accepted_payloads es os
    \<and> handled (fw_metrics fw') = handled (fw_metrics fw) + of_nat (length (filter is_packet es))
    \<and> accepted (fw_metrics fw') = accepted (fw_metrics fw) + of_nat (length (accepted_payloads es os))"
  using assms
proof (induction es arbitrary: fw os)
  case (Cons e es)
  obtain o1 fw1 os' where s: "fw_step w fw e = Some (o1, fw1)" "fw_run w fw1 es = Some (os', fw')" "os = o1 # os'"
    using Cons.prems(2) by (auto split: option.splits)
  have inv: "fw_inv fw1" using fw_step_inv [OF Cons.prems(1), of w e] s(1) by simp
  note IH = Cons.IH [OF inv s(2)]
  show ?case
  proof (cases "is_packet e")
    case True
    then obtain msg x where m: "e = FwPacket msg" "handle_packet w fw msg = Some (x, fw1)" "o1 = Some x"
      using s(1) by (cases e) auto
    then show ?thesis
      using IH handle_packet_accounts [OF Cons.prems(1) m(2)] s(3) by (auto simp: is_accept_def)
  next
    case False
    then have "accepted_payloads (e # es) os = accepted_payloads es os'" using s(3) by (cases e) auto
    then show ?thesis
      using IH fw_step_other [OF s(1) False] False handled_counts [of "fw_metrics fw1" "fw_metrics fw"] by auto
  qed
qed simp

theorem accepted_reach_lanes_witness:
  "\<exists>os fw'. fw_run sample_world (firewall_new sample_config 0 None)
       [FwPacket (sample_message [] 1), FwMaintenance 2] = Some (os, fw')
     \<and> handled (fw_metrics fw') = 1 \<and> handed_over fw' = accepted_payloads
       [FwPacket (sample_message [] 1), FwMaintenance 2 :: unit fw_event] os"
proof -
  let ?es = "[FwPacket (sample_message [] 1), FwMaintenance 2]"
  let ?fw = "firewall_new sample_config 0 None"
  obtain os fw' where r: "fw_run sample_world ?fw ?es = Some (os, fw')"
    using fw_run_inv [OF firewall_new_inv] by blast
  have "handled (fw_metrics ?fw) = 0" "handed_over ?fw = []"
    by (simp_all add: firewall_new_def build_quarantine_def handled_def metrics_new_def handed_over_def ingestion_new_def Let_def)
  then show ?thesis using r accepted_reach_lanes [OF firewall_new_inv r] by auto
qed

section \<open>Established flows\<close>

lemma handle_packet_flows:
  assumes "fw_inv fw" "handle_packet w fw msg = Some (o1, fw')"
  shows "tbl_keys (ct_table (fw_conntrack fw)) \<subseteq> tbl_keys (ct_table (fw_conntrack fw'))
    \<and> (out_verdict o1 = NfAccept \<longrightarrow> (\<forall>pkt. parse (w_etherparse w) (msg_payload msg) = Parsed pkt \<longrightarrow>
         pkt_key pkt \<in> tbl_keys (ct_table (fw_conntrack fw'))))"
proof (cases "parse (w_etherparse w) (msg_payload msg)")
  case (Parsed pkt)
  have "engine_inv (fw_engine fw)" using assms(1) by (simp add: fw_inv_def)
  then show ?thesis
    by (cases rule: decide_cases [where pkt = pkt and msg = msg and w = w])
      (use assms(2) in \<open>auto simp: handle_packet_def Parsed lookup_keys record_new_def split: if_splits\<close>)
qed (use assms(2) in \<open>auto simp: handle_packet_def handle_fragment_def handle_malformed_def Let_def\<close>)

lemma fw_run_flows:
  assumes "fw_inv fw" "fw_run w fw es = Some (os, fw')" "\<forall>e \<in> set es. \<forall>now. e \<noteq> FwMaintenance now"
  shows "tbl_keys (ct_table (fw_conntrack fw)) \<subseteq> tbl_keys (ct_table (fw_conntrack fw'))"
  using assms
proof (induction es arbitrary: fw os)
  case (Cons e es)
  obtain o1 fw1 os' where s: "fw_step w fw e = Some (o1, fw1)" "fw_run w fw1 es = Some (os', fw')"
    using Cons.prems(2) by (auto split: option.splits)
  have inv: "fw_inv fw1" using fw_step_inv [OF Cons.prems(1), of w e] s(1) by simp
  have "tbl_keys (ct_table (fw_conntrack fw)) \<subseteq> tbl_keys (ct_table (fw_conntrack fw1))"
    using s(1) Cons.prems handle_packet_flows [OF Cons.prems(1), of w]
    by (cases e) (auto simp: reload_def admin_request_def Let_def split: option.splits prod.splits)
  then show ?case using Cons.IH [OF inv s(2)] Cons.prems(3) by simp
qed simp

text \<open> After a packet was accepted, the packets of the same 5-tuple in either direction are
  accepted without consulting the rules until the maintenance thread next runs, even when
  the configuration is reloaded in between, unless their source is untrusted and
  quarantined.\<close>

theorem established_flow_passes:
  assumes "fw_inv fw" "handle_packet w fw msg = Some (o1, fw1)" "out_verdict o1 = NfAccept"
    and "parse (w_etherparse w) (msg_payload msg) = Parsed p"
    and "fw_run w fw1 es = Some (os, fw2)" "\<forall>e \<in> set es. \<forall>now. e \<noteq> FwMaintenance now"
    and "handle_packet w fw2 msg' = Some (o2, fw3)"
    and "parse (w_etherparse w) (msg_payload msg') = Parsed q" "q = p \<or> reply_of p q"
    and "is_trusted (fw_engine fw2) (src_ip q) \<or> \<not> is_active (fw_quarantine fw2) (msg_now msg') (src_ip q)"
  shows "out_verdict o2 = NfAccept \<and> fw_engine fw3 = fw_engine fw2"
proof -
  have inv1: "fw_inv fw1" using handle_packet_inv [OF assms(1), of w msg] assms(2) by simp
  then have "engine_inv (fw_engine fw2)" using fw_run_inv [of fw1 w es] assms(5) by (auto simp: fw_inv_def)
  moreover have "pkt_key q \<in> tbl_keys (ct_table (fw_conntrack fw2))"
    using handle_packet_flows [OF assms(1,2)] assms(3,4,9) fw_run_flows [OF inv1 assms(5,6)]
    by (auto simp: pkt_key_reply)
  ultimately show ?thesis
    using assms(7,8,10)
    by (cases rule: decide_cases [where pkt = q and msg = msg' and w = w]) (auto simp: handle_packet_def)
qed

lemma sample_handle:
  assumes "handle_packet sample_world (firewall_new sample_config 0 None) (sample_message [1, 2] 5) = Some (o1, fw1)"
  shows "out_verdict o1 = NfAccept" "q_table (fw_quarantine fw1) = []"
proof -
  let ?fw = "firewall_new sample_config 0 None" and ?m = "sample_message [1, 2] 5"
  let ?p = "sample_packet (ipv4 10 0 0 1) 443"
  have p: "parse (w_etherparse sample_world) (msg_payload ?m) = Parsed ?p"
    by (simp add: sample_message_def sample_parse)
  have na: "\<not> is_active (fw_quarantine ?fw) (msg_now ?m) (src_ip ?p)" by (simp add: is_active_def sample_fw)
  have l: "lookup_or_admit (fw_conntrack ?fw) (msg_now ?m) ?p = (LkNew, fw_conntrack ?fw)"
    by (simp add: lookup_unknown sample_fw conntrack_default_def)
  have ev: "evaluate (w_contains sample_world) (fw_engine ?fw) (msg_now ?m) ?p =
      Some (\<lparr>dec_verdict = VAccept, dec_rule_name = ''allow-https'', dec_log = False, dec_auto_block = None\<rparr>,
            engine_new sample_config)"
    using sample_eval [of "ipv4 10 0 0 1" "msg_now ?m"] by (simp add: sample_world_def sample_fw ipv4_def)
  show "out_verdict o1 = NfAccept" "q_table (fw_quarantine fw1) = []"
    using assms by (auto simp: handle_packet_def p decide_def na l handle_new_flow_def ev [unfolded sample_fw]
        auto_quarantine_def sample_fw)
qed

theorem established_flow_passes_witness:
  "\<exists>o1 fw1 o2 fw3. handle_packet sample_world (firewall_new sample_config 0 None) (sample_message [1, 2] 5) = Some (o1, fw1)
     \<and> handle_packet sample_world (reload fw1 (Some (sample_config\<lparr>rules := []\<rparr>))) (sample_message [3, 4] 6) = Some (o2, fw3)
     \<and> out_verdict o2 = NfAccept"
proof -
  let ?fw = "firewall_new sample_config 0 None" and ?m = "sample_message [1, 2] 5" and ?m' = "sample_message [3, 4] 6"
  let ?p = "sample_packet (ipv4 10 0 0 1) 443" and ?es = "[FwReload (Some (sample_config\<lparr>rules := []\<rparr>))]"
  have p: "parse (w_etherparse sample_world) (msg_payload ?m) = Parsed ?p"
    "parse (w_etherparse sample_world) (msg_payload ?m') = Parsed ?p"
    by (simp_all add: sample_message_def sample_parse)
  have inv: "fw_inv ?fw" by (rule firewall_new_inv)
  obtain o1 fw1 where h: "handle_packet sample_world ?fw ?m = Some (o1, fw1)" and i1: "fw_inv fw1"
    using handle_packet_inv [OF inv] by blast
  have ok: "out_verdict o1 = NfAccept \<and> q_table (fw_quarantine fw1) = []"
    using h by (simp add: sample_handle)
  define fw2 where "fw2 = reload fw1 (Some (sample_config\<lparr>rules := []\<rparr>))"
  have r: "fw_run sample_world fw1 ?es = Some ([None], fw2)" by (simp add: fw2_def)
  have "fw_inv fw2" using fw_run_inv [OF i1, of sample_world ?es] r by simp
  then obtain o2 fw3 where h2: "handle_packet sample_world fw2 ?m' = Some (o2, fw3)"
    using handle_packet_inv by blast
  have "\<not> is_active (fw_quarantine fw2) (msg_now ?m') (src_ip ?p)" using ok by (simp add: fw2_def reload_def is_active_def)
  then have "out_verdict o2 = NfAccept"
    using established_flow_passes [OF inv h _ p(1) r _ h2 p(2)] ok by simp
  then show ?thesis using h h2 unfolding fw2_def by blast
qed

end
