(* ===== verification/Fw_Load.thy ===== *)
theory Fw_Load
  imports Fw_Config Ip_Parse "HOL-Library.Monad_Syntax" "HOL-Library.List_Lexorder" "HOL-Library.Char_ord"
begin

text \<open>
  \<^verbatim>\<open>Config::load\<close> of the firewall (\<^verbatim>\<open>firewall-perimeter/src/config.rs\<close>): the document the crate
  \<^verbatim>\<open>toml\<close> reads, the decoding that the \<^verbatim>\<open>Deserialize\<close> attributes of the configuration types
  describe (required fields, defaults, lower-case enumerations, integer ranges, unknown keys
  ignored) and the validation.  The concrete syntax of TOML and of CIDR networks belongs to the
  crates \<^verbatim>\<open>toml\<close> and \<^verbatim>\<open>ipnet\<close>: both parsers are arguments.  A structure is decoded from a table;
  the message of a decoding error is not modelled, only that there is one.
\<close>

section \<open>Documents\<close>

text \<open>\<^verbatim>\<open>toml::Value\<close>; a float is kept as its bit pattern.\<close>

datatype toml =
    TString string
  | TInteger int
  | TFloat u64
  | TBoolean bool
  | TDatetime string
  | TArray "toml list"
  | TTable "(string \<times> toml) list"

fun as_str :: "toml \<Rightarrow> string option" where
  "as_str (TString s) = Some s"
| "as_str _ = None"

fun as_array :: "toml \<Rightarrow> toml list option" where
  "as_array (TArray xs) = Some xs"
| "as_array _ = None"

fun as_table :: "toml \<Rightarrow> (string, toml) tbl option" where
  "as_table (TTable t) = Some t"
| "as_table _ = None"

definition toml_get :: "toml \<Rightarrow> string \<Rightarrow> toml option" where
  "toml_get v k = Option.bind (as_table v) (\<lambda>t. tbl_get t k)"

text \<open>\<^verbatim>\<open>toml::map::Map\<close> keeps its entries in the order of their keys.\<close>

definition toml_insert :: "(string, toml) tbl \<Rightarrow> string \<Rightarrow> toml \<Rightarrow> (string, toml) tbl" where
  "toml_insert t k v = insort_key fst (k, v) (tbl_remove t k)"

section \<open>Decoding\<close>

fun de_bool :: "toml \<Rightarrow> bool option" where
  "de_bool (TBoolean b) = Some b"
| "de_bool _ = None"

fun de_uint :: "nat \<Rightarrow> toml \<Rightarrow> nat option" where
  "de_uint limit (TInteger i) = (if 0 \<le> i \<and> i \<le> int limit then Some (nat i) else None)"
| "de_uint limit _ = None"

fun de_list :: "('a \<Rightarrow> 'b option) \<Rightarrow> 'a list \<Rightarrow> 'b list option" where
  "de_list f [] = Some []"
| "de_list f (x # xs) = Option.bind (f x) (\<lambda>y. Option.bind (de_list f xs) (\<lambda>ys. Some (y # ys)))"

definition de_vec :: "(toml \<Rightarrow> 'b option) \<Rightarrow> toml \<Rightarrow> 'b list option" where
  "de_vec f v = Option.bind (as_array v) (de_list f)"

text \<open>A field: decoded when it is there, else its default, where it has one.\<close>

definition de_field :: "(string, toml) tbl \<Rightarrow> string \<Rightarrow> (toml \<Rightarrow> 'b option) \<Rightarrow> 'b option \<Rightarrow> 'b option" where
  "de_field t k f d = (case tbl_get t k of Some v \<Rightarrow> f v | None \<Rightarrow> d)"

definition de_opt :: "(toml \<Rightarrow> 'b option) \<Rightarrow> toml \<Rightarrow> 'b option option" where
  "de_opt f v = map_option Some (f v)"

definition de_u16 :: "toml \<Rightarrow> u16 option" where
  "de_u16 v = map_option of_nat (de_uint (2 ^ 16 - 1) v)"

definition de_u32 :: "toml \<Rightarrow> u32 option" where
  "de_u32 v = map_option of_nat (de_uint (2 ^ 32 - 1) v)"

definition de_u64 :: "toml \<Rightarrow> u64 option" where
  "de_u64 v = map_option of_nat (de_uint (2 ^ 64 - 1) v)"

definition de_usize :: "toml \<Rightarrow> nat option" where
  "de_usize = de_uint (2 ^ 64 - 1)"

definition de_protocol :: "toml \<Rightarrow> protocol option" where
  "de_protocol v = Option.bind (as_str v)
     (map_of [(''tcp'', protocol.Tcp), (''udp'', protocol.Udp), (''icmp'', protocol.Icmp), (''any'', protocol.Any)])"

definition de_action :: "toml \<Rightarrow> action option" where
  "de_action v = Option.bind (as_str v) (map_of [(''accept'', Accept), (''drop'', Drop), (''reject'', Reject)])"

definition de_direction :: "toml \<Rightarrow> direction option" where
  "de_direction v = Option.bind (as_str v)
     (map_of [(''inbound'', Inbound), (''outbound'', Outbound), (''any'', AnyDir)])"

fun ok :: "'e + 'a \<Rightarrow> 'a option" where
  "ok (Inl _) = None"
| "ok (Inr x) = Some x"

definition de_ports :: "toml \<Rightarrow> port_range option" where
  "de_ports v = Option.bind (as_str v) (\<lambda>s. ok (deserialize_port_range s))"

definition de_net :: "(string \<Rightarrow> 'e + 'net) \<Rightarrow> toml \<Rightarrow> 'net option" where
  "de_net parse_net v = Option.bind (as_str v) (\<lambda>s. ok (parse_net s))"

definition de_network :: "(string \<Rightarrow> 'e + 'net) \<Rightarrow> toml \<Rightarrow> 'net network_match option" where
  "de_network parse_net v = Option.bind (as_str v) (\<lambda>s. ok (deserialize_network_match parse_net s))"

definition de_ip :: "toml \<Rightarrow> ipaddr option" where
  "de_ip v = Option.bind (as_str v) parse_ip"

definition default_net :: "(string \<Rightarrow> 'e + 'net) \<Rightarrow> 'net network_match option" where
  "default_net parse_net = map_option Cidr (ok (parse_net ''0.0.0.0/0''))"

definition de_alias :: "(string \<Rightarrow> 'e + 'net) \<Rightarrow> toml \<Rightarrow> 'net alias_def option" where
  "de_alias parse_net v = do {
     t \<leftarrow> as_table v;
     nm \<leftarrow> de_field t ''name'' as_str None;
     cs \<leftarrow> de_field t ''cidrs'' (de_vec (de_net parse_net)) None;
     Some \<lparr>alias_name = nm, alias_cidrs = cs\<rparr> }"

definition de_rule :: "(string \<Rightarrow> 'e + 'net) \<Rightarrow> toml \<Rightarrow> 'net rule option" where
  "de_rule parse_net v = do {
     t \<leftarrow> as_table v;
     nm \<leftarrow> de_field t ''name'' as_str None;
     pr \<leftarrow> de_field t ''protocol'' de_protocol (Some protocol.Any);
     di \<leftarrow> de_field t ''direction'' de_direction (Some AnyDir);
     sn \<leftarrow> de_field t ''src'' (de_network parse_net) (default_net parse_net);
     dn \<leftarrow> de_field t ''dst'' (de_network parse_net) (default_net parse_net);
     sp \<leftarrow> de_field t ''src_port'' de_ports (Some default_ports);
     dp \<leftarrow> de_field t ''dst_port'' de_ports (Some default_ports);
     ac \<leftarrow> de_field t ''action'' de_action None;
     rl \<leftarrow> de_field t ''rate_limit_pps'' (de_opt de_u32) (Some None);
     ab \<leftarrow> de_field t ''auto_block_secs'' (de_opt de_u64) (Some None);
     th \<leftarrow> de_field t ''auto_block_threshold'' de_u32 (Some 1);
     wi \<leftarrow> de_field t ''auto_block_window_secs'' de_u64 (Some 60);
     lg \<leftarrow> de_field t ''log'' de_bool (Some False);
     Some \<lparr>rule_name = nm, rule_protocol = pr, rule_direction = di, rule_src = sn, rule_dst = dn,
           rule_src_port = sp, rule_dst_port = dp, rule_action = ac, rate_limit_pps = rl,
           auto_block_secs = ab, auto_block_threshold = th, auto_block_window_secs = wi, rule_log = lg\<rparr> }"

definition de_conntrack :: "toml \<Rightarrow> conntrack_config option" where
  "de_conntrack v = do {
     t \<leftarrow> as_table v;
     te \<leftarrow> de_field t ''tcp_established_timeout_secs'' de_u64 (Some 3600);
     tt \<leftarrow> de_field t ''tcp_transitory_timeout_secs'' de_u64 (Some 60);
     ut \<leftarrow> de_field t ''udp_timeout_secs'' de_u64 (Some 30);
     me \<leftarrow> de_field t ''max_entries'' de_usize (Some 250000);
     Some \<lparr>tcp_established_timeout_secs = te, tcp_transitory_timeout_secs = tt, udp_timeout_secs = ut,
           max_entries = me\<rparr> }"

definition de_config :: "(string \<Rightarrow> 'e + 'net) \<Rightarrow> toml \<Rightarrow> 'net config option" where
  "de_config parse_net v = do {
     t \<leftarrow> as_table v;
     qn \<leftarrow> de_field t ''queue_num'' de_u16 (Some 0);
     qw \<leftarrow> de_field t ''queue_workers'' de_u16 (Some 1);
     dp \<leftarrow> de_field t ''default_policy'' de_action (Some Drop);
     ct \<leftarrow> de_field t ''conntrack'' de_conntrack (Some conntrack_default);
     rs \<leftarrow> de_field t ''rules'' (de_vec (de_rule parse_net)) (Some []);
     als \<leftarrow> de_field t ''aliases'' (de_vec (de_alias parse_net)) (Some []);
     tr \<leftarrow> de_field t ''trusted'' (de_vec de_ip) (Some []);
     lm \<leftarrow> de_field t ''log_max_per_sec'' de_u64 (Some 200);
     ml \<leftarrow> de_field t ''metrics_listen'' (de_opt as_str) (Some None);
     ma \<leftarrow> de_field t ''metrics_auth_token'' (de_opt as_str) (Some None);
     qm \<leftarrow> de_field t ''quarantine_max_entries'' de_usize (Some 100000);
     so \<leftarrow> de_field t ''sync_to_os_firewall'' de_bool (Some False);
     Some \<lparr>queue_num = qn, queue_workers = qw, default_policy = dp, conntrack = ct, rules = rs,
           aliases = als, trusted = tr, log_max_per_sec = lm, metrics_listen = ml, metrics_auth_token = ma,
           quarantine_max_entries = qm, sync_to_os_firewall = so\<rparr> }"

datatype load_error = Unreadable | Undecodable | Invalid config_error

definition config_load :: "(string \<Rightarrow> toml option) \<Rightarrow> (string \<Rightarrow> 'e + 'net) \<Rightarrow> string option \<Rightarrow> load_error + 'net config" where
  "config_load from_str parse_net file =
     (case file of
        None \<Rightarrow> Inl Unreadable
      | Some text \<Rightarrow>
          (case Option.bind (from_str text) (de_config parse_net) of
             None \<Rightarrow> Inl Undecodable
           | Some cfg \<Rightarrow> (case validate cfg of Some e \<Rightarrow> Inl (Invalid e) | None \<Rightarrow> Inr cfg)))"

section \<open>Decoding sequences and tables\<close>

lemma de_list_append: "de_list f (xs @ ys) = Option.bind (de_list f xs) (\<lambda>us. map_option (\<lambda>vs. us @ vs) (de_list f ys))"
  by (induction xs) (cases "de_list f ys", auto split: bind_splits)

lemma de_list_filter:
  assumes "de_list f xs = Some ys" and "\<And>x y. x \<in> set xs \<Longrightarrow> f x = Some y \<Longrightarrow> P x = Q y"
  shows "de_list f (filter P xs) = Some (filter Q ys)"
  using assms by (induction xs arbitrary: ys) (auto split: bind_splits)

lemma map_of_insort: "k \<notin> fst ` set t \<Longrightarrow> map_of (insort_key fst (k, v) t) = (map_of t)(k \<mapsto> v)"
  by (induction t) (auto simp: fun_eq_iff)

lemma toml_get_insert [simp, tbl_simps]: "tbl_get (toml_insert t k v) k' = (if k' = k then Some v else tbl_get t k')"
proof -
  have "k \<notin> fst ` set (tbl_remove t k)" by (auto simp: tbl_remove_def)
  from map_of_insort [OF this, of v] have "tbl_get (toml_insert t k v) = (tbl_get (tbl_remove t k))(k \<mapsto> v)"
    by (simp add: toml_insert_def tbl_get_def fun_eq_iff)
  then show ?thesis by simp
qed

lemma de_field_insert: "de_field (toml_insert t k v) k' f d = (if k' = k then f v else de_field t k' f d)"
  by (simp add: de_field_def)

lemma de_field_required: "de_field t k f None = Some y \<Longrightarrow> \<exists>v. tbl_get t k = Some v \<and> f v = Some y"
  by (simp add: de_field_def split: option.splits)

end
