(* ===== verification/Blocklist_File.thy ===== *)
theory Blocklist_File
  imports Ip_Parse
begin

text \<open>
  The file in which \<^verbatim>\<open>nsm-xdp/src/xdp/mod.rs\<close> keeps its block list across restarts: one line
  \<^verbatim>\<open>ip/prefix expiry_ns\<close> per entry.  The writer, the reader that skips lines it cannot parse,
  and that the reader gives back exactly what the writer was given.
\<close>

type_synonym entry = "u32 \<times> u8 \<times> u64"

section \<open>Printing and reading an IPv4 address\<close>

text \<open>\<^verbatim>\<open>Display\<close> and \<^verbatim>\<open>FromStr\<close> of \<^verbatim>\<open>Ipv4Addr\<close>.\<close>

definition octets :: "u32 \<Rightarrow> nat list" where
  "octets a = [unat a div 16777216, unat a div 65536 mod 256, unat a div 256 mod 256, unat a mod 256]"

definition show_v4 :: "u32 \<Rightarrow> string" where
  "show_v4 a = show_nat (octets a ! 0) @ ''.'' @ show_nat (octets a ! 1) @ ''.'' @
     show_nat (octets a ! 2) @ ''.'' @ show_nat (octets a ! 3)"

definition parse_v4 :: "string \<Rightarrow> u32 option" where
  "parse_v4 s =
     (case read_ipv4 s of
        Some (os, rest) \<Rightarrow> if rest = [] then Some (foldl (\<lambda>acc g. acc * 256 + of_nat g) 0 os) else None
      | None \<Rightarrow> None)"

section \<open>The file\<close>

definition persist_line :: "entry \<Rightarrow> string" where
  "persist_line e = (case e of (ip, plen, expiry) \<Rightarrow>
     show_v4 ip @ ''/'' @ show_nat (unat plen) @ '' '' @ show_nat (unat expiry) @ [CHR 0x0A])"

definition write_persisted_blocklist :: "entry list \<Rightarrow> string" where
  "write_persisted_blocklist es = concat (map persist_line es)"

definition parse_persist_line :: "string \<Rightarrow> entry option" where
  "parse_persist_line line =
     (case split_once (CHR '' '') line of
        None \<Rightarrow> None
      | Some (ip_prefix, expiry_str) \<Rightarrow>
          (case split_once (CHR ''/'') ip_prefix of
             None \<Rightarrow> None
           | Some (ip_str, prefix_str) \<Rightarrow>
               (case (parse_v4 ip_str, parse_uint 255 prefix_str, parse_uint 18446744073709551615 expiry_str) of
                  (Some ip, Inr plen, Inr expiry) \<Rightarrow> Some (ip, of_nat plen, of_nat expiry)
                | _ \<Rightarrow> None)))"

definition load_persisted_blocklist :: "string option \<Rightarrow> entry list" where
  "load_persisted_blocklist file =
     (case file of
        None \<Rightarrow> []
      | Some contents \<Rightarrow>
          List.map_filter (\<lambda>l. let line = trim l in if line = [] then None else parse_persist_line line)
            (split_lf contents))"

section \<open>Reading back a number\<close>

fun digits :: "nat \<Rightarrow> nat list" where
  "digits n = (if n < 10 then [n] else digits (n div 10) @ [n mod 10])"

declare digits.simps [simp del]

lemma digits_nonempty [simp]: "digits n \<noteq> []"
  by (subst digits.simps) simp

lemma digits_value: "foldl (\<lambda>acc d. acc * 10 + d) 0 (digits n) = n"
  by (induction n rule: digits.induct) (subst digits.simps, simp)

lemma digits_hd: "10 \<le> n \<Longrightarrow> hd (digits n) \<noteq> 0"
proof (induction n rule: digits.induct)
  case (1 n)
  show ?case
  proof (cases "n div 10 < 10")
    case True
    then show ?thesis using 1 by (simp add: digits.simps [of n] digits.simps [of "n div 10"])
  next
    case False
    then show ?thesis using 1 by (simp add: digits.simps [of n])
  qed
qed

lemma digits_single: "n < 10 \<Longrightarrow> digits n = [n]"
  by (simp add: digits.simps)

lemma digits_len: "n < 256 \<Longrightarrow> length (digits n) \<le> 3"
  by (simp add: digits.simps [of n] digits.simps [of "n div 10"] digits.simps [of "n div 10 div 10"])

lemma digit_of_char: "d < 10 \<Longrightarrow> digit_of 10 (char_of (48 + d)) = Some d"
  by (simp add: digit_of_def Let_def)

lemma take_digits_append:
  "take_digits 10 xs = (ds, []) \<Longrightarrow> take_digits 10 (xs @ ys) = (ds @ fst (take_digits 10 ys), snd (take_digits 10 ys))"
  by (induction xs arbitrary: ds) (auto split: option.splits prod.splits)

lemma take_digits_show: "take_digits 10 (show_nat n) = (digits n, [])"
proof (induction n rule: digits.induct)
  case (1 n)
  then show ?case
    by (subst digits.simps, subst show_nat.simps)
      (simp add: take_digits_append digit_of_char)
qed

lemma read_number_show:
  assumes "n < 256" and "take_digits 10 rest = ([], rest)"
  shows "read_number 10 3 255 False (show_nat n @ rest) = Some (n, rest)"
proof -
  have "take_digits 10 (show_nat n @ rest) = (digits n, rest)"
    using take_digits_append [OF take_digits_show [of n], of rest] assms(2) by simp
  moreover have "\<not> (hd (digits n) = 0 \<and> length (digits n) > 1)"
    using digits_hd [of n] digits_single [of n] by (cases "n < 10") auto
  ultimately show ?thesis
    using digits_len [OF assms(1)] assms(1) by (simp add: read_number_def digits_value)
qed

section \<open>Reading back an address\<close>

lemma octet_bounds: "unat (a :: u32) div 16777216 < 256" "unat a div 65536 mod 256 < 256"
  "unat a div 256 mod 256 < 256" "unat a mod 256 < 256"
  using unsigned_less [of a, where ?'a = nat] by simp_all

lemma octets_value: "foldl (\<lambda>acc g. acc * 256 + of_nat g) 0 (octets a) = (a :: u32)"
proof -
  let ?n = "unat a"
  have s1: "?n div 65536 = (?n div 16777216) * 256 + ?n div 65536 mod 256"
    using div_mult_mod_eq [of "?n div 65536" 256] by (simp add: div_mult2_eq [symmetric])
  have s2: "?n div 256 = (?n div 65536) * 256 + ?n div 256 mod 256"
    using div_mult_mod_eq [of "?n div 256" 256] by (simp add: div_mult2_eq [symmetric])
  have s3: "?n = (?n div 256) * 256 + ?n mod 256"
    by simp
  have eq: "((?n div 16777216 * 256 + ?n div 65536 mod 256) * 256 + ?n div 256 mod 256) * 256 + ?n mod 256 = ?n"
    using s1 s2 s3 by simp
  have "foldl (\<lambda>acc g. acc * 256 + of_nat g) 0 (octets a)
    = (of_nat (((?n div 16777216 * 256 + ?n div 65536 mod 256) * 256 + ?n div 256 mod 256) * 256 + ?n mod 256) :: u32)"
    by (simp add: octets_def)
  also have "\<dots> = of_nat ?n" by (simp only: eq)
  finally show ?thesis by simp
qed

lemma read_octet_show:
  assumes "n < 256" and "take_digits 10 rest = ([], rest)"
  shows "read_octet 0 (show_nat n @ rest) = Some (n, rest)"
    "0 < i \<Longrightarrow> read_octet i (CHR ''.'' # show_nat n @ rest) = Some (n, rest)"
  using read_number_show [OF assms] by (simp_all add: read_octet_def read_separator_def)

lemma dot_no_digit [simp]: "digit_of 10 (CHR ''.'') = None"
  by (simp add: digit_of_def)

lemma take_digits_stop: "take_digits 10 (CHR ''.'' # s) = ([], CHR ''.'' # s)"
  by simp

lemma read_ipv4_show: "read_ipv4 (show_v4 a) = Some (octets a, [])"
proof -
  note b = octet_bounds [of a]
  have last: "read_octet 3 (CHR ''.'' # show_nat (unat a mod 256)) = Some (unat a mod 256, [])"
    using read_octet_show(2) [OF b(4), of "[]" 3] by simp
  have first: "read_octet 0 (show_nat (unat a div 16777216) @ CHR ''.'' # s) =
      Some (unat a div 16777216, CHR ''.'' # s)" for s
    by (rule read_octet_show(1) [OF b(1) take_digits_stop])
  show ?thesis
    by (simp add: read_ipv4_def show_v4_def octets_def read_octet_show b first last)
qed

lemma parse_show_v4: "parse_v4 (show_v4 a) = Some a"
  by (simp add: parse_v4_def read_ipv4_show octets_value)

section \<open>Reading back a file\<close>

lemma show_v4_no_sep: "CHR '' '' \<notin> set (show_v4 a)" "CHR ''/'' \<notin> set (show_v4 a)" "CHR 0x0A \<notin> set (show_v4 a)"
  by (simp_all add: show_v4_def show_nat_no_sep)

definition line_body :: "entry \<Rightarrow> string" where
  "line_body e = (case e of (ip, plen, expiry) \<Rightarrow>
     show_v4 ip @ CHR ''/'' # show_nat (unat plen) @ CHR '' '' # show_nat (unat expiry))"

lemma persist_line_body: "persist_line e = line_body e @ [CHR 0x0A]"
  by (simp add: persist_line_def line_body_def split: prod.splits)

lemma show_nat_ends: "hd (show_nat n) \<in> set (show_nat n)" "last (show_nat n) \<in> set (show_nat n)"
  by simp_all

lemma line_body_ends: "line_body e \<noteq> []" "\<not> is_space (hd (line_body e))" "\<not> is_space (last (line_body e))"
  "CHR 0x0A \<notin> set (line_body e)" "last (line_body e) \<noteq> CHR 0x0D"
proof -
  obtain ip plen expiry where e: "e = (ip, plen, expiry)" by (cases e)
  have l: "last (line_body e) = last (show_nat (unat expiry))"
    by (simp add: e line_body_def)
  have h: "hd (line_body e) = hd (show_nat (octets ip ! 0))"
    by (simp add: e line_body_def show_v4_def hd_append)
  show "line_body e \<noteq> []" by (simp add: e line_body_def)
  show "\<not> is_space (hd (line_body e))" "\<not> is_space (last (line_body e))"
    unfolding l h using show_nat_char(2) show_nat_ends by blast+
  show "last (line_body e) \<noteq> CHR 0x0D"
    unfolding l using show_nat_char(1) [OF show_nat_ends(2)] by blast
  show "CHR 0x0A \<notin> set (line_body e)"
    by (simp add: e line_body_def show_v4_no_sep show_nat_no_sep)
qed

lemma parse_line_body: "parse_persist_line (line_body e) = Some e"
proof -
  obtain ip plen expiry where e: "e = (ip, plen, expiry)" by (cases e)
  have "split_once (CHR '' '') (line_body e) = Some (show_v4 ip @ CHR ''/'' # show_nat (unat plen), show_nat (unat expiry))"
    using split_once_append [of "CHR '' ''" "show_v4 ip @ CHR ''/'' # show_nat (unat plen)" "show_nat (unat expiry)"]
    by (simp add: e line_body_def show_v4_no_sep show_nat_no_sep)
  moreover have "split_once (CHR ''/'') (show_v4 ip @ CHR ''/'' # show_nat (unat plen)) = Some (show_v4 ip, show_nat (unat plen))"
    by (simp add: split_once_append show_v4_no_sep)
  moreover have "unat plen \<le> 255" "unat expiry \<le> 18446744073709551615"
    using unsigned_less [of plen, where ?'a = nat] unsigned_less [of expiry, where ?'a = nat] by simp_all
  ultimately show ?thesis
    by (simp add: parse_persist_line_def parse_show_v4 parse_uint_show e)
qed

lemma load_written: "load_persisted_blocklist (Some (write_persisted_blocklist es)) = es"
proof (induction es)
  case Nil
  show ?case by (simp add: load_persisted_blocklist_def write_persisted_blocklist_def map_filter_def)
next
  case (Cons e es)
  have "split_lf (write_persisted_blocklist (e # es)) = line_body e # split_lf (write_persisted_blocklist es)"
    using split_lf_line [of "line_body e"] line_body_ends
    by (simp add: write_persisted_blocklist_def persist_line_body)
  then show ?case using Cons.IH line_body_ends [of e]
    by (simp add: load_persisted_blocklist_def trim_ends parse_line_body map_filter_simps Let_def)
qed

text \<open> The block list survives a restart: reading the file that was written for any list of
  entries gives back exactly that list, in its order, with every address, prefix length and
  64-bit expiry as it was.\<close>

theorem blocklist_file_roundtrip:
  "load_persisted_blocklist (Some (write_persisted_blocklist es)) = es"
  by (rule load_written)

end
