(* ===== verification/Firewall_Sync.thy ===== *)
theory Firewall_Sync
  imports Fw_Load Engine Blocklist_File
begin

text \<open>
  The rule-sync feedback loop (\<^verbatim>\<open>bridges/asd-firewall-sync\<close>): the hosts that containment has
  confirmed are written into the firewall's configuration file as an alias, a drop rule that
  refers to the alias is put in front of all others, and the firewall is told to reload.  The
  file system is a map from paths to texts; reading, writing, renaming and signalling succeed or
  fail as the environment says.  A panic of the Rust code is an outcome of its own.
\<close>

section \<open>Addresses as text\<close>

text \<open>\<^verbatim>\<open>Display\<close> of \<^verbatim>\<open>IpAddr\<close>: an IPv6 address is written in lower-case hexadecimal groups with its
  first longest run of at least two zero groups as a double colon, an IPv4-mapped one in the mixed form.\<close>

definition hex_digit :: "nat \<Rightarrow> char" where
  "hex_digit d = (if d < 10 then char_of (48 + d) else char_of (87 + d))"

fun show_hex :: "nat \<Rightarrow> string" where
  "show_hex n = (if n < 16 then [hex_digit n] else show_hex (n div 16) @ [hex_digit (n mod 16)])"

declare show_hex.simps [simp del]

definition segments :: "128 word \<Rightarrow> nat list" where
  "segments a = map (\<lambda>i. unat a div 2 ^ (16 * (7 - i)) mod 65536) [0..<8]"

fun zero_span :: "nat \<Rightarrow> nat \<times> nat \<Rightarrow> nat \<times> nat \<Rightarrow> nat list \<Rightarrow> nat \<times> nat" where
  "zero_span i longest cur [] = longest"
| "zero_span i longest cur (s # ss) =
     (if s = 0 then
        let cur = (if snd cur = 0 then i else fst cur, snd cur + 1)
        in zero_span (i + 1) (if snd cur > snd longest then cur else longest) cur ss
      else zero_span (i + 1) longest (0, 0) ss)"

definition show_v6 :: "128 word \<Rightarrow> string" where
  "show_v6 a =
     (if unat a div 2 ^ 32 = 0xFFFF then ''::ffff:'' @ show_v4 (of_nat (unat a mod 2 ^ 32))
      else let gs = segments a; (start, len) = zero_span 0 (0, 0) (0, 0) gs
        in if len > 1
           then join_with '':'' (map show_hex (take start gs)) @ ''::'' @ join_with '':'' (map show_hex (drop (start + len) gs))
           else join_with '':'' (map show_hex gs))"

fun show_ip :: "ipaddr \<Rightarrow> string" where
  "show_ip (V4 a) = show_v4 a"
| "show_ip (V6 a) = show_v6 a"

section \<open>Editing the document\<close>

definition confirmed_alias :: string where
  "confirmed_alias = ''asd_confirmed_malicious''"

definition confirmed_rule :: string where
  "confirmed_rule = ''asd-confirmed-malicious-block''"

definition has_name :: "string \<Rightarrow> toml \<Rightarrow> bool" where
  "has_name n v \<longleftrightarrow> Option.bind (toml_get v ''name'') as_str = Some n"

definition host_cidrs :: "ipaddr list \<Rightarrow> string list" where
  "host_cidrs hosts = remdups_adj (sort (map (\<lambda>ip. show_ip ip @ ''/32'') hosts))"

definition cidrs_value :: "ipaddr list \<Rightarrow> toml" where
  "cidrs_value hosts = TArray (map TString (host_cidrs hosts))"

fun set_cidrs :: "toml \<Rightarrow> toml \<Rightarrow> toml" where
  "set_cidrs (TTable t) c = TTable (toml_insert t ''cidrs'' c)"
| "set_cidrs v c = v"

definition new_alias :: "toml \<Rightarrow> toml" where
  "new_alias c = TTable [(''cidrs'', c), (''name'', TString confirmed_alias)]"

fun put_alias :: "toml list \<Rightarrow> toml \<Rightarrow> toml list" where
  "put_alias [] c = [new_alias c]"
| "put_alias (a # as) c = (if has_name confirmed_alias a then set_cidrs a c # as else a # put_alias as c)"

definition block_rule :: toml where
  "block_rule = TTable
     [(''action'', TString ''drop''), (''log'', TBoolean True), (''name'', TString confirmed_rule),
      (''protocol'', TString ''any''), (''src'', TString (''alias:'' @ confirmed_alias))]"

text \<open>\<^verbatim>\<open>expect\<close> on something that is not a table or not an array panics: \<open>None\<close>.\<close>

definition edit_array :: "string \<Rightarrow> (toml list \<Rightarrow> toml list) \<Rightarrow> toml \<Rightarrow> toml option" where
  "edit_array k f doc = Option.bind (as_table doc) (\<lambda>t. Option.bind (as_array (tbl_get_or t k (TArray [])))
     (\<lambda>xs. Some (TTable (toml_insert t k (TArray (f xs))))))"

definition upsert_alias :: "toml \<Rightarrow> ipaddr list \<Rightarrow> toml option" where
  "upsert_alias doc hosts = edit_array ''aliases'' (\<lambda>as. put_alias as (cidrs_value hosts)) doc"

definition upsert_blocking_rule :: "toml \<Rightarrow> toml option" where
  "upsert_blocking_rule doc =
     edit_array ''rules'' (\<lambda>rs. block_rule # filter (\<lambda>r. \<not> has_name confirmed_rule r) rs) doc"

section \<open>The sync call\<close>

text \<open>A path is its directory and its file name.  \<^verbatim>\<open>with_extension\<close> replaces what follows the last dot of
  the name, unless that dot starts the name.\<close>

type_synonym path = "string \<times> string"

definition file_stem :: "string \<Rightarrow> string" where
  "file_stem n =
     (let ext = takeWhile (\<lambda>c. c \<noteq> CHR ''.'') (rev n); stem = take (length n - length ext - 1) n
      in if length ext = length n \<or> stem = [] then n else stem)"

definition with_extension :: "path \<Rightarrow> string \<Rightarrow> path" where
  "with_extension p ext = (if snd p = [] \<or> snd p = ''..'' then p else (fst p, file_stem (snd p) @ ''.'' @ ext))"

datatype sync_error = Read | Parse | NotATable | Serialize | Write path | Signal | SignalNonZero

datatype 'a sync_outcome = Panicked | Failed sync_error | Done 'a

text \<open>What the environment does with this call: whether the temporary file can be written (and what a
  failed write leaves there), whether it can be renamed, and what \<^verbatim>\<open>kill -HUP\<close> gives.\<close>

record environment =
  write_result :: "string option option"
  rename_ok :: bool
  kill_status :: "bool option"

type_synonym files = "path \<Rightarrow> string option"

definition load_doc :: "(string \<Rightarrow> toml option) \<Rightarrow> files \<Rightarrow> path \<Rightarrow> sync_error + toml" where
  "load_doc from_str fs p =
     (case fs p of
        None \<Rightarrow> Inl Read
      | Some text \<Rightarrow>
          (case from_str text of
             None \<Rightarrow> Inl Parse
           | Some v \<Rightarrow> if as_table v = None then Inl NotATable else Inr v))"

definition save :: "(toml \<Rightarrow> string option) \<Rightarrow> environment \<Rightarrow> files \<Rightarrow> path \<Rightarrow> toml \<Rightarrow> (sync_error + unit) \<times> files" where
  "save to_string env fs p doc =
     (case to_string doc of
        None \<Rightarrow> (Inl Serialize, fs)
      | Some text \<Rightarrow>
          (let tmp = with_extension p ''toml.asd-tmp''
           in case write_result env of
                Some left \<Rightarrow> (Inl (Write tmp), fs(tmp := left))
              | None \<Rightarrow>
                  (if rename_ok env then (Inr (), fs(tmp := None, p := Some text))
                   else (Inl (Write p), fs(tmp := Some text)))))"

definition signal_reload :: "environment \<Rightarrow> unit sync_outcome" where
  "signal_reload env =
     (case kill_status env of None \<Rightarrow> Failed Signal | Some st \<Rightarrow> if st then Done () else Failed SignalNonZero)"

definition updated_doc :: "toml \<Rightarrow> ipaddr list \<Rightarrow> toml option" where
  "updated_doc doc hosts = Option.bind (upsert_alias doc hosts) upsert_blocking_rule"

definition sync_confirmed_hosts :: "(string \<Rightarrow> toml option) \<Rightarrow> (toml \<Rightarrow> string option) \<Rightarrow> environment \<Rightarrow> files \<Rightarrow> path
  \<Rightarrow> ipaddr list \<Rightarrow> unit sync_outcome \<times> files" where
  "sync_confirmed_hosts from_str to_string env fs p hosts =
     (case load_doc from_str fs p of
        Inl e \<Rightarrow> (Failed e, fs)
      | Inr doc \<Rightarrow>
          (case updated_doc doc hosts of
             None \<Rightarrow> (Panicked, fs)
           | Some doc' \<Rightarrow>
               (case save to_string env fs p doc' of
                  (Inl e, fs') \<Rightarrow> (Failed e, fs')
                | (Inr _, fs') \<Rightarrow> (signal_reload env, fs'))))"

text \<open>The reading back, through types of its own: every alias has a name, \<^verbatim>\<open>cidrs\<close> is optional.\<close>

definition de_alias_only :: "toml \<Rightarrow> (string \<times> string list) option" where
  "de_alias_only v = do {
     t \<leftarrow> as_table v;
     nm \<leftarrow> de_field t ''name'' as_str None;
     cs \<leftarrow> de_field t ''cidrs'' (de_vec as_str) (Some []);
     Some (nm, cs) }"

definition aliases_only :: "toml \<Rightarrow> (string \<times> string list) list option" where
  "aliases_only v = do { t \<leftarrow> as_table v; de_field t ''aliases'' (de_vec de_alias_only) (Some []) }"

definition current_confirmed_hosts :: "(string \<Rightarrow> toml option) \<Rightarrow> files \<Rightarrow> path \<Rightarrow> sync_error + string list" where
  "current_confirmed_hosts from_str fs p =
     (case fs p of
        None \<Rightarrow> Inl Read
      | Some text \<Rightarrow>
          (case Option.bind (from_str text) aliases_only of
             None \<Rightarrow> Inl Parse
           | Some as \<Rightarrow> Inr (case find (\<lambda>a. fst a = confirmed_alias) as of Some a \<Rightarrow> snd a | None \<Rightarrow> [])))"

section \<open>The list of networks\<close>

lemma strict_sorted_remdups_adj: "sorted xs \<Longrightarrow> sorted_wrt (<) (remdups_adj (xs :: 'a :: linorder list))"
  by (induction xs rule: remdups_adj.induct) (auto simp: le_less)

lemma host_cidrs_set: "set (host_cidrs hosts) = (\<lambda>ip. show_ip ip @ ''/32'') ` set hosts"
  by (simp add: host_cidrs_def)

lemma host_cidrs_sorted: "sorted_wrt (<) (host_cidrs hosts)"
  by (simp add: host_cidrs_def strict_sorted_remdups_adj)

lemma host_cidrs_cong: "set hosts = set hosts' \<Longrightarrow> host_cidrs hosts = host_cidrs hosts'"
  by (rule strict_sorted_equal) (simp_all add: host_cidrs_set host_cidrs_sorted)

section \<open>The edited document as the firewall reads it\<close>

definition asd_rule :: "'net \<Rightarrow> 'net rule" where
  "asd_rule any4 = \<lparr>rule_name = confirmed_rule, rule_protocol = protocol.Any, rule_direction = AnyDir,
     rule_src = Alias confirmed_alias, rule_dst = Cidr any4, rule_src_port = default_ports, rule_dst_port = default_ports,
     rule_action = Drop, rate_limit_pps = None, auto_block_secs = None, auto_block_threshold = 1,
     auto_block_window_secs = 60, rule_log = True\<rparr>"

fun replace_alias :: "'net alias_def list \<Rightarrow> 'net list \<Rightarrow> 'net alias_def list" where
  "replace_alias [] nets = [\<lparr>alias_name = confirmed_alias, alias_cidrs = nets\<rparr>]"
| "replace_alias (a # as) nets =
     (if alias_name a = confirmed_alias then a\<lparr>alias_cidrs := nets\<rparr> # as else a # replace_alias as nets)"

definition synced_config :: "'net config \<Rightarrow> 'net \<Rightarrow> 'net list \<Rightarrow> 'net config" where
  "synced_config cfg any4 nets = cfg
     \<lparr>aliases := replace_alias (aliases cfg) nets,
      rules := asd_rule any4 # filter (\<lambda>r. rule_name r \<noteq> confirmed_rule) (rules cfg)\<rparr>"

lemma has_name_table: "has_name n (TTable t) \<longleftrightarrow> Option.bind (tbl_get t ''name'') as_str = Some n"
  by (simp add: has_name_def toml_get_def)

lemma de_alias_name: "de_alias pn v = Some a \<Longrightarrow> has_name n v \<longleftrightarrow> alias_name a = n"
  by (cases v) (auto simp: de_alias_def has_name_table bind_eq_Some_conv dest: de_field_required)

lemma de_rule_name: "de_rule pn v = Some r \<Longrightarrow> has_name n v \<longleftrightarrow> rule_name r = n"
  by (cases v) (auto simp: de_rule_def has_name_table bind_eq_Some_conv dest: de_field_required)

lemma de_alias_set_cidrs:
  assumes "de_alias pn v = Some a" and "de_vec (de_net pn) c = Some nets"
  shows "de_alias pn (set_cidrs v c) = Some (a\<lparr>alias_cidrs := nets\<rparr>)"
  using assms by (cases v) (auto simp: de_alias_def de_field_insert split: bind_splits)

lemma de_new_alias: "de_vec (de_net pn) c = Some nets \<Longrightarrow>
  de_alias pn (new_alias c) = Some \<lparr>alias_name = confirmed_alias, alias_cidrs = nets\<rparr>"
  by (simp add: new_alias_def de_alias_def de_field_def tbl_get_def)

lemma de_put_alias:
  assumes "de_list (de_alias pn) xs = Some as" and c: "de_vec (de_net pn) c = Some nets"
  shows "de_list (de_alias pn) (put_alias xs c) = Some (replace_alias as nets)"
  using assms(1)
proof (induction xs arbitrary: "as")
  case (Cons x xs)
  then obtain a as' where "de_alias pn x = Some a" "de_list (de_alias pn) xs = Some as'" "as = a # as'"
    by (auto split: bind_splits)
  with Cons.IH show ?case by (simp add: de_alias_name de_alias_set_cidrs [OF _ c])
qed (simp add: de_new_alias [OF c])

lemma de_block_rule: "pn ''0.0.0.0/0'' = Inr any4 \<Longrightarrow> de_rule pn block_rule = Some (asd_rule any4)"
  by (simp add: block_rule_def de_rule_def de_field_def tbl_get_def de_protocol_def de_network_def
      deserialize_network_match_def confirmed_alias_def default_net_def de_action_def asd_rule_def)

lemma de_array_field: "de_field t k (de_vec f) (Some []) = Some ys \<Longrightarrow>
  \<exists>xs. as_array (tbl_get_or t k (TArray [])) = Some xs \<and> de_list f xs = Some ys"
  by (auto simp: de_field_def de_vec_def tbl_get_or_def bind_eq_Some_conv split: option.splits)

lemma edit_array_Some: "as_array (tbl_get_or t k (TArray [])) = Some xs \<Longrightarrow>
  edit_array k g (TTable t) = Some (TTable (toml_insert t k (TArray (g xs))))"
  by (simp add: edit_array_def)

lemma de_config_aliases:
  assumes "de_config pn (TTable t) = Some cfg" and "de_list (de_alias pn) xs = Some as"
  shows "de_config pn (TTable (toml_insert t ''aliases'' (TArray xs))) = Some (cfg\<lparr>aliases := as\<rparr>)"
  using assms by (auto simp: de_config_def de_field_insert de_vec_def bind_eq_Some_conv)

lemma de_config_rules:
  assumes "de_config pn (TTable t) = Some cfg" and "de_list (de_rule pn) xs = Some rs"
  shows "de_config pn (TTable (toml_insert t ''rules'' (TArray xs))) = Some (cfg\<lparr>rules := rs\<rparr>)"
  using assms by (auto simp: de_config_def de_field_insert de_vec_def bind_eq_Some_conv)

lemma de_config_fields:
  assumes "de_config pn (TTable t) = Some cfg"
  shows "de_field t ''rules'' (de_vec (de_rule pn)) (Some []) = Some (rules cfg)"
    and "de_field t ''aliases'' (de_vec (de_alias pn)) (Some []) = Some (aliases cfg)"
  using assms by (auto simp: de_config_def bind_eq_Some_conv)

lemma de_config_table: "de_config pn v = Some cfg \<Longrightarrow> \<exists>t. v = TTable t"
  by (cases v) (simp_all add: de_config_def)

lemma upsert_alias_config:
  assumes cfg: "de_config pn doc = Some cfg" and nets: "de_vec (de_net pn) (cidrs_value hosts) = Some nets"
  shows "\<exists>doc'. upsert_alias doc hosts = Some doc' \<and> de_config pn doc' = Some (cfg\<lparr>aliases := replace_alias (aliases cfg) nets\<rparr>)"
proof -
  obtain t where t: "doc = TTable t" using de_config_table [OF cfg] by blast
  obtain xs where "as_array (tbl_get_or t ''aliases'' (TArray [])) = Some xs" "de_list (de_alias pn) xs = Some (aliases cfg)"
    using de_array_field [OF de_config_fields(2) [OF cfg [unfolded t]]] by blast
  then show ?thesis
    using cfg by (simp add: t upsert_alias_def edit_array_Some de_config_aliases de_put_alias [OF _ nets])
qed

lemma upsert_rule_config:
  assumes cfg: "de_config pn doc = Some cfg" and any4: "pn ''0.0.0.0/0'' = Inr any4"
  shows "\<exists>doc'. upsert_blocking_rule doc = Some doc' \<and> de_config pn doc' =
    Some (cfg\<lparr>rules := asd_rule any4 # filter (\<lambda>r. rule_name r \<noteq> confirmed_rule) (rules cfg)\<rparr>)"
proof -
  obtain t where t: "doc = TTable t" using de_config_table [OF cfg] by blast
  obtain xs where xs: "as_array (tbl_get_or t ''rules'' (TArray [])) = Some xs" "de_list (de_rule pn) xs = Some (rules cfg)"
    using de_array_field [OF de_config_fields(1) [OF cfg [unfolded t]]] by blast
  have "de_list (de_rule pn) (block_rule # filter (\<lambda>r. \<not> has_name confirmed_rule r) xs) =
      Some (asd_rule any4 # filter (\<lambda>r. rule_name r \<noteq> confirmed_rule) (rules cfg))"
    using de_list_filter [OF xs(2), of "\<lambda>r. \<not> has_name confirmed_rule r" "\<lambda>r. rule_name r \<noteq> confirmed_rule"]
    by (simp add: de_block_rule [of pn, OF any4] de_rule_name)
  then show ?thesis
    using cfg xs by (simp add: t upsert_blocking_rule_def edit_array_Some de_config_rules del: de_list.simps)
qed

lemma updated_doc_config:
  assumes "de_config pn doc = Some cfg" and "de_vec (de_net pn) (cidrs_value hosts) = Some nets"
    and "pn ''0.0.0.0/0'' = Inr any4"
  shows "\<exists>doc'. updated_doc doc hosts = Some doc' \<and> de_config pn doc' = Some (synced_config cfg any4 nets)"
proof -
  obtain d where d: "upsert_alias doc hosts = Some d" "de_config pn d = Some (cfg\<lparr>aliases := replace_alias (aliases cfg) nets\<rparr>)"
    using upsert_alias_config [OF assms(1,2)] by blast
  show ?thesis using upsert_rule_config [of pn, OF d(2) assms(3)]
    by (simp add: updated_doc_def d(1) synced_config_def)
qed

lemma replace_alias_names: "alias_name ` set (replace_alias as nets) = insert confirmed_alias (alias_name ` set as)"
  by (induction "as") auto

lemma replace_alias_distinct: "distinct (map alias_name as) \<Longrightarrow> distinct (map alias_name (replace_alias as nets))"
proof (induction "as")
  case (Cons a as)
  then show ?case using replace_alias_names [of "as" nets] by (auto simp: image_iff)
qed simp

lemma alias_defined_mono: "alias_defined ns m \<Longrightarrow> ns \<subseteq> ns' \<Longrightarrow> alias_defined ns' m"
  by (cases m) auto

lemma synced_config_wf: "config_wf cfg \<Longrightarrow> config_wf (synced_config cfg any4 nets)"
  by (auto simp: config_wf_def synced_config_def replace_alias_names replace_alias_distinct asd_rule_def
      default_ports_def intro: alias_defined_mono)

section \<open>The networks of the alias\<close>

text \<open>What the sync relies on of \<^verbatim>\<open>ipnet\<close>: \<^verbatim>\<open>0.0.0.0/0\<close> holds every IPv4 address and no IPv6 address, an IPv4
  address with prefix 32 holds itself only, and an IPv6 address with prefix 32 holds the addresses with
  the same first 32 bits.\<close>

fun host_net :: "('net \<Rightarrow> ipaddr \<Rightarrow> bool) \<Rightarrow> ipaddr \<Rightarrow> 'net \<Rightarrow> bool" where
  "host_net contains (V4 a) n = (\<forall>x. contains n x \<longleftrightarrow> x = V4 a)"
| "host_net contains (V6 a) n = (\<forall>x. contains n x \<longleftrightarrow> (\<exists>b. x = V6 b \<and> unat b div 2 ^ 96 = unat a div 2 ^ 96))"

definition ipnet_ok :: "(string \<Rightarrow> 'e + 'net) \<Rightarrow> ('net \<Rightarrow> ipaddr \<Rightarrow> bool) \<Rightarrow> ipaddr list \<Rightarrow> bool" where
  "ipnet_ok parse_net contains hosts \<longleftrightarrow>
     (\<exists>any4. parse_net ''0.0.0.0/0'' = Inr any4 \<and> (\<forall>x. contains any4 x \<longleftrightarrow> is_v4 x))
     \<and> (\<forall>h \<in> set hosts. \<exists>n. parse_net (show_ip h @ ''/32'') = Inr n \<and> host_net contains h n)"

lemma de_list_all:
  assumes "\<forall>x \<in> set xs. \<exists>y. f x = Some y \<and> P x y"
  shows "\<exists>ys. de_list f xs = Some ys \<and> list_all2 P xs ys"
  using assms by (induction xs) force+

lemma host_net_v4: "host_net contains h n \<Longrightarrow> contains n (V4 a) \<longleftrightarrow> h = V4 a"
  by (cases h) auto

lemma list_all2_set1: "list_all2 P xs ys \<Longrightarrow> \<forall>x \<in> set xs. \<exists>y \<in> set ys. P x y"
  by (induction rule: list_all2_induct) auto

lemma list_all2_set2: "list_all2 P xs ys \<Longrightarrow> \<forall>y \<in> set ys. \<exists>x \<in> set xs. P x y"
  by (induction rule: list_all2_induct) auto

lemma alias_networks:
  assumes "ipnet_ok pn contains hosts"
  shows "\<exists>nets. de_vec (de_net pn) (cidrs_value hosts) = Some nets
    \<and> (\<forall>a. (\<exists>n \<in> set nets. contains n (V4 a)) \<longleftrightarrow> V4 a \<in> set hosts)"
proof -
  define P where "P v n \<longleftrightarrow> de_net pn v = Some n \<and> (\<exists>h \<in> set hosts. v = TString (show_ip h @ ''/32'') \<and> host_net contains h n)" for v n
  have each: "\<exists>n. de_net pn (TString (show_ip h @ ''/32'')) = Some n \<and> host_net contains h n" if "h \<in> set hosts" for h
    using assms that by (fastforce simp: ipnet_ok_def de_net_def)
  then obtain nets where nets: "de_list (de_net pn) (map TString (host_cidrs hosts)) = Some nets"
      "list_all2 P (map TString (host_cidrs hosts)) nets"
    using de_list_all [of "map TString (host_cidrs hosts)" "de_net pn" P] by (fastforce simp: P_def host_cidrs_set)
  have "(\<exists>n \<in> set nets. contains n (V4 a)) \<longleftrightarrow> V4 a \<in> set hosts" for a
  proof
    assume "\<exists>n \<in> set nets. contains n (V4 a)"
    then obtain v n where "P v n" "contains n (V4 a)"
      using list_all2_set2 [OF nets(2)] by blast
    then show "V4 a \<in> set hosts" by (auto simp: P_def host_net_v4)
  next
    assume "V4 a \<in> set hosts"
    then have "TString (show_ip (V4 a) @ ''/32'') \<in> set (map TString (host_cidrs hosts))"
      unfolding set_map host_cidrs_set by blast
    then obtain n where n: "n \<in> set nets" "P (TString (show_ip (V4 a) @ ''/32'')) n"
      using list_all2_set1 [OF nets(2)] by blast
    then have "host_net contains (V4 a) n"
      using each [OF \<open>V4 a \<in> set hosts\<close>] by (simp add: P_def)
    then show "\<exists>n \<in> set nets. contains n (V4 a)" using n(1) by (auto simp: host_net_v4)
  qed
  then show ?thesis using nets(1) by (auto simp: de_vec_def cidrs_value_def)
qed

section \<open>The firewall after a sync\<close>

lemma alias_table_get: "distinct (map alias_name as) \<Longrightarrow> a \<in> set as \<Longrightarrow>
  tbl_get (alias_table as) (alias_name a) = Some (alias_cidrs a)"
  by (induction "as" rule: rev_induct) (auto simp: alias_table_def image_iff)

lemma replace_alias_mem: "\<exists>a \<in> set (replace_alias as nets). alias_name a = confirmed_alias \<and> alias_cidrs a = nets"
  by (induction "as") auto

lemma engine_new_fields [simp]: "eng_rules (engine_new cfg) = rules cfg"
  "eng_aliases (engine_new cfg) = alias_table (aliases cfg)" "eng_trusted (engine_new cfg) = trusted cfg"
  by (simp_all add: engine_new_def case_prod_beta Let_def)

lemma synced_config_fields [simp]: "trusted (synced_config cfg any4 nets) = trusted cfg"
  "rules (synced_config cfg any4 nets) = asd_rule any4 # filter (\<lambda>r. rule_name r \<noteq> confirmed_rule) (rules cfg)"
  "aliases (synced_config cfg any4 nets) = replace_alias (aliases cfg) nets"
  by (simp_all add: synced_config_def)

lemma asd_rule_matches:
  assumes "config_wf cfg"
  shows "rule_matches contains (engine_new (synced_config cfg any4 nets)) (asd_rule any4) pkt \<longleftrightarrow>
    contains any4 (dst_ip pkt) \<and> (\<exists>n \<in> set nets. contains n (src_ip pkt))"
proof -
  have "tbl_get (alias_table (replace_alias (aliases cfg) nets)) confirmed_alias = Some nets"
    using alias_table_get [OF replace_alias_distinct] replace_alias_mem [of "aliases cfg" nets] assms
    by (metis config_wf_def)
  moreover have "p \<le> 65535" for p :: u16 using unsigned_less [of p, where ?'a = nat] by (simp add: word_le_nat_alt)
  ultimately show ?thesis by (auto simp: rule_matches_def asd_rule_def default_ports_def)
qed

lemma first_rule_decides:
  assumes "rules cfg = r # rs" and "rule_matches contains (engine_new cfg) r pkt" and "src_ip pkt \<notin> set (trusted cfg)"
  shows "evaluate contains (engine_new cfg) now pkt = Some (apply_rule (engine_new cfg) now 0 r pkt)"
proof -
  have "first_match contains (engine_new cfg) pkt = Some 0"
    using assms(1,2) by (simp add: first_match_def upt_conv_Cons del: upt_Suc)
  then show ?thesis
    using assms(1,3) by (simp add: evaluate_linear_eq [OF engine_new_inv] evaluate_linear_def)
qed

definition confirmed_drop :: decision where
  "confirmed_drop = \<lparr>dec_verdict = VDrop, dec_rule_name = confirmed_rule, dec_log = True, dec_auto_block = None\<rparr>"

lemma apply_asd_rule: "apply_rule eng now i (asd_rule any4) pkt = (confirmed_drop, eng)"
  by (simp add: apply_rule_def asd_rule_def confirmed_drop_def gate_auto_block_def)

lemma config_load_Inr: "config_load from_str pn file = Inr cfg \<longleftrightarrow>
  (\<exists>text doc. file = Some text \<and> from_str text = Some doc \<and> de_config pn doc = Some cfg \<and> config_wf cfg)"
  unfolding config_load_def validate_iff_wf [symmetric]
  by (auto split: option.splits simp: bind_eq_Some_conv)

lemma sync_Done:
  assumes "sync_confirmed_hosts from_str to_string env fs p hosts = (Done (), fs')"
  shows "\<exists>text doc doc' text'. fs p = Some text \<and> from_str text = Some doc \<and> updated_doc doc hosts = Some doc'
    \<and> to_string doc' = Some text' \<and> fs' p = Some text'"
  using assms by (auto simp: sync_confirmed_hosts_def load_doc_def save_def Let_def split: option.splits if_splits)

text \<open>C17: The rule-sync loop does what it is for, end to end.  When the firewall can load its configuration
  file and a sync of the confirmed hosts succeeds, the firewall can load the rewritten file; the new rule is
  the first one, the operator's other rules follow in their order and the trusted list is unchanged; and of
  the IPv4 packets that do not come from a trusted address, the rule matches exactly those from a confirmed
  host, for which the reloaded engine answers with a logged drop whatever the other rules say.\<close>

theorem synced_hosts_dropped:
  assumes ipnet: "ipnet_ok parse_net contains hosts"
    and print_parse: "\<And>doc text. to_string doc = Some text \<Longrightarrow> from_str text = Some doc"
    and loaded: "config_load from_str parse_net (fs p) = Inr cfg"
    and sync: "sync_confirmed_hosts from_str to_string env fs p hosts = (Done (), fs')"
  shows "\<exists>cfg' r. config_load from_str parse_net (fs' p) = Inr cfg'
    \<and> rules cfg' = r # filter (\<lambda>r. rule_name r \<noteq> confirmed_rule) (rules cfg) \<and> trusted cfg' = trusted cfg
    \<and> (\<forall>pkt. is_v4 (src_ip pkt) \<and> is_v4 (dst_ip pkt) \<longrightarrow>
          (rule_matches contains (engine_new cfg') r pkt \<longleftrightarrow> src_ip pkt \<in> set hosts))
    \<and> (\<forall>pkt now. is_v4 (src_ip pkt) \<and> is_v4 (dst_ip pkt) \<and> src_ip pkt \<in> set hosts - set (trusted cfg) \<longrightarrow>
          evaluate contains (engine_new cfg') now pkt = Some (confirmed_drop, engine_new cfg'))"
proof -
  obtain any4 where any4: "parse_net ''0.0.0.0/0'' = Inr any4" "\<forall>x. contains any4 x \<longleftrightarrow> is_v4 x"
    using ipnet by (auto simp: ipnet_ok_def)
  obtain nets where nets: "de_vec (de_net parse_net) (cidrs_value hosts) = Some nets"
      "\<forall>a. (\<exists>n \<in> set nets. contains n (V4 a)) \<longleftrightarrow> V4 a \<in> set hosts"
    using alias_networks [OF ipnet] by blast
  obtain u doc doc' u' where s: "fs p = Some u" "from_str u = Some doc" "updated_doc doc hosts = Some doc'"
      "to_string doc' = Some u'" "fs' p = Some u'"
    using sync_Done [OF sync] by blast
  have cfg: "de_config parse_net doc = Some cfg" "config_wf cfg" using loaded s(1,2) by (auto simp: config_load_Inr)
  have cfg': "de_config parse_net doc' = Some (synced_config cfg any4 nets)"
    using updated_doc_config [of parse_net, OF cfg(1) nets(1) any4(1)] s(3) by simp
  have matches: "rule_matches contains (engine_new (synced_config cfg any4 nets)) (asd_rule any4) pkt \<longleftrightarrow> src_ip pkt \<in> set hosts"
    if "is_v4 (src_ip pkt)" "is_v4 (dst_ip pkt)" for pkt
    using that any4(2) nets(2) by (cases "src_ip pkt") (simp_all add: asd_rule_matches [OF cfg(2)])
  show ?thesis
    using print_parse [OF s(4)] cfg' synced_config_wf [OF cfg(2)] first_rule_decides [OF synced_config_fields(2) matches [THEN iffD2]]
    by (intro exI [of _ "synced_config cfg any4 nets"] exI [of _ "asd_rule any4"])
      (simp add: config_load_Inr s(5) matches apply_asd_rule)
qed

text \<open>A concrete instance: CIDR networks as an address and a prefix length, a file that accepts
  everything, one confirmed host.\<close>

definition sample_parse_net :: "string \<Rightarrow> unit + ipaddr \<times> nat" where
  "sample_parse_net s =
     (case split_once (CHR ''/'') s of
        None \<Rightarrow> Inl ()
      | Some (a, l) \<Rightarrow>
          (case (parse_ip a, parse_uint 128 l) of (Some ip, Inr n) \<Rightarrow> Inr (ip, n) | _ \<Rightarrow> Inl ()))"

fun sample_contains :: "ipaddr \<times> nat \<Rightarrow> ipaddr \<Rightarrow> bool" where
  "sample_contains (V4 a, l) (V4 b) = (unat a div 2 ^ (32 - l) = unat b div 2 ^ (32 - l))"
| "sample_contains (V6 a, l) (V6 b) = (unat a div 2 ^ (128 - l) = unat b div 2 ^ (128 - l))"
| "sample_contains _ _ = False"

definition sample_host :: u32 where
  "sample_host = 0xCB007109"

definition allow_all :: toml where
  "allow_all = TTable [(''action'', TString ''accept''), (''name'', TString ''allow-all'')]"

definition sample_doc :: toml where
  "sample_doc = TTable [(''rules'', TArray [allow_all])]"

definition sample_synced :: toml where
  "sample_synced = TTable [(''aliases'', TArray [new_alias (cidrs_value [V4 sample_host])]),
     (''rules'', TArray [block_rule, allow_all])]"

definition sample_from_str :: "string \<Rightarrow> toml option" where
  "sample_from_str = map_of [(''before'', sample_doc), (''after'', sample_synced)]"

definition sample_to_string :: "toml \<Rightarrow> string option" where
  "sample_to_string d = (if d = sample_synced then Some ''after'' else None)"

definition sample_path :: path where
  "sample_path = (''/etc'', ''rustwall.toml'')"

definition sample_env :: environment where
  "sample_env = \<lparr>write_result = None, rename_ok = True, kill_status = Some True\<rparr>"

lemma parse_ip_show_v4: "parse_ip (show_v4 a) = Some (V4 a)"
  using parse_show_v4 [of a] by (simp add: parse_ip_def parse_v4_def read_ipv4_show)

lemma sample_parse_host: "sample_parse_net (show_v4 a @ ''/32'') = Inr (V4 a, 32)"
proof -
  have "split_once (CHR ''/'') (show_v4 a @ ''/32'') = Some (show_v4 a, ''32'')"
    by (simp add: split_once_append show_v4_no_sep)
  moreover have "parse_uint 128 ''32'' = Inr 32" by code_simp
  ultimately show ?thesis by (simp add: sample_parse_net_def parse_ip_show_v4)
qed

lemma sample_parse_any4: "sample_parse_net ''0.0.0.0/0'' = Inr (V4 0, 0)"
proof -
  have "show_nat 0 = ''0''" by code_simp
  then have "show_v4 0 = ''0.0.0.0''" by (simp add: show_v4_def octets_def)
  then have "parse_ip ''0.0.0.0'' = Some (V4 0)" using parse_ip_show_v4 [of 0] by simp
  moreover have "split_once (CHR ''/'') ''0.0.0.0/0'' = Some (''0.0.0.0'', ''0'')" "parse_uint 128 ''0'' = Inr 0"
    by code_simp+
  ultimately show ?thesis by (simp add: sample_parse_net_def)
qed

lemma sample_ipnet_ok: "ipnet_ok sample_parse_net sample_contains [V4 sample_host]"
proof -
  have "sample_contains (V4 0, 0) x \<longleftrightarrow> is_v4 x" for x
    using unsigned_less [where ?'a = nat and ?'b = 32] by (cases x) simp_all
  moreover have "sample_contains (V4 sample_host, 32) x \<longleftrightarrow> x = V4 sample_host" for x
    by (cases x) (auto simp: word_unat_eq_iff)
  ultimately show ?thesis using sample_parse_any4 sample_parse_host [of sample_host] by (simp add: ipnet_ok_def)
qed

lemma sample_updated: "updated_doc sample_doc [V4 sample_host] = Some sample_synced"
proof -
  have "(''aliases'' :: string) \<le> ''rules''" "\<not> (''rules'' :: string) \<le> ''aliases''" by code_simp+
  then show ?thesis
    by (simp add: updated_doc_def upsert_alias_def upsert_blocking_rule_def edit_array_def sample_doc_def sample_synced_def
        tbl_get_or_def tbl_get_def toml_insert_def tbl_remove_def has_name_def toml_get_def allow_all_def confirmed_rule_def)
qed

lemma sample_sync: "sync_confirmed_hosts sample_from_str sample_to_string sample_env ((\<lambda>_. None)(sample_path := Some ''before''))
    sample_path [V4 sample_host] = (Done (), (\<lambda>_. None)(sample_path := Some ''after''))"
  by (simp add: sync_confirmed_hosts_def load_doc_def sample_from_str_def sample_updated save_def sample_to_string_def
      sample_env_def signal_reload_def sample_path_def with_extension_def fun_eq_iff, simp add: sample_doc_def)

definition sample_loaded :: "(ipaddr \<times> nat) config" where
  "sample_loaded = \<lparr>queue_num = 0, queue_workers = 1, default_policy = Drop, conntrack = conntrack_default,
     rules = [\<lparr>rule_name = ''allow-all'', rule_protocol = protocol.Any, rule_direction = AnyDir,
       rule_src = Cidr (V4 0, 0), rule_dst = Cidr (V4 0, 0), rule_src_port = default_ports, rule_dst_port = default_ports,
       rule_action = Accept, rate_limit_pps = None, auto_block_secs = None, auto_block_threshold = 1,
       auto_block_window_secs = 60, rule_log = False\<rparr>],
     aliases = [], trusted = [], log_max_per_sec = 200, metrics_listen = None, metrics_auth_token = None,
     quarantine_max_entries = 100000, sync_to_os_firewall = False\<rparr>"

lemma sample_loads: "config_load sample_from_str sample_parse_net (Some ''before'') = Inr sample_loaded"
proof -
  have "de_rule sample_parse_net allow_all = Some (hd (rules sample_loaded))"
    by (simp add: de_rule_def allow_all_def de_field_def tbl_get_def default_net_def sample_parse_any4 de_action_def sample_loaded_def)
  then have "de_config sample_parse_net sample_doc = Some sample_loaded"
    by (simp add: de_config_def sample_doc_def de_field_def tbl_get_def de_vec_def sample_loaded_def)
  moreover have "config_wf sample_loaded" by (simp add: config_wf_def sample_loaded_def default_ports_def)
  ultimately show ?thesis by (simp add: config_load_Inr sample_from_str_def)
qed

theorem synced_hosts_dropped_witness:
  "config_load sample_from_str sample_parse_net (Some ''before'') = Inr sample_loaded
   \<and> (\<exists>cfg'. config_load sample_from_str sample_parse_net (Some ''after'') = Inr cfg'
        \<and> evaluate sample_contains (engine_new cfg') 0 (sample_packet (V4 sample_host) 443) = Some (confirmed_drop, engine_new cfg'))"
proof -
  have "from_str_ok": "sample_to_string doc = Some u \<Longrightarrow> sample_from_str u = Some doc" for doc u
    by (simp add: sample_to_string_def sample_from_str_def split: if_splits)
  have "is_v4 (dst_ip (sample_packet (V4 sample_host) 443))" by (simp add: sample_packet_def ipv4_def)
  moreover have "src_ip (sample_packet (V4 sample_host) 443) = V4 sample_host" by (simp add: sample_packet_def)
  moreover have "trusted sample_loaded = []" by (simp add: sample_loaded_def)
  moreover have "\<exists>cfg'. config_load sample_from_str sample_parse_net (Some ''after'') = Inr cfg'
      \<and> (\<forall>pkt now. is_v4 (src_ip pkt) \<and> is_v4 (dst_ip pkt) \<and> src_ip pkt \<in> set [V4 sample_host] - set (trusted sample_loaded) \<longrightarrow>
         evaluate sample_contains (engine_new cfg') now pkt = Some (confirmed_drop, engine_new cfg'))"
    using synced_hosts_dropped [OF sample_ipnet_ok "from_str_ok" _ sample_sync, of sample_loaded]
    unfolding fun_upd_same using sample_loads by blast
  ultimately show ?thesis using sample_loads by auto
qed

section \<open>Failures leave the file alone\<close>

lemma file_stem_prefix: "\<exists>rest. n = file_stem n @ rest \<and> (rest = [] \<or> (\<exists>ext. rest = CHR ''.'' # ext \<and> CHR ''.'' \<notin> set ext))"
proof -
  let ?ext = "takeWhile (\<lambda>c. c \<noteq> CHR ''.'') (rev n)" and ?rest = "dropWhile (\<lambda>c. c \<noteq> CHR ''.'') (rev n)"
  have split: "n = rev ?rest @ rev ?ext" by (metis rev_append rev_rev_ident takeWhile_dropWhile_id)
  show ?thesis
  proof (cases ?rest)
    case (Cons c cs)
    then have "c = CHR ''.''" using hd_dropWhile [of "\<lambda>c. c \<noteq> CHR ''.''" "rev n"] by simp
    define ext where "ext = ?ext"
    then have ext: "?ext = ext" by simp
    have n: "n = rev cs @ CHR ''.'' # rev ext" using split Cons \<open>c = _\<close> ext by simp
    have "length n - length ext - 1 = length (rev cs)" using arg_cong [OF n, of length] by simp
    then have stem: "take (length n - length ext - 1) n = rev cs" using n by (metis append_eq_conv_conj)
    have "CHR ''.'' \<notin> set (rev ext)" unfolding ext [symmetric] by (auto dest: set_takeWhileD)
    then show ?thesis using n unfolding file_stem_def ext Let_def stem by auto
  next
    case Nil
    then have "length ?ext = length n" using arg_cong [OF split, of length] by simp
    then show ?thesis by (simp add: file_stem_def)
  qed
qed

lemma temporary_differs: "snd p \<noteq> [] \<Longrightarrow> snd p \<noteq> ''..'' \<Longrightarrow> with_extension p ''toml.asd-tmp'' \<noteq> p"
proof
  assume "snd p \<noteq> []" "snd p \<noteq> ''..''" and same: "with_extension p ''toml.asd-tmp'' = p"
  then have "file_stem (snd p) @ ''.toml.asd-tmp'' = snd p" by (metis append_Cons append_Nil snd_conv with_extension_def)
  moreover obtain rest where "snd p = file_stem (snd p) @ rest"
      "rest = [] \<or> (\<exists>ext. rest = CHR ''.'' # ext \<and> CHR ''.'' \<notin> set ext)"
    using file_stem_prefix by blast
  ultimately have "rest = ''.toml.asd-tmp''" by (metis same_append_eq)
  then show False using \<open>rest = [] \<or> _\<close> by simp
qed

text \<open>A sync replaces the file as a whole or leaves it as it was, whatever fails on the way; once the file is
  replaced only the signal can still fail.  No file but the temporary one is touched besides.\<close>

fun after_rename :: "unit sync_outcome \<Rightarrow> bool" where
  "after_rename (Done _) = True"
| "after_rename (Failed e) = (e = Signal \<or> e = SignalNonZero)"
| "after_rename Panicked = False"

lemma load_doc_error: "load_doc from_str fs p = Inl e \<Longrightarrow> e = Read \<or> e = Parse \<or> e = NotATable"
  by (auto simp: load_doc_def split: option.splits if_splits)

lemma signal_after_rename: "after_rename (signal_reload env)"
  by (simp add: signal_reload_def split: option.splits)

lemma save_cases:
  assumes "save to_string env fs p doc = (res, fs')" and "snd p \<noteq> []" "snd p \<noteq> ''..''"
  shows "(case res of Inr _ \<Rightarrow> fs' p = to_string doc \<and> to_string doc \<noteq> None
      | Inl e \<Rightarrow> fs' p = fs p \<and> e \<noteq> Signal \<and> e \<noteq> SignalNonZero)
    \<and> (\<forall>q. q \<noteq> p \<and> q \<noteq> with_extension p ''toml.asd-tmp'' \<longrightarrow> fs' q = fs q)"
  using assms(1) temporary_differs [OF assms(2,3)]
  by (auto simp: save_def Let_def split: option.splits if_splits)

lemma sync_atomic:
  assumes "sync_confirmed_hosts from_str to_string env fs p hosts = (res, fs')" and "snd p \<noteq> []" "snd p \<noteq> ''..''"
  shows "(if after_rename res
      then \<exists>doc doc'. load_doc from_str fs p = Inr doc \<and> updated_doc doc hosts = Some doc' \<and> fs' p = to_string doc' \<and> fs' p \<noteq> None
      else fs' p = fs p)
    \<and> (\<forall>q. q \<noteq> p \<and> q \<noteq> with_extension p ''toml.asd-tmp'' \<longrightarrow> fs' q = fs q)"
proof (cases "load_doc from_str fs p")
  case (Inl e)
  then show ?thesis using assms(1) load_doc_error [OF Inl] by (auto simp: sync_confirmed_hosts_def)
next
  case (Inr doc)
  show ?thesis
  proof (cases "updated_doc doc hosts")
    case None
    then show ?thesis using assms(1) Inr by (auto simp: sync_confirmed_hosts_def)
  next
    case (Some doc')
    obtain r fs'' where s: "save to_string env fs p doc' = (r, fs'')" by fastforce
    show ?thesis
      using assms(1) Inr Some save_cases [OF s assms(2,3)] signal_after_rename [of env]
      by (cases r) (auto simp: sync_confirmed_hosts_def s)
  qed
qed

section \<open>Reading the confirmed hosts back\<close>

lemma de_strings: "de_vec as_str (cidrs_value hosts) = Some (host_cidrs hosts)"
proof -
  have "de_list as_str (map TString xs) = Some xs" for xs by (induction xs) auto
  then show ?thesis by (simp add: de_vec_def cidrs_value_def)
qed

lemma de_alias_only_name: "de_alias_only v = Some a \<Longrightarrow> has_name n v \<longleftrightarrow> fst a = n"
  by (cases v) (auto simp: de_alias_only_def has_name_table bind_eq_Some_conv dest: de_field_required)

lemma de_alias_only_set:
  assumes "de_alias_only v = Some a"
  shows "de_alias_only (set_cidrs v (cidrs_value hosts)) = Some (fst a, host_cidrs hosts)"
  using assms by (cases v) (auto simp: de_alias_only_def de_field_insert de_strings bind_eq_Some_conv)

lemma de_alias_only_new: "de_alias_only (new_alias (cidrs_value hosts)) = Some (confirmed_alias, host_cidrs hosts)"
  by (simp add: new_alias_def de_alias_only_def de_field_def tbl_get_def de_strings)

lemma aliases_only_put:
  assumes "de_list de_alias_only xs = Some as"
  shows "\<exists>as'. de_list de_alias_only (put_alias xs (cidrs_value hosts)) = Some as'
    \<and> find (\<lambda>a. fst a = confirmed_alias) as' = Some (confirmed_alias, host_cidrs hosts)"
  using assms
proof (induction xs arbitrary: "as")
  case (Cons x xs)
  then obtain a as' where a: "de_alias_only x = Some a" "de_list de_alias_only xs = Some as'" "as = a # as'"
    by (auto simp: bind_eq_Some_conv)
  with Cons.IH [OF a(2)] show ?case by (auto simp: de_alias_only_name [OF a(1)] de_alias_only_set [OF a(1)])
qed (simp add: de_alias_only_new)

lemma edit_array_eq: "edit_array k f doc = Some doc' \<longleftrightarrow>
  (\<exists>t xs. doc = TTable t \<and> as_array (tbl_get_or t k (TArray [])) = Some xs \<and> doc' = TTable (toml_insert t k (TArray (f xs))))"
  by (cases doc) (auto simp: edit_array_def bind_eq_Some_conv)

lemma aliases_only_updated:
  assumes "updated_doc doc hosts = Some doc'" and "aliases_only doc = Some as"
  shows "\<exists>as'. aliases_only doc' = Some as' \<and> find (\<lambda>a. fst a = confirmed_alias) as' = Some (confirmed_alias, host_cidrs hosts)"
proof -
  obtain t xs ys where e: "doc = TTable t" "as_array (tbl_get_or t ''aliases'' (TArray [])) = Some xs"
      "doc' = TTable (toml_insert (toml_insert t ''aliases'' (TArray (put_alias xs (cidrs_value hosts)))) ''rules'' (TArray ys))"
    using assms(1) by (auto simp: updated_doc_def upsert_alias_def upsert_blocking_rule_def bind_eq_Some_conv edit_array_eq)
  have "de_list de_alias_only xs = Some as"
    using assms(2) e(1,2) by (auto simp: aliases_only_def de_field_def de_vec_def tbl_get_or_def bind_eq_Some_conv split: option.splits)
  from aliases_only_put [OF this] show ?thesis
    by (simp add: aliases_only_def e(3) de_field_insert de_vec_def)
qed

lemma de_alias_strings: "de_alias pn v = Some a \<Longrightarrow> \<exists>b. de_alias_only v = Some b"
proof -
  have strings: "\<exists>ss. de_list as_str xs = Some ss" if "de_list (de_net pn) xs = Some ns" for xs ns
    using that by (induction xs arbitrary: ns) (auto simp: bind_eq_Some_conv de_net_def)
  assume "de_alias pn v = Some a"
  then show ?thesis
    by (cases v) (auto simp: de_alias_def de_alias_only_def bind_eq_Some_conv de_vec_def de_field_def split: option.splits dest!: strings)
qed

lemma config_aliases_only: "de_config pn doc = Some cfg \<Longrightarrow> \<exists>as. aliases_only doc = Some as"
proof -
  have each: "\<exists>bs. de_list de_alias_only xs = Some bs" if "de_list (de_alias pn) xs = Some as" for xs "as"
    using that by (induction xs arbitrary: "as") (auto simp: bind_eq_Some_conv dest!: de_alias_strings)
  assume cfg: "de_config pn doc = Some cfg"
  then obtain t where "doc = TTable t" using de_config_table by blast
  with de_config_fields(2) [of pn t cfg] cfg show ?thesis
    by (auto simp: aliases_only_def de_field_def de_vec_def bind_eq_Some_conv split: option.splits dest!: each)
qed

text \<open> Writing the confirmed hosts and reading them back is a round trip: after a successful sync of a
  file the firewall can load, \<^verbatim>\<open>current_confirmed_hosts\<close> returns each host once as an \<^verbatim>\<open>/32\<close> entry, in strictly
  increasing order, whatever the alias held before and in whatever order the host set was iterated.\<close>

theorem confirmed_hosts_roundtrip:
  assumes print_parse: "\<And>doc text. to_string doc = Some text \<Longrightarrow> from_str text = Some doc"
    and loaded: "config_load from_str parse_net (fs p) = Inr cfg"
    and sync: "sync_confirmed_hosts from_str to_string env fs p hosts = (Done (), fs')"
  shows "\<exists>cidrs. current_confirmed_hosts from_str fs' p = Inr cidrs \<and> sorted_wrt (<) cidrs
    \<and> set cidrs = (\<lambda>ip. show_ip ip @ ''/32'') ` set hosts"
proof -
  obtain u doc doc' u' where s: "fs p = Some u" "from_str u = Some doc" "updated_doc doc hosts = Some doc'"
      "to_string doc' = Some u'" "fs' p = Some u'"
    using sync_Done [OF sync] by blast
  obtain "as" where "aliases_only doc = Some as"
    using loaded s(1,2) config_aliases_only by (fastforce simp: config_load_Inr)
  from aliases_only_updated [OF s(3) this] show ?thesis
    using print_parse [OF s(4)] by (auto simp: current_confirmed_hosts_def s(5) host_cidrs_set host_cidrs_sorted)
qed

theorem confirmed_hosts_roundtrip_witness:
  "current_confirmed_hosts sample_from_str ((\<lambda>_. None)(sample_path := Some ''after'')) sample_path =
     Inr [show_v4 sample_host @ ''/32'']"
proof -
  have "from_str_ok": "sample_to_string doc = Some u \<Longrightarrow> sample_from_str u = Some doc" for doc u
    by (simp add: sample_to_string_def sample_from_str_def split: if_splits)
  obtain cs where cs: "current_confirmed_hosts sample_from_str ((\<lambda>_. None)(sample_path := Some ''after'')) sample_path = Inr cs"
      "sorted_wrt (<) cs" "set cs = {show_v4 sample_host @ ''/32''}"
    using confirmed_hosts_roundtrip [OF "from_str_ok" _ sample_sync, of sample_parse_net sample_loaded] sample_loads by auto
  have "cs = [show_v4 sample_host @ ''/32'']"
    using strict_sorted_equal [of cs "[show_v4 sample_host @ ''/32'']"] cs(2,3) by simp
  then show ?thesis using cs(1) by simp
qed

end
