(* ===== verification/Nsm_Detect.thy ===== *)
theory Nsm_Detect
  imports ASD_Prelude Floats "HOL-Library.Sublist"
begin

text \<open>
  The network sensor's detectors (\<^verbatim>\<open>nsm-xdp/src/\<close>): the frame parser of \<^verbatim>\<open>packet.rs\<close>, the flow
  table of \<^verbatim>\<open>flow.rs\<close>, the alert of \<^verbatim>\<open>alert.rs\<close>, and the port-scan, SYN-flood, DNS-tunnel and
  signature detectors of \<^verbatim>\<open>detect/\<close>.  The frame views are those of the crate \<^verbatim>\<open>pnet\<close> and the
  fields of the record \<open>pnet\<close>.  The text of an alert is left out; its structured fields
  are kept.  The Shannon entropy of the DNS detector and the jitter of
  the beacon detector use the platform's \<^verbatim>\<open>log2\<close> and \<^verbatim>\<open>sqrt\<close>, which are arguments.
\<close>

unbundle bit_operations_syntax

section \<open>Packets\<close>

datatype nsm_proto = NTcp | NUdp | NIcmp | NOther u8

record packet_meta =
  pm_ts :: instant
  pm_src_ip :: ipaddr
  pm_dst_ip :: ipaddr
  pm_src_port :: u16
  pm_dst_port :: u16
  pm_proto :: nsm_proto
  pm_tcp_flags :: u8
  pm_length :: nat
  payload_head :: bytes

definition payload_cap :: nat where
  "payload_cap = 256"

record ip_view =
  iv_source :: ipaddr
  iv_destination :: ipaddr
  iv_next :: u8
  iv_payload :: bytes
  iv_len :: nat

record tcp_view =
  tv_source :: u16
  tv_destination :: u16
  tv_flags :: u8
  tv_payload :: bytes

record udp_view =
  uv_source :: u16
  uv_destination :: u16
  uv_payload :: bytes

record pnet =
  ethernet_packet :: "bytes \<Rightarrow> (u16 \<times> bytes) option"
  ipv4_packet :: "bytes \<Rightarrow> ip_view option"
  ipv6_packet :: "bytes \<Rightarrow> ip_view option"
  tcp_packet :: "bytes \<Rightarrow> tcp_view option"
  udp_packet :: "bytes \<Rightarrow> udp_view option"
  icmp_packet :: "bytes \<Rightarrow> unit option"

definition build_tcp :: "pnet \<Rightarrow> bytes \<Rightarrow> ipaddr \<Rightarrow> ipaddr \<Rightarrow> instant \<Rightarrow> nat \<Rightarrow> packet_meta option" where
  "build_tcp pn buf src dst ts len =
     map_option (\<lambda>t. \<lparr>pm_ts = ts, pm_src_ip = src, pm_dst_ip = dst, pm_src_port = tv_source t,
         pm_dst_port = tv_destination t, pm_proto = NTcp, pm_tcp_flags = tv_flags t, pm_length = len,
         payload_head = take payload_cap (tv_payload t)\<rparr>) (tcp_packet pn buf)"

definition build_udp :: "pnet \<Rightarrow> bytes \<Rightarrow> ipaddr \<Rightarrow> ipaddr \<Rightarrow> instant \<Rightarrow> nat \<Rightarrow> packet_meta option" where
  "build_udp pn buf src dst ts len =
     map_option (\<lambda>u. \<lparr>pm_ts = ts, pm_src_ip = src, pm_dst_ip = dst, pm_src_port = uv_source u,
         pm_dst_port = uv_destination u, pm_proto = NUdp, pm_tcp_flags = 0, pm_length = len,
         payload_head = take payload_cap (uv_payload u)\<rparr>) (udp_packet pn buf)"

definition build_icmp :: "pnet \<Rightarrow> bytes \<Rightarrow> ipaddr \<Rightarrow> ipaddr \<Rightarrow> instant \<Rightarrow> nat \<Rightarrow> packet_meta option" where
  "build_icmp pn buf src dst ts len =
     map_option (\<lambda>_. \<lparr>pm_ts = ts, pm_src_ip = src, pm_dst_ip = dst, pm_src_port = 0, pm_dst_port = 0,
         pm_proto = NIcmp, pm_tcp_flags = 0, pm_length = len, payload_head = []\<rparr>) (icmp_packet pn buf)"

text \<open>\<^verbatim>\<open>parse_ipv4\<close> and \<^verbatim>\<open>parse_ipv6\<close> differ only in the view they are given.\<close>

definition parse_ip_view :: "pnet \<Rightarrow> ip_view \<Rightarrow> instant \<Rightarrow> packet_meta option" where
  "parse_ip_view pn v ts =
     (if iv_next v = 6 then build_tcp pn (iv_payload v) (iv_source v) (iv_destination v) ts (iv_len v)
      else if iv_next v = 17 then build_udp pn (iv_payload v) (iv_source v) (iv_destination v) ts (iv_len v)
      else if iv_next v = 1 then build_icmp pn (iv_payload v) (iv_source v) (iv_destination v) ts (iv_len v)
      else Some \<lparr>pm_ts = ts, pm_src_ip = iv_source v, pm_dst_ip = iv_destination v, pm_src_port = 0,
        pm_dst_port = 0, pm_proto = NOther (iv_next v), pm_tcp_flags = 0, pm_length = iv_len v,
        payload_head = []\<rparr>)"

definition parse_ethernet_frame :: "pnet \<Rightarrow> instant \<Rightarrow> bytes \<Rightarrow> packet_meta option" where
  "parse_ethernet_frame pn ts data =
     (case ethernet_packet pn data of
        None \<Rightarrow> None
      | Some (ethertype, payload) \<Rightarrow>
          if ethertype = 0x0800 then
            (case ipv4_packet pn payload of None \<Rightarrow> None | Some v \<Rightarrow> parse_ip_view pn v ts)
          else if ethertype = 0x86DD then
            (case ipv6_packet pn payload of None \<Rightarrow> None | Some v \<Rightarrow> parse_ip_view pn v ts)
          else None)"

definition is_syn_only :: "u8 \<Rightarrow> bool" where
  "is_syn_only flags \<longleftrightarrow> flags AND 0x02 \<noteq> 0 \<and> flags AND 0x10 = 0"

lemma parse_payload_capped: "parse_ethernet_frame pn ts data = Some p \<Longrightarrow> length (payload_head p) \<le> payload_cap"
  by (auto simp: parse_ethernet_frame_def parse_ip_view_def build_tcp_def build_udp_def build_icmp_def
      split: option.splits if_splits)

section \<open>Alerts\<close>

datatype nsm_severity = SevInfo | SevLow | SevMedium | SevHigh | SevCritical

record alert =
  al_severity :: nsm_severity
  al_detector :: string
  al_src :: "ipaddr option"
  al_dst :: "ipaddr option"

section \<open>Flows\<close>

record nsm_flow_key =
  nk_lo_ip :: ipaddr
  nk_hi_ip :: ipaddr
  nk_lo_port :: u16
  nk_hi_port :: u16
  nk_proto :: u8

definition nsm_flow_key_new :: "ipaddr \<Rightarrow> u16 \<Rightarrow> ipaddr \<Rightarrow> u16 \<Rightarrow> u8 \<Rightarrow> nsm_flow_key" where
  "nsm_flow_key_new a_ip a_port b_ip b_port p =
     (if (a_ip, a_port) \<le> (b_ip, b_port)
      then \<lparr>nk_lo_ip = a_ip, nk_hi_ip = b_ip, nk_lo_port = a_port, nk_hi_port = b_port, nk_proto = p\<rparr>
      else \<lparr>nk_lo_ip = b_ip, nk_hi_ip = a_ip, nk_lo_port = b_port, nk_hi_port = a_port, nk_proto = p\<rparr>)"

fun proto_id :: "nsm_proto \<Rightarrow> u8" where
  "proto_id NTcp = 6"
| "proto_id NUdp = 17"
| "proto_id NIcmp = 1"
| "proto_id (NOther n) = n"

fun proto_name :: "nsm_proto \<Rightarrow> string" where
  "proto_name NTcp = ''tcp''"
| "proto_name NUdp = ''udp''"
| "proto_name NIcmp = ''icmp''"
| "proto_name (NOther _) = ''other''"

record flow_record =
  orig_ip :: ipaddr
  resp_ip :: ipaddr
  orig_port :: u16
  resp_port :: u16
  fr_proto :: string
  fr_packets :: u64
  fr_bytes :: u64
  first_seen :: instant
  fr_last_seen :: instant
  syn_count :: u32
  fin_or_rst :: bool

type_synonym flow_table = "(nsm_flow_key, flow_record) tbl"

definition meta_key :: "packet_meta \<Rightarrow> nsm_flow_key" where
  "meta_key pkt = nsm_flow_key_new (pm_src_ip pkt) (pm_src_port pkt) (pm_dst_ip pkt) (pm_dst_port pkt)
     (proto_id (pm_proto pkt))"

definition flow_update :: "flow_table \<Rightarrow> packet_meta \<Rightarrow> flow_record \<times> flow_table" where
  "flow_update ft pkt =
     (let key = meta_key pkt;
          e = tbl_get_or ft key \<lparr>orig_ip = pm_src_ip pkt, resp_ip = pm_dst_ip pkt, orig_port = pm_src_port pkt,
                resp_port = pm_dst_port pkt, fr_proto = proto_name (pm_proto pkt), fr_packets = 0, fr_bytes = 0,
                first_seen = pm_ts pkt, fr_last_seen = pm_ts pkt, syn_count = 0, fin_or_rst = False\<rparr>;
          e = e\<lparr>fr_packets := fr_packets e + 1, fr_bytes := fr_bytes e + of_nat (pm_length pkt),
                fr_last_seen := pm_ts pkt\<rparr>;
          e = (if is_syn_only (pm_tcp_flags pkt) then e\<lparr>syn_count := syn_count e + 1\<rparr> else e);
          e = (if pm_tcp_flags pkt AND 0x05 \<noteq> 0 then e\<lparr>fin_or_rst := True\<rparr> else e)
      in (e, tbl_insert ft key e))"

text \<open>\<^verbatim>\<open>SystemTime::duration_since\<close> fails for an instant in the future, and then the flow is
  kept.\<close>

definition flow_live :: "duration \<Rightarrow> flow_table \<Rightarrow> instant \<Rightarrow> nsm_flow_key \<Rightarrow> flow_record \<Rightarrow> bool" where
  "flow_live idle ft now k r \<longleftrightarrow> (if fr_last_seen r \<le> now then now - fr_last_seen r < idle else True)"

definition reap_idle :: "duration \<Rightarrow> flow_table \<Rightarrow> instant \<Rightarrow> flow_table" where
  "reap_idle idle ft now = tbl_retain (flow_live idle ft now) ft"

definition reaped_count :: "duration \<Rightarrow> flow_table \<Rightarrow> instant \<Rightarrow> nat" where
  "reaped_count idle ft now = tbl_len ft - tbl_len (reap_idle idle ft now)"

interpretation fle: expiring_table "\<lambda>ft. ft" "flow_live idle" "reap_idle idle" for idle
  by unfold_locales (auto simp: reap_idle_def flow_live_def fun_eq_iff split: if_splits)

section \<open>Port scans\<close>

record scan_window =
  sw_started :: instant
  sw_ports :: "u16 set"
  sw_hosts :: "ipaddr set"

record thresholds =
  port_threshold :: nat
  host_threshold :: nat

record portscan_detector =
  local_ips :: "ipaddr set"
  ps_per_src :: "(ipaddr, scan_window) tbl"
  ps_window :: duration
  ps_inbound :: thresholds
  ps_outbound :: thresholds

text \<open>The qualifying packet: a connection attempt with one end on this host.\<close>

definition scan_relevant :: "portscan_detector \<Rightarrow> packet_meta \<Rightarrow> bool" where
  "scan_relevant d pkt \<longleftrightarrow>
     \<not> (pm_proto pkt \<noteq> NTcp \<or> \<not> is_syn_only (pm_tcp_flags pkt) \<or> pm_dst_port pkt = 0)
     \<and> \<not> (pm_dst_ip pkt \<notin> local_ips d \<and> pm_src_ip pkt \<notin> local_ips d)"

definition saturating_mul :: "nat \<Rightarrow> nat \<Rightarrow> nat" where
  "saturating_mul a b = min (a * b) (2 ^ 64 - 1)"

definition scan_touch :: "portscan_detector \<Rightarrow> instant \<Rightarrow> packet_meta \<Rightarrow> scan_window" where
  "scan_touch d now pkt =
     (let e = tbl_get_or (ps_per_src d) (pm_src_ip pkt) \<lparr>sw_started = now, sw_ports = {}, sw_hosts = {}\<rparr>;
          e = (if duration_since now (sw_started e) > ps_window d
               then \<lparr>sw_started = now, sw_ports = {}, sw_hosts = {}\<rparr> else e)
      in e\<lparr>sw_ports := insert (pm_dst_port pkt) (sw_ports e), sw_hosts := insert (pm_dst_ip pkt) (sw_hosts e)\<rparr>)"

definition portscan_observe :: "portscan_detector \<Rightarrow> instant \<Rightarrow> packet_meta \<Rightarrow> alert option \<times> portscan_detector" where
  "portscan_observe d now pkt =
     (if \<not> scan_relevant d pkt then (None, d)
      else
        let dst_is_local = pm_dst_ip pkt \<in> local_ips d;
            th = (if dst_is_local then ps_inbound d else ps_outbound d);
            e = scan_touch d now pkt;
            d = d\<lparr>ps_per_src := tbl_insert (ps_per_src d) (pm_src_ip pkt) e\<rparr>;
            n_ports = card (sw_ports e); n_hosts = card (sw_hosts e)
        in if n_ports \<ge> port_threshold th
           then (Some \<lparr>al_severity = (if n_ports \<ge> saturating_mul (port_threshold th) 5 then SevCritical else SevHigh),
                       al_detector = ''portscan'', al_src = Some (pm_src_ip pkt),
                       al_dst = (if dst_is_local then Some (pm_dst_ip pkt) else None)\<rparr>, d)
           else if n_hosts \<ge> host_threshold th
           then (Some \<lparr>al_severity = (if dst_is_local then SevMedium else SevLow), al_detector = ''portscan'',
                       al_src = Some (pm_src_ip pkt), al_dst = None\<rparr>, d)
           else (None, d))"

section \<open>SYN floods\<close>

record syn_counter =
  sc_started :: instant
  sc_syns :: u32
  sc_sources :: "ipaddr set"

record synflood_detector =
  sf_per_dst :: "(ipaddr \<times> u16, syn_counter) tbl"
  sf_window :: duration
  syn_threshold :: u32

definition synflood_observe :: "synflood_detector \<Rightarrow> instant \<Rightarrow> packet_meta \<Rightarrow> alert option \<times> synflood_detector" where
  "synflood_observe d now pkt =
     (if \<not> is_syn_only (pm_tcp_flags pkt) then (None, d)
      else
        let key = (pm_dst_ip pkt, pm_dst_port pkt);
            c = tbl_get_or (sf_per_dst d) key \<lparr>sc_started = now, sc_syns = 0, sc_sources = {}\<rparr>;
            c = (if duration_since now (sc_started c) > sf_window d
                 then \<lparr>sc_started = now, sc_syns = 0, sc_sources = {}\<rparr> else c);
            c = c\<lparr>sc_syns := sc_syns c + 1, sc_sources := insert (pm_src_ip pkt) (sc_sources c)\<rparr>;
            d = d\<lparr>sf_per_dst := tbl_insert (sf_per_dst d) key c\<rparr>
        in if sc_syns c \<ge> syn_threshold d
           then (Some \<lparr>al_severity = (if card (sc_sources c) > 20 then SevCritical else SevHigh),
                       al_detector = ''synflood'', al_src = None, al_dst = Some (pm_dst_ip pkt)\<rparr>, d)
           else (None, d))"

section \<open>DNS tunnels\<close>

record rate_window =
  rw_started :: instant
  rw_queries :: u32
  suspicious_labels :: u32

record dns_tunnel_detector =
  dt_per_src :: "(ipaddr, rate_window) tbl"
  dt_window :: duration
  query_rate_threshold :: u32

text \<open>The walk over the length-prefixed labels from offset \<open>i\<close>.\<close>

function walk_labels :: "bytes \<Rightarrow> nat \<Rightarrow> nat \<Rightarrow> nat" where
  "walk_labels payload i longest =
     (if i < length payload then
        let len = unat (payload ! i)
        in if len = 0 \<or> payload ! i AND 0xC0 \<noteq> 0 then longest
           else if i + 1 + len > length payload then longest
           else walk_labels payload (i + 1 + len) (max longest len)
      else longest)"
  by auto
termination
  by (relation "measure (\<lambda>(payload, i, _). length payload - i)") auto

declare walk_labels.simps [simp del]

definition longest_label_len :: "bytes \<Rightarrow> nat" where
  "longest_label_len payload =
     (if length payload < 13 then 0 else walk_labels payload 12 0)"

definition shannon_entropy :: "(f64 \<Rightarrow> f64) \<Rightarrow> bytes \<Rightarrow> f64" where
  "shannon_entropy log2 bs =
     (if bs = [] then Fin 0
      else
        let len = f64_of_nat (length bs);
            counts = filter (\<lambda>c. c > 0) (map (\<lambda>b. length (filter (\<lambda>x. x = b) bs)) (map word_of_nat [0..<256]))
        in foldl f64_add (Fin 0)
             (map (\<lambda>c. let p = f64_div (f64_of_nat c) len in f64_mul (f64_sub (Fin 0) p) (log2 p)) counts))"

definition dns_observe :: "(f64 \<Rightarrow> f64) \<Rightarrow> dns_tunnel_detector \<Rightarrow> instant \<Rightarrow> packet_meta \<Rightarrow> alert option \<times> dns_tunnel_detector" where
  "dns_observe log2 d now pkt =
     (if pm_proto pkt \<noteq> NUdp \<or> pm_dst_port pkt \<noteq> 53 \<and> pm_src_port pkt \<noteq> 53 then (None, d)
      else
        let is_long = longest_label_len (payload_head pkt) \<ge> 20;
            is_high_entropy = flt_ge (shannon_entropy log2 (payload_head pkt)) (Fin 4);
            w = tbl_get_or (dt_per_src d) (pm_src_ip pkt) \<lparr>rw_started = now, rw_queries = 0, suspicious_labels = 0\<rparr>;
            w = (if duration_since now (rw_started w) > dt_window d
                 then \<lparr>rw_started = now, rw_queries = 0, suspicious_labels = 0\<rparr> else w);
            w = w\<lparr>rw_queries := rw_queries w + 1\<rparr>;
            w = (if is_long \<and> is_high_entropy then w\<lparr>suspicious_labels := suspicious_labels w + 1\<rparr> else w);
            d = d\<lparr>dt_per_src := tbl_insert (dt_per_src d) (pm_src_ip pkt) w\<rparr>
        in if suspicious_labels w \<ge> 5
           then (Some \<lparr>al_severity = SevHigh, al_detector = ''dns_tunnel'', al_src = Some (pm_src_ip pkt),
                       al_dst = Some (pm_dst_ip pkt)\<rparr>, d)
           else if rw_queries w \<ge> query_rate_threshold d
           then (Some \<lparr>al_severity = SevMedium, al_detector = ''dns_tunnel'', al_src = Some (pm_src_ip pkt),
                       al_dst = Some (pm_dst_ip pkt)\<rparr>, d)
           else (None, d))"

section \<open>Signatures\<close>

record sig_rule =
  sig_name :: string
  sig_pattern :: bytes
  sig_severity :: nsm_severity

definition ascii :: "string \<Rightarrow> bytes" where
  "ascii s = map (\<lambda>c. of_nat (of_char c)) s"

definition default_ruleset :: "sig_rule list" where
  "default_ruleset = map (\<lambda>(n, p, s). \<lparr>sig_name = n, sig_pattern = ascii p, sig_severity = s\<rparr>)
     [(''cleartext-http-basic-auth'', ''Authorization: Basic'', SevMedium),
      (''ftp-cleartext-user'', ''USER '', SevLow),
      (''suspicious-user-agent-curl'', ''User-Agent: curl'', SevInfo),
      (''possible-webshell-cmd'', ''cmd='', SevMedium),
      (''possible-sqli-union-select'', ''UNION SELECT'', SevHigh),
      (''possible-log4shell'', ''${jndi:'', SevCritical),
      (''eicar-test-string'', ''EICAR-STANDARD-ANTIVIRUS-TEST-FILE'', SevHigh)]"

definition bytes_contains :: "bytes \<Rightarrow> bytes \<Rightarrow> bool" where
  "bytes_contains haystack needle =
     (if needle = [] \<or> length needle > length haystack then False
      else \<exists>i \<in> set [0..<length haystack - length needle + 1]. take (length needle) (drop i haystack) = needle)"

definition sig_scan :: "sig_rule list \<Rightarrow> packet_meta \<Rightarrow> alert list" where
  "sig_scan rs pkt =
     (if payload_head pkt = [] then []
      else map (\<lambda>r. \<lparr>al_severity = sig_severity r, al_detector = ''signature'', al_src = Some (pm_src_ip pkt),
                     al_dst = Some (pm_dst_ip pkt)\<rparr>)
             (filter (\<lambda>r. bytes_contains (payload_head pkt) (sig_pattern r)) rs))"

section \<open>Beacons\<close>

record beacon_history =
  last_conn :: "instant option"
  intervals :: "f64 list"

type_synonym beacon_detector = "(ipaddr \<times> ipaddr \<times> u16, beacon_history) tbl"

definition min_samples :: nat where
  "min_samples = 6"

definition max_history :: nat where
  "max_history = 20"

definition push_interval :: "beacon_history \<Rightarrow> instant \<Rightarrow> beacon_history" where
  "push_interval h now =
     (case last_conn h of
        None \<Rightarrow> h
      | Some prev \<Rightarrow>
          (let dt = as_secs_f64 (duration_since now prev)
           in if flt_lt (mk_f64 (1 / 2)) dt
              then let ivs = intervals h @ [dt]
                   in h\<lparr>intervals := if length ivs > max_history then tl ivs else ivs\<rparr>
              else h))"

definition beacon_mean :: "f64 list \<Rightarrow> f64" where
  "beacon_mean ivs = f64_div (foldl f64_add (Fin 0) ivs) (f64_of_nat (length ivs))"

definition beacon_cv :: "(f64 \<Rightarrow> f64) \<Rightarrow> f64 list \<Rightarrow> f64" where
  "beacon_cv sqrt_f ivs =
     (let mean = beacon_mean ivs;
          sq = map (\<lambda>v. let x = f64_sub v mean in f64_mul x x) ivs;
          variance = f64_div (foldl f64_add (Fin 0) sq) (f64_of_nat (length ivs))
      in f64_div (sqrt_f variance) mean)"

definition beacon_observe :: "(f64 \<Rightarrow> f64) \<Rightarrow> beacon_detector \<Rightarrow> instant \<Rightarrow> packet_meta \<Rightarrow> alert option \<times> beacon_detector" where
  "beacon_observe sqrt_f d now pkt =
     (if \<not> is_syn_only (pm_tcp_flags pkt) then (None, d)
      else
        let key = (pm_src_ip pkt, pm_dst_ip pkt, pm_dst_port pkt);
            h = tbl_get_or d key \<lparr>last_conn = None, intervals = []\<rparr>;
            h = (push_interval h now)\<lparr>last_conn := Some now\<rparr>;
            d = tbl_insert d key h
        in if length (intervals h) < min_samples then (None, d)
           else if flt_lt (beacon_mean (intervals h)) (mk_f64 (3 / 10)) then (None, d)
           else if flt_le (beacon_cv sqrt_f (intervals h)) (mk_f64 (15 / 100))
           then (Some \<lparr>al_severity = SevMedium, al_detector = ''beacon'', al_src = Some (pm_src_ip pkt),
                       al_dst = Some (pm_dst_ip pkt)\<rparr>, d)
           else (None, d))"

section \<open>The bundle\<close>

record detection_engine =
  de_portscan :: portscan_detector
  de_synflood :: synflood_detector
  de_dns :: dns_tunnel_detector
  de_beacon :: beacon_detector
  de_signatures :: "sig_rule list"

definition detection_engine_new :: "ipaddr set \<Rightarrow> detection_engine" where
  "detection_engine_new ips =
     \<lparr>de_portscan = \<lparr>local_ips = ips, ps_per_src = [], ps_window = from_secs 10,
        ps_inbound = \<lparr>port_threshold = 20, host_threshold = 15\<rparr>,
        ps_outbound = \<lparr>port_threshold = 60, host_threshold = 40\<rparr>\<rparr>,
      de_synflood = \<lparr>sf_per_dst = [], sf_window = from_secs 5, syn_threshold = 100\<rparr>,
      de_dns = \<lparr>dt_per_src = [], dt_window = from_secs 30, query_rate_threshold = 60\<rparr>,
      de_beacon = [], de_signatures = default_ruleset\<rparr>"

text \<open>The platform's functions as one argument.\<close>

record libm =
  lm_log2 :: "f64 \<Rightarrow> f64"
  lm_sqrt :: "f64 \<Rightarrow> f64"

definition opt_list :: "'a option \<Rightarrow> 'a list" where
  "opt_list o1 = (case o1 of Some a \<Rightarrow> [a] | None \<Rightarrow> [])"

definition analyze :: "libm \<Rightarrow> detection_engine \<Rightarrow> instant \<Rightarrow> packet_meta \<Rightarrow> alert list \<times> detection_engine" where
  "analyze lm e now pkt =
     (let (a1, ps) = portscan_observe (de_portscan e) now pkt;
          (a2, sf) = synflood_observe (de_synflood e) now pkt;
          (a3, dt) = dns_observe (lm_log2 lm) (de_dns e) now pkt;
          (a4, be) = beacon_observe (lm_sqrt lm) (de_beacon e) now pkt
      in (opt_list a1 @ opt_list a2 @ opt_list a3 @ opt_list a4 @ sig_scan (de_signatures e) pkt,
          e\<lparr>de_portscan := ps, de_synflood := sf, de_dns := dt, de_beacon := be\<rparr>))"

section \<open>The label walk and the content match\<close>

lemma label_small:
  assumes "(b :: u8) AND 0xC0 = 0"
  shows "unat b < 64"
proof -
  have hi: "\<not> bit b 6" "\<not> bit b 7"
    using arg_cong [OF assms, of "\<lambda>w. bit w 6"] arg_cong [OF assms, of "\<lambda>w. bit w 7"]
    by (simp_all add: bit_and_iff)
  have "take_bit 6 b = b"
  proof (rule bit_word_eqI)
    fix n assume "n < LENGTH(8)"
    then have "n < 6 \<or> n = 6 \<or> n = 7" by auto
    then show "bit (take_bit 6 b) n = bit b n" using hi by (auto simp: bit_take_bit_iff)
  qed
  then have "unat b = take_bit 6 (unat b)" by (metis unsigned_take_bit_eq)
  also have "\<dots> < 2 ^ 6" by (rule take_bit_nat_less_exp)
  finally show ?thesis by simp
qed

lemma walk_labels_le: "longest \<le> 63 \<Longrightarrow> walk_labels payload i longest \<le> 63"
proof (induction payload i longest rule: walk_labels.induct)
  case (1 payload i longest)
  show ?case
  proof (cases "i < length payload \<and> unat (payload ! i) \<noteq> 0 \<and> payload ! i AND 0xC0 = 0
      \<and> i + 1 + unat (payload ! i) \<le> length payload")
    case True
    then have "max longest (unat (payload ! i)) \<le> 63" using 1(2) label_small [of "payload ! i"] by simp
    then show ?thesis using 1 True by (subst walk_labels.simps) (simp add: Let_def)
  next
    case False
    then show ?thesis using 1(2) by (subst walk_labels.simps) (auto simp: Let_def)
  qed
qed

lemma longest_label_len_le: "longest_label_len payload \<le> 63"
  by (simp add: longest_label_len_def walk_labels_le)

lemma upt_atMost: "set [0..<n + 1] = {..(n :: nat)}"
  by auto

lemma bytes_contains_iff: "bytes_contains haystack needle \<longleftrightarrow> needle \<noteq> [] \<and> sublist needle haystack"
proof (cases "needle = [] \<or> length needle > length haystack")
  case True
  then show ?thesis using sublist_length_le [of needle haystack] by (auto simp: bytes_contains_def)
next
  case False
  then have "bytes_contains haystack needle \<longleftrightarrow>
      (\<exists>i \<le> length haystack - length needle. take (length needle) (drop i haystack) = needle)"
    by (simp only: bytes_contains_def if_False upt_atMost) auto
  also have "\<dots> \<longleftrightarrow> sublist needle haystack"
  proof
    assume "\<exists>i \<le> length haystack - length needle. take (length needle) (drop i haystack) = needle"
    then obtain i where "take (length needle) (drop i haystack) = needle" by blast
    then have "haystack = take i haystack @ needle @ drop (length needle) (drop i haystack)"
      by (metis append_take_drop_id)
    then show "sublist needle haystack" by (metis sublist_appendI)
  next
    assume "sublist needle haystack"
    then obtain ps ss where "haystack = ps @ needle @ ss" by (auto simp: sublist_def)
    then show "\<exists>i \<le> length haystack - length needle. take (length needle) (drop i haystack) = needle"
      by (intro exI [of _ "length ps"]) simp
  qed
  finally show ?thesis using False by simp
qed

text \<open> The signature stage reports a rule exactly when the rule's pattern occurs contiguously in
  the captured head of the payload, once per rule and in the rules' order, and the DNS
  detector's label walk never yields more than 63, the longest label DNS allows.\<close>

theorem signature_scan_exact:
  assumes "\<forall>r \<in> set rs. sig_pattern r \<noteq> []"
  shows "map al_severity (sig_scan rs pkt) = map sig_severity (filter (\<lambda>r. sublist (sig_pattern r) (payload_head pkt)) rs)
    \<and> longest_label_len (payload_head pkt) \<le> 63"
proof -
  have "filter (\<lambda>r. bytes_contains (payload_head pkt) (sig_pattern r)) rs
      = filter (\<lambda>r. sublist (sig_pattern r) (payload_head pkt)) rs"
    using assms by (intro filter_cong) (auto simp: bytes_contains_iff)
  moreover have "payload_head pkt = [] \<Longrightarrow> filter (\<lambda>r. sublist (sig_pattern r) (payload_head pkt)) rs = []"
    using assms by (auto simp: filter_empty_conv)
  ultimately show ?thesis by (auto simp: sig_scan_def comp_def longest_label_len_le)
qed

definition sample_meta :: "bytes \<Rightarrow> u16 \<Rightarrow> packet_meta" where
  "sample_meta head port = \<lparr>pm_ts = 0, pm_src_ip = ipv4 203 0 113 5, pm_dst_ip = ipv4 10 0 0 2, pm_src_port = 40000,
     pm_dst_port = port, pm_proto = NTcp, pm_tcp_flags = 2, pm_length = 60, payload_head = head\<rparr>"

theorem signature_scan_exact_witness:
  "map al_severity (sig_scan [\<lparr>sig_name = ''cmd'', sig_pattern = [99, 61], sig_severity = SevMedium\<rparr>]
     (sample_meta [1, 99, 61, 7] 80)) = [SevMedium]"
proof -
  have "sublist [99, 61] ([1, 99, 61, 7] :: bytes)" unfolding sublist_def by (intro exI [of _ "[1]"] exI [of _ "[7]"]) simp
  then show ?thesis
    using signature_scan_exact [of "[\<lparr>sig_name = ''cmd'', sig_pattern = [99, 61], sig_severity = SevMedium\<rparr>]"
      "sample_meta [1, 99, 61, 7] 80"] by (simp add: sample_meta_def)
qed

section \<open>A port-scan alert is earned\<close>

fun portscan_run :: "portscan_detector \<Rightarrow> (instant \<times> packet_meta) list \<Rightarrow> alert option list \<times> portscan_detector" where
  "portscan_run d [] = ([], d)"
| "portscan_run d ((now, pkt) # hist) =
     (let (a, d') = portscan_observe d now pkt; (as, d'') = portscan_run d' hist in (a # as, d''))"

definition touches :: "portscan_detector \<Rightarrow> (instant \<times> packet_meta) list \<Rightarrow> instant \<Rightarrow> ipaddr \<Rightarrow> packet_meta set" where
  "touches d hist since a = {p. \<exists>t. (t, p) \<in> set hist \<and> since \<le> t \<and> scan_relevant d p \<and> pm_src_ip p = a}"

definition scan_inv :: "portscan_detector \<Rightarrow> (instant \<times> packet_meta) list \<Rightarrow> bool" where
  "scan_inv d hist \<longleftrightarrow> (\<forall>a e. tbl_get (ps_per_src d) a = Some e \<longrightarrow>
     sw_ports e \<subseteq> pm_dst_port ` touches d hist (sw_started e) a
     \<and> sw_hosts e \<subseteq> pm_dst_ip ` touches d hist (sw_started e) a
     \<and> sw_started e \<in> fst ` set hist)"

lemma finite_touches: "finite (touches d hist since a)"
  by (rule finite_subset [of _ "snd ` set hist"]) (force simp: touches_def)+

lemma touches_snoc: "touches d hist s a \<subseteq> touches d (hist @ xs) s a"
  by (auto simp: touches_def)

lemma observe_config: "local_ips (snd (portscan_observe d now p)) = local_ips d"
  "ps_window (snd (portscan_observe d now p)) = ps_window d"
  "ps_inbound (snd (portscan_observe d now p)) = ps_inbound d"
  "ps_outbound (snd (portscan_observe d now p)) = ps_outbound d"
  by (simp_all add: portscan_observe_def Let_def)

lemma scan_touch_cases:
  obtains (fresh) "scan_touch d now pkt =
      \<lparr>sw_started = now, sw_ports = {pm_dst_port pkt}, sw_hosts = {pm_dst_ip pkt}\<rparr>"
  | (old) e where "tbl_get (ps_per_src d) (pm_src_ip pkt) = Some e" "now - sw_started e \<le> ps_window d"
      "scan_touch d now pkt = e\<lparr>sw_ports := insert (pm_dst_port pkt) (sw_ports e),
         sw_hosts := insert (pm_dst_ip pkt) (sw_hosts e)\<rparr>"
proof (cases "tbl_get (ps_per_src d) (pm_src_ip pkt)")
  case None
  then show thesis by (intro fresh) (simp add: scan_touch_def tbl_get_or_def)
next
  case (Some e)
  show thesis
  proof (cases "ps_window d < now - sw_started e")
    case True
    then show thesis using Some by (intro fresh) (simp add: scan_touch_def tbl_get_or_def duration_since_def)
  next
    case False
    then show thesis using Some by (intro old [of e]) (simp_all add: scan_touch_def tbl_get_or_def duration_since_def)
  qed
qed

lemma scan_touch_inv:
  fixes hist :: "(instant \<times> packet_meta) list"
  defines "hist' \<equiv> \<lambda>now pkt. hist @ [(now, pkt)]"
  assumes "scan_inv d hist" "scan_relevant d pkt" "\<forall>t \<in> fst ` set hist. t \<le> now"
  defines "e \<equiv> scan_touch d now pkt"
  shows "sw_ports e \<subseteq> pm_dst_port ` touches d (hist' now pkt) (sw_started e) (pm_src_ip pkt)
    \<and> sw_hosts e \<subseteq> pm_dst_ip ` touches d (hist' now pkt) (sw_started e) (pm_src_ip pkt)
    \<and> sw_started e \<in> fst ` set (hist' now pkt) \<and> now - sw_started e \<le> ps_window d"
proof -
  have new: "pkt \<in> touches d (hist' now pkt) s (pm_src_ip pkt)" if "s \<le> now" for s
    using assms(3) that by (auto simp: touches_def hist'_def)
  show ?thesis
  proof (cases rule: scan_touch_cases [of d now pkt])
    case fresh
    then show ?thesis using new [of now] by (simp add: e_def) (simp add: hist'_def)
  next
    case (old x)
    have x: "sw_ports x \<subseteq> pm_dst_port ` touches d hist (sw_started x) (pm_src_ip pkt)"
      "sw_hosts x \<subseteq> pm_dst_ip ` touches d hist (sw_started x) (pm_src_ip pkt)" "sw_started x \<in> fst ` set hist"
      using assms(2) old(1) by (auto simp: scan_inv_def)
    then have "pkt \<in> touches d (hist' now pkt) (sw_started x) (pm_src_ip pkt)" using assms(4) by (intro new) auto
    moreover have more: "touches d hist (sw_started x) (pm_src_ip pkt) \<subseteq> touches d (hist' now pkt) (sw_started x) (pm_src_ip pkt)"
      unfolding hist'_def by (rule touches_snoc)
    have "sw_ports x \<subseteq> pm_dst_port ` touches d (hist' now pkt) (sw_started x) (pm_src_ip pkt)"
      "sw_hosts x \<subseteq> pm_dst_ip ` touches d (hist' now pkt) (sw_started x) (pm_src_ip pkt)"
      using order_trans [OF x(1) image_mono [OF more]] order_trans [OF x(2) image_mono [OF more]] by this
    ultimately show ?thesis using x(3) old(2) by (simp add: e_def old(3)) (auto simp: hist'_def)
  qed
qed

lemma observe_inv:
  assumes "scan_inv d hist" "\<forall>t \<in> fst ` set hist. t \<le> now"
  shows "scan_inv (snd (portscan_observe d now pkt)) (hist @ [(now, pkt)])"
proof (cases "scan_relevant d pkt")
  case False
  then have "snd (portscan_observe d now pkt) = d" by (simp add: portscan_observe_def)
  then show ?thesis using assms(1) touches_snoc by (fastforce simp: scan_inv_def)
next
  case True
  let ?d = "snd (portscan_observe d now pkt)"
  have tbl: "ps_per_src ?d = tbl_insert (ps_per_src d) (pm_src_ip pkt) (scan_touch d now pkt)"
    using True by (simp add: portscan_observe_def Let_def)
  have rel: "scan_relevant ?d = scan_relevant d" by (simp add: scan_relevant_def fun_eq_iff observe_config)
  then have tou: "touches ?d = touches d" by (simp add: touches_def fun_eq_iff)
  have old: "sw_ports e \<subseteq> pm_dst_port ` touches d (hist @ [(now, pkt)]) (sw_started e) a
      \<and> sw_hosts e \<subseteq> pm_dst_ip ` touches d (hist @ [(now, pkt)]) (sw_started e) a
      \<and> sw_started e \<in> fst ` set (hist @ [(now, pkt)])"
    if "tbl_get (ps_per_src d) a = Some e" for a e
    using assms(1) that touches_snoc [of d hist "sw_started e" a "[(now, pkt)]"] by (fastforce simp: scan_inv_def)
  show ?thesis
    unfolding scan_inv_def tou tbl
    using scan_touch_inv [OF assms(1) True assms(2)] old by (auto simp del: set_append)
qed

lemma run_inv:
  assumes "scan_inv d hist" "sorted (map fst (hist @ rest))"
  shows "scan_inv (snd (portscan_run d rest)) (hist @ rest)"
  using assms
proof (induction rest arbitrary: d hist)
  case (Cons x rest)
  obtain now pkt where x: "x = (now, pkt)" by (cases x)
  have "\<forall>t \<in> fst ` set hist. t \<le> now" using Cons.prems(2) by (auto simp: sorted_append x)
  then have "scan_inv (snd (portscan_observe d now pkt)) (hist @ [x])"
    using observe_inv [OF Cons.prems(1)] x by simp
  then have "scan_inv (snd (portscan_run (snd (portscan_observe d now pkt)) rest)) ((hist @ [x]) @ rest)"
    using Cons.prems(2) by (intro Cons.IH) simp_all
  then show ?case by (simp add: x case_prod_beta Let_def)
qed simp

lemma run_config: "local_ips (snd (portscan_run d hist)) = local_ips d" "ps_window (snd (portscan_run d hist)) = ps_window d"
  "ps_inbound (snd (portscan_run d hist)) = ps_inbound d" "ps_outbound (snd (portscan_run d hist)) = ps_outbound d"
  by (induction hist arbitrary: d) (auto simp: case_prod_beta Let_def observe_config)

text \<open> A port-scan alert is never raised against an address that did not earn it.  After any
  history of packets with a monotone clock, an alert of High or Critical severity names the
  source of the packet at hand, and that source sent connection attempts to at least the
  threshold (for Critical: five times the threshold) of distinct ports within the detection
  window; the packets of other sources, replies and established traffic do not count.\<close>

theorem portscan_alert_earned:
  assumes "ps_per_src d = []" "sorted (map fst hist)" "\<forall>t \<in> fst ` set hist. t \<le> now"
    and "fst (portscan_observe (snd (portscan_run d hist)) now pkt) = Some a"
    and "al_severity a = SevHigh \<or> al_severity a = SevCritical"
    and "th = (if pm_dst_ip pkt \<in> local_ips d then ps_inbound d else ps_outbound d)"
  shows "al_src a = Some (pm_src_ip pkt)
    \<and> card (pm_dst_port ` touches d (hist @ [(now, pkt)]) (now - ps_window d) (pm_src_ip pkt))
        \<ge> (if al_severity a = SevCritical then saturating_mul (port_threshold th) 5 else port_threshold th)"
proof -
  let ?d = "snd (portscan_run d hist)" let ?e = "scan_touch ?d now pkt"
  let ?T = "touches d (hist @ [(now, pkt)]) (now - ps_window d) (pm_src_ip pkt)"
  have inv: "scan_inv ?d hist" using run_inv [of d "[]" hist] assms(1,2) by (simp add: scan_inv_def)
  have rel: "scan_relevant ?d pkt" using assms(4) by (auto simp: portscan_observe_def split: if_splits)
  have tou: "touches ?d = touches d" by (simp add: touches_def scan_relevant_def fun_eq_iff run_config)
  have e: "sw_ports ?e \<subseteq> pm_dst_port ` touches d (hist @ [(now, pkt)]) (sw_started ?e) (pm_src_ip pkt)"
    "now - sw_started ?e \<le> ps_window d"
    using scan_touch_inv [OF inv rel assms(3)] by (simp_all add: tou run_config)
  have "touches d (hist @ [(now, pkt)]) (sw_started ?e) (pm_src_ip pkt) \<subseteq> ?T"
    using e(2) by (auto simp: touches_def)
  then have "sw_ports ?e \<subseteq> pm_dst_port ` ?T" using e(1) by (meson image_mono order_trans)
  then have card: "card (sw_ports ?e) \<le> card (pm_dst_port ` ?T)"
    by (intro card_mono finite_imageI finite_touches)
  have "al_src a = Some (pm_src_ip pkt) \<and> card (sw_ports ?e)
      \<ge> (if al_severity a = SevCritical then saturating_mul (port_threshold th) 5 else port_threshold th)"
    using assms(4,5) rel by (auto simp: portscan_observe_def Let_def run_config assms(6) split: if_splits)
  then show ?thesis using card by auto
qed

lemma sample_syn [simp]: "is_syn_only 2"
  by (simp add: is_syn_only_def)

theorem portscan_alert_earned_witness:
  "let d = \<lparr>local_ips = {ipv4 10 0 0 2}, ps_per_src = [], ps_window = 100,
         ps_inbound = \<lparr>port_threshold = 2, host_threshold = 9\<rparr>, ps_outbound = \<lparr>port_threshold = 9, host_threshold = 9\<rparr>\<rparr>;
       hist = [(5, sample_meta [] 80)]
   in \<exists>a. fst (portscan_observe (snd (portscan_run d hist)) 50 (sample_meta [] 81)) = Some a
     \<and> 2 \<le> card (pm_dst_port ` touches d (hist @ [(50, sample_meta [] 81)]) 0 (ipv4 203 0 113 5))"
proof -
  let ?d = "\<lparr>local_ips = {ipv4 10 0 0 2}, ps_per_src = [], ps_window = 100,
         ps_inbound = \<lparr>port_threshold = 2, host_threshold = 9\<rparr>, ps_outbound = \<lparr>port_threshold = 9, host_threshold = 9\<rparr>\<rparr>"
  let ?hist = "[(5, sample_meta [] 80)]"
  let ?a = "\<lparr>al_severity = SevHigh, al_detector = ''portscan'', al_src = Some (ipv4 203 0 113 5),
    al_dst = Some (ipv4 10 0 0 2)\<rparr>"
  have a: "fst (portscan_observe (snd (portscan_run ?d ?hist)) 50 (sample_meta [] 81)) = Some ?a"
    by (simp add: portscan_observe_def scan_relevant_def sample_meta_def scan_touch_def tbl_get_or_def Let_def
        duration_since_def saturating_mul_def)
  have "2 \<le> card (pm_dst_port ` touches ?d (?hist @ [(50, sample_meta [] 81)]) (50 - 100) (ipv4 203 0 113 5))"
    using portscan_alert_earned [of ?d ?hist 50 "sample_meta [] 81" ?a "ps_inbound ?d"] a
    by (simp add: sample_meta_def)
  then show ?thesis unfolding Let_def using a by (intro exI [of _ ?a] conjI) simp_all
qed

end
