(* ===== verification/Xdp.thy ===== *)
theory Xdp
  imports Nsm_Detect Blocklist_File
begin

text \<open>
  Kernel-level enforcement: the XDP program of \<^verbatim>\<open>nsm-xdp/xdp/nsm-ebpf\<close> on the bytes of a frame,
  the event that crosses the ring buffer (\<^verbatim>\<open>nsm-common\<close>), and the userspace side of
  \<^verbatim>\<open>nsm-xdp/src/xdp/mod.rs\<close>: the block list operations with their allowlist, observe and rate
  gates, the sweep, the conversion of events, and the automatic blocking in the event loop of
  \<^verbatim>\<open>main.rs\<close>.  The longest-prefix-match map is the kernel's: the fields of the record
  \<open>lpm\<close>, on a state of its own, with what the code relies on as the predicate \<open>lpm_ok\<close>.
\<close>

unbundle bit_operations_syntax

section \<open>The kernel's map\<close>

type_synonym prefix = "nat \<times> u32"

record 'm lpm =
  lpm_get :: "'m \<Rightarrow> prefix \<Rightarrow> u64 option"
  lpm_insert :: "'m \<Rightarrow> prefix \<Rightarrow> u64 \<Rightarrow> 'm option"
  lpm_remove :: "'m \<Rightarrow> prefix \<Rightarrow> 'm"
  lpm_iter :: "'m \<Rightarrow> (prefix \<times> u64) list"

definition covers :: "prefix \<Rightarrow> u32 \<Rightarrow> bool" where
  "covers p a \<longleftrightarrow> drop_bit (32 - fst p) (snd p) = drop_bit (32 - fst p) a"

definition same_prefix :: "prefix \<Rightarrow> prefix \<Rightarrow> bool" where
  "same_prefix p q \<longleftrightarrow> fst p = fst q \<and> covers p (snd q)"

text \<open>What is relied on: a lookup of a host finds an entry whose prefix covers it and is longest,
  and finds none only if none covers it; no prefix has two entries; an insertion that succeeds replaces the entry of the
  same prefix and keeps the others; a removal drops the entry of that prefix.\<close>

definition lpm_get_ok :: "'m lpm \<Rightarrow> bool" where
  "lpm_get_ok ops \<longleftrightarrow>
     (\<forall>m a v. lpm_get ops m (32, a) = Some v \<longrightarrow>
        (\<exists>p. (p, v) \<in> set (lpm_iter ops m) \<and> covers p a
           \<and> (\<forall>(q, w) \<in> set (lpm_iter ops m). covers q a \<longrightarrow> fst q \<le> fst p)))
   \<and> (\<forall>m a. lpm_get ops m (32, a) = None \<longrightarrow> (\<forall>(q, w) \<in> set (lpm_iter ops m). \<not> covers q a))"

definition lpm_unique_ok :: "'m lpm \<Rightarrow> bool" where
  "lpm_unique_ok ops \<longleftrightarrow>
     (\<forall>m p v q w. (p, v) \<in> set (lpm_iter ops m) \<longrightarrow> (q, w) \<in> set (lpm_iter ops m) \<longrightarrow> same_prefix p q \<longrightarrow>
        p = q \<and> v = w)"

definition lpm_insert_ok :: "'m lpm \<Rightarrow> bool" where
  "lpm_insert_ok ops \<longleftrightarrow>
     (\<forall>m p v m'. lpm_insert ops m p v = Some m' \<longrightarrow>
        set (lpm_iter ops m') = insert (p, v) {(q, w) \<in> set (lpm_iter ops m). \<not> same_prefix p q})"

definition lpm_remove_ok :: "'m lpm \<Rightarrow> bool" where
  "lpm_remove_ok ops \<longleftrightarrow>
     (\<forall>m p. set (lpm_iter ops (lpm_remove ops m p)) = {(q, w) \<in> set (lpm_iter ops m). \<not> same_prefix p q})"

definition lpm_ok :: "'m lpm \<Rightarrow> bool" where
  "lpm_ok ops \<longleftrightarrow> lpm_get_ok ops \<and> lpm_unique_ok ops \<and> lpm_insert_ok ops \<and> lpm_remove_ok ops"

section \<open>The XDP program\<close>

datatype xdp_action = XdpPass | XdpDrop

record packet_event =
  ev_ts_ns :: u64
  ev_src_addr :: bytes
  ev_dst_addr :: bytes
  ev_ip_ver :: u8
  ev_proto :: u8
  ev_tcp_flags :: u8
  ev_action :: u8
  ev_src_port :: u16
  ev_dst_port :: u16
  ev_length :: u32
  ev_ifindex :: u32

definition event_zeroed :: packet_event where
  "event_zeroed = \<lparr>ev_ts_ns = 0, ev_src_addr = replicate 16 0, ev_dst_addr = replicate 16 0, ev_ip_ver = 0,
     ev_proto = 0, ev_tcp_flags = 0, ev_action = 0, ev_src_port = 0, ev_dst_port = 0, ev_length = 0,
     ev_ifindex = 0\<rparr>"

record xdp_stats =
  st_passed :: u64
  st_dropped :: u64
  st_truncated :: u64
  st_parse_errors :: u64

text \<open>\<^verbatim>\<open>ptr_at\<close>: the bytes of a header of length \<open>len\<close>, if the frame holds them all.\<close>

definition ptr_at :: "bytes \<Rightarrow> nat \<Rightarrow> nat \<Rightarrow> bytes option" where
  "ptr_at frame off len = (if off + len > length frame then None else Some (take len (drop off frame)))"

definition be16 :: "u8 \<Rightarrow> u8 \<Rightarrow> u16" where
  "be16 a b = ucast a * 256 + ucast b"

definition be32 :: "bytes \<Rightarrow> u32" where
  "be32 bs = foldl (\<lambda>acc b. acc * 256 + ucast b) 0 bs"

definition tcp_flags_byte :: "bytes \<Rightarrow> u8" where
  "tcp_flags_byte tcp = tcp ! 13 AND 0x3F"

text \<open>The addresses and the upper protocol of a frame: offset of the transport header, protocol,
  the event with its addresses, and the IPv4 source if there is one.  \<open>Inl True\<close> is a frame that
  is not IP and passes untouched, \<open>Inl False\<close> a parse error.\<close>

definition parse_l3 :: "bytes \<Rightarrow> packet_event \<Rightarrow> bool + nat \<times> u8 \<times> packet_event \<times> bytes option" where
  "parse_l3 frame ev =
     (case ptr_at frame 0 14 of
        None \<Rightarrow> Inl False
      | Some eth \<Rightarrow>
          (let ether_type = be16 (eth ! 12) (eth ! 13)
           in if ether_type = 0x0800 then
                (case ptr_at frame 14 20 of
                   None \<Rightarrow> Inl False
                 | Some ip \<Rightarrow>
                     (let ihl = unat (ip ! 0 AND 0x0F) * 4
                      in if ihl < 20 then Inl False
                         else
                           let src = take 4 (drop 12 ip); dst = take 4 (drop 16 ip);
                               ev = ev\<lparr>ev_ip_ver := 4, ev_src_addr := src @ drop 4 (ev_src_addr ev),
                                       ev_dst_addr := dst @ drop 4 (ev_dst_addr ev)\<rparr>
                           in Inr (14 + ihl, ip ! 9, ev, Some src)))
              else if ether_type = 0x86DD then
                (case ptr_at frame 14 40 of
                   None \<Rightarrow> Inl False
                 | Some ip \<Rightarrow>
                     (let ev = ev\<lparr>ev_ip_ver := 6, ev_src_addr := take 16 (drop 8 ip),
                                  ev_dst_addr := take 16 (drop 24 ip)\<rparr>
                      in Inr (14 + 40, ip ! 6, ev, None)))
              else Inl True))"

definition read_ports :: "bytes \<Rightarrow> nat \<Rightarrow> u8 \<Rightarrow> packet_event \<Rightarrow> packet_event" where
  "read_ports frame off l4 ev =
     (if l4 = 6 then
        (case ptr_at frame off 20 of
           Some t \<Rightarrow> ev\<lparr>ev_src_port := be16 (t ! 0) (t ! 1), ev_dst_port := be16 (t ! 2) (t ! 3),
                        ev_tcp_flags := tcp_flags_byte t\<rparr>
         | None \<Rightarrow> ev)
      else if l4 = 17 then
        (case ptr_at frame off 8 of
           Some u \<Rightarrow> ev\<lparr>ev_src_port := be16 (u ! 0) (u ! 1), ev_dst_port := be16 (u ! 2) (u ! 3)\<rparr>
         | None \<Rightarrow> ev)
      else ev)"

text \<open>One run of the program.  The kernel's clock is read twice, at the entry (\<open>ts\<close>) and for the
  comparison with the expiry (\<open>ktime\<close>); \<open>ring_ok\<close> says whether the ring
  buffer has room for an event.\<close>

record xdp_run =
  xr_action :: xdp_action
  xr_events :: "packet_event list"
  xr_stats :: xdp_stats

definition blocked_at :: "'m lpm \<Rightarrow> 'm \<Rightarrow> u64 \<Rightarrow> bytes option \<Rightarrow> bool" where
  "blocked_at ops bl ktime src4 =
     (case src4 of
        None \<Rightarrow> False
      | Some src \<Rightarrow>
          (case lpm_get ops bl (32, be32 src) of None \<Rightarrow> False | Some expiry \<Rightarrow> ktime < expiry))"

definition nsm_xdp :: "'m lpm \<Rightarrow> 'm \<Rightarrow> u64 \<Rightarrow> u64 \<Rightarrow> u32 \<Rightarrow> bool \<Rightarrow> xdp_stats \<Rightarrow> bytes \<Rightarrow> xdp_run" where
  "nsm_xdp ops bl ts ktime ifx ring_ok st frame =
     (let ev = event_zeroed\<lparr>ev_ts_ns := ts, ev_ifindex := ifx, ev_length := of_nat (length frame)\<rparr>
      in case parse_l3 frame ev of
           Inl False \<Rightarrow> \<lparr>xr_action = XdpPass, xr_events = [],
             xr_stats = st\<lparr>st_parse_errors := st_parse_errors st + 1\<rparr>\<rparr>
         | Inl True \<Rightarrow> \<lparr>xr_action = XdpPass, xr_events = [], xr_stats = st\<rparr>
         | Inr (l4_off, l4_proto, ev, src4) \<Rightarrow>
             if blocked_at ops bl ktime src4
             then let ev = ev\<lparr>ev_proto := l4_proto, ev_action := 1\<rparr>
                  in \<lparr>xr_action = XdpDrop, xr_events = (if ring_ok then [ev] else []),
                      xr_stats = (if ring_ok then st\<lparr>st_dropped := st_dropped st + 1\<rparr>
                                  else st\<lparr>st_truncated := st_truncated st + 1\<rparr>)\<rparr>
             else let ev = (read_ports frame l4_off l4_proto (ev\<lparr>ev_proto := l4_proto\<rparr>))\<lparr>ev_action := 0\<rparr>
                  in \<lparr>xr_action = XdpPass, xr_events = (if ring_ok then [ev] else []),
                      xr_stats = (if ring_ok then st\<lparr>st_passed := st_passed st + 1\<rparr>
                                  else st\<lparr>st_truncated := st_truncated st + 1\<rparr>)\<rparr>)"

section \<open>Back to userspace\<close>

definition event_to_meta :: "packet_event \<Rightarrow> instant \<Rightarrow> packet_meta option" where
  "event_to_meta ev now =
     (let addrs =
            (if ev_ip_ver ev = 4
             then Some (V4 (be32 (take 4 (ev_src_addr ev))), V4 (be32 (take 4 (ev_dst_addr ev))))
             else if ev_ip_ver ev = 6
             then Some (V6 (foldl (\<lambda>acc b. acc * 256 + ucast b) 0 (ev_src_addr ev)),
                        V6 (foldl (\<lambda>acc b. acc * 256 + ucast b) 0 (ev_dst_addr ev)))
             else None);
          p = (if ev_proto ev = 6 then NTcp else if ev_proto ev = 17 then NUdp
               else if ev_proto ev = 1 then NIcmp else NOther (ev_proto ev))
      in map_option (\<lambda>(s, d). \<lparr>pm_ts = now, pm_src_ip = s, pm_dst_ip = d, pm_src_port = ev_src_port ev,
             pm_dst_port = ev_dst_port ev, pm_proto = p, pm_tcp_flags = ev_tcp_flags ev,
             pm_length = unat (ev_length ev), payload_head = []\<rparr>) addrs)"

section \<open>Block and unblock\<close>

record auto_block_config =
  allowlist :: "prefix list"
  enforce :: bool
  abc_prefix_len :: u8
  abc_rate_limit :: u32
  rate_window_ns :: duration

definition auto_block_default :: auto_block_config where
  "auto_block_default = \<lparr>allowlist = [], enforce = False, abc_prefix_len = 32, abc_rate_limit = 20,
     rate_window_ns = from_secs 60\<rparr>"

record xdp_rate_limiter =
  xrl_events :: "instant list"
  xrl_limit :: u32
  xrl_window :: duration

definition xrl_allow :: "xdp_rate_limiter \<Rightarrow> instant \<Rightarrow> bool \<times> xdp_rate_limiter" where
  "xrl_allow rl now =
     (let evs = dropWhile (\<lambda>front. duration_since now front > xrl_window rl) (xrl_events rl)
      in if of_nat (length evs) \<ge> xrl_limit rl then (False, rl\<lparr>xrl_events := evs\<rparr>)
         else (True, rl\<lparr>xrl_events := evs @ [now]\<rparr>))"

record 'm xdp_capture =
  blocklist :: 'm
  xc_config :: auto_block_config
  xc_limiter :: xdp_rate_limiter
  persist_path :: bool
  disk :: "string option"

datatype block_outcome = Blocked | Allowlisted | ObserveOnly | RateLimited

definition clamp_prefix :: "u8 \<Rightarrow> nat" where
  "clamp_prefix p = max 1 (min 32 (unat p))"

definition list_blocked_raw :: "'m lpm \<Rightarrow> 'm xdp_capture \<Rightarrow> entry list" where
  "list_blocked_raw ops xc = map (\<lambda>((p, a), expiry). (a, of_nat p, expiry)) (lpm_iter ops (blocklist xc))"

definition list_blocked :: "'m lpm \<Rightarrow> 'm xdp_capture \<Rightarrow> u64 \<Rightarrow> entry list" where
  "list_blocked ops xc wall_ns =
     map (\<lambda>((p, a), expiry). (a, of_nat p, (expiry - wall_ns) div 1000000000))
       (filter (\<lambda>(_, expiry). \<not> expiry \<le> wall_ns) (lpm_iter ops (blocklist xc)))"

text \<open>The file is rewritten through a temporary file and a rename: when the write fails
  (\<open>\<not> disk_ok\<close>), the old contents stay.\<close>

definition persist_blocklist :: "'m lpm \<Rightarrow> bool \<Rightarrow> 'm xdp_capture \<Rightarrow> 'm xdp_capture" where
  "persist_blocklist ops disk_ok xc =
     (if persist_path xc \<and> disk_ok
      then xc\<lparr>disk := Some (write_persisted_blocklist (list_blocked_raw ops xc))\<rparr> else xc)"

text \<open>Two clocks: \<open>now\<close> is the monotonic clock of the rate limiter, \<open>wall_ns\<close> the wall clock that
  \<^verbatim>\<open>now_ns\<close> reads.  \<open>None\<close> is an insertion that the kernel refused.\<close>

definition block_ipv4_inner :: "'m lpm \<Rightarrow> bool \<Rightarrow> 'm xdp_capture \<Rightarrow> instant \<Rightarrow> u64 \<Rightarrow> u32 \<Rightarrow> duration \<Rightarrow> u8 option
  \<Rightarrow> bool \<Rightarrow> block_outcome option \<times> 'm xdp_capture" where
  "block_ipv4_inner ops disk_ok xc now wall_ns addr ttl plen bypass =
     (if \<exists>net \<in> set (allowlist (xc_config xc)). covers net addr then (Some Allowlisted, xc)
      else if \<not> enforce (xc_config xc) \<and> \<not> bypass then (Some ObserveOnly, xc)
      else
        let (ok, rl) = xrl_allow (xc_limiter xc) now;
            xc = xc\<lparr>xc_limiter := rl\<rparr>
        in if \<not> ok then (Some RateLimited, xc)
           else
             let p = clamp_prefix (case plen of Some p \<Rightarrow> p | None \<Rightarrow> abc_prefix_len (xc_config xc));
                 expiry_ns = wall_ns + of_nat ttl
             in case lpm_insert ops (blocklist xc) (p, addr) expiry_ns of
                  None \<Rightarrow> (None, xc)
                | Some m \<Rightarrow> (Some Blocked, persist_blocklist ops disk_ok (xc\<lparr>blocklist := m\<rparr>)))"

definition block_ipv4 where
  "block_ipv4 ops disk_ok xc now wall_ns addr ttl plen =
     block_ipv4_inner ops disk_ok xc now wall_ns addr ttl plen False"

definition force_block_ipv4 where
  "force_block_ipv4 ops disk_ok xc now wall_ns addr ttl plen =
     block_ipv4_inner ops disk_ok xc now wall_ns addr ttl plen True"

definition unblock_ipv4 :: "'m lpm \<Rightarrow> bool \<Rightarrow> 'm xdp_capture \<Rightarrow> u32 \<Rightarrow> u8 option \<Rightarrow> 'm xdp_capture" where
  "unblock_ipv4 ops disk_ok xc addr plen =
     persist_blocklist ops disk_ok (xc\<lparr>blocklist := lpm_remove ops (blocklist xc)
        (clamp_prefix (case plen of Some p \<Rightarrow> p | None \<Rightarrow> 32), addr)\<rparr>)"

definition sweep_expired_blocklist :: "'m lpm \<Rightarrow> 'm xdp_capture \<Rightarrow> u64 \<Rightarrow> 'm xdp_capture" where
  "sweep_expired_blocklist ops xc wall_ns =
     (let expired = map fst (filter (\<lambda>(p, expiry). expiry \<le> wall_ns) (lpm_iter ops (blocklist xc)))
      in xc\<lparr>blocklist := foldl (lpm_remove ops) (blocklist xc) expired\<rparr>)"

text \<open>The start: the entries of the file that have not expired are inserted, and an insertion
  that fails is skipped.\<close>

fun restore :: "'m lpm \<Rightarrow> u64 \<Rightarrow> 'm \<Rightarrow> entry list \<Rightarrow> 'm" where
  "restore ops wall_ns m [] = m"
| "restore ops wall_ns m ((ip, plen, expiry) # es) =
     restore ops wall_ns
       (if expiry \<le> wall_ns then m
        else case lpm_insert ops m (unat plen, ip) expiry of None \<Rightarrow> m | Some m' \<Rightarrow> m') es"

definition xdp_start :: "'m lpm \<Rightarrow> 'm \<Rightarrow> auto_block_config \<Rightarrow> u64 \<Rightarrow> bool \<Rightarrow> string option \<Rightarrow> 'm xdp_capture" where
  "xdp_start ops m0 cfg wall_ns persist file =
     \<lparr>blocklist = (if persist then restore ops wall_ns m0 (load_persisted_blocklist file) else m0),
      xc_config = cfg,
      xc_limiter = \<lparr>xrl_events = [], xrl_limit = abc_rate_limit cfg, xrl_window = rate_window_ns cfg\<rparr>,
      persist_path = persist, disk = file\<rparr>"

text \<open>The event loop's reaction to the alerts of one packet.\<close>

fun auto_block :: "'m lpm \<Rightarrow> bool \<Rightarrow> duration \<Rightarrow> instant \<Rightarrow> u64 \<Rightarrow> 'm xdp_capture \<Rightarrow> alert list \<Rightarrow> 'm xdp_capture" where
  "auto_block ops disk_ok ttl now wall_ns xc [] = xc"
| "auto_block ops disk_ok ttl now wall_ns xc (a # as) =
     auto_block ops disk_ok ttl now wall_ns
       (case al_src a of
          Some (V4 src) \<Rightarrow>
            if al_severity a = SevCritical then snd (block_ipv4 ops disk_ok xc now wall_ns src ttl None) else xc
        | _ \<Rightarrow> xc) as"

section \<open>The control socket\<close>

text \<open>A command line and its answer; the answer's constructors carry what the text interpolates.\<close>

datatype control_response =
    UsageError string
  | BadIp string
  | BadPrefix string
  | BlockDone block_outcome u32 u8
  | BlockFailed
  | UnblockDone u32 u8
  | Listing "entry list"
  | StatusLine bool u8 u32 duration nat
  | Silent
  | UnknownCommand string

definition parse_ip_prefix :: "string \<Rightarrow> control_response + u32 \<times> u8 option" where
  "parse_ip_prefix s =
     (case split_once (CHR ''/'') s of
        Some (ip, plen) \<Rightarrow>
          (case parse_v4 ip of
             None \<Rightarrow> Inl (BadIp ip)
           | Some a \<Rightarrow>
               (case parse_uint 255 plen of Inl _ \<Rightarrow> Inl (BadPrefix plen) | Inr p \<Rightarrow> Inr (a, Some (of_nat p))))
      | None \<Rightarrow> (case parse_v4 s of None \<Rightarrow> Inl (BadIp s) | Some a \<Rightarrow> Inr (a, None)))"

definition command_ttl :: "string list \<Rightarrow> nat" where
  "command_ttl parts = (case parts of
       [] \<Rightarrow> 300
     | s # _ \<Rightarrow> (case parse_uint 18446744073709551615 s of Inl _ \<Rightarrow> 300 | Inr n \<Rightarrow> n))"

definition block_command :: "'m lpm \<Rightarrow> bool \<Rightarrow> 'm xdp_capture \<Rightarrow> instant \<Rightarrow> u64 \<Rightarrow> string list
  \<Rightarrow> control_response \<times> 'm xdp_capture" where
  "block_command ops disk_ok xc now wall_ns parts =
     (case parts of
        [] \<Rightarrow> (UsageError ''BLOCK'', xc)
      | target # parts \<Rightarrow>
          (case parse_ip_prefix target of
             Inl e \<Rightarrow> (e, xc)
           | Inr (addr, plen) \<Rightarrow>
               (let (outcome, xc') = force_block_ipv4 ops disk_ok xc now wall_ns addr (from_secs (command_ttl parts)) plen
                in (case outcome of
                      None \<Rightarrow> BlockFailed
                    | Some b \<Rightarrow> BlockDone b addr (case plen of Some p \<Rightarrow> p | None \<Rightarrow> abc_prefix_len (xc_config xc)), xc'))))"

definition unblock_command :: "'m lpm \<Rightarrow> bool \<Rightarrow> 'm xdp_capture \<Rightarrow> string list \<Rightarrow> control_response \<times> 'm xdp_capture" where
  "unblock_command ops disk_ok xc parts =
     (case parts of
        [] \<Rightarrow> (UsageError ''UNBLOCK'', xc)
      | target # _ \<Rightarrow>
          (case parse_ip_prefix target of
             Inl e \<Rightarrow> (e, xc)
           | Inr (addr, plen) \<Rightarrow>
               (UnblockDone addr (case plen of Some p \<Rightarrow> p | None \<Rightarrow> 32), unblock_ipv4 ops disk_ok xc addr plen)))"

definition handle_control_command :: "'m lpm \<Rightarrow> bool \<Rightarrow> 'm xdp_capture \<Rightarrow> instant \<Rightarrow> u64 \<Rightarrow> string
  \<Rightarrow> control_response \<times> 'm xdp_capture" where
  "handle_control_command ops disk_ok xc now wall_ns line =
     (let words = split_whitespace line;
          verb = (case words of [] \<Rightarrow> [] | w # _ \<Rightarrow> map upper w);
          parts = tl words
      in if verb = ''BLOCK'' then block_command ops disk_ok xc now wall_ns parts
         else if verb = ''UNBLOCK'' then unblock_command ops disk_ok xc parts
         else if verb = ''LIST'' then (Listing (list_blocked ops xc wall_ns), xc)
         else if verb = ''STATUS'' then
           (StatusLine (enforce (xc_config xc)) (abc_prefix_len (xc_config xc)) (abc_rate_limit (xc_config xc))
              (rate_window_ns (xc_config xc)) (length (allowlist (xc_config xc))), xc)
         else if verb = [] then (Silent, xc)
         else (UnknownCommand verb, xc))"

section \<open>Facts about the map\<close>

lemma covers_self [simp]: "covers (n, a) a"
  by (simp add: covers_def)

lemma same_prefix_iff: "same_prefix p q \<longleftrightarrow>
  (fst p, drop_bit (32 - fst p) (snd p)) = (fst q, drop_bit (32 - fst q) (snd q))"
  by (auto simp: same_prefix_def covers_def)

lemma covers_host: "32 \<le> n \<Longrightarrow> covers (n, a) b \<longleftrightarrow> a = b"
  by (simp add: covers_def)

lemma covers_same_length: "covers p a \<Longrightarrow> covers q a \<Longrightarrow> fst p = fst q \<Longrightarrow> same_prefix p q"
  by (simp add: same_prefix_def covers_def)

lemma lpm_get_SomeE:
  assumes "lpm_ok ops" "lpm_get ops m (32, a) = Some v"
  obtains p where "(p, v) \<in> set (lpm_iter ops m)" "covers p a"
    "\<forall>(q, w) \<in> set (lpm_iter ops m). covers q a \<longrightarrow> fst q \<le> fst p"
  using assms unfolding lpm_ok_def lpm_get_ok_def by blast

lemma lpm_get_None: "lpm_ok ops \<Longrightarrow> lpm_get ops m (32, a) = None \<Longrightarrow> (q, w) \<in> set (lpm_iter ops m) \<Longrightarrow> \<not> covers q a"
  unfolding lpm_ok_def lpm_get_ok_def by (elim conjE) (drule spec, drule spec, drule (1) mp, drule (1) bspec, simp)

lemma lpm_insert_set: "lpm_ok ops \<Longrightarrow> lpm_insert ops m p v = Some m' \<Longrightarrow>
  set (lpm_iter ops m') = insert (p, v) {(q, w) \<in> set (lpm_iter ops m). \<not> same_prefix p q}"
  by (cases p) (simp add: lpm_ok_def lpm_insert_ok_def)

lemma lpm_remove_set: "lpm_ok ops \<Longrightarrow>
  set (lpm_iter ops (lpm_remove ops m p)) = {(q, w) \<in> set (lpm_iter ops m). \<not> same_prefix p q}"
  by (cases p) (simp add: lpm_ok_def lpm_remove_ok_def)

lemma lpm_unique: "lpm_ok ops \<Longrightarrow> (p, v) \<in> set (lpm_iter ops m) \<Longrightarrow> (q, w) \<in> set (lpm_iter ops m) \<Longrightarrow>
  same_prefix p q \<Longrightarrow> p = q \<and> v = w"
  unfolding lpm_ok_def lpm_unique_ok_def by blast

lemma lpm_get_longest:
  assumes ok: "lpm_ok ops" and mem: "(p, v) \<in> set (lpm_iter ops m)" and cov: "covers p a"
    and longest: "\<forall>(q, w) \<in> set (lpm_iter ops m). covers q a \<longrightarrow> fst q \<le> fst p"
  shows "lpm_get ops m (32, a) = Some v"
proof (cases "lpm_get ops m (32, a)")
  case None
  then show ?thesis using lpm_get_None [OF ok None mem] cov by simp
next
  case (Some w)
  obtain q where q: "(q, w) \<in> set (lpm_iter ops m)" "covers q a"
    "\<forall>(r, u) \<in> set (lpm_iter ops m). covers r a \<longrightarrow> fst r \<le> fst q"
    using lpm_get_SomeE [OF ok Some] .
  have "fst p \<le> fst q" using q(3) mem cov by fast
  moreover have "fst q \<le> fst p" using longest q(1,2) by fast
  ultimately have "same_prefix p q" using cov q(2) by (simp add: covers_same_length)
  then show ?thesis using lpm_unique [OF ok mem q(1)] Some by simp
qed

section \<open>An implementation of the map\<close>

text \<open>A list of entries of which the first of each prefix counts; it shows that the
  assumptions on the kernel's map can be met, and concrete runs use it.\<close>

fun live :: "(prefix \<times> u64) list \<Rightarrow> (prefix \<times> u64) list" where
  "live [] = []"
| "live (pv # m) = pv # filter (\<lambda>qw. \<not> same_prefix (fst pv) (fst qw)) (live m)"

fun longest :: "(prefix \<times> u64) list \<Rightarrow> (prefix \<times> u64) option" where
  "longest [] = None"
| "longest (pv # m) =
     (case longest m of None \<Rightarrow> Some pv | Some qw \<Rightarrow> if fst (fst pv) < fst (fst qw) then Some qw else Some pv)"

definition list_lpm :: "(prefix \<times> u64) list lpm" where
  "list_lpm = \<lparr>lpm_get = (\<lambda>m (n, a). map_option snd (longest (filter (\<lambda>(q, w). covers q a) (live m)))),
     lpm_insert = (\<lambda>m p v. Some ((p, v) # m)),
     lpm_remove = (\<lambda>m p. filter (\<lambda>qw. \<not> same_prefix p (fst qw)) (live m)),
     lpm_iter = live\<rparr>"

lemma longest_None [simp]: "longest m = None \<longleftrightarrow> m = []"
  by (induction m) (auto split: option.splits)

lemma longest_Some: "longest m = Some pv \<Longrightarrow> pv \<in> set m \<and> (\<forall>qw \<in> set m. fst (fst qw) \<le> fst (fst pv))"
  by (induction m arbitrary: pv) (fastforce split: option.splits if_splits)+

lemma same_prefix_eq: "same_prefix p q \<Longrightarrow> same_prefix p r \<longleftrightarrow> same_prefix q r"
  by (auto simp: same_prefix_iff)

lemma same_prefix_sym: "same_prefix p q \<Longrightarrow> same_prefix q p"
  by (auto simp: same_prefix_iff)

lemma same_prefix_refl [simp]: "same_prefix p p"
  by (simp add: same_prefix_iff)

lemma live_unique: "pv \<in> set (live m) \<Longrightarrow> qw \<in> set (live m) \<Longrightarrow> same_prefix (fst pv) (fst qw) \<Longrightarrow> pv = qw"
  by (induction m arbitrary: pv qw) (auto dest: same_prefix_sym)

lemma live_filter: "live (filter (\<lambda>qw. \<not> same_prefix p (fst qw)) m) = filter (\<lambda>qw. \<not> same_prefix p (fst qw)) (live m)"
proof (induction m)
  case (Cons pv m)
  show ?case
  proof (cases "same_prefix p (fst pv)")
    case True
    then have "filter (\<lambda>qw. \<not> same_prefix p (fst qw) \<and> \<not> same_prefix (fst pv) (fst qw)) (live m)
      = filter (\<lambda>qw. \<not> same_prefix p (fst qw)) (live m)"
      by (intro filter_cong) (auto dest: same_prefix_eq)
    then show ?thesis using True Cons.IH by (simp add: conj_commute)
  next
    case False
    then show ?thesis using Cons.IH by (simp add: conj_commute)
  qed
qed simp

lemma live_idem: "live (live m) = live m"
  by (induction m) (simp_all add: live_filter)

lemma list_lpm_ok: "lpm_ok list_lpm"
proof -
  have "lpm_get_ok list_lpm"
    unfolding lpm_get_ok_def list_lpm_def by (fastforce dest: longest_Some simp: filter_empty_conv)
  moreover have "lpm_unique_ok list_lpm"
    unfolding lpm_unique_ok_def list_lpm_def using live_unique by fastforce
  moreover have "lpm_insert_ok list_lpm"
    unfolding lpm_insert_ok_def list_lpm_def by auto
  moreover have "lpm_remove_ok list_lpm"
    unfolding lpm_remove_ok_def list_lpm_def by (auto simp: live_filter live_idem)
  ultimately show ?thesis by (simp add: lpm_ok_def)
qed

section \<open>What the kernel drops\<close>

text \<open>The source of a frame that is Ethernet, IPv4, long enough and with a sane header length.\<close>

definition ipv4_frame :: "bytes \<Rightarrow> bool" where
  "ipv4_frame frame \<longleftrightarrow> length frame \<ge> 34 \<and> frame ! 12 = 8 \<and> frame ! 13 = 0 \<and> 5 \<le> unat (frame ! 14 AND 15)"

definition frame_src :: "bytes \<Rightarrow> u32" where
  "frame_src frame = be32 (take 4 (drop 26 frame))"

lemma unat_be16: "unat (be16 a b) = unat a * 256 + unat b"
proof -
  have "unat a < 256" "unat b < 256"
    using unsigned_less [of a, where ?'a = nat] unsigned_less [of b, where ?'a = nat] by simp_all
  then show ?thesis by (simp add: be16_def unat_word_ariths unsigned_ucast_eq take_bit_eq_mod)
qed

lemma be16_ipv4: "be16 a b = 0x0800 \<longleftrightarrow> a = 8 \<and> b = 0"
proof -
  have "be16 a b = 0x0800 \<longleftrightarrow> unat a * 256 + unat b = 2048"
    by (simp add: word_unat_eq_iff unat_be16)
  also have "\<dots> \<longleftrightarrow> unat a = 8 \<and> unat b = 0"
    using unsigned_less [of b, where ?'a = nat] by simp presburger
  finally show ?thesis by (simp add: word_unat_eq_iff)
qed

lemma ptr_at_nth: "ptr_at frame off len = Some h \<Longrightarrow> i < len \<Longrightarrow> h ! i = frame ! (off + i)"
  by (auto simp: ptr_at_def split: if_splits)

lemma parse_l3_v4:
  "map_option (\<lambda>(off, proto, ev', src4). src4) (case parse_l3 frame ev of Inl _ \<Rightarrow> None | Inr r \<Rightarrow> Some r) = Some (Some src)
   \<longleftrightarrow> ipv4_frame frame \<and> src = take 4 (drop 26 frame)"
proof (cases "34 \<le> length frame \<and> frame ! 12 = 8 \<and> frame ! 13 = 0")
  case True
  have n: "take 4 (drop 12 (take 20 (drop 14 frame))) = take 4 (drop 26 frame)"
    by (simp add: drop_take)
  have "parse_l3 frame ev = (if 5 \<le> unat (frame ! 14 AND 15) then Inr (14 + unat (frame ! 14 AND 15) * 4, frame ! 23,
      ev\<lparr>ev_ip_ver := 4, ev_src_addr := take 4 (drop 26 frame) @ drop 4 (ev_src_addr ev),
         ev_dst_addr := take 4 (drop 16 (take 20 (drop 14 frame))) @ drop 4 (ev_dst_addr ev)\<rparr>, Some (take 4 (drop 26 frame)))
    else Inl False)"
    using True by (simp add: parse_l3_def ptr_at_def be16_ipv4 n Let_def)
  then show ?thesis using True by (auto simp: ipv4_frame_def)
next
  case False
  then show ?thesis
    by (cases "length frame < 14") (auto simp: ipv4_frame_def parse_l3_def ptr_at_def be16_ipv4 Let_def)
qed

lemma nsm_xdp_drop_iff: "xr_action (nsm_xdp ops bl ts ktime ifx ring_ok st frame) = XdpDrop \<longleftrightarrow>
  ipv4_frame frame \<and> (\<exists>e. lpm_get ops bl (32, frame_src frame) = Some e \<and> ktime < e)"
proof -
  define ev where "ev = event_zeroed\<lparr>ev_ts_ns := ts, ev_ifindex := ifx, ev_length := of_nat (length frame)\<rparr>"
  have "xr_action (nsm_xdp ops bl ts ktime ifx ring_ok st frame) = XdpDrop \<longleftrightarrow>
    (\<exists>src. map_option (\<lambda>(off, proto, ev', src4). src4) (case parse_l3 frame ev of Inl _ \<Rightarrow> None | Inr r \<Rightarrow> Some r) = Some (Some src)
       \<and> blocked_at ops bl ktime (Some src))"
    by (auto simp: nsm_xdp_def Let_def ev_def [symmetric] blocked_at_def
        split: sum.splits bool.splits prod.splits option.splits if_splits)
  then show ?thesis
    unfolding parse_l3_v4 by (auto simp: blocked_at_def frame_src_def split: option.splits)
qed

text \<open>C6: With a longest-prefix-match map that does what the kernel documents, a frame is dropped
  exactly when it is a well-formed IPv4 frame and the most specific prefix on the block list
  that covers its source has not expired by the kernel's clock; whether the event ring has room,
  the interface and the statistics have no influence.\<close>

theorem xdp_drops_exactly_blocked:
  assumes "lpm_ok ops"
  shows "xr_action (nsm_xdp ops bl ts ktime ifx ring_ok st frame) = XdpDrop \<longleftrightarrow>
    ipv4_frame frame \<and>
    (\<exists>p e. (p, e) \<in> set (lpm_iter ops bl) \<and> covers p (frame_src frame) \<and> ktime < e \<and>
       (\<forall>(q, w) \<in> set (lpm_iter ops bl). covers q (frame_src frame) \<longrightarrow> fst q \<le> fst p))"
proof -
  let ?L = "\<lambda>p. \<forall>(q, w) \<in> set (lpm_iter ops bl). covers q (frame_src frame) \<longrightarrow> fst q \<le> fst p"
  have "(\<exists>e. lpm_get ops bl (32, frame_src frame) = Some e \<and> ktime < e) \<longleftrightarrow>
    (\<exists>p e. (p, e) \<in> set (lpm_iter ops bl) \<and> covers p (frame_src frame) \<and> ktime < e \<and> ?L p)"
  proof
    assume "\<exists>e. lpm_get ops bl (32, frame_src frame) = Some e \<and> ktime < e"
    then obtain e where e: "lpm_get ops bl (32, frame_src frame) = Some e" "ktime < e" by blast
    from lpm_get_SomeE [OF assms e(1)] e(2)
    show "\<exists>p e. (p, e) \<in> set (lpm_iter ops bl) \<and> covers p (frame_src frame) \<and> ktime < e \<and> ?L p" by blast
  next
    assume "\<exists>p e. (p, e) \<in> set (lpm_iter ops bl) \<and> covers p (frame_src frame) \<and> ktime < e \<and> ?L p"
    then show "\<exists>e. lpm_get ops bl (32, frame_src frame) = Some e \<and> ktime < e"
      using lpm_get_longest [OF assms] by blast
  qed
  then show ?thesis by (simp only: nsm_xdp_drop_iff)
qed

definition sample_frame :: bytes where
  "sample_frame = [0, 0, 0, 0, 0, 0, 0, 0, 0, 0, 0, 0, 8, 0, 0x45, 0, 0, 40, 0, 0, 0, 0, 64, 6, 0, 0, 203, 0, 113, 7, 10, 0, 0, 1]"

definition no_stats :: xdp_stats where
  "no_stats = \<lparr>st_passed = 0, st_dropped = 0, st_truncated = 0, st_parse_errors = 0\<rparr>"

lemma sample_frame_src: "ipv4_frame sample_frame" "frame_src sample_frame = 0xCB007107"
  by (simp_all add: sample_frame_def ipv4_frame_def frame_src_def be32_def)

theorem xdp_drops_exactly_blocked_witness:
  "xr_action (nsm_xdp list_lpm [((24, 0xCB007100), 500)] 90 100 2 False no_stats sample_frame) = XdpDrop
   \<and> xr_action (nsm_xdp list_lpm [((32, 0xCB007107), 50), ((24, 0xCB007100), 500)] 90 100 2 True no_stats sample_frame) = XdpPass"
proof
  show "xr_action (nsm_xdp list_lpm [((24, 0xCB007100), 500)] 90 100 2 False no_stats sample_frame) = XdpDrop"
    unfolding xdp_drops_exactly_blocked [OF list_lpm_ok]
    by (simp add: sample_frame_src list_lpm_def covers_def)
  have "xr_action (nsm_xdp list_lpm [((32, 0xCB007107), 50), ((24, 0xCB007100), 500)] 90 100 2 True no_stats sample_frame) \<noteq> XdpDrop"
    unfolding xdp_drops_exactly_blocked [OF list_lpm_ok]
    by (auto simp: sample_frame_src list_lpm_def covers_def same_prefix_def)
  then show "xr_action (nsm_xdp list_lpm [((32, 0xCB007107), 50), ((24, 0xCB007100), 500)] 90 100 2 True no_stats sample_frame) = XdpPass"
    by (cases "xr_action (nsm_xdp list_lpm [((32, 0xCB007107), 50), ((24, 0xCB007100), 500)] 90 100 2 True no_stats sample_frame)") auto
qed

end
