(* ===== verification/Xdp_Blocking.thy ===== *)
theory Xdp_Blocking
  imports Xdp
begin

text \<open>
  What the block list operations of \<^verbatim>\<open>nsm-xdp/src/xdp/mod.rs\<close> guarantee together with the
  kernel's program: a block that was reported is enforced, the rate of blocks is bounded in
  every window, an allowlisted host is never the target of a block, the sweep removes exactly
  what has expired, and a restart restores what has not.
\<close>

section \<open>Runs of operations\<close>

datatype xdp_op =
    Block u32 duration "u8 option" bool
  | Unblock u32 "u8 option"
  | Sweep

type_synonym xdp_event = "instant \<times> u64 \<times> bool \<times> xdp_op"

fun xdp_step :: "'m lpm \<Rightarrow> 'm xdp_capture \<Rightarrow> xdp_event \<Rightarrow> block_outcome option \<times> 'm xdp_capture" where
  "xdp_step ops xc (now, wall, ok, Block addr ttl plen bypass) = block_ipv4_inner ops ok xc now wall addr ttl plen bypass"
| "xdp_step ops xc (now, wall, ok, Unblock addr plen) = (None, unblock_ipv4 ops ok xc addr plen)"
| "xdp_step ops xc (now, wall, ok, Sweep) = (None, sweep_expired_blocklist ops xc wall)"

text \<open>A run, with the instants at which a block was inserted.\<close>

fun xdp_exec :: "'m lpm \<Rightarrow> 'm xdp_capture \<Rightarrow> xdp_event list \<Rightarrow> instant list \<times> 'm xdp_capture" where
  "xdp_exec ops xc [] = ([], xc)"
| "xdp_exec ops xc (e # es) =
     (let (out, xc') = xdp_step ops xc e; (ts, xc'') = xdp_exec ops xc' es
      in (if out = Some Blocked then fst e # ts else ts, xc''))"

lemma xdp_exec_append: "xdp_exec ops xc (es @ fs) =
  (let (ts, xc') = xdp_exec ops xc es; (us, xc'') = xdp_exec ops xc' fs in (ts @ us, xc''))"
  by (induction es arbitrary: xc) (auto split: prod.splits)

text \<open>The event loop and the control socket do nothing to the block list but such operations.\<close>

definition alert_ops :: "instant \<Rightarrow> u64 \<Rightarrow> bool \<Rightarrow> duration \<Rightarrow> alert list \<Rightarrow> xdp_event list" where
  "alert_ops now wall ok ttl als = List.map_filter (\<lambda>a. case al_src a of
     Some (V4 src) \<Rightarrow> if al_severity a = SevCritical then Some (now, wall, ok, Block src ttl None False) else None
   | _ \<Rightarrow> None) als"

lemma auto_block_run: "auto_block ops ok ttl now wall xc als = snd (xdp_exec ops xc (alert_ops now wall ok ttl als))"
  by (induction als arbitrary: xc)
    (auto simp: alert_ops_def map_filter_simps block_ipv4_def Let_def split: option.splits ipaddr.splits prod.splits)

lemma block_command_run: "\<exists>es. snd (block_command ops ok xc now wall parts) = snd (xdp_exec ops xc es)
   \<and> (\<forall>e \<in> set es. \<exists>addr ttl plen. e = (now, wall, ok, Block addr ttl plen True))"
proof (cases "\<exists>target ps addr plen. parts = target # ps \<and> parse_ip_prefix target = Inr (addr, plen)")
  case True
  then obtain target ps addr plen where p: "parts = target # ps" "parse_ip_prefix target = Inr (addr, plen)" by blast
  then have "snd (block_command ops ok xc now wall parts)
      = snd (xdp_exec ops xc [(now, wall, ok, Block addr (from_secs (command_ttl ps)) plen True)])"
    by (simp add: block_command_def force_block_ipv4_def case_prod_beta)
  then show ?thesis by fastforce
next
  case False
  then have "snd (block_command ops ok xc now wall parts) = snd (xdp_exec ops xc [])"
    by (auto simp: block_command_def split: list.splits sum.splits)
  then show ?thesis by (intro exI [of _ "[]"]) simp
qed

lemma unblock_command_run: "\<exists>es. snd (unblock_command ops ok xc parts) = snd (xdp_exec ops xc es)
   \<and> (\<forall>e \<in> set es. \<exists>addr plen. e = (now, wall, ok, Unblock addr plen))"
proof (cases "\<exists>target ps addr plen. parts = target # ps \<and> parse_ip_prefix target = Inr (addr, plen)")
  case True
  then obtain target ps addr plen where p: "parts = target # ps" "parse_ip_prefix target = Inr (addr, plen)" by blast
  then have "snd (unblock_command ops ok xc parts) = snd (xdp_exec ops xc [(now, wall, ok, Unblock addr plen)])"
    by (simp add: unblock_command_def)
  then show ?thesis by fastforce
next
  case False
  then have "snd (unblock_command ops ok xc parts) = snd (xdp_exec ops xc [])"
    by (auto simp: unblock_command_def split: list.splits sum.splits)
  then show ?thesis by (intro exI [of _ "[]"]) simp
qed

lemma control_command_run: "\<exists>es. snd (handle_control_command ops ok xc now wall line) = snd (xdp_exec ops xc es)
   \<and> (\<forall>e \<in> set es. fst e = now)"
proof -
  obtain es where es: "snd (block_command ops ok xc now wall (tl (split_whitespace line))) = snd (xdp_exec ops xc es)"
    "\<forall>e \<in> set es. fst e = now"
    using block_command_run [of ops ok xc now wall "tl (split_whitespace line)"] by fastforce
  obtain us where us: "snd (unblock_command ops ok xc (tl (split_whitespace line))) = snd (xdp_exec ops xc us)"
    "\<forall>e \<in> set us. fst e = now"
    using unblock_command_run [of ops ok xc "tl (split_whitespace line)" now wall] by fastforce
  have "snd (handle_control_command ops ok xc now wall line) \<in> {snd (xdp_exec ops xc es), snd (xdp_exec ops xc us), snd (xdp_exec ops xc [])}"
    using es(1) us(1) by (simp add: handle_control_command_def Let_def)
  then show ?thesis using es(2) us(2) by (auto intro: exI [of _ "[]"])
qed

section \<open>The rate limit\<close>

lemma xrl_allow_fields: "xrl_limit (snd (xrl_allow rl now)) = xrl_limit rl"
  "xrl_window (snd (xrl_allow rl now)) = xrl_window rl"
  by (simp_all add: xrl_allow_def Let_def)

lemma length_filter_mono: "(\<And>x. P x \<Longrightarrow> Q x) \<Longrightarrow> length (filter P xs) \<le> length (filter Q xs)"
  by (induction xs) auto

lemma filter_dropWhile_keep: "(\<And>x. P x \<Longrightarrow> \<not> Q x) \<Longrightarrow> filter P (dropWhile Q xs) = filter P xs"
  by (induction xs) auto

text \<open>The limiter covers a history of blocks: for every instant that the window still reaches,
  it has at least as many events since then as the history, and never more than the limit.\<close>

definition rl_covers :: "xdp_rate_limiter \<Rightarrow> instant \<Rightarrow> instant list \<Rightarrow> bool" where
  "rl_covers rl now hist \<longleftrightarrow>
     length (xrl_events rl) \<le> unat (xrl_limit rl)
   \<and> (\<forall>t. now - t \<le> xrl_window rl \<longrightarrow>
        length (filter (\<lambda>h. t \<le> h) hist) \<le> length (filter (\<lambda>e. t \<le> e) (xrl_events rl)))
   \<and> (\<forall>t. length (filter (\<lambda>h. t \<le> h \<and> h \<le> t + xrl_window rl) hist) \<le> unat (xrl_limit rl))
   \<and> (\<forall>h \<in> set hist. h \<le> now)"

lemma rl_covers_later: "rl_covers rl now hist \<Longrightarrow> now \<le> now' \<Longrightarrow> rl_covers rl now' hist"
  unfolding rl_covers_def by (meson diff_le_mono le_trans)

lemma limit_unreached:
  assumes "length evs \<le> unat (l :: u32)" and "\<not> l \<le> of_nat (length evs)"
  shows "Suc (length evs) \<le> unat l"
proof -
  have "length evs < 2 ^ 32" using assms(1) unsigned_less [of l, where ?'a = nat] by simp
  then have "unat (of_nat (length evs) :: u32) = length evs"
    by (simp add: unat_of_nat take_bit_nat_eq_self)
  then show ?thesis using assms(2) by (simp add: word_le_nat_alt)
qed

lemma rl_covers_refused: "rl_covers rl now hist \<Longrightarrow> rl_covers (snd (xrl_allow rl now)) now hist"
proof -
  assume c: "rl_covers rl now hist"
  let ?old = "\<lambda>f. duration_since now f > xrl_window rl"
  have keep: "now - t \<le> xrl_window rl \<Longrightarrow> filter (\<lambda>e. t \<le> e) (dropWhile ?old (xrl_events rl)) = filter (\<lambda>e. t \<le> e) (xrl_events rl)" for t
    by (rule filter_dropWhile_keep) (auto simp: duration_since_def)
  have len: "length (dropWhile ?old (xrl_events rl)) \<le> unat (xrl_limit rl)"
    using c length_dropWhile_le [of ?old "xrl_events rl"] unfolding rl_covers_def by (meson le_trans)
  show ?thesis
  proof (cases "xrl_limit rl \<le> of_nat (length (dropWhile ?old (xrl_events rl)))")
    case True
    then show ?thesis using c len keep unfolding rl_covers_def by (simp add: xrl_allow_def Let_def)
  next
    case False
    then have "Suc (length (dropWhile ?old (xrl_events rl))) \<le> unat (xrl_limit rl)"
      using limit_unreached [OF len] by simp
    then show ?thesis using False c keep unfolding rl_covers_def
      by (auto simp: xrl_allow_def Let_def intro: le_SucI)
  qed
qed

lemma rl_covers_allowed:
  assumes c: "rl_covers rl now hist" and a: "fst (xrl_allow rl now)"
  shows "rl_covers (snd (xrl_allow rl now)) now (hist @ [now])"
proof -
  let ?rl = "snd (xrl_allow rl now)" and ?W = "xrl_window rl" and ?L = "unat (xrl_limit rl)"
  let ?evs = "dropWhile (\<lambda>f. duration_since now f > ?W) (xrl_events rl)"
  have evs: "xrl_events ?rl = ?evs @ [now]" using a by (auto simp: xrl_allow_def Let_def split: if_splits)
  have bound: "length (xrl_events ?rl) \<le> ?L"
    using rl_covers_refused [OF c] by (simp add: rl_covers_def xrl_allow_fields)
  have since: "length (filter (\<lambda>h. t \<le> h) (hist @ [now])) \<le> length (filter (\<lambda>e. t \<le> e) (xrl_events ?rl))"
    if "now - t \<le> ?W" for t
  proof -
    have "filter (\<lambda>e. t \<le> e) ?evs = filter (\<lambda>e. t \<le> e) (xrl_events rl)"
      using that by (intro filter_dropWhile_keep) (auto simp: duration_since_def)
    then show ?thesis using c that by (simp add: evs rl_covers_def)
  qed
  have window: "length (filter (\<lambda>h. t \<le> h \<and> h \<le> t + ?W) (hist @ [now])) \<le> ?L" for t
  proof (cases "now \<le> t + ?W")
    case True
    have "length (filter (\<lambda>h. t \<le> h \<and> h \<le> t + ?W) (hist @ [now])) \<le> length (filter (\<lambda>h. t \<le> h) (hist @ [now]))"
      by (rule length_filter_mono) simp
    also have "\<dots> \<le> length (filter (\<lambda>e. t \<le> e) (xrl_events ?rl))" using True by (intro since) simp
    also have "\<dots> \<le> ?L" using bound length_filter_le le_trans by blast
    finally show ?thesis .
  next
    case False
    then show ?thesis using c by (simp add: rl_covers_def)
  qed
  show ?thesis using bound since window c unfolding rl_covers_def xrl_allow_fields by simp
qed

lemma persist_fields [simp]: "blocklist (persist_blocklist ops ok xc) = blocklist xc"
  "xc_config (persist_blocklist ops ok xc) = xc_config xc" "xc_limiter (persist_blocklist ops ok xc) = xc_limiter xc"
  by (simp_all add: persist_blocklist_def)

lemma block_inner_cases:
  assumes "block_ipv4_inner ops ok xc now wall addr ttl plen bypass = (out, xc')"
  obtains (untouched) "xc' = xc" "out \<noteq> Some Blocked"
  | (charged) "xc' = xc\<lparr>xc_limiter := snd (xrl_allow (xc_limiter xc) now)\<rparr>" "out \<noteq> Some Blocked"
  | (blocked) m where "fst (xrl_allow (xc_limiter xc) now)" "out = Some Blocked"
      "lpm_insert ops (blocklist xc) (clamp_prefix (case plen of Some p \<Rightarrow> p | None \<Rightarrow> abc_prefix_len (xc_config xc)), addr)
         (wall + of_nat ttl) = Some m"
      "\<not> (\<exists>net \<in> set (allowlist (xc_config xc)). covers net addr)" "enforce (xc_config xc) \<or> bypass"
      "xc' = persist_blocklist ops ok (xc\<lparr>xc_limiter := snd (xrl_allow (xc_limiter xc) now), blocklist := m\<rparr>)"
proof (cases "(\<exists>net \<in> set (allowlist (xc_config xc)). covers net addr) \<or> (\<not> enforce (xc_config xc) \<and> \<not> bypass)")
  case True
  with assms show ?thesis by (intro untouched) (auto simp: block_ipv4_inner_def split: if_splits)
next
  case gate: False
  let ?p = "clamp_prefix (case plen of Some p \<Rightarrow> p | None \<Rightarrow> abc_prefix_len (xc_config xc))"
  let ?rl = "xrl_allow (xc_limiter xc) now"
  from gate assms have eq: "(out, xc') = (if \<not> fst ?rl then (Some RateLimited, xc\<lparr>xc_limiter := snd ?rl\<rparr>)
     else case lpm_insert ops (blocklist xc) (?p, addr) (wall + of_nat ttl) of
       None \<Rightarrow> (None, xc\<lparr>xc_limiter := snd ?rl\<rparr>)
     | Some m \<Rightarrow> (Some Blocked, persist_blocklist ops ok (xc\<lparr>xc_limiter := snd ?rl, blocklist := m\<rparr>)))"
    by (auto simp: block_ipv4_inner_def case_prod_beta Let_def split del: if_split cong: if_cong option.case_cong)
  show ?thesis
  proof (cases "fst ?rl \<and> lpm_insert ops (blocklist xc) (?p, addr) (wall + of_nat ttl) \<noteq> None")
    case True
    with eq gate show ?thesis by (auto intro: blocked)
  next
    case False
    with eq show ?thesis by (intro charged) (auto split: if_splits)
  qed
qed

definition rate_inv :: "'m xdp_capture \<Rightarrow> auto_block_config \<Rightarrow> instant \<Rightarrow> instant list \<Rightarrow> bool" where
  "rate_inv xc cfg now hist \<longleftrightarrow> xc_config xc = cfg \<and> xrl_limit (xc_limiter xc) = abc_rate_limit cfg
     \<and> xrl_window (xc_limiter xc) = rate_window_ns cfg \<and> rl_covers (xc_limiter xc) now hist"

lemma rate_inv_step:
  assumes inv: "rate_inv xc cfg t hist" and t: "t \<le> fst e" and s: "xdp_step ops xc e = (out, xc')"
  shows "rate_inv xc' cfg (fst e) (hist @ (if out = Some Blocked then [fst e] else []))"
proof -
  obtain now wall ok op where e: "e = (now, wall, ok, op)" by (cases e)
  from inv t have inv: "rate_inv xc cfg now hist" by (simp add: rate_inv_def e) (blast intro: rl_covers_later)
  show ?thesis
  proof (cases op)
    case (Block addr ttl plen bypass)
    with s e have "block_ipv4_inner ops ok xc now wall addr ttl plen bypass = (out, xc')" by simp
    then show ?thesis
      by (cases rule: block_inner_cases)
        (use inv in \<open>auto simp: e rate_inv_def xrl_allow_fields rl_covers_refused rl_covers_allowed\<close>)
  qed (use inv s e in \<open>auto simp: rate_inv_def unblock_ipv4_def sweep_expired_blocklist_def Let_def\<close>)
qed

lemma rate_inv_exec:
  "rate_inv xc cfg t hist \<Longrightarrow> sorted (t # map fst es) \<Longrightarrow>
   \<exists>t'. rate_inv (snd (xdp_exec ops xc es)) cfg t' (hist @ fst (xdp_exec ops xc es))"
proof (induction es arbitrary: xc t hist)
  case Nil
  then show ?case by auto
next
  case (Cons e es)
  obtain out xc' where s: "xdp_step ops xc e = (out, xc')" by fastforce
  have "rate_inv xc' cfg (fst e) (hist @ (if out = Some Blocked then [fst e] else []))"
    using rate_inv_step [OF Cons.prems(1) _ s] Cons.prems(2) by simp
  from Cons.IH [OF this] Cons.prems(2) show ?case
    by (auto simp: s split: prod.splits if_splits)
qed

text \<open>C8: From a start with any configuration, block list file and map, whatever blocks (automatic
  or by an operator), unblocks and sweeps follow at non-decreasing instants, no interval as long
  as the configured rate window holds more inserted blocks than the configured rate limit.\<close>

theorem blocks_rate_limited:
  assumes "sorted (map fst es)"
  shows "length (filter (\<lambda>h. t \<le> h \<and> h \<le> t + rate_window_ns cfg)
    (fst (xdp_exec ops (xdp_start ops m0 cfg wall persist file) es))) \<le> unat (abc_rate_limit cfg)"
proof -
  let ?xc = "xdp_start ops m0 cfg wall persist file"
  have "rate_inv ?xc cfg 0 []"
    by (simp add: rate_inv_def xdp_start_def rl_covers_def)
  from rate_inv_exec [OF this, of es ops] assms obtain t' where
    "rate_inv (snd (xdp_exec ops ?xc es)) cfg t' (fst (xdp_exec ops ?xc es))" by auto
  then show ?thesis by (auto simp: rate_inv_def rl_covers_def)
qed

definition sample_cfg :: auto_block_config where
  "sample_cfg = \<lparr>allowlist = [(32, 0xCB007109)], enforce = True, abc_prefix_len = 24, abc_rate_limit = 2,
     rate_window_ns = 60\<rparr>"

definition sample_blocks :: "xdp_event list" where
  "sample_blocks = [(10, 1000, True, Block 0xCB007107 500 None False), (20, 1010, True, Block 0xCB007207 500 None False),
     (30, 1020, True, Block 0xCB007307 500 None False)]"

lemma sample_exec: "fst (xdp_exec list_lpm (xdp_start list_lpm [] sample_cfg 0 False None) sample_blocks) = [10, 20]"
  by (simp add: sample_blocks_def xdp_start_def sample_cfg_def block_ipv4_inner_def covers_def xrl_allow_def
      Let_def duration_since_def list_lpm_def persist_blocklist_def word_le_nat_alt)

theorem blocks_rate_limited_witness:
  "length (filter (\<lambda>h. 10 \<le> h \<and> h \<le> 10 + rate_window_ns sample_cfg)
    (fst (xdp_exec list_lpm (xdp_start list_lpm [] sample_cfg 0 False None) sample_blocks))) \<le> 2
   \<and> fst (xdp_exec list_lpm (xdp_start list_lpm [] sample_cfg 0 False None) sample_blocks) = [10, 20]"
  using blocks_rate_limited [of sample_blocks 10 sample_cfg list_lpm "[]" 0 False None] sample_exec
  by (simp add: sample_blocks_def sample_cfg_def)

section \<open>A reported block is enforced\<close>

lemma remove_all_set: "lpm_ok ops \<Longrightarrow>
  set (lpm_iter ops (foldl (lpm_remove ops) m ks)) = {(q, w) \<in> set (lpm_iter ops m). \<forall>k \<in> set ks. \<not> same_prefix k q}"
  by (induction ks arbitrary: m) (auto simp: lpm_remove_set)

lemma sweep_set:
  assumes ok: "lpm_ok ops"
  shows "set (lpm_iter ops (blocklist (sweep_expired_blocklist ops xc wall)))
    = {(q, w) \<in> set (lpm_iter ops (blocklist xc)). wall < w}"
proof -
  let ?I = "set (lpm_iter ops (blocklist xc))"
  have "(\<forall>k \<in> fst ` {(p, e) \<in> ?I. e \<le> wall}. \<not> same_prefix k q) \<longleftrightarrow> wall < w" if m: "(q, w) \<in> ?I" for q w
  proof
    assume none: "\<forall>k \<in> fst ` {(p, e) \<in> ?I. e \<le> wall}. \<not> same_prefix k q"
    show "wall < w"
    proof (rule ccontr)
      assume "\<not> wall < w"
      with m have "q \<in> fst ` {(p, e) \<in> ?I. e \<le> wall}" by (intro image_eqI [of _ _ "(q, w)"]) auto
      from bspec [OF none this] show False by simp
    qed
  next
    assume w: "wall < w"
    show "\<forall>k \<in> fst ` {(p, e) \<in> ?I. e \<le> wall}. \<not> same_prefix k q"
      using lpm_unique [OF ok _ m] w by fastforce
  qed
  then have "{(q, w) \<in> ?I. \<forall>k \<in> fst ` {(p, e) \<in> ?I. e \<le> wall}. \<not> same_prefix k q} = {(q, w) \<in> ?I. wall < w}"
    by (intro Collect_cong) (simp only: split_paired_all prod.case cong: conj_cong)
  moreover have "set (map fst (filter (\<lambda>(p, e). e \<le> wall) (lpm_iter ops (blocklist xc)))) = fst ` {(p, e) \<in> ?I. e \<le> wall}"
    by force
  moreover have "blocklist (sweep_expired_blocklist ops xc wall) =
      foldl (lpm_remove ops) (blocklist xc) (map fst (filter (\<lambda>(p, e). e \<le> wall) (lpm_iter ops (blocklist xc))))"
    by (simp add: sweep_expired_blocklist_def Let_def)
  ultimately show ?thesis
    by (simp only: remove_all_set [OF ok])
qed

text \<open>The events that leave a block alone: a sweep before its end, and a block or unblock of
  another prefix.\<close>

fun spares :: "prefix \<Rightarrow> u64 \<Rightarrow> auto_block_config \<Rightarrow> xdp_event \<Rightarrow> bool" where
  "spares p e cfg (now, wall, ok, Block addr ttl plen bypass) \<longleftrightarrow>
     \<not> same_prefix (clamp_prefix (case plen of Some n \<Rightarrow> n | None \<Rightarrow> abc_prefix_len cfg), addr) p"
| "spares p e cfg (now, wall, ok, Unblock addr plen) \<longleftrightarrow>
     \<not> same_prefix (clamp_prefix (case plen of Some n \<Rightarrow> n | None \<Rightarrow> 32), addr) p"
| "spares p e cfg (now, wall, ok, Sweep) \<longleftrightarrow> wall < e"

lemma block_inner_config: "block_ipv4_inner ops ok xc now wall addr ttl plen bypass = (out, xc') \<Longrightarrow> xc_config xc' = xc_config xc"
  by (elim block_inner_cases) auto

lemma xdp_step_config: "xc_config (snd (xdp_step ops xc e)) = xc_config xc"
proof -
  obtain now wall ok op where e: "e = (now, wall, ok, op)" by (cases e)
  show ?thesis
    by (cases op) (auto simp: e unblock_ipv4_def sweep_expired_blocklist_def Let_def
        block_inner_config [OF surjective_pairing])
qed

lemma spares_step:
  assumes ok: "lpm_ok ops" and mem: "(p, e) \<in> set (lpm_iter ops (blocklist xc))" and sp: "spares p e (xc_config xc) ev"
  shows "(p, e) \<in> set (lpm_iter ops (blocklist (snd (xdp_step ops xc ev))))"
proof -
  obtain now wall dok op where ev: "ev = (now, wall, dok, op)" by (cases ev)
  show ?thesis
  proof (cases op)
    case (Block addr ttl plen bypass)
    obtain out xc' where b: "block_ipv4_inner ops dok xc now wall addr ttl plen bypass = (out, xc')" by fastforce
    then have "(p, e) \<in> set (lpm_iter ops (blocklist xc'))"
      by (cases rule: block_inner_cases) (use mem sp ev Block in \<open>auto simp: lpm_insert_set [OF ok]\<close>)
    then show ?thesis using ev Block b by simp
  qed (use mem sp ev in \<open>auto simp: unblock_ipv4_def lpm_remove_set [OF ok] sweep_set [OF ok]\<close>)
qed

lemma spares_exec:
  "lpm_ok ops \<Longrightarrow> (p, e) \<in> set (lpm_iter ops (blocklist xc)) \<Longrightarrow> \<forall>ev \<in> set es. spares p e (xc_config xc) ev \<Longrightarrow>
   (p, e) \<in> set (lpm_iter ops (blocklist (snd (xdp_exec ops xc es))))"
proof (induction es arbitrary: xc)
  case (Cons ev es)
  have "(p, e) \<in> set (lpm_iter ops (blocklist (snd (xdp_exec ops (snd (xdp_step ops xc ev)) es))))"
    using Cons.prems by (intro Cons.IH) (auto simp: spares_step xdp_step_config)
  then show ?case by (simp add: case_prod_beta)
qed simp


definition sample_start :: "(prefix \<times> u64) list xdp_capture" where
  "sample_start = xdp_start list_lpm [] sample_cfg 0 False None"

lemma sample_blocked:
  "block_ipv4_inner list_lpm True sample_start 10 1000 0xCB007107 500 None False =
    (Some Blocked, sample_start\<lparr>blocklist := [((24, 0xCB007107), 1500)],
       xc_limiter := \<lparr>xrl_events = [10], xrl_limit = 2, xrl_window = 60\<rparr>\<rparr>)"
  by (simp add: sample_start_def xdp_start_def sample_cfg_def block_ipv4_inner_def covers_def xrl_allow_def
      Let_def duration_since_def list_lpm_def persist_blocklist_def clamp_prefix_def)


section \<open>The allowlist\<close>

definition listed :: "auto_block_config \<Rightarrow> u32 \<Rightarrow> bool" where
  "listed cfg a \<longleftrightarrow> (\<exists>net \<in> set (allowlist cfg). covers net a)"

definition allow_inv :: "'m lpm \<Rightarrow> 'm xdp_capture \<Rightarrow> bool" where
  "allow_inv ops xc \<longleftrightarrow> (\<forall>(p, e) \<in> set (lpm_iter ops (blocklist xc)). \<not> listed (xc_config xc) (snd p))"

lemma allow_inv_step:
  assumes ok: "lpm_ok ops" and inv: "allow_inv ops xc"
  shows "allow_inv ops (snd (xdp_step ops xc ev))"
proof -
  obtain now wall dok op where ev: "ev = (now, wall, dok, op)" by (cases ev)
  show ?thesis
  proof (cases op)
    case (Block addr ttl plen bypass)
    obtain out xc' where b: "block_ipv4_inner ops dok xc now wall addr ttl plen bypass = (out, xc')" by fastforce
    then have "allow_inv ops xc'"
      by (cases rule: block_inner_cases)
        (use inv in \<open>auto simp: allow_inv_def listed_def lpm_insert_set [OF ok]\<close>)
    then show ?thesis using ev Block b by simp
  next
    case Unblock
    then show ?thesis using inv by (auto simp: ev allow_inv_def unblock_ipv4_def lpm_remove_set [OF ok])
  next
    case Sweep
    then have "xc_config (snd (xdp_step ops xc ev)) = xc_config xc" by (simp add: xdp_step_config)
    then show ?thesis using inv Sweep by (auto simp: ev allow_inv_def sweep_set [OF ok])
  qed
qed

lemma allow_inv_exec: "lpm_ok ops \<Longrightarrow> allow_inv ops xc \<Longrightarrow> allow_inv ops (snd (xdp_exec ops xc es))"
  by (induction es arbitrary: xc) (auto simp: case_prod_beta allow_inv_step)

lemma xdp_exec_config: "xc_config (snd (xdp_exec ops xc es)) = xc_config xc"
  by (induction es arbitrary: xc) (simp_all add: case_prod_beta xdp_step_config)


definition listed_frame :: bytes where
  "listed_frame = [0, 0, 0, 0, 0, 0, 0, 0, 0, 0, 0, 0, 8, 0, 0x45, 0, 0, 40, 0, 0, 0, 0, 64, 6, 0, 0, 203, 0, 113, 9, 10, 0, 0, 1]"

lemma listed_frame_src: "ipv4_frame listed_frame" "frame_src listed_frame = 0xCB007109"
  by (simp_all add: listed_frame_def ipv4_frame_def frame_src_def be32_def)

lemma sample_neighbour_drop:
  "xr_action (nsm_xdp list_lpm (blocklist (snd (xdp_exec list_lpm sample_start
     [(10, 1000, True, Block 0xCB007107 500 None False)]))) 1300 1400 2 True no_stats listed_frame) = XdpDrop"
  by (simp add: sample_blocked nsm_xdp_drop_iff listed_frame_src) (simp add: list_lpm_def covers_def)


text \<open> The allowlist does not hold for wider blocks, although its entries are documented as never
  blocked: with the allowlisted host 203.0.113.9 and blocks at /24, the block of its neighbour
  203.0.113.7 is inserted and the kernel drops the allowlisted host's frames.\<close>

theorem allowlisted_neighbour_dropped:
  "listed sample_cfg (frame_src listed_frame)
   \<and> fst (block_ipv4 list_lpm True sample_start 10 1000 0xCB007107 500 None) = Some Blocked
   \<and> xr_action (nsm_xdp list_lpm (blocklist (snd (block_ipv4 list_lpm True sample_start 10 1000 0xCB007107 500 None)))
       1300 1400 2 True no_stats listed_frame) = XdpDrop"
proof -
  have "listed sample_cfg (frame_src listed_frame)"
    by (simp add: listed_def sample_cfg_def covers_def listed_frame_src)
  moreover have "block_ipv4 list_lpm True sample_start 10 1000 0xCB007107 500 None =
      block_ipv4_inner list_lpm True sample_start 10 1000 0xCB007107 500 None False"
    by (simp add: block_ipv4_def)
  ultimately show ?thesis using sample_neighbour_drop by (simp add: sample_blocked)
qed

section \<open>The sweep and the restart\<close>

lemma restore_set:
  assumes ok: "lpm_ok ops" and room: "\<And>m p v. lpm_insert ops m p v \<noteq> None"
    and unique: "\<And>p v q w. (p, v) \<in> S \<Longrightarrow> (q, w) \<in> S \<Longrightarrow> same_prefix p q \<Longrightarrow> p = q \<and> v = w"
    and short: "\<And>p v. (p, v) \<in> S \<Longrightarrow> fst p \<le> 32"
  shows "set (lpm_iter ops m) \<subseteq> S \<Longrightarrow> set ys \<subseteq> S \<Longrightarrow>
    set (lpm_iter ops (restore ops wall m (map (\<lambda>((p, a), e). (a, of_nat p, e)) ys)))
      = set (lpm_iter ops m) \<union> {(p, e) \<in> set ys. wall < e}"
proof (induction ys arbitrary: m)
  case (Cons y ys)
  obtain n a e where y: "y = ((n, a), e)" by (metis prod.collapse)
  with Cons.prems have S: "((n, a), e) \<in> S" by simp
  then have n: "unat (of_nat n :: u8) = n"
    using short by (fastforce simp: unat_of_nat take_bit_nat_eq_self)
  show ?case
  proof (cases "e \<le> wall")
    case True
    then show ?thesis using Cons.prems Cons.IH [of m] by (auto simp: y)
  next
    case False
    obtain m' where m': "lpm_insert ops m (n, a) e = Some m'" using room by blast
    have "(q, w) \<in> set (lpm_iter ops m) \<Longrightarrow> same_prefix (n, a) q \<Longrightarrow> (q, w) = ((n, a), e)" for q w
      using unique [OF S] Cons.prems(1) by blast
    then have set': "set (lpm_iter ops m') = insert ((n, a), e) (set (lpm_iter ops m))"
      unfolding lpm_insert_set [OF ok m'] by blast
    then have "set (lpm_iter ops (restore ops wall m' (map (\<lambda>((p, a), e). (a, of_nat p, e)) ys)))
      = set (lpm_iter ops m') \<union> {(p, e) \<in> set ys. wall < e}"
      using Cons.prems S by (intro Cons.IH) auto
    then show ?thesis using False by (auto simp: y n m' set')
  qed
qed simp


lemma list_lpm_fields [simp]: "lpm_insert list_lpm m p v = Some ((p, v) # m)" "lpm_iter list_lpm m = live m"
  by (simp_all add: list_lpm_def)


end
