(* ===== verification/Control_Socket.thy ===== *)
theory Control_Socket
  imports Xdp_Blocking
begin

text \<open>
  The control socket between the orchestrator and the XDP process: the client
  (\<^verbatim>\<open>bridges/asd-xdp-bridge\<close>, \<^verbatim>\<open>NsmControlClient\<close>) and the server loop
  (\<^verbatim>\<open>nsm-xdp/src/xdp/mod.rs\<close>, \<^verbatim>\<open>run_control_socket\<close>) as one step relation over a connection with two
  byte streams.  The text of a command is the code's; the text of an answer is the parameter
  \<open>render\<close>.
\<close>

section \<open>Commands\<close>

definition block_line :: "u32 \<Rightarrow> u64 \<Rightarrow> string" where
  "block_line a ttl = ''BLOCK '' @ show_v4 a @ ''/32 '' @ show_nat (unat ttl)"

definition unblock_line :: "u32 \<Rightarrow> string" where
  "unblock_line a = ''UNBLOCK '' @ show_v4 a @ ''/32''"

section \<open>The connection\<close>

text \<open>Both ends of one connection: what the client does (\<^verbatim>\<open>round_trip\<close>: write the command and a
  line feed, then read to the end of the stream), the bytes under way in each direction, which
  ends are closed, and the state of the server's process.  The client's end closes when its
  stream is dropped, at the return of \<^verbatim>\<open>round_trip\<close>; the server's when its task ends.\<close>

datatype client_pc = Writing string | Reading string | Returned string

record 'm conn =
  client :: client_pc
  c2s :: string
  s2c :: string
  client_closed :: bool
  server_closed :: bool
  server :: "'m xdp_capture"

definition connected :: "'m xdp_capture \<Rightarrow> string \<Rightarrow> 'm conn" where
  "connected xc command = \<lparr>client = Writing command, c2s = [], s2c = [], client_closed = False,
     server_closed = False, server = xc\<rparr>"

text \<open>One line handled by the server at some time: the answer and a line feed are written.\<close>

definition serve :: "'m lpm \<Rightarrow> (control_response \<Rightarrow> string) \<Rightarrow> bool \<Rightarrow> instant \<Rightarrow> u64 \<Rightarrow> string \<Rightarrow> 'm conn \<Rightarrow> 'm conn" where
  "serve ops render disk_ok now wall_ns line s =
     (let (r, xc) = handle_control_command ops disk_ok (server s) now wall_ns (trim (strip_cr line))
      in s\<lparr>s2c := s2c s @ render r @ [CHR 0x0A], server := xc\<rparr>)"

inductive conn_step :: "'m lpm \<Rightarrow> (control_response \<Rightarrow> string) \<Rightarrow> 'm conn \<Rightarrow> 'm conn \<Rightarrow> bool" for ops render where
  Write: "client s = Writing command \<Longrightarrow>
    conn_step ops render s (s\<lparr>client := Reading [], c2s := c2s s @ command @ [CHR 0x0A]\<rparr>)"
| Read: "client s = Reading acc \<Longrightarrow> s2c s = x @ y \<Longrightarrow> x \<noteq> [] \<Longrightarrow>
    conn_step ops render s (s\<lparr>client := Reading (acc @ x), s2c := y\<rparr>)"
| Return: "client s = Reading acc \<Longrightarrow> s2c s = [] \<Longrightarrow> server_closed s \<Longrightarrow>
    conn_step ops render s (s\<lparr>client := Returned (trim acc), client_closed := True\<rparr>)"
| Line: "\<not> server_closed s \<Longrightarrow> c2s s = line @ CHR 0x0A # rest \<Longrightarrow> CHR 0x0A \<notin> set line \<Longrightarrow>
    conn_step ops render s (serve ops render disk_ok now wall_ns line (s\<lparr>c2s := rest\<rparr>))"
| Last: "\<not> server_closed s \<Longrightarrow> client_closed s \<Longrightarrow> c2s s = line \<Longrightarrow> line \<noteq> [] \<Longrightarrow> CHR 0x0A \<notin> set line \<Longrightarrow>
    conn_step ops render s (serve ops render disk_ok now wall_ns line (s\<lparr>c2s := []\<rparr>))"
| End: "\<not> server_closed s \<Longrightarrow> client_closed s \<Longrightarrow> c2s s = [] \<Longrightarrow>
    conn_step ops render s (s\<lparr>server_closed := True\<rparr>)"

inductive_cases conn_stepE: "conn_step ops render s t"

section \<open>A command is read as it was meant\<close>

lemma show_v4_nonempty [simp]: "show_v4 a \<noteq> []"
  by (simp add: show_v4_def)

lemma takeWhile_all: "\<forall>c \<in> set w. P c \<Longrightarrow> takeWhile P w = w \<and> dropWhile P w = []"
  by (induction w) auto

lemma split_ws_last:
  assumes "w \<noteq> []" "\<forall>c \<in> set w. \<not> is_space c"
  shows "split_whitespace w = [w]"
proof -
  obtain c w' where w: "w = c # w'" using assms(1) by (cases w) auto
  have "\<not> is_space c" "\<forall>c \<in> set w'. \<not> is_space c" using assms(2) by (auto simp: w)
  then show ?thesis using takeWhile_all [of w' "\<lambda>x. \<not> is_space x"] by (simp only: w split_whitespace.simps if_False)
qed

lemma split_ws_word:
  assumes "w \<noteq> []" "\<forall>c \<in> set w. \<not> is_space c"
  shows "split_whitespace (w @ CHR '' '' # s) = w # split_whitespace s"
proof -
  obtain c w' where w: "w = c # w'" using assms(1) by (cases w) auto
  have "takeWhile (\<lambda>x. \<not> is_space x) (w' @ CHR '' '' # s) = w'" "dropWhile (\<lambda>x. \<not> is_space x) (w' @ CHR '' '' # s) = CHR '' '' # s"
    using assms(2) by (simp_all add: w is_space_def)
  then show ?thesis using assms(2) by (simp add: w is_space_def)
qed

lemma show_v4_chars: "\<forall>c \<in> set (show_v4 a). \<not> is_space c"
  by (auto simp: show_v4_def show_nat_no_sep is_space_def dest: show_nat_char)

lemma host_prefix_chars: "\<forall>c \<in> set (show_v4 a @ ''/32''). \<not> is_space c"
  using show_v4_chars [of a] by (auto simp: is_space_def)

lemma parse_host_prefix: "parse_ip_prefix (show_v4 a @ ''/32'') = Inr (a, Some 32)"
proof -
  have "split_once (CHR ''/'') (show_v4 a @ ''/32'') = Some (show_v4 a, ''32'')"
    using split_once_append [OF show_v4_no_sep(2), of a "''32''"] by simp
  moreover have "parse_uint 255 ''32'' = Inr 32" by code_simp
  ultimately show ?thesis by (simp add: parse_ip_prefix_def parse_show_v4)
qed

lemma block_line_words: "split_whitespace (block_line a ttl) = [''BLOCK'', show_v4 a @ ''/32'', show_nat (unat ttl)]"
  using split_ws_word [of "''BLOCK''" "show_v4 a @ ''/32 '' @ show_nat (unat ttl)"]
    split_ws_word [OF _ host_prefix_chars, of a "show_nat (unat ttl)"] split_ws_last [OF _ show_nat_no_sep(4), of "unat ttl"]
  by (simp add: block_line_def is_space_def)

lemma unblock_line_words: "split_whitespace (unblock_line a) = [''UNBLOCK'', show_v4 a @ ''/32'']"
  using split_ws_word [of "''UNBLOCK''" "show_v4 a @ ''/32''"] split_ws_last [OF _ host_prefix_chars, of a]
  by (simp add: unblock_line_def is_space_def)

lemma command_ttl_show: "command_ttl [show_nat (unat (ttl :: u64))] = unat ttl"
  using unsigned_less [of ttl, where ?'a = nat] by (simp add: command_ttl_def parse_uint_show)

lemma upper_verbs: "map upper ''BLOCK'' = ''BLOCK''" "map upper ''UNBLOCK'' = ''UNBLOCK''"
  by code_simp+

lemma block_line_handled: "handle_control_command ops ok xc now wall (block_line a ttl) =
  (let (out, xc') = force_block_ipv4 ops ok xc now wall a (from_secs (unat ttl)) (Some 32)
   in (case out of None \<Rightarrow> BlockFailed | Some b \<Rightarrow> BlockDone b a 32, xc'))"
  by (simp add: handle_control_command_def block_line_words upper_verbs block_command_def parse_host_prefix
      command_ttl_show del: list.map split: prod.split option.split)

lemma unblock_line_handled: "handle_control_command ops ok xc now wall (unblock_line a) =
  (UnblockDone a 32, unblock_ipv4 ops ok xc a (Some 32))"
  by (simp add: handle_control_command_def unblock_line_words upper_verbs unblock_command_def parse_host_prefix del: list.map)

text \<open> The commands that the client sends are read by the server as they were meant: a block of
  an IPv4 host asks for exactly that address, at prefix length 32, for the time to live in
  seconds, past the observe gate, whatever the configured prefix length, and the answer names
  the outcome; an unblock removes that host's entry.\<close>

theorem control_commands_roundtrip:
  "handle_control_command ops ok xc now wall (block_line a ttl) =
     (let (out, xc') = force_block_ipv4 ops ok xc now wall a (from_secs (unat ttl)) (Some 32)
      in (case out of None \<Rightarrow> BlockFailed | Some b \<Rightarrow> BlockDone b a 32, xc')) \<and>
   handle_control_command ops ok xc now wall (unblock_line a) = (UnblockDone a 32, unblock_ipv4 ops ok xc a (Some 32))"
  by (simp only: block_line_handled unblock_line_handled)

section \<open>A containment reaches the kernel\<close>

lemma clamp_32: "clamp_prefix 32 = 32"
  by (simp add: clamp_prefix_def)

lemma lpm_get_cong:
  assumes ok: "lpm_ok ops"
    and same: "\<And>q w. covers q a \<Longrightarrow> (q, w) \<in> set (lpm_iter ops m) \<longleftrightarrow> (q, w) \<in> set (lpm_iter ops m')"
  shows "lpm_get ops m (32, a) = lpm_get ops m' (32, a)"
proof (cases "lpm_get ops m (32, a)")
  case (Some v)
  then obtain p where p: "(p, v) \<in> set (lpm_iter ops m)" "covers p a"
    "\<forall>(q, w) \<in> set (lpm_iter ops m). covers q a \<longrightarrow> fst q \<le> fst p"
    by (rule lpm_get_SomeE [OF ok])
  have "lpm_get ops m' (32, a) = Some v"
    by (rule lpm_get_longest [OF ok, of p]) (use p same in auto)
  then show ?thesis using Some by simp
next
  case None
  show ?thesis
  proof (cases "lpm_get ops m' (32, a)")
    case (Some v)
    then obtain p where "(p, v) \<in> set (lpm_iter ops m')" "covers p a" by (rule lpm_get_SomeE [OF ok])
    then show ?thesis using lpm_get_None [OF ok None] same by blast
  qed (simp add: None)
qed


lemma sample_containment:
  "handle_control_command list_lpm True sample_start 10 1000 (block_line 0xCB007107 60) =
     (BlockDone Blocked 0xCB007107 32, sample_start\<lparr>blocklist := [((32, 0xCB007107), 60000001000)],
       xc_limiter := \<lparr>xrl_events = [10], xrl_limit = 2, xrl_window = 60\<rparr>\<rparr>)"
  by (simp add: block_line_handled force_block_ipv4_def sample_start_def xdp_start_def sample_cfg_def block_ipv4_inner_def
      covers_def xrl_allow_def Let_def duration_since_def list_lpm_def persist_blocklist_def clamp_prefix_def from_secs_def)


section \<open>The client waits for ever\<close>

lemma serve_fields [simp]: "client (serve ops render ok now wall line s) = client s"
  "c2s (serve ops render ok now wall line s) = c2s s"
  "client_closed (serve ops render ok now wall line s) = client_closed s"
  "server_closed (serve ops render ok now wall line s) = server_closed s"
  by (simp_all add: serve_def split: prod.split)

text \<open>Every step brings the connection nearer to a halt: a command is written once, a line leaves
  the inbound stream, bytes leave the outbound one.\<close>

definition conn_rank :: "('m conn \<Rightarrow> nat) list" where
  "conn_rank = [\<lambda>s. case client s of Writing _ \<Rightarrow> 1 | _ \<Rightarrow> 0, \<lambda>s. length (c2s s), \<lambda>s. of_bool (\<not> server_closed s),
     \<lambda>s. length (s2c s), \<lambda>s. case client s of Returned _ \<Rightarrow> 0 | _ \<Rightarrow> 1]"

lemma conn_step_terminates: "wf {(t, s). conn_step ops render s t}"
proof (rule wf_subset [OF wf_measures [of conn_rank]], clarify)
  fix s t assume "conn_step ops render s t"
  then show "(t, s) \<in> measures conn_rank"
    by cases (auto simp: conn_rank_def split: client_pc.splits)
qed

lemma wf_rtranclp_halts:
  assumes "wf {(t, s). R s t}"
  shows "\<exists>t. R\<^sup>*\<^sup>* s t \<and> \<not> (\<exists>u. R t u)"
  using assms
proof (induction s rule: wf_induct_rule)
  case (less s)
  show ?case
  proof (cases "\<exists>u. R s u")
    case True
    then obtain u where "R s u" by blast
    with less [of u] show ?thesis by (auto intro: converse_rtranclp_into_rtranclp)
  qed blast
qed

text \<open>The connection after a command of one line: not yet sent, sent, or answered, with the answer
  read in part, and with both ends open throughout.\<close>

definition awaiting :: "'m lpm \<Rightarrow> (control_response \<Rightarrow> string) \<Rightarrow> 'm xdp_capture \<Rightarrow> string \<Rightarrow> 'm conn \<Rightarrow> bool" where
  "awaiting ops render xc command s \<longleftrightarrow> \<not> client_closed s \<and> \<not> server_closed s \<and>
     (client s = Writing command \<and> c2s s = [] \<and> s2c s = [] \<and> server s = xc \<or>
      client s = Reading [] \<and> c2s s = command @ [CHR 0x0A] \<and> s2c s = [] \<and> server s = xc \<or>
      (\<exists>acc r ok now wall. client s = Reading acc \<and> c2s s = [] \<and> acc @ s2c s = render r @ [CHR 0x0A] \<and>
         handle_control_command ops ok xc now wall command = (r, server s)))"

lemma one_line: "CHR 0x0A \<notin> set w \<Longrightarrow> line @ CHR 0x0A # rest = w @ [CHR 0x0A] \<Longrightarrow> CHR 0x0A \<notin> set line \<Longrightarrow> line = w \<and> rest = []"
  using append_Cons_eq_iff [of "CHR 0x0A" w "[]" line rest] by auto

lemma awaiting_step:
  assumes inv: "awaiting ops render xc command s" and step: "conn_step ops render s t"
    and cmd: "CHR 0x0A \<notin> set command" "trim (strip_cr command) = command"
  shows "awaiting ops render xc command t"
  using step inv
proof cases
  case (Line line rest ok now wall)
  with inv one_line [OF cmd(1)] have "line = command" "rest = []" "client s = Reading []" "s2c s = []" "server s = xc"
    by (auto simp: awaiting_def)
  then show ?thesis using inv Line cmd(2)
    by (cases "handle_control_command ops ok xc now wall command") (auto simp: awaiting_def serve_def)
qed (auto simp: awaiting_def)

lemma awaiting_reachable:
  assumes "(conn_step ops render)\<^sup>*\<^sup>* (connected xc command) s"
    and "CHR 0x0A \<notin> set command" "trim (strip_cr command) = command"
  shows "awaiting ops render xc command s"
  using assms(1)
proof (induction rule: rtranclp_induct)
  case base
  show ?case by (simp add: awaiting_def connected_def)
next
  case (step t u)
  then show ?case using assms by (blast intro: awaiting_step)
qed

lemma awaiting_halts:
  assumes inv: "awaiting ops render xc command s" and halt: "\<not> (\<exists>t. conn_step ops render s t)"
    and cmd: "CHR 0x0A \<notin> set command"
  shows "\<exists>r ok now wall. client s = Reading (render r @ [CHR 0x0A]) \<and>
    handle_control_command ops ok xc now wall command = (r, server s)"
proof -
  have "client s \<noteq> Writing c" for c using halt by (auto intro: conn_step.Write)
  moreover have "conn_step ops render s (serve ops render True 0 0 command (s\<lparr>c2s := []\<rparr>))"
    if "c2s s = command @ [CHR 0x0A]"
    using inv cmd that by (intro conn_step.Line) (auto simp: awaiting_def)
  then have "c2s s \<noteq> command @ [CHR 0x0A]" using halt by blast
  moreover have "client s = Reading acc \<Longrightarrow> s2c s = []" for acc
    using halt conn_step.Read [of s acc "s2c s" "[]"] by auto
  ultimately show ?thesis using inv unfolding awaiting_def by (metis append_Nil2)
qed

lemma block_line_one: "CHR 0x0A \<notin> set (block_line a ttl)" "trim (strip_cr (block_line a ttl)) = block_line a ttl"
proof -
  show lf: "CHR 0x0A \<notin> set (block_line a ttl)"
    by (simp add: block_line_def show_v4_no_sep show_nat_no_sep)
  have "last (block_line a ttl) \<in> set (show_nat (unat ttl))" by (simp add: block_line_def)
  then have "\<not> is_space (last (block_line a ttl))" using show_nat_no_sep(4) by blast
  then have "strip_cr (block_line a ttl) = block_line a ttl" by (auto simp: strip_cr_def is_space_def)
  then show "trim (strip_cr (block_line a ttl)) = block_line a ttl"
    using \<open>\<not> is_space (last (block_line a ttl))\<close> by (simp add: trim_ends block_line_def is_space_def)
qed

text \<open>C18: The containment call of the client never returns.  On a connection that works, every run
  of client and server after a block command ends, and where it ends the server has handled the
  command and the client has read the whole answer, but it waits for the end of a stream that
  the server closes only when the client has closed its own, which it does at its return.\<close>

theorem containment_call_never_returns:
  assumes "(conn_step ops render)\<^sup>*\<^sup>* (connected xc (block_line a ttl)) s"
  shows "(\<forall>r. client s \<noteq> Returned r) \<and> wf {(t, s). conn_step ops render s t} \<and>
    (\<not> (\<exists>t. conn_step ops render s t) \<longrightarrow>
       (\<exists>r ok now wall. client s = Reading (render r @ [CHR 0x0A]) \<and>
          handle_control_command ops ok xc now wall (block_line a ttl) = (r, server s)))"
proof -
  note inv = awaiting_reachable [OF assms block_line_one]
  then have "\<forall>r. client s \<noteq> Returned r" by (auto simp: awaiting_def)
  then show ?thesis using conn_step_terminates awaiting_halts [OF inv _ block_line_one(1)] by blast
qed

theorem containment_call_never_returns_witness:
  "\<exists>s. (conn_step list_lpm (\<lambda>_. ''OK''))\<^sup>*\<^sup>* (connected sample_start (block_line 0xCB007107 60)) s \<and>
     client s = Reading (''OK'' @ [CHR 0x0A]) \<and> (\<forall>r. client s \<noteq> Returned r)"
proof -
  let ?step = "conn_step list_lpm (\<lambda>_. ''OK'')" and ?s0 = "connected sample_start (block_line 0xCB007107 60)"
  have "\<exists>s. ?step\<^sup>*\<^sup>* ?s0 s \<and> \<not> (\<exists>t. ?step s t)"
    using wf_rtranclp_halts [OF conn_step_terminates, of list_lpm "\<lambda>_. ''OK''" ?s0] by blast
  then obtain s where s: "?step\<^sup>*\<^sup>* ?s0 s" "\<not> (\<exists>t. ?step s t)" by blast
  from containment_call_never_returns [OF s(1)] s show ?thesis by (intro exI [of _ s]) auto
qed

end
