(* ===== verification/Ontology.thy ===== *)
theory Ontology
  imports ASD_Prelude Floats
begin

text \<open>
  The knowledge graph that carries the audit trail
  (\<^verbatim>\<open>active-siem/crates/ontology-engine\<close>): the schema registry, instances with typed
  properties, links, and the two adjacency indexes.  Hash maps are tables, hash sets are lists
  without repetitions; every operation holds the engine's lock throughout, so it is one step.
  An operation that fails leaves the engine as it was.  The locale \<open>link_index\<close> is the
  interface of an adjacency index; it is interpreted for both directions.
\<close>

section \<open>Types\<close>

datatype property_value = PString string | PInteger int | PFloat f64 | PBoolean bool

datatype property_type = TyString | TyInteger | TyFloat | TyBoolean

fun type_of :: "property_value \<Rightarrow> property_type" where
  "type_of (PString _) = TyString"
| "type_of (PInteger _) = TyInteger"
| "type_of (PFloat _) = TyFloat"
| "type_of (PBoolean _) = TyBoolean"

text \<open>The derived \<^verbatim>\<open>PartialEq\<close>: a NaN is not equal to itself.\<close>

fun property_eq :: "property_value \<Rightarrow> property_value \<Rightarrow> bool" where
  "property_eq (PFloat a) (PFloat b) = (flt_le a b \<and> flt_le b a)"
| "property_eq a b = (a = b)"

record object_type =
  ot_name :: string
  primary_key :: string
  property_schemas :: "(string, property_type) tbl"

record object_type_builder =
  b_name :: string
  b_primary_key :: "string option"
  b_property_schemas :: "(string, property_type) tbl"

definition builder_new :: "string \<Rightarrow> object_type_builder" where
  "builder_new n = \<lparr>b_name = n, b_primary_key = None, b_property_schemas = []\<rparr>"

definition builder_primary_key :: "string \<Rightarrow> object_type_builder \<Rightarrow> object_type_builder" where
  "builder_primary_key k b = b\<lparr>b_primary_key := Some k\<rparr>"

definition builder_property :: "string \<Rightarrow> property_type \<Rightarrow> object_type_builder \<Rightarrow> object_type_builder" where
  "builder_property n ty b = b\<lparr>b_property_schemas := tbl_insert (b_property_schemas b) n ty\<rparr>"

definition builder_build :: "object_type_builder \<Rightarrow> string + object_type" where
  "builder_build b =
     (case b_primary_key b of
        None \<Rightarrow> Inl ''primary_key must be set''
      | Some k \<Rightarrow>
          if k = [] then Inl ''primary_key must not be empty''
          else if tbl_get (b_property_schemas b) k = None
          then Inl (''primary key '' @ [CHR 0x27] @ k @ [CHR 0x27] @ '' must also be declared via .property(...)'')
          else Inr \<lparr>ot_name = b_name b, primary_key = k, property_schemas = b_property_schemas b\<rparr>)"

record link_type =
  lt_name :: string
  source_type :: string
  target_type :: string

record object_instance =
  oi_id :: string
  oi_type :: string
  oi_properties :: "(string, property_value) tbl"

record link_instance =
  li_type :: string
  li_source :: string
  li_target :: string

datatype link_direction = Outgoing | Incoming

record link_store =
  st_instances :: "(string, object_instance) tbl"
  st_links :: "link_instance list"
  forward_index :: "(string \<times> string, string list) tbl"
  backward_index :: "(string \<times> string, string list) tbl"

record ontology =
  object_types :: "(string, object_type) tbl"
  link_types :: "(string, link_type) tbl"
  ont_store :: link_store

datatype validation_issue =
    MissingProperty string
  | TypeMismatch string property_type property_type
  | UnknownProperty string

datatype ontology_error =
    ObjectTypeNotRegistered string
  | LinkTypeNotRegistered string
  | ObjectTypeAlreadyRegistered string
  | LinkTypeAlreadyRegistered string
  | EmptyPrimaryKey string
  | DuplicateInstance string
  | InstanceNotFound string
  | LinkSourceTypeMismatch string string string string
  | LinkTargetTypeMismatch string string string string
  | DuplicateLink link_instance
  | SchemaValidation string "validation_issue list"
  | ImmutablePrimaryKey string string

section \<open>Links and indexes\<close>

definition hs_insert :: "'a \<Rightarrow> 'a list \<Rightarrow> 'a list" where
  "hs_insert x xs = (if x \<in> set xs then xs else xs @ [x])"

definition hs_remove :: "'a \<Rightarrow> 'a list \<Rightarrow> 'a list" where
  "hs_remove x xs = filter (\<lambda>y. y \<noteq> x) xs"

definition idx_insert :: "('k, 'v list) tbl \<Rightarrow> 'k \<Rightarrow> 'v \<Rightarrow> ('k, 'v list) tbl" where
  "idx_insert idx k v = tbl_insert idx k (hs_insert v (tbl_get_or idx k []))"

definition idx_remove :: "('k, 'v list) tbl \<Rightarrow> 'k \<Rightarrow> 'v \<Rightarrow> ('k, 'v list) tbl" where
  "idx_remove idx k v = (case tbl_get idx k of None \<Rightarrow> idx | Some vs \<Rightarrow> tbl_insert idx k (hs_remove v vs))"

abbreviation fwd_key :: "link_instance \<Rightarrow> string \<times> string" where
  "fwd_key l \<equiv> (li_source l, li_type l)"

abbreviation bwd_key :: "link_instance \<Rightarrow> string \<times> string" where
  "bwd_key l \<equiv> (li_target l, li_type l)"

definition insert_link :: "link_store \<Rightarrow> link_instance \<Rightarrow> bool \<times> link_store" where
  "insert_link st l =
     (if l \<in> set (st_links st) then (False, st)
      else (True, st\<lparr>st_links := st_links st @ [l],
        forward_index := idx_insert (forward_index st) (fwd_key l) (li_target l),
        backward_index := idx_insert (backward_index st) (bwd_key l) (li_source l)\<rparr>))"

definition remove_link :: "link_store \<Rightarrow> link_instance \<Rightarrow> bool \<times> link_store" where
  "remove_link st l =
     (if l \<notin> set (st_links st) then (False, st)
      else (True, st\<lparr>st_links := hs_remove l (st_links st),
        forward_index := idx_remove (forward_index st) (fwd_key l) (li_target l),
        backward_index := idx_remove (backward_index st) (bwd_key l) (li_source l)\<rparr>))"

definition remove_links_touching :: "link_store \<Rightarrow> string \<Rightarrow> link_instance list \<times> link_store" where
  "remove_links_touching st i =
     (let to_remove = filter (\<lambda>l. li_source l = i \<or> li_target l = i) (st_links st)
      in (to_remove, foldl (\<lambda>st l. snd (remove_link st l)) st to_remove))"

section \<open>The engine\<close>

definition ontology_new :: ontology where
  "ontology_new = \<lparr>object_types = [], link_types = [],
     ont_store = \<lparr>st_instances = [], st_links = [], forward_index = [], backward_index = []\<rparr>\<rparr>"

definition register_object_type :: "ontology \<Rightarrow> object_type \<Rightarrow> ontology_error + ontology" where
  "register_object_type e t =
     (if primary_key t = [] then Inl (EmptyPrimaryKey (ot_name t))
      else if tbl_get (object_types e) (ot_name t) \<noteq> None then Inl (ObjectTypeAlreadyRegistered (ot_name t))
      else Inr (e\<lparr>object_types := tbl_insert (object_types e) (ot_name t) t\<rparr>))"

definition register_link_type :: "ontology \<Rightarrow> link_type \<Rightarrow> ontology_error + ontology" where
  "register_link_type e t =
     (if tbl_get (object_types e) (source_type t) = None then Inl (ObjectTypeNotRegistered (source_type t))
      else if tbl_get (object_types e) (target_type t) = None then Inl (ObjectTypeNotRegistered (target_type t))
      else if tbl_get (link_types e) (lt_name t) \<noteq> None then Inl (LinkTypeAlreadyRegistered (lt_name t))
      else Inr (e\<lparr>link_types := tbl_insert (link_types e) (lt_name t) t\<rparr>))"

definition validate_properties :: "object_type \<Rightarrow> (string, property_value) tbl \<Rightarrow> validation_issue list" where
  "validate_properties schema props =
     List.map_filter (\<lambda>(name, expected).
        (case tbl_get props name of
           None \<Rightarrow> Some (MissingProperty name)
         | Some v \<Rightarrow> if type_of v \<noteq> expected then Some (TypeMismatch name expected (type_of v)) else None))
       (property_schemas schema)
     @ map UnknownProperty (filter (\<lambda>n. tbl_get (property_schemas schema) n = None) (map fst props))"

definition create_object_instance :: "ontology \<Rightarrow> object_instance \<Rightarrow> ontology_error + ontology" where
  "create_object_instance e i =
     (case tbl_get (object_types e) (oi_type i) of
        None \<Rightarrow> Inl (ObjectTypeNotRegistered (oi_type i))
      | Some schema \<Rightarrow>
          (let issues = validate_properties schema (oi_properties i); st = ont_store e
           in if issues \<noteq> [] then Inl (SchemaValidation (oi_id i) issues)
              else if tbl_get (st_instances st) (oi_id i) \<noteq> None then Inl (DuplicateInstance (oi_id i))
              else Inr (e\<lparr>ont_store := st\<lparr>st_instances := tbl_insert (st_instances st) (oi_id i) i\<rparr>\<rparr>)))"

definition merge_properties :: "(string, property_value) tbl \<Rightarrow> (string, property_value) tbl \<Rightarrow> (string, property_value) tbl" where
  "merge_properties old updates = foldl (\<lambda>t (k, v). tbl_insert t k v) old updates"

definition update_object_properties :: "ontology \<Rightarrow> string \<Rightarrow> (string, property_value) tbl \<Rightarrow> ontology_error + ontology" where
  "update_object_properties e i updates =
     (let st = ont_store e
      in case tbl_get (st_instances st) i of
           None \<Rightarrow> Inl (InstanceNotFound i)
         | Some existing \<Rightarrow>
             (case tbl_get (object_types e) (oi_type existing) of
                None \<Rightarrow> Inl (ObjectTypeNotRegistered (oi_type existing))
              | Some schema \<Rightarrow>
                  (let pk = primary_key schema; merged = merge_properties (oi_properties existing) updates;
                       issues = validate_properties schema merged
                   in if (case tbl_get updates pk of
                            None \<Rightarrow> False
                          | Some v \<Rightarrow> (case tbl_get (oi_properties existing) pk of
                                         None \<Rightarrow> True | Some v' \<Rightarrow> \<not> property_eq v' v))
                      then Inl (ImmutablePrimaryKey i pk)
                      else if issues \<noteq> [] then Inl (SchemaValidation i issues)
                      else Inr (e\<lparr>ont_store := st\<lparr>st_instances :=
                             tbl_insert (st_instances st) i (existing\<lparr>oi_properties := merged\<rparr>)\<rparr>\<rparr>))))"

definition get_object_instance :: "ontology \<Rightarrow> string \<Rightarrow> object_instance option" where
  "get_object_instance e i = tbl_get (st_instances (ont_store e)) i"

definition list_instances_by_type :: "ontology \<Rightarrow> string \<Rightarrow> object_instance list" where
  "list_instances_by_type e t = filter (\<lambda>i. oi_type i = t) (map snd (st_instances (ont_store e)))"

definition find_by_property :: "ontology \<Rightarrow> string \<Rightarrow> string \<Rightarrow> property_value \<Rightarrow> object_instance list" where
  "find_by_property e t p v =
     filter (\<lambda>i. oi_type i = t \<and> (case tbl_get (oi_properties i) p of None \<Rightarrow> False | Some w \<Rightarrow> property_eq w v))
       (map snd (st_instances (ont_store e)))"

definition delete_object_instance :: "ontology \<Rightarrow> string \<Rightarrow> ontology_error + nat \<times> ontology" where
  "delete_object_instance e i =
     (let st = ont_store e
      in if tbl_get (st_instances st) i = None then Inl (InstanceNotFound i)
         else
           let (removed, st') = remove_links_touching (st\<lparr>st_instances := tbl_remove (st_instances st) i\<rparr>) i
           in Inr (length removed, e\<lparr>ont_store := st'\<rparr>))"

definition create_link :: "ontology \<Rightarrow> link_instance \<Rightarrow> ontology_error + ontology" where
  "create_link e l =
     (case tbl_get (link_types e) (li_type l) of
        None \<Rightarrow> Inl (LinkTypeNotRegistered (li_type l))
      | Some schema \<Rightarrow>
          (case tbl_get (st_instances (ont_store e)) (li_source l) of
             None \<Rightarrow> Inl (InstanceNotFound (li_source l))
           | Some src \<Rightarrow>
               if oi_type src \<noteq> source_type schema then Inl (LinkSourceTypeMismatch (li_type l) (source_type schema) (oi_type src) (li_source l))
               else case tbl_get (st_instances (ont_store e)) (li_target l) of
                      None \<Rightarrow> Inl (InstanceNotFound (li_target l))
                    | Some tgt \<Rightarrow>
                        if oi_type tgt \<noteq> target_type schema then Inl (LinkTargetTypeMismatch (li_type l) (target_type schema) (oi_type tgt) (li_target l))
                        else
                          let (fresh, st') = insert_link (ont_store e) l
                          in if \<not> fresh then Inl (DuplicateLink l) else Inr (e\<lparr>ont_store := st'\<rparr>)))"

definition delete_link :: "ontology \<Rightarrow> link_instance \<Rightarrow> ontology_error + ontology" where
  "delete_link e l =
     (let (found, st') = remove_link (ont_store e) l
      in if \<not> found then Inl (DuplicateLink l) else Inr (e\<lparr>ont_store := st'\<rparr>))"

definition traverse :: "ontology \<Rightarrow> string \<Rightarrow> string \<Rightarrow> link_direction \<Rightarrow> object_instance list" where
  "traverse e node lt dir =
     (let st = ont_store e;
          index = (case dir of Outgoing \<Rightarrow> forward_index st | Incoming \<Rightarrow> backward_index st)
      in case tbl_get index (node, lt) of
           None \<Rightarrow> []
         | Some ids \<Rightarrow> List.map_filter (tbl_get (st_instances st)) ids)"

definition traverse_link :: "ontology \<Rightarrow> string \<Rightarrow> string \<Rightarrow> object_instance list" where
  "traverse_link e src lt = traverse e src lt Outgoing"

definition instance_count :: "ontology \<Rightarrow> nat" where
  "instance_count e = length (st_instances (ont_store e))"

definition link_count :: "ontology \<Rightarrow> nat" where
  "link_count e = length (st_links (ont_store e))"

section \<open>The adjacency index\<close>

text \<open>An index files a link's far end under its near end and type; the two together
  determine the link.\<close>

locale link_index =
  fixes key :: "'l \<Rightarrow> 'k" and val :: "'l \<Rightarrow> 'v"
  assumes key_val: "key l = key l' \<Longrightarrow> val l = val l' \<Longrightarrow> l = l'"
begin

definition idx_ok :: "'l list \<Rightarrow> ('k, 'v list) tbl \<Rightarrow> bool" where
  "idx_ok links idx \<longleftrightarrow> (\<forall>k. distinct (tbl_get_or idx k [])
     \<and> set (tbl_get_or idx k []) = val ` {l \<in> set links. key l = k})"

lemma idx_ok_Nil: "idx_ok [] []"
  by (simp add: idx_ok_def tbl_get_or_def)

lemma idx_ok_insert: "idx_ok links idx \<Longrightarrow> idx_ok (links @ [l]) (idx_insert idx (key l) (val l))"
  by (auto simp: idx_ok_def idx_insert_def hs_insert_def)

lemma idx_ok_remove:
  assumes "idx_ok links idx"
  shows "idx_ok (hs_remove l links) (idx_remove idx (key l) (val l))"
proof -
  have get: "tbl_get_or (idx_remove idx (key l) (val l)) k [] =
      (if k = key l then hs_remove (val l) (tbl_get_or idx k []) else tbl_get_or idx k [])" for k
    by (auto simp: idx_remove_def tbl_get_or_def hs_remove_def split: option.split)
  show ?thesis
    unfolding idx_ok_def get using assms by (auto simp: idx_ok_def hs_remove_def dest: key_val)
qed

end

interpretation fwi: link_index fwd_key li_target
  by unfold_locales simp

interpretation bwi: link_index bwd_key li_source
  by unfold_locales simp

section \<open>The invariant\<close>

text \<open>Keys are identifiers, instances conform to their schema, every link joins two existing
  instances of the types its link type declares, and both indexes agree with the links.\<close>

definition conforms :: "ontology \<Rightarrow> object_instance \<Rightarrow> bool" where
  "conforms e i \<longleftrightarrow> (\<exists>schema. tbl_get (object_types e) (oi_type i) = Some schema
     \<and> validate_properties schema (oi_properties i) = [])"

definition joins :: "ontology \<Rightarrow> link_instance \<Rightarrow> bool" where
  "joins e l \<longleftrightarrow> (\<exists>t s g. tbl_get (link_types e) (li_type l) = Some t
     \<and> tbl_get (st_instances (ont_store e)) (li_source l) = Some s \<and> oi_type s = source_type t
     \<and> tbl_get (st_instances (ont_store e)) (li_target l) = Some g \<and> oi_type g = target_type t)"

definition store_ok :: "link_store \<Rightarrow> bool" where
  "store_ok st \<longleftrightarrow> tbl_ok (st_instances st)
     \<and> (\<forall>k i. tbl_get (st_instances st) k = Some i \<longrightarrow> oi_id i = k)
     \<and> distinct (st_links st)
     \<and> fwi.idx_ok (st_links st) (forward_index st) \<and> bwi.idx_ok (st_links st) (backward_index st)"

definition graph_ok :: "ontology \<Rightarrow> bool" where
  "graph_ok e \<longleftrightarrow> store_ok (ont_store e)
     \<and> (\<forall>k i. tbl_get (st_instances (ont_store e)) k = Some i \<longrightarrow> conforms e i)
     \<and> (\<forall>l \<in> set (st_links (ont_store e)). joins e l)"

lemma ontology_new_ok: "graph_ok ontology_new"
  by (simp add: graph_ok_def store_ok_def ontology_new_def fwi.idx_ok_Nil bwi.idx_ok_Nil)

lemma insert_link_ok: "store_ok st \<Longrightarrow> store_ok (snd (insert_link st l))"
  by (simp add: store_ok_def insert_link_def fwi.idx_ok_insert bwi.idx_ok_insert)

lemma insert_link_instances [simp]: "st_instances (snd (insert_link st l)) = st_instances st"
  by (simp add: insert_link_def)

lemma remove_link_fields: "st_links (snd (remove_link st l)) = hs_remove l (st_links st)"
  "st_instances (snd (remove_link st l)) = st_instances st"
  by (auto simp: remove_link_def hs_remove_def intro!: filter_True [symmetric])

lemma remove_link_ok: "store_ok st \<Longrightarrow> store_ok (snd (remove_link st l))"
  by (simp add: store_ok_def remove_link_def fwi.idx_ok_remove bwi.idx_ok_remove) (simp add: hs_remove_def)

lemma remove_links_fields:
  "st_instances (foldl (\<lambda>st l. snd (remove_link st l)) st ls) = st_instances st"
  "st_links (foldl (\<lambda>st l. snd (remove_link st l)) st ls) = filter (\<lambda>l. l \<notin> set ls) (st_links st)"
  by (induction ls arbitrary: st) (auto simp: remove_link_fields hs_remove_def intro!: filter_cong)

lemma remove_links_ok: "store_ok st \<Longrightarrow> store_ok (foldl (\<lambda>st l. snd (remove_link st l)) st ls)"
  by (rule foldl_inv) (simp_all add: remove_link_ok)

lemma register_object_type_ok: "graph_ok e \<Longrightarrow> register_object_type e t = Inr e' \<Longrightarrow> graph_ok e'"
  by (fastforce simp: register_object_type_def graph_ok_def conforms_def joins_def split: if_splits)

lemma register_link_type_ok: "graph_ok e \<Longrightarrow> register_link_type e t = Inr e' \<Longrightarrow> graph_ok e'"
  by (fastforce simp: register_link_type_def graph_ok_def conforms_def joins_def split: if_splits)

lemma create_object_instance_ok: "graph_ok e \<Longrightarrow> create_object_instance e i = Inr e' \<Longrightarrow> graph_ok e'"
  by (fastforce simp: create_object_instance_def graph_ok_def store_ok_def conforms_def joins_def Let_def
      split: if_splits option.splits)

lemma update_object_properties_ok:
  assumes ok: "graph_ok e" and u: "update_object_properties e i updates = Inr e'"
  shows "graph_ok e'"
proof -
  let ?I = "st_instances (ont_store e)"
  obtain x schema where x: "tbl_get ?I i = Some x" "tbl_get (object_types e) (oi_type x) = Some schema"
    and v: "validate_properties schema (merge_properties (oi_properties x) updates) = []"
    and e': "e' = e\<lparr>ont_store := ont_store e\<lparr>st_instances :=
        tbl_insert ?I i (x\<lparr>oi_properties := merge_properties (oi_properties x) updates\<rparr>)\<rparr>\<rparr>"
    using u by (auto simp: update_object_properties_def Let_def split: option.splits if_splits)
  have "joins e l \<Longrightarrow> joins e' l" for l
    using x(1) by (auto simp: joins_def e')
  moreover have "conforms e y \<Longrightarrow> conforms e' y" for y
    by (simp add: conforms_def e')
  moreover have "conforms e' (x\<lparr>oi_properties := merge_properties (oi_properties x) updates\<rparr>)"
    using x(2) v by (simp add: conforms_def e')
  ultimately show ?thesis using ok x(1) by (auto simp: graph_ok_def store_ok_def e')
qed

lemma delete_object_instance_ok:
  assumes ok: "graph_ok e" and d: "delete_object_instance e i = Inr (n, e')"
  shows "graph_ok e'"
proof -
  let ?st = "(ont_store e)\<lparr>st_instances := tbl_remove (st_instances (ont_store e)) i\<rparr>"
  let ?gone = "filter (\<lambda>l. li_source l = i \<or> li_target l = i) (st_links ?st)"
  let ?st' = "foldl (\<lambda>st l. snd (remove_link st l)) ?st ?gone"
  have e': "e' = e\<lparr>ont_store := ?st'\<rparr>"
    using d by (auto simp: delete_object_instance_def remove_links_touching_def Let_def split: if_splits)
  have "store_ok ?st" using ok by (simp add: graph_ok_def store_ok_def)
  then have st: "store_ok ?st'" by (rule remove_links_ok)
  have inst: "st_instances ?st' = tbl_remove (st_instances (ont_store e)) i"
    and links: "set (st_links ?st') = {l \<in> set (st_links (ont_store e)). li_source l \<noteq> i \<and> li_target l \<noteq> i}"
    by (auto simp: remove_links_fields)
  have same: "conforms e' x \<longleftrightarrow> conforms e x" for x by (simp add: conforms_def e')
  have "conforms e' x" if "tbl_get (st_instances ?st') k = Some x" for k x
    using that ok unfolding inst same by (auto simp: graph_ok_def split: if_splits)
  moreover have "joins e' l" if "l \<in> set (st_links ?st')" for l
  proof -
    have l: "joins e l" "li_source l \<noteq> i" "li_target l \<noteq> i"
      using that ok unfolding links by (auto simp: graph_ok_def)
    have "st_instances (ont_store e') = tbl_remove (st_instances (ont_store e)) i" "link_types e' = link_types e"
      using inst by (simp_all add: e')
    then show ?thesis using l unfolding joins_def by auto
  qed
  ultimately show ?thesis using st by (simp add: graph_ok_def e')
qed

lemma create_link_Inr:
  assumes "create_link e l = Inr e'"
  shows "joins e l" "l \<notin> set (st_links (ont_store e))" "e' = e\<lparr>ont_store := snd (insert_link (ont_store e) l)\<rparr>"
  using assms by (auto simp: create_link_def joins_def insert_link_def Let_def split: option.splits if_splits)

lemma create_link_ok:
  assumes ok: "graph_ok e" and c: "create_link e l = Inr e'"
  shows "graph_ok e'"
proof -
  note c = create_link_Inr [OF c]
  let ?st' = "snd (insert_link (ont_store e) l)"
  have f: "st_instances ?st' = st_instances (ont_store e)" "st_links ?st' = st_links (ont_store e) @ [l]"
    using c(2) by (simp_all add: insert_link_def)
  have "joins e' l' \<longleftrightarrow> joins e l'" "conforms e' x \<longleftrightarrow> conforms e x" for l' x
    by (simp_all add: joins_def conforms_def c(3) f)
  then show ?thesis using ok c(1) insert_link_ok [of "ont_store e" l]
    by (auto simp: graph_ok_def c(3) f)
qed

lemma delete_link_ok:
  assumes ok: "graph_ok e" and d: "delete_link e l = Inr e'"
  shows "graph_ok e'"
proof -
  have e': "e' = e\<lparr>ont_store := snd (remove_link (ont_store e) l)\<rparr>"
    using d by (auto simp: delete_link_def Let_def split: if_splits prod.splits)
  have "joins e' l' \<longleftrightarrow> joins e l'" "conforms e' x \<longleftrightarrow> conforms e x" for l' x
    by (simp_all add: joins_def conforms_def e' remove_link_fields)
  then show ?thesis using ok remove_link_ok [of "ont_store e" l]
    by (auto simp: graph_ok_def e' remove_link_fields hs_remove_def)
qed

section \<open>Runs\<close>

datatype ont_op =
    RegisterObjectType object_type
  | RegisterLinkType link_type
  | CreateObject object_instance
  | UpdateObject string "(string, property_value) tbl"
  | DeleteObject string
  | CreateLink link_instance
  | DeleteLink link_instance

text \<open>A failed operation changes nothing.\<close>

definition or_keep :: "ontology \<Rightarrow> 'err + ontology \<Rightarrow> ontology" where
  "or_keep e r = (case r of Inl _ \<Rightarrow> e | Inr e' \<Rightarrow> e')"

fun ont_step :: "ontology \<Rightarrow> ont_op \<Rightarrow> ontology" where
  "ont_step e (RegisterObjectType t) = or_keep e (register_object_type e t)"
| "ont_step e (RegisterLinkType t) = or_keep e (register_link_type e t)"
| "ont_step e (CreateObject i) = or_keep e (create_object_instance e i)"
| "ont_step e (UpdateObject i u) = or_keep e (update_object_properties e i u)"
| "ont_step e (DeleteObject i) = or_keep e (map_sum id snd (delete_object_instance e i))"
| "ont_step e (CreateLink l) = or_keep e (create_link e l)"
| "ont_step e (DeleteLink l) = or_keep e (delete_link e l)"

lemmas ont_op_ok = register_object_type_ok register_link_type_ok create_object_instance_ok
  update_object_properties_ok create_link_ok delete_link_ok

lemma or_keep_ok: "graph_ok e \<Longrightarrow> (\<And>e'. r = Inr e' \<Longrightarrow> graph_ok e') \<Longrightarrow> graph_ok (or_keep e r)"
  by (cases r) (simp_all add: or_keep_def)

lemma ont_step_ok: "graph_ok e \<Longrightarrow> graph_ok (ont_step e a)"
proof (cases a)
  case (DeleteObject i)
  assume "graph_ok e"
  then show ?thesis using DeleteObject
    by (cases "delete_object_instance e i") (auto simp: or_keep_def dest: delete_object_instance_ok)
qed (auto intro!: or_keep_ok dest: ont_op_ok)

lemma ont_run_ok: "graph_ok (foldl ont_step ontology_new as)"
  by (rule foldl_inv) (simp_all add: ont_step_ok ontology_new_ok)

text \<open>C22: Whatever types, instances and links are registered, created, updated and deleted, in any
  order and with any failures, no link ever dangles: both ends of every link exist and have the
  types that its link type declares, and every instance conforms to its schema.\<close>

theorem no_dangling_links:
  "(\<forall>l \<in> set (st_links (ont_store (foldl ont_step ontology_new as))). joins (foldl ont_step ontology_new as) l)
   \<and> (\<forall>(k, i) \<in> set (st_instances (ont_store (foldl ont_step ontology_new as))).
        oi_id i = k \<and> conforms (foldl ont_step ontology_new as) i)"
proof -
  let ?e = "foldl ont_step ontology_new as"
  have ok: "graph_ok ?e" by (rule ont_run_ok)
  have "tbl_get (st_instances (ont_store ?e)) k = Some i" if "(k, i) \<in> set (st_instances (ont_store ?e))" for k i
    using ok that by (intro tbl_mem_get) (auto simp: graph_ok_def store_ok_def)
  moreover have "oi_id i = k \<and> conforms ?e i" if "tbl_get (st_instances (ont_store ?e)) k = Some i" for k i
    using ok that unfolding graph_ok_def store_ok_def by blast
  moreover have "\<forall>l \<in> set (st_links (ont_store ?e)). joins ?e l" using ok unfolding graph_ok_def by blast
  ultimately show ?thesis by blast
qed

definition sample_ops :: "ont_op list" where
  "sample_ops =
     [RegisterObjectType \<lparr>ot_name = ''A'', primary_key = ''k'', property_schemas = [(''k'', TyString)]\<rparr>,
      RegisterLinkType \<lparr>lt_name = ''L'', source_type = ''A'', target_type = ''A''\<rparr>,
      CreateObject \<lparr>oi_id = ''x'', oi_type = ''A'', oi_properties = [(''k'', PString ''x'')]\<rparr>,
      CreateObject \<lparr>oi_id = ''y'', oi_type = ''A'', oi_properties = [(''k'', PString ''y'')]\<rparr>,
      CreateLink \<lparr>li_type = ''L'', li_source = ''x'', li_target = ''y''\<rparr>]"

theorem no_dangling_links_witness:
  "joins (foldl ont_step ontology_new sample_ops) \<lparr>li_type = ''L'', li_source = ''x'', li_target = ''y''\<rparr>"
proof -
  have "\<lparr>li_type = ''L'', li_source = ''x'', li_target = ''y''\<rparr>
      \<in> set (st_links (ont_store (foldl ont_step ontology_new sample_ops)))"
    by code_simp
  then show ?thesis using no_dangling_links [of sample_ops] by blast
qed

section \<open>Traversal is a scan\<close>

definition scan_links :: "ontology \<Rightarrow> string \<Rightarrow> string \<Rightarrow> link_direction \<Rightarrow> object_instance set" where
  "scan_links e node lt dir =
     {i. \<exists>l \<in> set (st_links (ont_store e)). li_type l = lt \<and>
        (case dir of
           Outgoing \<Rightarrow> li_source l = node \<and> get_object_instance e (li_target l) = Some i
         | Incoming \<Rightarrow> li_target l = node \<and> get_object_instance e (li_source l) = Some i)}"

lemma traverse_index:
  "set (traverse e node lt dir) = {i. \<exists>k \<in> set (tbl_get_or (case dir of
     Outgoing \<Rightarrow> forward_index (ont_store e) | Incoming \<Rightarrow> backward_index (ont_store e)) (node, lt) []).
       get_object_instance e k = Some i}"
  by (simp add: traverse_def get_object_instance_def tbl_get_or_def set_map_filter Let_def split: option.split) blast

lemma traverse_set:
  assumes ok: "graph_ok e"
  shows "set (traverse e node lt dir) = scan_links e node lt dir"
proof (cases dir)
  case Outgoing
  have "set (tbl_get_or (forward_index (ont_store e)) (node, lt) []) =
      li_target ` {l \<in> set (st_links (ont_store e)). fwd_key l = (node, lt)}"
    using ok by (simp add: graph_ok_def store_ok_def fwi.idx_ok_def)
  then show ?thesis by (auto simp: traverse_index Outgoing scan_links_def)
next
  case Incoming
  have "set (tbl_get_or (backward_index (ont_store e)) (node, lt) []) =
      li_source ` {l \<in> set (st_links (ont_store e)). bwd_key l = (node, lt)}"
    using ok by (simp add: graph_ok_def store_ok_def bwi.idx_ok_def)
  then show ?thesis by (auto simp: traverse_index Incoming scan_links_def)
qed

text \<open> The indexed traversal is a scan of all links: after any sequence of operations it
  returns exactly the instances at the other end of the node's links of that type.\<close>

theorem traverse_is_scan:
  "set (traverse (foldl ont_step ontology_new as) node lt dir)
     = scan_links (foldl ont_step ontology_new as) node lt dir"
  by (rule traverse_set [OF ont_run_ok])

end
