(* ===== verification/Review_Types.thy ===== *)
theory Review_Types
  imports Ontology Text
begin

text \<open>
  The data of the human review gate (\<^verbatim>\<open>active-siem/crates/review-queue\<close>): predictions,
  triggers, verdicts, reviewers, decisions and the life cycle of a queued flow
  (\<^verbatim>\<open>types.rs\<close>), the trigger that decides what needs a human (\<^verbatim>\<open>trigger.rs\<close>), the schema of the
  audit graph (\<^verbatim>\<open>schema.rs\<close>) and the bridge that writes decisions to the graph and reads them
  back (\<^verbatim>\<open>engine_bridge.rs\<close>).  Timestamps are Unix seconds.
\<close>

section \<open>Formatting\<close>

text \<open>\<^verbatim>\<open>{:.d}\<close> of a float: the exact value rounded half to even at \<open>d\<close> decimals.\<close>

definition pad_zeros :: "nat \<Rightarrow> string \<Rightarrow> string" where
  "pad_zeros w s = replicate (w - length s) (CHR ''0'') @ s"

fun fmt_fixed :: "nat \<Rightarrow> flt \<Rightarrow> string" where
  "fmt_fixed d NaN = ''NaN''"
| "fmt_fixed d (Inf s) = (if s then ''-inf'' else ''inf'')"
| "fmt_fixed d (Fin r) =
     (let n = nat (round_even (\<bar>r\<bar> * 10 ^ d))
      in (if r < 0 then ''-'' else []) @ show_nat (n div 10 ^ d)
         @ ''.'' @ pad_zeros d (show_nat (n mod 10 ^ d)))"

definition show_int :: "int \<Rightarrow> string" where
  "show_int i = (if i < 0 then ''-'' @ show_nat (nat (- i)) else show_nat (nat i))"

definition quoted :: "string \<Rightarrow> string" where
  "quoted s = [CHR 0x27] @ s @ [CHR 0x27]"

section \<open>Types\<close>

type_synonym timestamp = int

record flow_prediction =
  fp_flow_id :: string
  predicted_label :: string
  fp_confidence :: f64
  runner_up_label :: "string option"
  runner_up_confidence :: "f64 option"
  is_out_of_distribution :: bool
  observed_at :: timestamp

definition margin :: "flow_prediction \<Rightarrow> f64 option" where
  "margin p = map_option (\<lambda>r. f64_sub (fp_confidence p) r) (runner_up_confidence p)"

datatype trigger_reason = LowConfidenceAttack | NarrowMargin | NovelPattern | ManualFlag

fun show_trigger_reason :: "trigger_reason \<Rightarrow> string" where
  "show_trigger_reason LowConfidenceAttack = ''low_confidence_attack''"
| "show_trigger_reason NarrowMargin = ''narrow_margin''"
| "show_trigger_reason NovelPattern = ''novel_pattern''"
| "show_trigger_reason ManualFlag = ''manual_flag''"

datatype verdict = ExecuteContainment | Dismiss | EscalateFurther

fun show_verdict :: "verdict \<Rightarrow> string" where
  "show_verdict ExecuteContainment = ''execute_containment''"
| "show_verdict Dismiss = ''dismiss''"
| "show_verdict EscalateFurther = ''escalate_further''"

definition parse_verdict :: "string \<Rightarrow> verdict option" where
  "parse_verdict s =
     (let w = map lower (trim s)
      in if w = ''contain'' \<or> w = ''execute_containment'' \<or> w = ''containment'' then Some ExecuteContainment
         else if w = ''dismiss'' \<or> w = ''benign'' then Some Dismiss
         else if w = ''escalate'' \<or> w = ''escalate_further'' then Some EscalateFurther
         else None)"

datatype reviewer = Human string | SystemSlaTimeout | SystemAutoResolve

fun show_reviewer :: "reviewer \<Rightarrow> string" where
  "show_reviewer (Human i) = ''human:'' @ i"
| "show_reviewer SystemSlaTimeout = ''system:sla_timeout''"
| "show_reviewer SystemAutoResolve = ''system:auto_resolve''"

record audit_decision =
  decision_id :: string
  ad_flow_id :: string
  ad_reviewer :: reviewer
  ad_verdict :: verdict
  rationale :: string
  decided_at :: timestamp

datatype sla_policy = FailSafe | FailSecure (auto_contain_above_confidence: u32)

datatype review_state =
    AutoResolved string
  | Pending trigger_reason
  | UnderReview trigger_reason string timestamp
  | Resolved string

fun show_review_state :: "review_state \<Rightarrow> string" where
  "show_review_state (AutoResolved _) = ''auto_resolved''"
| "show_review_state (Pending _) = ''pending''"
| "show_review_state (UnderReview _ _ _) = ''under_review''"
| "show_review_state (Resolved _) = ''resolved''"

record queue_item =
  qi_prediction :: flow_prediction
  qi_state :: review_state
  enqueued_at :: timestamp

section \<open>The trigger\<close>

record trigger_config =
  benign_label :: string
  min_attack_confidence :: f64
  min_margin :: f64
  min_benign_confidence :: f64

definition trigger_default :: trigger_config where
  "trigger_default = \<lparr>benign_label = ''Benign'', min_attack_confidence = mk_f64 (90 / 100),
     min_margin = mk_f64 (15 / 100), min_benign_confidence = mk_f64 (80 / 100)\<rparr>"

definition evaluate :: "flow_prediction \<Rightarrow> trigger_config \<Rightarrow> trigger_reason option" where
  "evaluate p cfg =
     (let is_benign = (predicted_label p = benign_label cfg)
      in if is_out_of_distribution p then Some NovelPattern
         else if \<not> is_benign \<and> flt_lt (fp_confidence p) (min_attack_confidence cfg) then Some LowConfidenceAttack
         else if is_benign \<and> flt_lt (fp_confidence p) (min_benign_confidence cfg) then Some LowConfidenceAttack
         else case margin p of
                Some m \<Rightarrow> if flt_lt m (min_margin cfg) then Some NarrowMargin else None
              | None \<Rightarrow> None)"

section \<open>The schema of the audit graph\<close>

definition FLOW_PREDICTION_TYPE :: string where "FLOW_PREDICTION_TYPE = ''FlowPrediction''"
definition AUDIT_DECISION_TYPE :: string where "AUDIT_DECISION_TYPE = ''AuditDecision''"
definition REVIEW_OF_LINK :: string where "REVIEW_OF_LINK = ''ReviewOf''"

lemmas schema_names = FLOW_PREDICTION_TYPE_def AUDIT_DECISION_TYPE_def REVIEW_OF_LINK_def

text \<open>Both builders succeed (\<open>schema_builds\<close>), so the \<^verbatim>\<open>expect\<close> of the code never panics.\<close>

definition flow_prediction_schema :: "string + object_type" where
  "flow_prediction_schema = builder_build
     (builder_property ''observed_at'' TyInteger
       (builder_property ''confidence_millis'' TyInteger
         (builder_property ''predicted_label'' TyString
           (builder_property ''flow_id'' TyString
             (builder_primary_key ''flow_id'' (builder_new FLOW_PREDICTION_TYPE))))))"

definition audit_decision_schema :: "string + object_type" where
  "audit_decision_schema = builder_build
     (builder_property ''decided_at'' TyInteger
       (builder_property ''rationale'' TyString
         (builder_property ''verdict'' TyString
           (builder_property ''reviewer'' TyString
             (builder_property ''flow_id'' TyString
               (builder_property ''decision_id'' TyString
                 (builder_primary_key ''decision_id'' (builder_new AUDIT_DECISION_TYPE))))))))"

fun ignore_already_registered :: "ontology \<Rightarrow> ontology_error + ontology \<Rightarrow> ontology_error + ontology" where
  "ignore_already_registered e (Inr e') = Inr e'"
| "ignore_already_registered e (Inl (ObjectTypeAlreadyRegistered _)) = Inr e"
| "ignore_already_registered e (Inl (LinkTypeAlreadyRegistered _)) = Inr e"
| "ignore_already_registered e (Inl err) = Inl err"

definition register :: "ontology \<Rightarrow> ontology_error + ontology" where
  "register e =
     (case ignore_already_registered e (register_object_type e (projr flow_prediction_schema)) of
        Inl err \<Rightarrow> Inl err
      | Inr e1 \<Rightarrow>
          (case ignore_already_registered e1 (register_object_type e1 (projr audit_decision_schema)) of
             Inl err \<Rightarrow> Inl err
           | Inr e2 \<Rightarrow>
               ignore_already_registered e2 (register_link_type e2
                 \<lparr>lt_name = REVIEW_OF_LINK, source_type = AUDIT_DECISION_TYPE, target_type = FLOW_PREDICTION_TYPE\<rparr>)))"

text \<open>\<^verbatim>\<open>round\<close> goes half away from zero, which on the clamped value is the floor of half more;
  \<^verbatim>\<open>as i64\<close> maps NaN to 0.\<close>

definition to_millis :: "f64 \<Rightarrow> int" where
  "to_millis c = (case f64_mul (flt_clamp c (Fin 0) (Fin 1)) (Fin 1000) of
     Fin r \<Rightarrow> \<lfloor>r + 1 / 2\<rfloor> | _ \<Rightarrow> 0)"

section \<open>The bridge\<close>

definition prediction_instance :: "flow_prediction \<Rightarrow> object_instance" where
  "prediction_instance p = \<lparr>oi_id = fp_flow_id p, oi_type = FLOW_PREDICTION_TYPE, oi_properties =
     [(''flow_id'', PString (fp_flow_id p)),
      (''predicted_label'', PString (predicted_label p)),
      (''confidence_millis'', PInteger (to_millis (fp_confidence p))),
      (''observed_at'', PInteger (observed_at p))]\<rparr>"

definition record_prediction :: "ontology \<Rightarrow> flow_prediction \<Rightarrow> ontology_error + ontology" where
  "record_prediction e p = create_object_instance e (prediction_instance p)"

definition decision_instance :: "audit_decision \<Rightarrow> object_instance" where
  "decision_instance d = \<lparr>oi_id = decision_id d, oi_type = AUDIT_DECISION_TYPE, oi_properties =
     [(''decision_id'', PString (decision_id d)),
      (''flow_id'', PString (ad_flow_id d)),
      (''reviewer'', PString (show_reviewer (ad_reviewer d))),
      (''verdict'', PString (show_verdict (ad_verdict d))),
      (''rationale'', PString (rationale d)),
      (''decided_at'', PInteger (decided_at d))]\<rparr>"

definition review_link :: "audit_decision \<Rightarrow> link_instance" where
  "review_link d = \<lparr>li_type = REVIEW_OF_LINK, li_source = decision_id d, li_target = ad_flow_id d\<rparr>"

text \<open>Two writes: when the second fails, the first one stays.\<close>

definition bridge_record_decision :: "ontology \<Rightarrow> audit_decision \<Rightarrow> (ontology_error + unit) \<times> ontology" where
  "bridge_record_decision e d =
     (case create_object_instance e (decision_instance d) of
        Inl err \<Rightarrow> (Inl err, e)
      | Inr e1 \<Rightarrow> (case create_link e1 (review_link d) of Inl err \<Rightarrow> (Inl err, e1) | Inr e2 \<Rightarrow> (Inr (), e2)))"

definition get_str :: "object_instance \<Rightarrow> string \<Rightarrow> string option" where
  "get_str i k = (case tbl_get (oi_properties i) k of Some (PString s) \<Rightarrow> Some s | _ \<Rightarrow> None)"

definition get_int :: "object_instance \<Rightarrow> string \<Rightarrow> int option" where
  "get_int i k = (case tbl_get (oi_properties i) k of Some (PInteger n) \<Rightarrow> Some n | _ \<Rightarrow> None)"

definition parse_reviewer :: "string \<Rightarrow> reviewer" where
  "parse_reviewer raw = (case strip_prefix ''human:'' raw of
     Some i \<Rightarrow> Human i
   | None \<Rightarrow> if raw = ''system:sla_timeout'' then SystemSlaTimeout else SystemAutoResolve)"

definition decision_from_instance :: "object_instance \<Rightarrow> audit_decision option" where
  "decision_from_instance i =
     Option.bind (get_str i ''reviewer'') (\<lambda>raw.
     Option.bind (get_str i ''decision_id'') (\<lambda>did.
     Option.bind (get_str i ''flow_id'') (\<lambda>fid.
     Option.bind (Option.bind (get_str i ''verdict'') parse_verdict) (\<lambda>v.
     Option.bind (get_str i ''rationale'') (\<lambda>r.
     Option.bind (get_int i ''decided_at'') (\<lambda>t.
       Some \<lparr>decision_id = did, ad_flow_id = fid, ad_reviewer = parse_reviewer raw, ad_verdict = v,
         rationale = r, decided_at = t\<rparr>))))))"

definition decisions_for_flow :: "ontology \<Rightarrow> string \<Rightarrow> audit_decision list" where
  "decisions_for_flow e f = List.map_filter decision_from_instance (traverse e f REVIEW_OF_LINK Incoming)"

definition all_decisions :: "ontology \<Rightarrow> audit_decision list" where
  "all_decisions e = List.map_filter decision_from_instance (list_instances_by_type e AUDIT_DECISION_TYPE)"

section \<open>Facts\<close>

lemma schema_builds:
  "flow_prediction_schema = Inr \<lparr>ot_name = FLOW_PREDICTION_TYPE, primary_key = ''flow_id'', property_schemas =
     [(''flow_id'', TyString), (''predicted_label'', TyString), (''confidence_millis'', TyInteger),
      (''observed_at'', TyInteger)]\<rparr>"
  "audit_decision_schema = Inr \<lparr>ot_name = AUDIT_DECISION_TYPE, primary_key = ''decision_id'', property_schemas =
     [(''decision_id'', TyString), (''flow_id'', TyString), (''reviewer'', TyString), (''verdict'', TyString),
      (''rationale'', TyString), (''decided_at'', TyInteger)]\<rparr>"
  by (simp_all add: flow_prediction_schema_def audit_decision_schema_def builder_build_def builder_new_def
      builder_primary_key_def builder_property_def tbl_insert_def tbl_get_def)

lemma parse_show_verdict [simp]: "parse_verdict (show_verdict v) = Some v"
  by (cases v; simp only: show_verdict.simps; code_simp)

lemma parse_show_reviewer [simp]: "parse_reviewer (show_reviewer r) = r"
  by (cases r) (auto simp: parse_reviewer_def strip_prefix_def)

lemma decision_roundtrip [simp]: "decision_from_instance (decision_instance d) = Some d"
  by (cases d) (simp add: decision_from_instance_def decision_instance_def get_str_def get_int_def tbl_get_def)

lemma to_millis_NaN: "to_millis NaN = 0"
  by (simp add: to_millis_def flt_clamp_def)

end
