(* ===== verification/Review_Queue.thy ===== *)
theory Review_Queue
  imports Review_Types
begin

text \<open>
  The review queue over the audit graph (\<^verbatim>\<open>queue.rs\<close>), the containment gate
  (\<^verbatim>\<open>containment.rs\<close>), the breach alerts (\<^verbatim>\<open>alert.rs\<close>) and the state that is written to disk
  (\<^verbatim>\<open>store.rs\<close>).  Every public operation holds the queue's mutex, so it is one step; an operation
  that fails may have written part of its work, so each returns its result with the state it
  leaves.  The clock is an argument: a reading, or for the sweep the sequence of its readings.
\<close>

section \<open>The queue\<close>

datatype review_error =
    DuplicateFlow string
  | FlowNotFound string
  | NotPending string string
  | EmptyRationale string
  | EmptyReviewer string
  | OntologyErr ontology_error
  | IoErr string
  | SerdeErr string

record review_queue =
  rq_engine :: ontology
  rq_items :: "(string, queue_item) tbl"
  trigger_cfg :: trigger_config
  rq_sla_policy :: sla_policy
  decision_seq :: u64

datatype ingest_outcome =
    OutcomeAutoResolved verdict string
  | QueuedForReview trigger_reason

definition queue_new :: "trigger_config \<Rightarrow> sla_policy \<Rightarrow> review_error + review_queue" where
  "queue_new cfg pol =
     (case register ontology_new of
        Inl err \<Rightarrow> Inl (OntologyErr err)
      | Inr e \<Rightarrow> Inr \<lparr>rq_engine = e, rq_items = [], trigger_cfg = cfg, rq_sla_policy = pol, decision_seq = 0\<rparr>)"

text \<open>\<^verbatim>\<open>fetch_add\<close> wraps around.\<close>

definition next_decision_id :: "review_queue \<Rightarrow> string \<Rightarrow> string \<times> review_queue" where
  "next_decision_id q f =
     (''dec-'' @ f @ ''-'' @ show_nat (unat (decision_seq q)), q\<lparr>decision_seq := decision_seq q + 1\<rparr>)"

definition auto_rationale :: "flow_prediction \<Rightarrow> trigger_config \<Rightarrow> string" where
  "auto_rationale p cfg =
     ''auto-resolved: predicted '' @ quoted (predicted_label p) @ '' at '' @ fmt_fixed 3 (fp_confidence p)
     @ '' confidence cleared all review thresholds (min_attack_confidence='' @ fmt_fixed 2 (min_attack_confidence cfg)
     @ '', min_margin='' @ fmt_fixed 2 (min_margin cfg)
     @ '', min_benign_confidence='' @ fmt_fixed 2 (min_benign_confidence cfg) @ '')''"

text \<open>The tail that every resolution shares: take the next id, write the decision to the graph
  and, when that succeeds, store the item.\<close>

definition resolve :: "review_queue \<Rightarrow> string \<Rightarrow> (string \<Rightarrow> audit_decision) \<Rightarrow> (string \<Rightarrow> queue_item) \<Rightarrow>
    (review_error + audit_decision) \<times> review_queue" where
  "resolve q f decision item =
     (let (did, q1) = next_decision_id q f; d = decision did
      in case bridge_record_decision (rq_engine q1) d of
           (Inl err, e) \<Rightarrow> (Inl (OntologyErr err), q1\<lparr>rq_engine := e\<rparr>)
         | (Inr _, e) \<Rightarrow> (Inr d, q1\<lparr>rq_engine := e, rq_items := tbl_insert (rq_items q1) f (item did)\<rparr>))"

definition ingest :: "review_queue \<Rightarrow> timestamp \<Rightarrow> flow_prediction \<Rightarrow> (review_error + ingest_outcome) \<times> review_queue" where
  "ingest q now p =
     (let f = fp_flow_id p
      in if tbl_get (rq_items q) f \<noteq> None then (Inl (DuplicateFlow f), q)
         else case record_prediction (rq_engine q) p of
                Inl err \<Rightarrow> (Inl (OntologyErr err), q)
              | Inr e \<Rightarrow>
                  (let q1 = q\<lparr>rq_engine := e\<rparr>
                   in case evaluate p (trigger_cfg q1) of
                        None \<Rightarrow>
                          (let v = (if predicted_label p = benign_label (trigger_cfg q1) then Dismiss else ExecuteContainment)
                           in case resolve q1 f
                                (\<lambda>did. \<lparr>decision_id = did, ad_flow_id = f, ad_reviewer = SystemAutoResolve,
                                   ad_verdict = v, rationale = auto_rationale p (trigger_cfg q1), decided_at = now\<rparr>)
                                (\<lambda>did. \<lparr>qi_prediction = p, qi_state = AutoResolved did, enqueued_at = now\<rparr>) of
                                (Inl err, q2) \<Rightarrow> (Inl err, q2)
                              | (Inr d, q2) \<Rightarrow> (Inr (OutcomeAutoResolved v (decision_id d)), q2))
                      | Some reason \<Rightarrow>
                          (Inr (QueuedForReview reason),
                           q1\<lparr>rq_items := tbl_insert (rq_items q1) f
                               \<lparr>qi_prediction = p, qi_state = Pending reason, enqueued_at = now\<rparr>\<rparr>)))"

definition claim :: "review_queue \<Rightarrow> timestamp \<Rightarrow> string \<Rightarrow> string \<Rightarrow> (review_error + unit) \<times> review_queue" where
  "claim q now f who =
     (case tbl_get (rq_items q) f of
        None \<Rightarrow> (Inl (FlowNotFound f), q)
      | Some item \<Rightarrow>
          (case qi_state item of
             Pending reason \<Rightarrow>
               (Inr (), q\<lparr>rq_items := tbl_insert (rq_items q) f (item\<lparr>qi_state := UnderReview reason who now\<rparr>)\<rparr>)
           | other \<Rightarrow> (Inl (NotPending f (show_review_state other)), q)))"

fun is_open :: "review_state \<Rightarrow> bool" where
  "is_open (Pending _) = True"
| "is_open (UnderReview _ _ _) = True"
| "is_open _ = False"

definition record_decision :: "review_queue \<Rightarrow> timestamp \<Rightarrow> string \<Rightarrow> string \<Rightarrow> verdict \<Rightarrow> string \<Rightarrow>
    (review_error + audit_decision) \<times> review_queue" where
  "record_decision q now f who v why =
     (if trim who = [] then (Inl (EmptyReviewer f), q)
      else if trim why = [] then (Inl (EmptyRationale f), q)
      else case tbl_get (rq_items q) f of
             None \<Rightarrow> (Inl (FlowNotFound f), q)
           | Some item \<Rightarrow>
               if \<not> is_open (qi_state item) then (Inl (NotPending f (show_review_state (qi_state item))), q)
               else resolve q f
                      (\<lambda>did. \<lparr>decision_id = did, ad_flow_id = f, ad_reviewer = Human who, ad_verdict = v,
                         rationale = why, decided_at = now\<rparr>)
                      (\<lambda>did. item\<lparr>qi_state := Resolved did\<rparr>))"

section \<open>The sweep\<close>

record sla_breach =
  br_prediction :: flow_prediction
  br_decision :: audit_decision

definition is_unreviewed_attack_dismissal :: "sla_breach \<Rightarrow> bool" where
  "is_unreviewed_attack_dismissal b \<longleftrightarrow>
     ad_verdict (br_decision b) = Dismiss \<and> predicted_label (br_prediction b) \<noteq> ''Benign''"

definition sla_prefix :: "int \<Rightarrow> string" where
  "sla_prefix sla = ''SLA breach ('' @ show_int sla @ ''s with no human decision); ''"

definition sla_outcome :: "sla_policy \<Rightarrow> string \<Rightarrow> int \<Rightarrow> flow_prediction \<Rightarrow> verdict \<times> string" where
  "sla_outcome pol benign sla p =
     (case pol of
        FailSafe \<Rightarrow>
          (Dismiss, sla_prefix sla @ ''fail-safe policy applied: defaulting to dismiss rather than auto-containing. Requires urgent follow-up review -- this flow was never seen by a human.'')
      | FailSecure thr \<Rightarrow>
          if predicted_label p \<noteq> benign \<and> thr \<le> word_of_int (to_millis (fp_confidence p))
          then (ExecuteContainment, sla_prefix sla @ ''fail-secure policy applied: confidence '' @ fmt_fixed 3 (fp_confidence p)
            @ '' >= threshold, auto-containing. Requires follow-up review to confirm this was'' @ ''n'' @ [CHR 0x27] @ ''t a false positive.'')
          else (Dismiss, sla_prefix sla @ ''fail-secure policy applied: confidence below auto-contain threshold, dismissing. Requires follow-up review.''))"

definition expired :: "timestamp \<Rightarrow> queue_item \<Rightarrow> bool" where
  "expired cutoff item \<longleftrightarrow> is_open (qi_state item) \<and> enqueued_at item \<le> cutoff"

definition resolve_expired :: "review_queue \<Rightarrow> timestamp \<Rightarrow> int \<Rightarrow> string \<Rightarrow> queue_item \<Rightarrow>
    (review_error + audit_decision) \<times> review_queue" where
  "resolve_expired q now sla f item =
     (let (v, why) = sla_outcome (rq_sla_policy q) (benign_label (trigger_cfg q)) sla (qi_prediction item)
      in resolve q f
           (\<lambda>did. \<lparr>decision_id = did, ad_flow_id = f, ad_reviewer = SystemSlaTimeout, ad_verdict = v,
              rationale = why, decided_at = now\<rparr>)
           (\<lambda>did. item\<lparr>qi_state := Resolved did\<rparr>))"

text \<open>The loop over the expired flows, which the first error ends; \<open>clk n\<close> is the reading for the
  \<open>n\<close>th decision.  The flows are keys of the item table, so the \<^verbatim>\<open>unwrap\<close> of the code finds its item
  and the first case never arises (\<open>sweep_complete\<close>).\<close>

fun sweep_loop :: "review_queue \<Rightarrow> (nat \<Rightarrow> timestamp) \<Rightarrow> nat \<Rightarrow> int \<Rightarrow> string list \<Rightarrow>
    (review_error + sla_breach list) \<times> review_queue" where
  "sweep_loop q clk n sla [] = (Inr [], q)"
| "sweep_loop q clk n sla (f # fs) =
     (case tbl_get (rq_items q) f of
        None \<Rightarrow> (Inr [], q)
      | Some item \<Rightarrow>
          (case resolve_expired q (clk n) sla f item of
             (Inl err, q1) \<Rightarrow> (Inl err, q1)
           | (Inr d, q1) \<Rightarrow>
               (case sweep_loop q1 clk (Suc n) sla fs of
                  (Inl err, q2) \<Rightarrow> (Inl err, q2)
                | (Inr bs, q2) \<Rightarrow> (Inr (\<lparr>br_prediction = qi_prediction item, br_decision = d\<rparr> # bs), q2))))"

definition wrap_i64 :: "int \<Rightarrow> int" where
  "wrap_i64 x = signed_take_bit 63 x"

definition expired_flows :: "review_queue \<Rightarrow> timestamp \<Rightarrow> string list" where
  "expired_flows q cutoff = map fst (filter (\<lambda>(_, item). expired cutoff item) (rq_items q))"

text \<open>A sink is what it does to the world it reports to; the lock is released by then, and an
  error of the loop returns before any sink is told.\<close>

definition sweep_expired_with_sink :: "review_queue \<Rightarrow> timestamp \<Rightarrow> (nat \<Rightarrow> timestamp) \<Rightarrow> int \<Rightarrow>
    (sla_breach \<Rightarrow> 'w \<Rightarrow> 'w) \<Rightarrow> 'w \<Rightarrow> (review_error + sla_breach list) \<times> review_queue \<times> 'w" where
  "sweep_expired_with_sink q now clk sla sink w =
     (case sweep_loop q clk 0 sla (expired_flows q (wrap_i64 (now - sla))) of
        (Inl err, q') \<Rightarrow> (Inl err, q', w)
      | (Inr bs, q') \<Rightarrow> (Inr bs, q', fold sink bs w))"

datatype alert_level = LogError | LogWarn

definition logging_sink :: "sla_breach \<Rightarrow> (alert_level \<times> sla_breach) list \<Rightarrow> (alert_level \<times> sla_breach) list" where
  "logging_sink b out = out @ [(if is_unreviewed_attack_dismissal b then LogError else LogWarn, b)]"

definition null_sink :: "sla_breach \<Rightarrow> 'w \<Rightarrow> 'w" where
  "null_sink b w = w"

definition fan_out_sink :: "(sla_breach \<Rightarrow> 'w \<Rightarrow> 'w) list \<Rightarrow> sla_breach \<Rightarrow> 'w \<Rightarrow> 'w" where
  "fan_out_sink sinks b w = foldl (\<lambda>w sink. sink b w) w sinks"

definition sweep_expired :: "review_queue \<Rightarrow> timestamp \<Rightarrow> (nat \<Rightarrow> timestamp) \<Rightarrow> int \<Rightarrow> (alert_level \<times> sla_breach) list \<Rightarrow>
    (review_error + sla_breach list) \<times> review_queue \<times> (alert_level \<times> sla_breach) list" where
  "sweep_expired q now clk sla = sweep_expired_with_sink q now clk sla logging_sink"

section \<open>Reading\<close>

definition list_pending :: "review_queue \<Rightarrow> queue_item list" where
  "list_pending q = filter (\<lambda>i. is_open (qi_state i)) (map snd (rq_items q))"

record queue_stats =
  qs_total :: nat
  qs_auto_resolved :: nat
  qs_pending :: nat
  qs_under_review :: nat
  qs_resolved :: nat

fun count_state :: "queue_stats \<Rightarrow> review_state \<Rightarrow> queue_stats" where
  "count_state st (AutoResolved _) = st\<lparr>qs_auto_resolved := qs_auto_resolved st + 1\<rparr>"
| "count_state st (Pending _) = st\<lparr>qs_pending := qs_pending st + 1\<rparr>"
| "count_state st (UnderReview _ _ _) = st\<lparr>qs_under_review := qs_under_review st + 1\<rparr>"
| "count_state st (Resolved _) = st\<lparr>qs_resolved := qs_resolved st + 1\<rparr>"

definition stats :: "review_queue \<Rightarrow> queue_stats" where
  "stats q =
     (foldl (\<lambda>st item. count_state st (qi_state item))
        \<lparr>qs_total = 0, qs_auto_resolved = 0, qs_pending = 0, qs_under_review = 0, qs_resolved = 0\<rparr>
        (map snd (rq_items q)))\<lparr>qs_total := length (rq_items q)\<rparr>"

section \<open>The containment gate\<close>

datatype containment_verdict =
    Approved string
  | NotApproved
  | Conflicting "string list"

definition check :: "ontology \<Rightarrow> string \<Rightarrow> containment_verdict" where
  "check e f =
     (let ids = map decision_id (filter (\<lambda>d. ad_verdict d = ExecuteContainment) (decisions_for_flow e f))
      in case ids of
           [] \<Rightarrow> NotApproved
         | [d] \<Rightarrow> Approved d
         | _ \<Rightarrow> Conflicting ids)"

datatype 'e containment_error =
    ErrNotApproved string
  | ErrConflicting string "string list"
  | ActionFailed 'e

text \<open>The action is the caller's; it may fail and it changes the world.\<close>

definition execute_if_approved :: "(string \<Rightarrow> 'w \<Rightarrow> ('e + unit) \<times> 'w) \<Rightarrow> ontology \<Rightarrow> string \<Rightarrow> 'w \<Rightarrow>
    ('e containment_error + containment_verdict) \<times> 'w" where
  "execute_if_approved action e f w =
     (let decision = check e f
      in case decision of
           Approved _ \<Rightarrow>
             (case action f w of
                (Inl err, w') \<Rightarrow> (Inl (ActionFailed err), w')
              | (Inr _, w') \<Rightarrow> (Inr decision, w'))
         | NotApproved \<Rightarrow> (Inl (ErrNotApproved f), w)
         | Conflicting ids \<Rightarrow> (Inl (ErrConflicting f ids), w))"

definition containment_decision :: "review_queue \<Rightarrow> string \<Rightarrow> containment_verdict" where
  "containment_decision q f = check (rq_engine q) f"

definition execute_containment_if_approved :: "review_queue \<Rightarrow> string \<Rightarrow> (string \<Rightarrow> 'w \<Rightarrow> ('e + unit) \<times> 'w) \<Rightarrow> 'w \<Rightarrow>
    ('e containment_error + containment_verdict) \<times> 'w" where
  "execute_containment_if_approved q f action w = execute_if_approved action (rq_engine q) f w"

section \<open>The state on disk\<close>

record persisted_state =
  format_version :: u32
  ps_items :: "(string, queue_item) tbl"
  ps_decisions :: "(string, audit_decision) tbl"
  next_decision_seq :: u64
  ps_trigger_cfg :: trigger_config
  ps_sla_policy :: sla_policy

definition snapshot_decisions :: "review_queue \<Rightarrow> (string, audit_decision) tbl" where
  "snapshot_decisions q = foldl (\<lambda>t d. tbl_insert t (decision_id d) d) [] (all_decisions (rq_engine q))"

definition to_persisted :: "review_queue \<Rightarrow> persisted_state" where
  "to_persisted q = \<lparr>format_version = 1, ps_items = rq_items q, ps_decisions = snapshot_decisions q,
     next_decision_seq = decision_seq q, ps_trigger_cfg = trigger_cfg q, ps_sla_policy = rq_sla_policy q\<rparr>"

fun replay_predictions :: "ontology \<Rightarrow> flow_prediction list \<Rightarrow> ontology_error + ontology" where
  "replay_predictions e [] = Inr e"
| "replay_predictions e (p # ps) =
     (case record_prediction e p of Inl err \<Rightarrow> Inl err | Inr e' \<Rightarrow> replay_predictions e' ps)"

fun replay_decisions :: "ontology \<Rightarrow> audit_decision list \<Rightarrow> ontology_error + ontology" where
  "replay_decisions e [] = Inr e"
| "replay_decisions e (d # ds) =
     (case bridge_record_decision e d of (Inl err, _) \<Rightarrow> Inl err | (Inr _, e') \<Rightarrow> replay_decisions e' ds)"

definition rehydrate :: "trigger_config \<Rightarrow> sla_policy \<Rightarrow> (string, queue_item) tbl \<Rightarrow> (string, audit_decision) tbl \<Rightarrow>
    u64 \<Rightarrow> review_error + review_queue" where
  "rehydrate cfg pol items decisions seq =
     (case register ontology_new of
        Inl err \<Rightarrow> Inl (OntologyErr err)
      | Inr e \<Rightarrow>
          (case replay_predictions e (map qi_prediction (sort_key enqueued_at (map snd items))) of
             Inl err \<Rightarrow> Inl (OntologyErr err)
           | Inr e1 \<Rightarrow>
               (case replay_decisions e1 (sort_key decided_at (map snd decisions)) of
                  Inl err \<Rightarrow> Inl (OntologyErr err)
                | Inr e2 \<Rightarrow> Inr \<lparr>rq_engine = e2, rq_items = items, trigger_cfg = cfg,
                    rq_sla_policy = pol, decision_seq = seq\<rparr>)))"

text \<open>The file is its text, if it exists; \<open>from_str\<close> and \<open>to_string\<close> are \<^verbatim>\<open>serde_json\<close>.\<close>

definition load_or_new :: "(string \<Rightarrow> string + persisted_state) \<Rightarrow> string option \<Rightarrow> trigger_config \<Rightarrow> sla_policy \<Rightarrow>
    review_error + review_queue" where
  "load_or_new from_str file cfg pol =
     (case file of
        None \<Rightarrow> queue_new cfg pol
      | Some raw \<Rightarrow>
          (case from_str raw of
             Inl err \<Rightarrow> Inl (SerdeErr err)
           | Inr p \<Rightarrow> rehydrate (ps_trigger_cfg p) (ps_sla_policy p) (ps_items p) (ps_decisions p) (next_decision_seq p)))"

definition save :: "(persisted_state \<Rightarrow> string + string) \<Rightarrow> review_queue \<Rightarrow> review_error + string" where
  "save to_str q = (case to_str (to_persisted q) of Inl err \<Rightarrow> Inl (SerdeErr err) | Inr json \<Rightarrow> Inr json)"

end
