(* ===== verification/Review_Gate.thy ===== *)
theory Review_Gate
  imports Review_Queue
begin

text \<open>
  What the review gate guarantees.  The locale \<open>audit_log\<close> is the contract between the queue and
  the audit graph: a decision is recorded once, under its own identifier, and the decisions of a
  flow are exactly those recorded for it.  It is interpreted on the graph's bridge; the queue's
  invariant and its properties rest on it.
\<close>

section \<open>The audit graph\<close>

abbreviation inst_at :: "ontology \<Rightarrow> string \<Rightarrow> object_instance option" where
  "inst_at e k \<equiv> tbl_get (st_instances (ont_store e)) k"

definition schema_ok :: "ontology \<Rightarrow> bool" where
  "schema_ok e \<longleftrightarrow> tbl_get (object_types e) FLOW_PREDICTION_TYPE = Some (projr flow_prediction_schema)
     \<and> tbl_get (object_types e) AUDIT_DECISION_TYPE = Some (projr audit_decision_schema)
     \<and> tbl_get (link_types e) REVIEW_OF_LINK = Some
         \<lparr>lt_name = REVIEW_OF_LINK, source_type = AUDIT_DECISION_TYPE, target_type = FLOW_PREDICTION_TYPE\<rparr>"

definition recorded :: "ontology \<Rightarrow> audit_decision \<Rightarrow> bool" where
  "recorded e d \<longleftrightarrow> inst_at e (decision_id d) = Some (decision_instance d)"

text \<open>Every instance is a prediction or a linked decision, every link is the link of a
  recorded decision.\<close>

definition audit_ok :: "ontology \<Rightarrow> bool" where
  "audit_ok e \<longleftrightarrow> graph_ok e \<and> schema_ok e
     \<and> (\<forall>k i. inst_at e k = Some i \<longrightarrow>
          (\<exists>p. i = prediction_instance p) \<or> (\<exists>d. i = decision_instance d \<and> review_link d \<in> set (st_links (ont_store e))))
     \<and> (\<forall>l \<in> set (st_links (ont_store e)). \<exists>d. l = review_link d \<and> recorded e d)"

lemma schema_valid:
  "validate_properties (projr flow_prediction_schema) (oi_properties (prediction_instance p)) = []"
  "validate_properties (projr audit_decision_schema) (oi_properties (decision_instance d)) = []"
  by (simp_all add: schema_builds validate_properties_def prediction_instance_def decision_instance_def
      map_filter_simps tbl_get_def)

lemma instance_fields [simp]:
  "oi_id (prediction_instance p) = fp_flow_id p" "oi_type (prediction_instance p) = FLOW_PREDICTION_TYPE"
  "oi_id (decision_instance d) = decision_id d" "oi_type (decision_instance d) = AUDIT_DECISION_TYPE"
  by (simp_all add: prediction_instance_def decision_instance_def)

lemma review_link_fields [simp]:
  "li_type (review_link d) = REVIEW_OF_LINK" "li_source (review_link d) = decision_id d"
  "li_target (review_link d) = ad_flow_id d"
  by (simp_all add: review_link_def)

lemma types_differ [simp]: "FLOW_PREDICTION_TYPE \<noteq> AUDIT_DECISION_TYPE" "AUDIT_DECISION_TYPE \<noteq> FLOW_PREDICTION_TYPE"
  by (simp_all add: schema_names)

lemma prediction_not_decision [simp]: "prediction_instance p \<noteq> decision_instance d" "decision_instance d \<noteq> prediction_instance p"
  using instance_fields(2,4) types_differ by metis+

lemma decision_instance_inj [simp]: "decision_instance d = decision_instance d' \<longleftrightarrow> d = d'"
  using decision_roundtrip by (metis option.inject)

lemma register_ok: "\<exists>e. register ontology_new = Inr e \<and> audit_ok e \<and> st_instances (ont_store e) = []"
proof -
  have "register ontology_new = Inr
      \<lparr>object_types = [(FLOW_PREDICTION_TYPE, projr flow_prediction_schema), (AUDIT_DECISION_TYPE, projr audit_decision_schema)],
       link_types = [(REVIEW_OF_LINK, \<lparr>lt_name = REVIEW_OF_LINK, source_type = AUDIT_DECISION_TYPE, target_type = FLOW_PREDICTION_TYPE\<rparr>)],
       ont_store = \<lparr>st_instances = [], st_links = [], forward_index = [], backward_index = []\<rparr>\<rparr>"
    by (simp add: register_def register_object_type_def register_link_type_def ontology_new_def schema_builds
        tbl_get_def tbl_insert_def)
  then show ?thesis
    by (simp add: audit_ok_def graph_ok_def store_ok_def fwi.idx_ok_Nil bwi.idx_ok_Nil schema_ok_def tbl_get_def)
qed

lemma record_prediction_eq:
  assumes "audit_ok e"
  shows "record_prediction e p =
    (if inst_at e (fp_flow_id p) \<noteq> None then Inl (DuplicateInstance (fp_flow_id p))
     else Inr (e\<lparr>ont_store := ont_store e\<lparr>st_instances :=
       tbl_insert (st_instances (ont_store e)) (fp_flow_id p) (prediction_instance p)\<rparr>\<rparr>))"
  using assms by (simp add: record_prediction_def create_object_instance_def audit_ok_def schema_ok_def schema_valid Let_def)

lemma record_prediction_ok:
  assumes ok: "audit_ok e" and r: "record_prediction e p = Inr e'"
  shows "audit_ok e'" "inst_at e' k = (if k = fp_flow_id p then Some (prediction_instance p) else inst_at e k)"
    "recorded e' d \<longleftrightarrow> recorded e d" "inst_at e (fp_flow_id p) = None"
proof -
  have fresh: "inst_at e (fp_flow_id p) = None" and
    e': "e' = e\<lparr>ont_store := ont_store e\<lparr>st_instances :=
       tbl_insert (st_instances (ont_store e)) (fp_flow_id p) (prediction_instance p)\<rparr>\<rparr>"
    using r by (auto simp: record_prediction_eq [OF ok] split: if_splits)
  show rec: "recorded e' d \<longleftrightarrow> recorded e d" for d using fresh by (auto simp: recorded_def e')
  have "graph_ok e'" using create_object_instance_ok ok r by (auto simp: audit_ok_def record_prediction_def)
  with ok show "audit_ok e'" unfolding audit_ok_def rec by (auto simp: e' schema_ok_def)
  show "inst_at e' k = (if k = fp_flow_id p then Some (prediction_instance p) else inst_at e k)" by (simp add: e')
  show "inst_at e (fp_flow_id p) = None" by (rule fresh)
qed

lemma create_decision_ok:
  assumes ok: "audit_ok e" and fresh: "inst_at e (decision_id d) = None"
  shows "create_object_instance e (decision_instance d) = Inr (e\<lparr>ont_store := ont_store e\<lparr>st_instances :=
       tbl_insert (st_instances (ont_store e)) (decision_id d) (decision_instance d)\<rparr>\<rparr>)"
  using ok fresh by (simp add: create_object_instance_def audit_ok_def schema_ok_def schema_valid Let_def)

text \<open>On a consistent graph the link never fails: the decision is fresh, so no link starts at it.\<close>

lemma bridge_record_ok:
  assumes ok: "audit_ok e" and tgt: "inst_at e (ad_flow_id d) = Some (prediction_instance p)"
    and fresh: "inst_at e (decision_id d) = None"
  obtains e' where "bridge_record_decision e d = (Inr (), e')" "audit_ok e'"
    "\<And>k. inst_at e' k = (if k = decision_id d then Some (decision_instance d) else inst_at e k)"
proof -
  let ?e1 = "e\<lparr>ont_store := ont_store e\<lparr>st_instances :=
       tbl_insert (st_instances (ont_store e)) (decision_id d) (decision_instance d)\<rparr>\<rparr>"
  let ?e2 = "?e1\<lparr>ont_store := snd (insert_link (ont_store ?e1) (review_link d))\<rparr>"
  note create = create_decision_ok [OF ok fresh]
  have new: "review_link d \<notin> set (st_links (ont_store e))"
    using ok fresh by (auto simp: audit_ok_def graph_ok_def joins_def)
  have ne: "ad_flow_id d \<noteq> decision_id d" using tgt fresh by auto
  have link: "create_link ?e1 (review_link d) = Inr ?e2"
    using ok tgt new ne by (simp add: create_link_def audit_ok_def schema_ok_def insert_link_def Let_def)
  have inst: "inst_at ?e2 k = (if k = decision_id d then Some (decision_instance d) else inst_at e k)" for k
    by simp
  have links: "set (st_links (ont_store ?e2)) = insert (review_link d) (set (st_links (ont_store e)))"
    using new by (simp add: insert_link_def)
  have schema: "schema_ok ?e2" using ok by (simp add: audit_ok_def schema_ok_def)
  have rec: "recorded ?e2 d' \<longleftrightarrow> recorded e d' \<or> d' = d" for d'
    using fresh unfolding recorded_def inst by auto
  have "graph_ok ?e2"
    using ok create link create_object_instance_ok create_link_ok by (metis audit_ok_def)
  then have "audit_ok ?e2"
    using ok schema unfolding audit_ok_def rec links inst by (auto split: if_splits)
  moreover have "bridge_record_decision e d = (Inr (), ?e2)"
    by (simp add: bridge_record_decision_def create link)
  ultimately show thesis using that inst by blast
qed

lemma bridge_record_dup:
  assumes "audit_ok e" "inst_at e (decision_id d) \<noteq> None"
  shows "bridge_record_decision e d = (Inl (DuplicateInstance (decision_id d)), e)"
  using assms by (auto simp: bridge_record_decision_def create_object_instance_def audit_ok_def schema_ok_def
      schema_valid Let_def)

text \<open>The decisions read back through the graph are the recorded ones.\<close>

lemma recorded_link:
  assumes "audit_ok e" "recorded e d"
  shows "review_link d \<in> set (st_links (ont_store e))"
  using assms unfolding audit_ok_def recorded_def by (metis decision_instance_inj prediction_not_decision(2))

lemma decisions_for_flow_set:
  assumes ok: "audit_ok e"
  shows "set (decisions_for_flow e f) = {d. recorded e d \<and> ad_flow_id d = f}"
proof -
  have tr: "set (traverse e f REVIEW_OF_LINK Incoming) = scan_links e f REVIEW_OF_LINK Incoming"
    using ok by (simp add: traverse_set audit_ok_def)
  have "scan_links e f REVIEW_OF_LINK Incoming = decision_instance ` {d. recorded e d \<and> ad_flow_id d = f}" (is "?L = ?R")
  proof
    show "?L \<subseteq> ?R"
      using ok by (fastforce simp: scan_links_def audit_ok_def get_object_instance_def recorded_def)
    show "?R \<subseteq> ?L"
    proof
      fix i assume "i \<in> ?R"
      then obtain d where "i = decision_instance d" "recorded e d" "ad_flow_id d = f" by auto
      then show "i \<in> ?L"
        using recorded_link [OF ok, of d] unfolding scan_links_def get_object_instance_def recorded_def
        by (auto intro!: bexI [of _ "review_link d"])
    qed
  qed
  then show ?thesis by (auto simp: decisions_for_flow_def set_map_filter tr)
qed

lemma traverse_distinct:
  assumes ok: "graph_ok e"
  shows "distinct (traverse e f lt Incoming)"
proof -
  have d: "distinct (tbl_get_or (backward_index (ont_store e)) (f, lt) [])"
    using ok by (simp add: graph_ok_def store_ok_def bwi.idx_ok_def)
  have "x = y" if "inst_at e x = Some z" "inst_at e y = Some z" for x y z
    using ok that unfolding graph_ok_def store_ok_def by metis
  then have "distinct (List.map_filter (tbl_get (st_instances (ont_store e)))
      (tbl_get_or (backward_index (ont_store e)) (f, lt) []))"
    using d by (intro distinct_map_filter_inj) auto
  then show ?thesis by (simp add: traverse_def tbl_get_or_def Let_def split: option.split_asm)
qed

lemma decisions_for_flow_distinct:
  assumes ok: "audit_ok e"
  shows "distinct (decisions_for_flow e f)"
  unfolding decisions_for_flow_def
proof (rule distinct_map_filter_inj)
  show "distinct (traverse e f REVIEW_OF_LINK Incoming)" using ok by (simp add: audit_ok_def traverse_distinct)
  have dec: "\<exists>d. x = decision_instance d" if "x \<in> set (traverse e f REVIEW_OF_LINK Incoming)" for x
    using ok that by (fastforce simp: traverse_set audit_ok_def scan_links_def get_object_instance_def recorded_def)
  fix x y z
  assume "x \<in> set (traverse e f REVIEW_OF_LINK Incoming)" "y \<in> set (traverse e f REVIEW_OF_LINK Incoming)"
    "decision_from_instance x = Some z" "decision_from_instance y = Some z"
  then show "x = y" using dec by (metis decision_roundtrip option.inject)
qed

text \<open>The contract the gate reads the graph by: the log lists every entry it has for a key, once.\<close>

locale decision_log =
  fixes log_ok :: "'e \<Rightarrow> bool" and has :: "'e \<Rightarrow> 'd \<Rightarrow> bool" and key_of :: "'d \<Rightarrow> 'k"
    and entries :: "'e \<Rightarrow> 'k \<Rightarrow> 'd list"
  assumes entries_set: "log_ok e \<Longrightarrow> set (entries e k) = {d. has e d \<and> key_of d = k}"
    and entries_distinct: "log_ok e \<Longrightarrow> distinct (entries e k)"
begin

lemma entries_sole:
  assumes "log_ok e" "{d. has e d \<and> key_of d = k} = set_option od"
  shows "entries e k = (case od of None \<Rightarrow> [] | Some d \<Rightarrow> [d])"
proof -
  have "set (entries e k) = set_option od" "distinct (entries e k)"
    using assms entries_set entries_distinct by auto
  then show ?thesis
    by (cases od; cases "entries e k" rule: list.exhaust) (auto, metis distinct.simps(2) list.set_intros(1) neq_Nil_conv singletonD subset_code(1))
qed

end

interpretation audit: decision_log audit_ok recorded ad_flow_id decisions_for_flow
  by unfold_locales (simp_all add: decisions_for_flow_set decisions_for_flow_distinct)

section \<open>The invariant of the queue\<close>

fun decided :: "review_state \<Rightarrow> string option" where
  "decided (AutoResolved k) = Some k"
| "decided (Resolved k) = Some k"
| "decided _ = None"

lemma is_open_decided: "is_open s \<longleftrightarrow> decided s = None"
  by (cases s) auto

text \<open>What may stand behind a decision: a named human with a reason, a prediction that cleared the
  trigger, or a timeout, which contains only under a fail-secure policy above its threshold.\<close>

definition authorised :: "trigger_config \<Rightarrow> sla_policy \<Rightarrow> flow_prediction \<Rightarrow> audit_decision \<Rightarrow> bool" where
  "authorised cfg pol p d \<longleftrightarrow>
     (case ad_reviewer d of
        Human who \<Rightarrow> trim who \<noteq> [] \<and> trim (rationale d) \<noteq> []
      | SystemAutoResolve \<Rightarrow> evaluate p cfg = None
          \<and> ad_verdict d = (if predicted_label p = benign_label cfg then Dismiss else ExecuteContainment)
      | SystemSlaTimeout \<Rightarrow> ad_verdict d = Dismiss
          \<or> (ad_verdict d = ExecuteContainment \<and> predicted_label p \<noteq> benign_label cfg
             \<and> (\<exists>thr. pol = FailSecure thr \<and> thr \<le> word_of_int (to_millis (fp_confidence p)))))"

text \<open>An item's flow is in the graph, and the graph has for it exactly the decision that its
  state names, if any.\<close>

definition item_ok :: "review_queue \<Rightarrow> string \<Rightarrow> queue_item \<Rightarrow> bool" where
  "item_ok q f it \<longleftrightarrow> fp_flow_id (qi_prediction it) = f
     \<and> inst_at (rq_engine q) f = Some (prediction_instance (qi_prediction it))
     \<and> (\<exists>od. {d. recorded (rq_engine q) d \<and> ad_flow_id d = f} = set_option od
           \<and> map_option decision_id od = decided (qi_state it)
           \<and> (\<forall>d. od = Some d \<longrightarrow> authorised (trigger_cfg q) (rq_sla_policy q) (qi_prediction it) d))"

definition queue_ok :: "review_queue \<Rightarrow> bool" where
  "queue_ok q \<longleftrightarrow> audit_ok (rq_engine q) \<and> tbl_ok (rq_items q)
     \<and> (\<forall>f it. tbl_get (rq_items q) f = Some it \<longrightarrow> item_ok q f it)
     \<and> (\<forall>d. recorded (rq_engine q) d \<longrightarrow> tbl_get (rq_items q) (ad_flow_id d) \<noteq> None)"

lemma queue_new_ok: "queue_new cfg pol = Inr q \<Longrightarrow> queue_ok q \<and> trigger_cfg q = cfg \<and> rq_sla_policy q = pol"
  using register_ok by (auto simp: queue_new_def queue_ok_def recorded_def)

text \<open>Resolving a flow that has no decision yet.\<close>

lemma resolve_cases:
  assumes ok: "queue_ok q" and tgt: "inst_at (rq_engine q) f = Some (prediction_instance p)"
    and d: "\<And>k. decision_id (dec k) = k \<and> ad_flow_id (dec k) = f"
  defines "k \<equiv> fst (next_decision_id q f)"
  obtains (dup) "inst_at (rq_engine q) k \<noteq> None"
      "resolve q f dec item = (Inl (OntologyErr (DuplicateInstance k)), q\<lparr>decision_seq := decision_seq q + 1\<rparr>)"
  | (written) e where "inst_at (rq_engine q) k = None" "audit_ok e"
      "\<And>k'. inst_at e k' = (if k' = k then Some (decision_instance (dec k)) else inst_at (rq_engine q) k')"
      "resolve q f dec item = (Inr (dec k), q\<lparr>decision_seq := decision_seq q + 1, rq_engine := e,
         rq_items := tbl_insert (rq_items q) f (item k)\<rparr>)"
proof (cases "inst_at (rq_engine q) k = None")
  case True
  have a: "audit_ok (rq_engine q)" using ok by (simp add: queue_ok_def)
  have t: "inst_at (rq_engine q) (ad_flow_id (dec k)) = Some (prediction_instance p)" using tgt d by simp
  have f: "inst_at (rq_engine q) (decision_id (dec k)) = None" using True d by simp
  show thesis
    by (rule bridge_record_ok [OF a t f])
      (rule that(2), use True d in \<open>auto simp: resolve_def next_decision_id_def k_def\<close>)
next
  case False
  then show thesis
    using ok d bridge_record_dup [of "rq_engine q" "dec k"]
    by (intro that(1)) (auto simp: queue_ok_def resolve_def next_decision_id_def k_def)
qed

text \<open>Storing an item for \<open>f\<close> over an engine that differs only in the entry for \<open>f\<close>'s decision.\<close>

lemma item_ok_cong:
  assumes "\<And>d. ad_flow_id d = f \<Longrightarrow> recorded (rq_engine q') d \<longleftrightarrow> recorded (rq_engine q) d"
    and "inst_at (rq_engine q) f \<noteq> None \<Longrightarrow> inst_at (rq_engine q') f = inst_at (rq_engine q) f"
    and "trigger_cfg q' = trigger_cfg q" "rq_sla_policy q' = rq_sla_policy q"
  shows "item_ok q f it \<Longrightarrow> item_ok q' f it"
proof -
  have "{d. recorded (rq_engine q') d \<and> ad_flow_id d = f} = {d. recorded (rq_engine q) d \<and> ad_flow_id d = f}"
    using assms(1) by blast
  then show "item_ok q f it \<Longrightarrow> item_ok q' f it" using assms(2-4) by (simp add: item_ok_def)
qed

lemma resolve_ok:
  assumes ok: "queue_ok q" and tgt: "inst_at (rq_engine q) f = Some (prediction_instance p)"
    and none: "\<And>d. recorded (rq_engine q) d \<Longrightarrow> ad_flow_id d \<noteq> f"
    and d: "\<And>k. decision_id (dec k) = k \<and> ad_flow_id (dec k) = f
      \<and> authorised (trigger_cfg q) (rq_sla_policy q) p (dec k)"
    and it: "\<And>k. qi_prediction (item k) = p \<and> decided (qi_state (item k)) = Some k"
    and p: "fp_flow_id p = f"
  shows "queue_ok (snd (resolve q f dec item))"
proof (rule resolve_cases [OF ok tgt, of dec item])
  show "decision_id (dec k) = k \<and> ad_flow_id (dec k) = f" for k using d by simp
next
  let ?k = "fst (next_decision_id q f)"
  assume "resolve q f dec item = (Inl (OntologyErr (DuplicateInstance ?k)), q\<lparr>decision_seq := decision_seq q + 1\<rparr>)"
  then show ?thesis using ok by (auto simp: queue_ok_def intro: item_ok_cong)
next
  let ?k = "fst (next_decision_id q f)"
  fix e
  assume fresh: "inst_at (rq_engine q) ?k = None" and a: "audit_ok e"
    and inst: "\<And>k'. inst_at e k' = (if k' = ?k then Some (decision_instance (dec ?k)) else inst_at (rq_engine q) k')"
    and r: "resolve q f dec item = (Inr (dec ?k), q\<lparr>decision_seq := decision_seq q + 1, rq_engine := e,
         rq_items := tbl_insert (rq_items q) f (item ?k)\<rparr>)"
  let ?q' = "q\<lparr>decision_seq := decision_seq q + 1, rq_engine := e, rq_items := tbl_insert (rq_items q) f (item ?k)\<rparr>"
  have rec: "recorded e d' \<longleftrightarrow> recorded (rq_engine q) d' \<or> d' = dec ?k" for d'
    using fresh d unfolding recorded_def inst by auto
  have others: "item_ok ?q' f' it'" if "item_ok q f' it'" "f' \<noteq> f" for f' it'
    using that(1) by (rule item_ok_cong [rotated -1]) (use that(2) fresh d in \<open>auto simp: rec inst\<close>)
  have "{d'. recorded e d' \<and> ad_flow_id d' = f} = set_option (Some (dec ?k))" using none d by (auto simp: rec)
  then have "item_ok ?q' f (item ?k)"
    using tgt it p d fresh unfolding item_ok_def by (auto simp: inst intro!: exI [of _ "Some (dec ?k)"])
  then have "queue_ok ?q'" using ok a d others unfolding queue_ok_def by (auto simp: rec split: if_splits)
  then show ?thesis by (simp add: r)
qed

lemma resolve_keeps:
  "trigger_cfg (snd (resolve q f dec item)) = trigger_cfg q"
  "rq_sla_policy (snd (resolve q f dec item)) = rq_sla_policy q"
  "f' \<noteq> f \<Longrightarrow> tbl_get (rq_items (snd (resolve q f dec item))) f' = tbl_get (rq_items q) f'"
  by (auto simp: resolve_def next_decision_id_def Let_def split: prod.split sum.split)

lemma queue_item_ok: "queue_ok q \<Longrightarrow> tbl_get (rq_items q) f = Some it \<Longrightarrow> item_ok q f it"
  unfolding queue_ok_def by blast

lemma open_item:
  assumes "queue_ok q" "tbl_get (rq_items q) f = Some it" "is_open (qi_state it)"
  shows "inst_at (rq_engine q) f = Some (prediction_instance (qi_prediction it))" "fp_flow_id (qi_prediction it) = f"
    "recorded (rq_engine q) d \<Longrightarrow> ad_flow_id d \<noteq> f"
  using queue_item_ok [OF assms(1,2)] assms(3) unfolding item_ok_def is_open_decided by auto

text \<open>Resolving an open item keeps the invariant, whoever decides.\<close>

lemma resolve_open_ok:
  assumes ok: "queue_ok q" and it: "tbl_get (rq_items q) f = Some it" "is_open (qi_state it)"
    and d: "\<And>k. decision_id (dec k) = k \<and> ad_flow_id (dec k) = f
      \<and> authorised (trigger_cfg q) (rq_sla_policy q) (qi_prediction it) (dec k)"
  shows "queue_ok (snd (resolve q f dec (\<lambda>k. it\<lparr>qi_state := Resolved k\<rparr>)))"
  by (rule resolve_ok [OF ok]) (use open_item [OF ok it] d in \<open>auto\<close>)

lemma record_decision_ok:
  assumes "queue_ok q"
  shows "queue_ok (snd (record_decision q now f who v why))"
  using assms by (auto simp: record_decision_def authorised_def intro!: resolve_open_ok split: option.split)

lemma sla_outcome_authorised:
  assumes "sla_outcome pol (benign_label cfg) sla p = (v, why)" "ad_reviewer d = SystemSlaTimeout" "ad_verdict d = v"
  shows "authorised cfg pol p d"
  using assms by (auto simp: authorised_def sla_outcome_def split: sla_policy.splits if_splits)

lemma resolve_expired_ok:
  assumes "queue_ok q" "tbl_get (rq_items q) f = Some it" "is_open (qi_state it)"
  shows "queue_ok (snd (resolve_expired q now sla f it))"
  using assms by (auto simp: resolve_expired_def intro!: resolve_open_ok intro: sla_outcome_authorised split: prod.split)

lemma claim_ok:
  assumes ok: "queue_ok q"
  shows "queue_ok (snd (claim q now f who))"
proof (cases "\<exists>it r. tbl_get (rq_items q) f = Some it \<and> qi_state it = Pending r")
  case False
  then have "snd (claim q now f who) = q"
    by (auto simp: claim_def split: option.split review_state.split)
  with ok show ?thesis by simp
next
  case True
  then obtain it r where it: "tbl_get (rq_items q) f = Some it" "qi_state it = Pending r" by blast
  let ?it = "it\<lparr>qi_state := UnderReview r who now\<rparr>"
  let ?q = "q\<lparr>rq_items := tbl_insert (rq_items q) f ?it\<rparr>"
  have same: "item_ok ?q f' it' \<longleftrightarrow> item_ok q f' it'" for f' it' by (simp add: item_ok_def)
  have "item_ok ?q f ?it" using queue_item_ok [OF ok it(1)] it(2) by (simp add: item_ok_def)
  then have "queue_ok ?q" using ok unfolding queue_ok_def by (auto simp: same)
  then show ?thesis by (simp add: claim_def it)
qed

lemma snd_map_result:
  "snd (case r of (Inl err, s) \<Rightarrow> (Inl err, s) | (Inr d, s) \<Rightarrow> (Inr (g d), s)) = snd r"
  by (auto split: prod.split sum.split)

lemma prediction_queue_ok:
  assumes ok: "queue_ok q" and e: "record_prediction (rq_engine q) p = Inr e"
  shows "queue_ok (q\<lparr>rq_engine := e\<rparr>)"
proof -
  have "audit_ok (rq_engine q)" using ok by (simp add: queue_ok_def)
  note r = record_prediction_ok [OF this e]
  have "item_ok (q\<lparr>rq_engine := e\<rparr>) f it" if "tbl_get (rq_items q) f = Some it" for f it
    using queue_item_ok [OF ok that] by (rule item_ok_cong [rotated -1]) (use r(4) in \<open>auto simp: r(2,3)\<close>)
  then show ?thesis using ok r(1) unfolding queue_ok_def by (simp add: r(3))
qed

lemma ingest_ok:
  assumes ok: "queue_ok q"
  shows "queue_ok (snd (ingest q now p))"
proof (cases "tbl_get (rq_items q) (fp_flow_id p) = None")
  case False
  with ok show ?thesis by (simp add: ingest_def)
next
  case new: True
  show ?thesis
  proof (cases "record_prediction (rq_engine q) p")
    case (Inl err)
    with new ok show ?thesis by (simp add: ingest_def)
  next
    case (Inr e)
    let ?q1 = "q\<lparr>rq_engine := e\<rparr>"
    have "audit_ok (rq_engine q)" using ok by (simp add: queue_ok_def)
    note r = record_prediction_ok [OF this Inr]
    have none: "ad_flow_id d \<noteq> fp_flow_id p" if "recorded (rq_engine q) d" for d
      using ok that new unfolding queue_ok_def by metis
    have ok1: "queue_ok ?q1" by (rule prediction_queue_ok [OF ok Inr])
    have tgt: "inst_at (rq_engine ?q1) (fp_flow_id p) = Some (prediction_instance p)" by (simp add: r(2))
    show ?thesis
    proof (cases "evaluate p (trigger_cfg q)")
      case None
      let ?v = "if predicted_label p = benign_label (trigger_cfg q) then Dismiss else ExecuteContainment"
      have "queue_ok (snd (resolve ?q1 (fp_flow_id p)
          (\<lambda>did. \<lparr>decision_id = did, ad_flow_id = fp_flow_id p, ad_reviewer = SystemAutoResolve,
             ad_verdict = ?v, rationale = auto_rationale p (trigger_cfg q), decided_at = now\<rparr>)
          (\<lambda>did. \<lparr>qi_prediction = p, qi_state = AutoResolved did, enqueued_at = now\<rparr>)))"
        by (rule resolve_ok [OF ok1 tgt]) (use none None in \<open>auto simp: r(3) authorised_def\<close>)
      then show ?thesis using new Inr None by (simp add: ingest_def Let_def snd_map_result)
    next
      case (Some reason)
      let ?it = "\<lparr>qi_prediction = p, qi_state = Pending reason, enqueued_at = now\<rparr>"
      let ?q2 = "?q1\<lparr>rq_items := tbl_insert (rq_items q) (fp_flow_id p) ?it\<rparr>"
      have same: "item_ok ?q2 f it \<longleftrightarrow> item_ok ?q1 f it" for f it by (simp add: item_ok_def)
      have "item_ok ?q1 (fp_flow_id p) ?it"
        using tgt none by (auto simp: item_ok_def r(3) intro!: exI [of _ None])
      then have "queue_ok ?q2" using ok1 unfolding queue_ok_def by (auto simp: same)
      then show ?thesis using new Inr Some by (simp add: ingest_def Let_def)
    qed
  qed
qed

section \<open>The sweep\<close>

definition all_open :: "review_queue \<Rightarrow> string list \<Rightarrow> bool" where
  "all_open q fs \<longleftrightarrow> distinct fs \<and> (\<forall>f \<in> set fs. \<exists>it. tbl_get (rq_items q) f = Some it \<and> is_open (qi_state it))"

lemma all_open_Cons:
  assumes "all_open q (f # fs)"
  obtains it where "tbl_get (rq_items q) f = Some it" "is_open (qi_state it)" "f \<notin> set fs"
    "\<And>dec item. all_open (snd (resolve q f dec item)) fs"
  using assms resolve_keeps(3) [of _ f q] unfolding all_open_def by (auto, metis)

lemma resolve_expired_resolve: "\<exists>dec. resolve_expired q now sla f it = resolve q f dec (\<lambda>k. it\<lparr>qi_state := Resolved k\<rparr>)
    \<and> (\<forall>k. ad_verdict (dec k) = fst (sla_outcome (rq_sla_policy q) (benign_label (trigger_cfg q)) sla (qi_prediction it)))"
  by (auto simp: resolve_expired_def split: prod.split)

lemma resolve_result:
  assumes "resolve q f dec item = (Inr d, q')"
  shows "\<exists>k. d = dec k \<and> tbl_get (rq_items q') f = Some (item k)"
  using assms by (auto simp: resolve_def next_decision_id_def Let_def split: prod.splits sum.splits)

text \<open>The loop keeps the invariant and touches only its own flows; when it finishes, it has
  closed each of them, reporting one breach per flow, in order.\<close>

lemma sweep_loop_inv:
  assumes "queue_ok q" "all_open q fs"
  shows "queue_ok (snd (sweep_loop q clk n sla fs))
    \<and> trigger_cfg (snd (sweep_loop q clk n sla fs)) = trigger_cfg q
    \<and> rq_sla_policy (snd (sweep_loop q clk n sla fs)) = rq_sla_policy q
    \<and> (\<forall>f. f \<notin> set fs \<longrightarrow> tbl_get (rq_items (snd (sweep_loop q clk n sla fs))) f = tbl_get (rq_items q) f)"
  using assms
proof (induction fs arbitrary: q n)
  case (Cons f fs)
  obtain it where it: "tbl_get (rq_items q) f = Some it" "is_open (qi_state it)" "f \<notin> set fs"
    and rest: "\<And>dec item. all_open (snd (resolve q f dec item)) fs"
    using all_open_Cons [OF Cons.prems(2)] by blast
  obtain dec where dec: "resolve_expired q (clk n) sla f it = resolve q f dec (\<lambda>k. it\<lparr>qi_state := Resolved k\<rparr>)"
    using resolve_expired_resolve by blast
  define q1 where "q1 = snd (resolve_expired q (clk n) sla f it)"
  have q1: "queue_ok q1" "all_open q1 fs" "trigger_cfg q1 = trigger_cfg q" "rq_sla_policy q1 = rq_sla_policy q"
    "\<And>f'. f' \<noteq> f \<Longrightarrow> tbl_get (rq_items q1) f' = tbl_get (rq_items q) f'"
    using resolve_expired_ok [OF Cons.prems(1) it(1,2), of "clk n" sla] rest unfolding q1_def dec by (auto simp: resolve_keeps)
  have "snd (sweep_loop q clk n sla (f # fs)) \<in> {q1, snd (sweep_loop q1 clk (Suc n) sla fs)}"
    by (auto simp: it(1) q1_def split: prod.splits sum.splits)
  then show ?case using Cons.IH [OF q1(1,2), of "Suc n"] q1 by auto
qed simp

lemma sweep_loop_Inr:
  assumes "all_open q fs" "sweep_loop q clk n sla fs = (Inr bs, q')"
  shows "map (fp_flow_id \<circ> br_prediction) bs = map (\<lambda>f. fp_flow_id (qi_prediction (the (tbl_get (rq_items q) f)))) fs
    \<and> (\<forall>f \<in> set fs. \<exists>it k. tbl_get (rq_items q) f = Some it \<and> tbl_get (rq_items q') f = Some (it\<lparr>qi_state := Resolved k\<rparr>))
    \<and> (\<forall>f. f \<notin> set fs \<longrightarrow> tbl_get (rq_items q') f = tbl_get (rq_items q) f)
    \<and> (\<forall>b \<in> set bs. ad_verdict (br_decision b) =
         fst (sla_outcome (rq_sla_policy q) (benign_label (trigger_cfg q)) sla (br_prediction b)))"
  using assms
proof (induction fs arbitrary: q n bs)
  case (Cons f fs)
  obtain it where it: "tbl_get (rq_items q) f = Some it" "is_open (qi_state it)" "f \<notin> set fs"
    and rest: "\<And>dec item. all_open (snd (resolve q f dec item)) fs"
    using all_open_Cons [OF Cons.prems(1)] by blast
  obtain dec where dec: "resolve_expired q (clk n) sla f it = resolve q f dec (\<lambda>k. it\<lparr>qi_state := Resolved k\<rparr>)"
    and v: "\<And>k. ad_verdict (dec k) = fst (sla_outcome (rq_sla_policy q) (benign_label (trigger_cfg q)) sla (qi_prediction it))"
    using resolve_expired_resolve by blast
  obtain d q1 bs' where r: "resolve q f dec (\<lambda>k. it\<lparr>qi_state := Resolved k\<rparr>) = (Inr d, q1)"
    and l: "sweep_loop q1 clk (Suc n) sla fs = (Inr bs', q')"
    and bs: "bs = \<lparr>br_prediction = qi_prediction it, br_decision = d\<rparr> # bs'"
    using Cons.prems(2) by (auto simp: it(1) dec split: prod.splits sum.splits)
  note IH = Cons.IH [OF _ l]
  have q1: "all_open q1 fs" "trigger_cfg q1 = trigger_cfg q" "rq_sla_policy q1 = rq_sla_policy q"
    "\<And>f'. f' \<noteq> f \<Longrightarrow> tbl_get (rq_items q1) f' = tbl_get (rq_items q) f'"
    using rest [of dec "\<lambda>k. it\<lparr>qi_state := Resolved k\<rparr>"]
      resolve_keeps [where q = q and f = f and dec = dec and item = "\<lambda>k. it\<lparr>qi_state := Resolved k\<rparr>"]
    by (simp_all add: r)
  obtain k where k: "d = dec k" "tbl_get (rq_items q1) f = Some (it\<lparr>qi_state := Resolved k\<rparr>)"
    using resolve_result [OF r] by blast
  have "map (\<lambda>f. fp_flow_id (qi_prediction (the (tbl_get (rq_items q1) f)))) fs
      = map (\<lambda>f. fp_flow_id (qi_prediction (the (tbl_get (rq_items q) f)))) fs"
    by (rule map_cong [OF refl]) (use it(3) q1(4) in metis)
  then show ?case using IH [OF q1(1)] it q1 k v by (auto simp: bs) (metis option.inject)+
qed simp

lemma expired_flows_open:
  assumes ok: "queue_ok q"
  shows "all_open q (expired_flows q c)"
    "f \<in> set (expired_flows q c) \<longleftrightarrow> (\<exists>it. tbl_get (rq_items q) f = Some it \<and> expired c it)"
proof -
  have t: "tbl_ok (rq_items q)" using ok by (simp add: queue_ok_def)
  show mem: "f \<in> set (expired_flows q c) \<longleftrightarrow> (\<exists>it. tbl_get (rq_items q) f = Some it \<and> expired c it)" for f
  proof -
    have "f \<in> set (expired_flows q c) \<longleftrightarrow> (\<exists>it. (f, it) \<in> set (rq_items q) \<and> expired c it)"
      by (force simp: expired_flows_def)
    then show ?thesis using t by (metis tbl_get_mem tbl_mem_get)
  qed
  have "distinct (expired_flows q c)"
    using t unfolding expired_flows_def tbl_ok_def by (simp add: distinct_map_filter)
  then show "all_open q (expired_flows q c)" using mem by (auto simp: all_open_def expired_def)
qed

section \<open>One decision per flow\<close>

text \<open>The abstract view of a flow: unknown, waiting, or decided once.\<close>

lemma sole_decision:
  assumes ok: "queue_ok q"
  shows "\<exists>od. {d. recorded (rq_engine q) d \<and> ad_flow_id d = f} = set_option od
    \<and> (case od of
          None \<Rightarrow> \<forall>it. tbl_get (rq_items q) f = Some it \<longrightarrow> is_open (qi_state it)
        | Some d \<Rightarrow> \<exists>it. tbl_get (rq_items q) f = Some it \<and> decided (qi_state it) = Some (decision_id d)
            \<and> authorised (trigger_cfg q) (rq_sla_policy q) (qi_prediction it) d)"
proof (cases "tbl_get (rq_items q) f")
  case None
  then have "{d. recorded (rq_engine q) d \<and> ad_flow_id d = f} = set_option None"
    using ok unfolding queue_ok_def by auto
  then show ?thesis using None by (intro exI [of _ None]) simp
next
  case (Some it)
  obtain od where od: "{d. recorded (rq_engine q) d \<and> ad_flow_id d = f} = set_option od"
    "map_option decision_id od = decided (qi_state it)"
    "\<forall>d. od = Some d \<longrightarrow> authorised (trigger_cfg q) (rq_sla_policy q) (qi_prediction it) d"
    using queue_item_ok [OF ok Some] unfolding item_ok_def by blast
  then show ?thesis using Some by (intro exI [of _ od]) (auto simp: is_open_decided split: option.split)
qed

lemma decisions_sole:
  assumes ok: "queue_ok q"
  shows "decisions_for_flow (rq_engine q) f = [] \<and> (\<forall>it. tbl_get (rq_items q) f = Some it \<longrightarrow> is_open (qi_state it))
    \<or> (\<exists>d it. decisions_for_flow (rq_engine q) f = [d] \<and> tbl_get (rq_items q) f = Some it
        \<and> decided (qi_state it) = Some (decision_id d)
        \<and> authorised (trigger_cfg q) (rq_sla_policy q) (qi_prediction it) d)"
proof -
  have a: "audit_ok (rq_engine q)" using ok by (simp add: queue_ok_def)
  obtain od where od: "{d. recorded (rq_engine q) d \<and> ad_flow_id d = f} = set_option od"
    and c: "case od of None \<Rightarrow> \<forall>it. tbl_get (rq_items q) f = Some it \<longrightarrow> is_open (qi_state it)
        | Some d \<Rightarrow> \<exists>it. tbl_get (rq_items q) f = Some it \<and> decided (qi_state it) = Some (decision_id d)
            \<and> authorised (trigger_cfg q) (rq_sla_policy q) (qi_prediction it) d"
    using sole_decision [OF ok, of f] by blast
  show ?thesis using audit.entries_sole [OF a od] c by (cases od) auto
qed

section \<open>Saving and loading\<close>

lemma replay_predictions_ok:
  assumes "audit_ok e" "distinct (map fp_flow_id ps)" "\<forall>p \<in> set ps. inst_at e (fp_flow_id p) = None"
  shows "\<exists>e'. replay_predictions e ps = Inr e' \<and> audit_ok e' \<and> (\<forall>d. recorded e' d \<longleftrightarrow> recorded e d)
    \<and> (\<forall>p \<in> set ps. inst_at e' (fp_flow_id p) = Some (prediction_instance p))
    \<and> (\<forall>k. k \<notin> fp_flow_id ` set ps \<longrightarrow> inst_at e' k = inst_at e k)"
  using assms
proof (induction ps arbitrary: e)
  case (Cons p ps)
  obtain e1 where e1: "record_prediction e p = Inr e1"
    using Cons.prems by (simp add: record_prediction_eq)
  note r = record_prediction_ok [OF Cons.prems(1) e1]
  have "\<forall>p' \<in> set ps. inst_at e1 (fp_flow_id p') = None" using Cons.prems(2,3) by (auto simp: r(2)) (metis imageI)
  then obtain e' where "replay_predictions e1 ps = Inr e'" "audit_ok e'" "\<forall>d. recorded e' d \<longleftrightarrow> recorded e1 d"
    "\<forall>p \<in> set ps. inst_at e' (fp_flow_id p) = Some (prediction_instance p)"
    "\<forall>k. k \<notin> fp_flow_id ` set ps \<longrightarrow> inst_at e' k = inst_at e1 k"
    using Cons.IH [OF r(1)] Cons.prems(2) by auto
  then show ?case using Cons.prems(2) by (auto simp: e1 r(2,3))
qed simp

lemma replay_decisions_ok:
  assumes "audit_ok e" "distinct (map decision_id ds)" "\<forall>d \<in> set ds. inst_at e (decision_id d) = None"
    "\<forall>d \<in> set ds. \<exists>p. inst_at e (ad_flow_id d) = Some (prediction_instance p)"
  shows "\<exists>e'. replay_decisions e ds = Inr e' \<and> audit_ok e'
    \<and> (\<forall>d. recorded e' d \<longleftrightarrow> recorded e d \<or> d \<in> set ds)
    \<and> (\<forall>k. inst_at e k \<noteq> None \<longrightarrow> inst_at e' k = inst_at e k)"
  using assms
proof (induction ds arbitrary: e)
  case (Cons d ds)
  obtain p where tgt: "inst_at e (ad_flow_id d) = Some (prediction_instance p)" using Cons.prems(4) by auto
  have fresh: "inst_at e (decision_id d) = None" using Cons.prems(3) by simp
  obtain e1 where e1: "bridge_record_decision e d = (Inr (), e1)" "audit_ok e1"
    and inst: "\<And>k. inst_at e1 k = (if k = decision_id d then Some (decision_instance d) else inst_at e k)"
    using bridge_record_ok [OF Cons.prems(1) tgt fresh] by blast
  have rec: "recorded e1 d' \<longleftrightarrow> recorded e d' \<or> d' = d" for d'
    using fresh unfolding recorded_def inst by auto
  have "\<forall>d' \<in> set ds. inst_at e1 (decision_id d') = None" using Cons.prems(2,3) by (auto simp: inst) (metis imageI)
  moreover have "\<forall>d' \<in> set ds. \<exists>p. inst_at e1 (ad_flow_id d') = Some (prediction_instance p)"
    using Cons.prems(4) fresh by (auto simp: inst)
  ultimately obtain e' where "replay_decisions e1 ds = Inr e'" "audit_ok e'"
    "\<forall>d'. recorded e' d' \<longleftrightarrow> recorded e1 d' \<or> d' \<in> set ds" "\<forall>k. inst_at e1 k \<noteq> None \<longrightarrow> inst_at e' k = inst_at e1 k"
    using Cons.IH [OF e1(2)] Cons.prems(2) by auto
  then show ?case using fresh by (auto simp: e1(1) rec inst)
qed simp

lemma alist_update_fresh: "k \<notin> fst ` set t \<Longrightarrow> AList.update k v t = t @ [(k, v)]"
  by (induction t) auto

lemma foldl_insert_fresh:
  "distinct (map g xs) \<Longrightarrow> fst ` set t \<inter> g ` set xs = {} \<Longrightarrow>
   foldl (\<lambda>t x. tbl_insert t (g x) x) t xs = t @ map (\<lambda>x. (g x, x)) xs"
  by (induction xs arbitrary: t) (auto simp: tbl_insert_def alist_update_fresh)

lemma all_decisions_ids:
  assumes ok: "audit_ok e"
  shows "set (all_decisions e) = {d. recorded e d}" "distinct (map decision_id (all_decisions e))"
proof -
  let ?I = "st_instances (ont_store e)"
  have t: "tbl_ok ?I" and key: "\<And>k i. (k, i) \<in> set ?I \<Longrightarrow> oi_id i = k"
    using ok tbl_mem_get unfolding audit_ok_def graph_ok_def store_ok_def by metis+
  have dec: "(\<exists>p. i = prediction_instance p) \<or> (\<exists>d. i = decision_instance d)" if "(k, i) \<in> set ?I" for k i
    using ok tbl_mem_get [OF t that] unfolding audit_ok_def by blast
  have all: "List.map_filter decision_from_instance (filter (\<lambda>i. oi_type i = AUDIT_DECISION_TYPE) xs)
      = map (the \<circ> decision_from_instance) (filter (\<lambda>i. oi_type i = AUDIT_DECISION_TYPE) xs)
    \<and> map decision_id (map (the \<circ> decision_from_instance) (filter (\<lambda>i. oi_type i = AUDIT_DECISION_TYPE) xs))
      = map oi_id (filter (\<lambda>i. oi_type i = AUDIT_DECISION_TYPE) xs)"
    if "set xs \<subseteq> snd ` set ?I" for xs
    using that dec by (induction xs) (auto simp: map_filter_simps, fastforce+)
  have "map oi_id (map snd ?I) = map fst ?I" using key by auto
  then have "distinct (map oi_id (map snd ?I))" using t unfolding tbl_ok_def by metis
  then have "distinct (map oi_id (filter (\<lambda>i. oi_type i = AUDIT_DECISION_TYPE) (map snd ?I)))"
    by (rule distinct_map_filter)
  then show "distinct (map decision_id (all_decisions e))"
    unfolding all_decisions_def list_instances_by_type_def
    by (simp only: all [of "map snd ?I", THEN conjunct1] all [of "map snd ?I", THEN conjunct2] set_map subset_refl)
  show "set (all_decisions e) = {d. recorded e d}"
  proof (intro equalityI subsetI)
    fix d assume "d \<in> set (all_decisions e)"
    then obtain k i where "(k, i) \<in> set ?I" "oi_type i = AUDIT_DECISION_TYPE" "decision_from_instance i = Some d"
      by (auto simp: all_decisions_def list_instances_by_type_def set_map_filter)
    moreover from this dec have "i = decision_instance d" by force
    ultimately show "d \<in> {d. recorded e d}" using key tbl_mem_get [OF t] by (fastforce simp: recorded_def)
  next
    fix d assume "d \<in> {d. recorded e d}"
    then have "decision_instance d \<in> snd ` set ?I" using tbl_get_mem by (force simp: recorded_def)
    then show "d \<in> set (all_decisions e)"
      by (force simp: all_decisions_def list_instances_by_type_def set_map_filter)
  qed
qed

lemma distinct_map_sort: "distinct (map g (sort_key k xs)) \<longleftrightarrow> distinct (map g xs)"
  by (simp add: distinct_map)

lemma map_snd_snapshot: "queue_ok q \<Longrightarrow> map snd (snapshot_decisions q) = all_decisions (rq_engine q)"
  by (simp add: snapshot_decisions_def queue_ok_def foldl_insert_fresh all_decisions_ids comp_def)

lemma item_flows:
  assumes "queue_ok q"
  shows "map (fp_flow_id \<circ> qi_prediction) (map snd (rq_items q)) = map fst (rq_items q)"
    and "it \<in> set (map snd (rq_items q)) \<longleftrightarrow> (\<exists>f. tbl_get (rq_items q) f = Some it)"
proof -
  have t: "tbl_ok (rq_items q)" using assms by (simp add: queue_ok_def)
  have "fp_flow_id (qi_prediction (snd x)) = fst x" if "x \<in> set (rq_items q)" for x
    using queue_item_ok [OF assms tbl_mem_get [OF t, of "fst x" "snd x"]] that by (simp add: item_ok_def)
  then show "map (fp_flow_id \<circ> qi_prediction) (map snd (rq_items q)) = map fst (rq_items q)" by simp
  show "it \<in> set (map snd (rq_items q)) \<longleftrightarrow> (\<exists>f. tbl_get (rq_items q) f = Some it)"
    using tbl_get_mem tbl_mem_get [OF t] by force
qed

lemma rehydrate_engine:
  assumes ok: "queue_ok q"
  obtains e where "rehydrate cfg pol (rq_items q) (snapshot_decisions q) seq =
      Inr \<lparr>rq_engine = e, rq_items = rq_items q, trigger_cfg = cfg, rq_sla_policy = pol, decision_seq = seq\<rparr>"
    "audit_ok e" "\<And>d. recorded e d \<longleftrightarrow> recorded (rq_engine q) d"
    "\<And>f it. tbl_get (rq_items q) f = Some it \<Longrightarrow> inst_at e f = Some (prediction_instance (qi_prediction it))"
proof -
  let ?ps = "map qi_prediction (sort_key enqueued_at (map snd (rq_items q)))"
  let ?ds = "sort_key decided_at (map snd (snapshot_decisions q))"
  have a: "audit_ok (rq_engine q)" and t: "tbl_ok (rq_items q)" using ok by (simp_all add: queue_ok_def)
  obtain e0 where e0: "register ontology_new = Inr e0" "audit_ok e0" "st_instances (ont_store e0) = []"
    using register_ok by blast
  have "map fp_flow_id ?ps = map (fp_flow_id \<circ> qi_prediction) (sort_key enqueued_at (map snd (rq_items q)))" by simp
  then have dist: "distinct (map fp_flow_id ?ps)"
    using t by (simp only: distinct_map_sort item_flows(1) [OF ok] tbl_ok_def)
  obtain e1 where e1: "replay_predictions e0 ?ps = Inr e1" "audit_ok e1" "\<And>d. recorded e1 d \<longleftrightarrow> recorded e0 d"
      "\<And>p. p \<in> set ?ps \<Longrightarrow> inst_at e1 (fp_flow_id p) = Some (prediction_instance p)"
      "\<And>k. k \<notin> fp_flow_id ` set ?ps \<Longrightarrow> inst_at e1 k = inst_at e0 k"
    using replay_predictions_ok [OF e0(2) dist] e0(3) by auto
  have known: "inst_at e1 f = Some (prediction_instance (qi_prediction it))" if "tbl_get (rq_items q) f = Some it" for f it
    using e1(4) [of "qi_prediction it"] item_flows(2) [OF ok, of it] queue_item_ok [OF ok that] that
    by (auto simp: item_ok_def)
  have ds: "set ?ds = {d. recorded (rq_engine q) d}" "distinct (map decision_id ?ds)"
    by (simp_all add: map_snd_snapshot [OF ok] all_decisions_ids [OF a] distinct_map_sort del: map_map)
  have new: "inst_at e1 (decision_id d) = None" if d: "recorded (rq_engine q) d" for d
  proof -
    have "decision_id d \<noteq> fp_flow_id p" if p: "p \<in> set ?ps" for p
    proof -
      obtain it where it: "p = qi_prediction it" "it \<in> set (map snd (rq_items q))" using p by auto
      then obtain f where "tbl_get (rq_items q) f = Some it" using item_flows(2) [OF ok] by blast
      with it have "inst_at (rq_engine q) (fp_flow_id p) = Some (prediction_instance p)"
        using queue_item_ok [OF ok] by (auto simp: item_ok_def)
      then show ?thesis using d by (auto simp: recorded_def)
    qed
    then show ?thesis using e1(5) [of "decision_id d"] e0(3) by auto
  qed
  have tgt: "\<exists>p. inst_at e1 (ad_flow_id d) = Some (prediction_instance p)" if "recorded (rq_engine q) d" for d
    using ok that known unfolding queue_ok_def by (metis not_None_eq)
  have "\<forall>d \<in> set ?ds. inst_at e1 (decision_id d) = None"
    "\<forall>d \<in> set ?ds. \<exists>p. inst_at e1 (ad_flow_id d) = Some (prediction_instance p)"
    unfolding ds(1) using new tgt by blast+
  from replay_decisions_ok [OF e1(2) ds(2) this] obtain e2 where e2: "replay_decisions e1 ?ds = Inr e2" "audit_ok e2"
      "\<And>d. recorded e2 d \<longleftrightarrow> recorded e1 d \<or> d \<in> set ?ds" "\<And>k. inst_at e1 k \<noteq> None \<Longrightarrow> inst_at e2 k = inst_at e1 k"
    by blast
  have "recorded e2 d \<longleftrightarrow> recorded (rq_engine q) d" for d
    unfolding e2(3) e1(3) ds(1) using e0(3) by (simp add: recorded_def)
  moreover have "inst_at e2 f = Some (prediction_instance (qi_prediction it))" if "tbl_get (rq_items q) f = Some it" for f it
    using e2(4) [of f] known [OF that] by simp
  ultimately show thesis
    using e2(2) by (intro that [of e2]) (simp_all add: rehydrate_def e0(1) e1(1) e2(1))
qed

lemma rehydrate_ok:
  assumes ok: "queue_ok q"
  shows "\<exists>e. rehydrate (trigger_cfg q) (rq_sla_policy q) (rq_items q) (snapshot_decisions q) (decision_seq q)
      = Inr (q\<lparr>rq_engine := e\<rparr>) \<and> queue_ok (q\<lparr>rq_engine := e\<rparr>)
    \<and> (\<forall>f. decisions_for_flow e f = decisions_for_flow (rq_engine q) f)"
proof (rule rehydrate_engine [OF ok, of "trigger_cfg q" "rq_sla_policy q" "decision_seq q"])
  fix e
  assume r: "rehydrate (trigger_cfg q) (rq_sla_policy q) (rq_items q) (snapshot_decisions q) (decision_seq q) =
      Inr \<lparr>rq_engine = e, rq_items = rq_items q, trigger_cfg = trigger_cfg q, rq_sla_policy = rq_sla_policy q,
        decision_seq = decision_seq q\<rparr>"
    and a: "audit_ok e" and rec: "\<And>d. recorded e d \<longleftrightarrow> recorded (rq_engine q) d"
    and inst: "\<And>f it. tbl_get (rq_items q) f = Some it \<Longrightarrow> inst_at e f = Some (prediction_instance (qi_prediction it))"
  have "item_ok (q\<lparr>rq_engine := e\<rparr>) f it" if "tbl_get (rq_items q) f = Some it" for f it
    using queue_item_ok [OF ok that] inst [OF that] by (simp add: item_ok_def rec)
  then have "queue_ok (q\<lparr>rq_engine := e\<rparr>)" using ok a by (simp add: queue_ok_def rec)
  moreover have "decisions_for_flow e f = decisions_for_flow (rq_engine q) f" for f
  proof -
    obtain od where od: "{d. recorded (rq_engine q) d \<and> ad_flow_id d = f} = set_option od"
      using sole_decision [OF ok] by blast
    then have od': "{d. recorded e d \<and> ad_flow_id d = f} = set_option od" by (simp only: rec)
    have "audit_ok (rq_engine q)" using ok by (simp add: queue_ok_def)
    from audit.entries_sole [OF this od] audit.entries_sole [OF a od'] show ?thesis by (simp only:)
  qed
  ultimately show ?thesis using r by (intro exI [of _ e]) simp
qed

section \<open>Runs\<close>

datatype rq_op =
    Ingest timestamp flow_prediction
  | Claim timestamp string string
  | Decide timestamp string string verdict string
  | Sweep timestamp "nat \<Rightarrow> timestamp" int
  | Restart

text \<open>A restart loads what was saved; a load that failed would keep the old process out of
  service, but it cannot fail (\<open>save_load\<close>).\<close>

definition restart :: "review_queue \<Rightarrow> review_queue" where
  "restart q = (case rehydrate (trigger_cfg q) (rq_sla_policy q) (rq_items q) (snapshot_decisions q) (decision_seq q) of
     Inl _ \<Rightarrow> q | Inr q' \<Rightarrow> q')"

definition sweep_state :: "review_queue \<Rightarrow> timestamp \<Rightarrow> (nat \<Rightarrow> timestamp) \<Rightarrow> int \<Rightarrow> review_queue" where
  "sweep_state q now clk sla = fst (snd (sweep_expired_with_sink q now clk sla null_sink ()))"

fun rq_step :: "review_queue \<Rightarrow> rq_op \<Rightarrow> review_queue" where
  "rq_step q (Ingest now p) = snd (ingest q now p)"
| "rq_step q (Claim now f who) = snd (claim q now f who)"
| "rq_step q (Decide now f who v why) = snd (record_decision q now f who v why)"
| "rq_step q (Sweep now clk sla) = sweep_state q now clk sla"
| "rq_step q Restart = restart q"

lemma sweep_state_eq: "sweep_state q now clk sla = snd (sweep_loop q clk 0 sla (expired_flows q (wrap_i64 (now - sla))))"
  by (auto simp: sweep_state_def sweep_expired_with_sink_def split: prod.split sum.split)

lemma restart_ok: "queue_ok q \<Longrightarrow> queue_ok (restart q) \<and> trigger_cfg (restart q) = trigger_cfg q \<and> rq_sla_policy (restart q) = rq_sla_policy q"
  using rehydrate_ok [of q] by (auto simp: restart_def)

lemma step_keeps_cfg:
  "trigger_cfg (snd (ingest q now p)) = trigger_cfg q \<and> rq_sla_policy (snd (ingest q now p)) = rq_sla_policy q"
  "trigger_cfg (snd (claim q now f who)) = trigger_cfg q \<and> rq_sla_policy (snd (claim q now f who)) = rq_sla_policy q"
  "trigger_cfg (snd (record_decision q now f who v why)) = trigger_cfg q
    \<and> rq_sla_policy (snd (record_decision q now f who v why)) = rq_sla_policy q"
    apply (simp add: ingest_def Let_def snd_map_result resolve_keeps split: sum.split option.split)
   apply (simp add: claim_def split: option.split review_state.split)
  apply (simp add: record_decision_def resolve_keeps split: option.split)
  done

lemma rq_step_ok:
  assumes "queue_ok q"
  shows "queue_ok (rq_step q a) \<and> trigger_cfg (rq_step q a) = trigger_cfg q \<and> rq_sla_policy (rq_step q a) = rq_sla_policy q"
  using assms
  by (cases a) (simp_all add: ingest_ok claim_ok record_decision_ok restart_ok step_keeps_cfg sweep_state_eq
      sweep_loop_inv expired_flows_open)

lemma rq_run_ok:
  assumes "queue_new cfg pol = Inr q0"
  shows "queue_ok (foldl rq_step q0 ops) \<and> trigger_cfg (foldl rq_step q0 ops) = cfg \<and> rq_sla_policy (foldl rq_step q0 ops) = pol"
  by (rule foldl_inv) (use rq_step_ok queue_new_ok [OF assms] in auto)

lemma queue_new_succeeds: "\<exists>q0. queue_new cfg pol = Inr q0"
  using register_ok by (auto simp: queue_new_def)

section \<open>Properties\<close>


definition sample_cfg :: trigger_config where
  "sample_cfg = \<lparr>benign_label = ''Benign'', min_attack_confidence = Fin (7 / 8), min_margin = Fin (1 / 8),
     min_benign_confidence = Fin (3 / 4)\<rparr>"

definition sample_flow :: "string \<Rightarrow> f64 \<Rightarrow> flow_prediction" where
  "sample_flow f c = \<lparr>fp_flow_id = f, predicted_label = ''DoS'', fp_confidence = c, runner_up_label = None,
     runner_up_confidence = None, is_out_of_distribution = False, observed_at = 5\<rparr>"

definition sample_queue :: review_queue where
  "sample_queue = projr (queue_new sample_cfg FailSafe)"

lemma sample_queue_new: "queue_new sample_cfg FailSafe = Inr sample_queue"
  using queue_new_succeeds [of sample_cfg FailSafe] by (auto simp: sample_queue_def)

definition sample_approval :: "rq_op list" where
  "sample_approval = [Ingest 9 (sample_flow ''f'' (Fin 0)), Decide 10 ''f'' ''ann'' ExecuteContainment ''seen'']"

lemmas rq_unfold = sample_queue_def queue_new_def register_def register_object_type_def register_link_type_def
  ontology_new_def schema_builds schema_names tbl_get_def tbl_insert_def tbl_get_or_def ingest_def record_prediction_def
  create_object_instance_def validate_properties_def prediction_instance_def decision_instance_def map_filter_simps
  evaluate_def margin_def sample_flow_def sample_cfg_def record_decision_def trim_def is_space_def resolve_def
  next_decision_id_def bridge_record_decision_def create_link_def insert_link_def idx_insert_def hs_insert_def
  review_link_def to_millis_def flt_clamp_def Let_def

lemma show_nat_0: "show_nat 0 = ''0''"
  by code_simp

lemma sample_approved: "containment_decision (foldl rq_step sample_queue sample_approval) ''f'' = Approved ''dec-f-0''"
  using parse_show_verdict [of ExecuteContainment]
  by (simp add: sample_approval_def rq_unfold show_nat_0 containment_decision_def check_def decisions_for_flow_def
      traverse_def decision_from_instance_def get_str_def get_int_def)


text \<open>C14: The audit trail has at most one decision per flow, none while the flow is waiting for a
  human, so the gate never sees contradictory decisions.\<close>

theorem one_decision_per_flow:
  assumes "queue_new cfg pol = Inr q0"
  shows "length (decisions_for_flow (rq_engine (foldl rq_step q0 ops)) f) \<le> 1
    \<and> containment_decision (foldl rq_step q0 ops) f \<noteq> Conflicting ids
    \<and> (\<forall>it. tbl_get (rq_items (foldl rq_step q0 ops)) f = Some it \<longrightarrow>
         (is_open (qi_state it) \<longleftrightarrow> decisions_for_flow (rq_engine (foldl rq_step q0 ops)) f = []))"
  using decisions_sole [of "foldl rq_step q0 ops" f] rq_run_ok [OF assms, of ops]
  by (auto simp: containment_decision_def check_def Let_def is_open_decided split: if_splits)

theorem one_decision_per_flow_witness:
  "length (decisions_for_flow (rq_engine (foldl rq_step sample_queue
      [Ingest 9 (sample_flow ''f'' (Fin 0)), Decide 10 ''f'' ''ann'' Dismiss ''scan'', Decide 11 ''f'' ''bob'' ExecuteContainment ''no''])) ''f'') \<le> 1"
  using one_decision_per_flow [OF sample_queue_new] by blast

text \<open> A sweep that succeeds resolves exactly the open items that are past their deadline, reports
  each of them once and in order to the alert sink, and leaves every other item alone; under the
  fail-safe policy none of its verdicts is to contain.\<close>

theorem sweep_complete:
  assumes "queue_new cfg pol = Inr q0" and q: "q = foldl rq_step q0 ops"
    and s: "sweep_expired_with_sink q now clk sla sink w = (Inr bs, q', w')"
  shows "map (fp_flow_id \<circ> br_prediction) bs = expired_flows q (wrap_i64 (now - sla)) \<and> w' = fold sink bs w
    \<and> (\<forall>f it. tbl_get (rq_items q) f = Some it \<longrightarrow>
         (if expired (wrap_i64 (now - sla)) it
          then \<exists>k. tbl_get (rq_items q') f = Some (it\<lparr>qi_state := Resolved k\<rparr>)
          else tbl_get (rq_items q') f = Some it))
    \<and> (pol = FailSafe \<longrightarrow> (\<forall>b \<in> set bs. ad_verdict (br_decision b) = Dismiss))"
proof -
  let ?c = "wrap_i64 (now - sla)"
  have ok: "queue_ok q" and pol: "rq_sla_policy q = pol" using rq_run_ok [OF assms(1), of ops] by (simp_all add: q)
  have l: "sweep_loop q clk 0 sla (expired_flows q ?c) = (Inr bs, q')" and w: "w' = fold sink bs w"
    using s by (auto simp: sweep_expired_with_sink_def split: prod.splits sum.splits)
  note r = sweep_loop_Inr [OF expired_flows_open(1) [OF ok] l]
  have id: "map (\<lambda>f. fp_flow_id (qi_prediction (the (tbl_get (rq_items q) f)))) (expired_flows q ?c) = expired_flows q ?c"
    by (rule map_idI) (use expired_flows_open(2) [OF ok] queue_item_ok [OF ok] in \<open>auto simp: item_ok_def\<close>)
  have items: "if expired ?c it then \<exists>k. tbl_get (rq_items q') f = Some (it\<lparr>qi_state := Resolved k\<rparr>)
      else tbl_get (rq_items q') f = Some it" if "tbl_get (rq_items q) f = Some it" for f it
  proof (cases "f \<in> set (expired_flows q ?c)")
    case True
    then have "expired ?c it" using that expired_flows_open(2) [OF ok, of f ?c] by simp
    moreover have "\<exists>k. tbl_get (rq_items q') f = Some (it\<lparr>qi_state := Resolved k\<rparr>)"
      using r [THEN conjunct2, THEN conjunct1, rule_format, OF True] that by auto
    ultimately show ?thesis by simp
  next
    case False
    then have "\<not> expired ?c it" using that expired_flows_open(2) [OF ok, of f ?c] by simp
    then show ?thesis
      using r [THEN conjunct2, THEN conjunct2, THEN conjunct1, rule_format, OF False] that by simp
  qed
  have "\<forall>b \<in> set bs. ad_verdict (br_decision b) = Dismiss" if "pol = FailSafe"
    using r that by (simp add: pol sla_outcome_def)
  moreover have "map (fp_flow_id \<circ> br_prediction) bs = expired_flows q ?c" using r id by (simp only:)
  ultimately show ?thesis using items w by blast
qed

theorem sweep_complete_witness:
  "\<exists>bs q' w'. sweep_expired_with_sink (foldl rq_step sample_queue [Ingest 9 (sample_flow ''f'' (Fin 0))]) 100 (\<lambda>_. 100) 60
      logging_sink [] = (Inr bs, q', w')
    \<and> map (fp_flow_id \<circ> br_prediction) bs = [''f''] \<and> w' = fold logging_sink bs []"
proof -
  let ?q = "foldl rq_step sample_queue [Ingest 9 (sample_flow ''f'' (Fin 0))]"
  obtain bs q' w' where s: "sweep_expired_with_sink ?q 100 (\<lambda>_. 100) 60 logging_sink [] = (Inr bs, q', w')"
  proof -
    have "\<not> isl (fst (sweep_expired_with_sink ?q 100 (\<lambda>_. 100) 60 logging_sink []))"
      by (simp add: rq_unfold show_nat_0 sweep_expired_with_sink_def expired_flows_def expired_def wrap_i64_def
          resolve_expired_def sla_outcome_def)
    then show thesis using that
      by (cases "sweep_expired_with_sink ?q 100 (\<lambda>_. 100) 60 logging_sink []") (auto simp: isl_def, metis sum.exhaust)
  qed
  have "expired_flows ?q (wrap_i64 (100 - 60)) = [''f'']"
    by (simp add: rq_unfold expired_flows_def expired_def wrap_i64_def)
  moreover have "map (fp_flow_id \<circ> br_prediction) bs = expired_flows ?q (wrap_i64 (100 - 60))" "w' = fold logging_sink bs []"
    using sweep_complete [OF sample_queue_new refl s] by (simp_all only:)
  ultimately show ?thesis using s by (intro exI conjI) (assumption | simp only:)+
qed



text \<open>Predictions and decisions share the graph's identifiers.  A flow named like the next decision of
  another flow makes that flow's ingest fail after its prediction was written, and every later
  attempt fails as well.\<close>

theorem ingest_wedged:
  assumes ok: "queue_ok q" and new: "tbl_get (rq_items q) (fp_flow_id p) = None" "inst_at (rq_engine q) (fp_flow_id p) = None"
    and clear: "evaluate p (trigger_cfg q) = None"
    and taken: "inst_at (rq_engine q) (fst (next_decision_id q (fp_flow_id p))) \<noteq> None"
  shows "fst (ingest q now p) = Inl (OntologyErr (DuplicateInstance (fst (next_decision_id q (fp_flow_id p)))))
    \<and> fst (ingest (snd (ingest q now p)) now' p) = Inl (OntologyErr (DuplicateInstance (fp_flow_id p)))"
proof -
  let ?k = "fst (next_decision_id q (fp_flow_id p))"
  have a: "audit_ok (rq_engine q)" using ok by (simp add: queue_ok_def)
  obtain e where e: "record_prediction (rq_engine q) p = Inr e" using new(2) by (simp add: record_prediction_eq [OF a])
  note r = record_prediction_ok [OF a e]
  have "?k \<noteq> fp_flow_id p" by (rule notI, drule arg_cong [of _ _ length]) (simp add: next_decision_id_def)
  then have dup: "inst_at e ?k \<noteq> None" using taken by (simp add: r(2))
  have res: "resolve (q\<lparr>rq_engine := e\<rparr>) (fp_flow_id p) dec item =
      (Inl (OntologyErr (DuplicateInstance ?k)), q\<lparr>decision_seq := decision_seq q + 1, rq_engine := e\<rparr>)"
    if "decision_id (dec ?k) = ?k" for dec :: "string \<Rightarrow> audit_decision" and item
    using bridge_record_dup [OF r(1), of "dec ?k"] dup that by (simp add: resolve_def next_decision_id_def)
  have i: "ingest q now p = (Inl (OntologyErr (DuplicateInstance ?k)), q\<lparr>decision_seq := decision_seq q + 1, rq_engine := e\<rparr>)"
    by (simp add: ingest_def new e clear res Let_def)
  have "inst_at e (fp_flow_id p) \<noteq> None" by (simp add: r(2))
  then have "record_prediction e p = Inl (DuplicateInstance (fp_flow_id p))"
    by (simp add: record_prediction_eq [OF r(1)])
  then show ?thesis unfolding i by (simp add: ingest_def new)
qed

end
