(* ===== verification/Siem_Response.thy ===== *)
theory Siem_Response
  imports ASD_Prelude Text
begin

text \<open>
  The data model of the SIEM (\<^verbatim>\<open>siem-core\<close>) and its active response policy (\<^verbatim>\<open>siem-response\<close>): the
  guards in front of an action, the rate limit and the memory of active blocks.  The action is a
  parameter that reports success and changes the world it acts on; the clock readings of a call
  are its arguments.
\<close>

section \<open>The data model\<close>

datatype siem_severity = SInfo | SLow | SMedium | SHigh | SCritical

instantiation siem_severity :: linorder
begin

fun siem_rank :: "siem_severity \<Rightarrow> nat" where
  "siem_rank SInfo = 0" | "siem_rank SLow = 1" | "siem_rank SMedium = 2" | "siem_rank SHigh = 3" | "siem_rank SCritical = 4"

definition less_eq_siem_severity :: "siem_severity \<Rightarrow> siem_severity \<Rightarrow> bool" where
  "less_eq_siem_severity a b \<longleftrightarrow> siem_rank a \<le> siem_rank b"

definition less_siem_severity :: "siem_severity \<Rightarrow> siem_severity \<Rightarrow> bool" where
  "less_siem_severity a b \<longleftrightarrow> siem_rank a < siem_rank b"

instance
proof
  fix x y :: siem_severity
  show "x \<le> y \<Longrightarrow> y \<le> x \<Longrightarrow> x = y"
    by (cases x; cases y) (simp_all add: less_eq_siem_severity_def)
qed (auto simp: less_eq_siem_severity_def less_siem_severity_def)

end

datatype event_kind =
    Log (log_source: string) (log_message: string)
  | Flow (flow_src_ip: string) (flow_dst_ip: string) (flow_src_port: u16) (flow_dst_port: u16) (flow_proto: u8)
      (duration_ms: u64) (bytes_src_to_dst: u64) (bytes_dst_to_src: u64) (flow_packets: u64) (flow_flags: string)
  | FileIntegrity (fi_path: string) (fi_change: string) (hash_before: "string option") (hash_after: "string option")

record siem_event =
  se_id :: u64
  se_timestamp_ms :: u64
  se_host :: string
  se_agent_id :: string
  se_kind :: event_kind
  se_fields :: "(string, string) tbl"

record siem_alert =
  sa_id :: u64
  sa_timestamp_ms :: u64
  sa_rule_id :: string
  sa_title :: string
  sa_severity :: siem_severity
  sa_mitre :: "string option"
  sa_source_events :: "u64 list"
  sa_context :: "(string, string) tbl"

section \<open>The response policy\<close>

record response_policy =
  min_severity :: siem_severity
  rp_allowlist :: "string list"
  max_actions_per_window :: u32
  rp_window :: duration
  recent_actions :: "instant list"
  active_blocks :: "(string, instant) tbl"
  block_duration :: duration

definition policy_new :: "siem_severity \<Rightarrow> string list \<Rightarrow> response_policy" where
  "policy_new sev allow = \<lparr>min_severity = sev, rp_allowlist = allow, max_actions_per_window = 10, rp_window = from_secs 60,
     recent_actions = [], active_blocks = [], block_duration = from_secs (15 * 60)\<rparr>"

definition rate_limited :: "response_policy \<Rightarrow> instant \<Rightarrow> bool \<times> response_policy" where
  "rate_limited p now =
     (let recent = filter (\<lambda>t. duration_since now t < rp_window p) (recent_actions p)
      in (max_actions_per_window p \<le> of_nat (length recent), p\<lparr>recent_actions := recent\<rparr>))"

type_synonym 'w response_action = "siem_alert \<Rightarrow> string \<Rightarrow> 'w \<Rightarrow> bool \<times> 'w"

text \<open>\<open>t0\<close> is the reading of the rate check, \<open>t1\<close> and \<open>t2\<close> those after the action.\<close>

definition policy_handle :: "response_policy \<Rightarrow> instant \<Rightarrow> instant \<Rightarrow> instant \<Rightarrow> 'w response_action \<Rightarrow> siem_alert \<Rightarrow> string \<Rightarrow> 'w \<Rightarrow>
    (string + unit) \<times> response_policy \<times> 'w" where
  "policy_handle p t0 t1 t2 action alert ip w =
     (if sa_severity alert < min_severity p then (Inl ''below minimum severity for automated response'', p, w)
      else if ip \<in> set (rp_allowlist p) then (Inl ''target is allowlisted; escalate to human review'', p, w)
      else if tbl_get (active_blocks p) ip \<noteq> None then (Inl ''already actioned; skipping duplicate'', p, w)
      else
        let (limited, p1) = rate_limited p t0
        in if limited then (Inl ''rate limit reached; escalate to human review'', p1, w)
           else case action alert ip w of
                  (True, w') \<Rightarrow> (Inr (), p1\<lparr>recent_actions := recent_actions p1 @ [t1],
                     active_blocks := tbl_insert (active_blocks p1) ip t2\<rparr>, w')
                | (False, w') \<Rightarrow> (Inl ''action executor reported failure'', p1, w'))"

definition expire_blocks :: "response_policy \<Rightarrow> instant \<Rightarrow> response_policy" where
  "expire_blocks p now = p\<lparr>active_blocks := tbl_retain (\<lambda>_ t. duration_since now t < block_duration p) (active_blocks p)\<rparr>"

definition log_only :: "(siem_alert \<times> string) list response_action" where
  "log_only alert ip out = (True, out @ [(alert, ip)])"

section \<open>Guards\<close>

text \<open>What must hold when an action is called.\<close>

definition cleared :: "response_policy \<Rightarrow> instant \<Rightarrow> siem_alert \<Rightarrow> string \<Rightarrow> bool" where
  "cleared p now alert ip \<longleftrightarrow> min_severity p \<le> sa_severity alert \<and> ip \<notin> set (rp_allowlist p)
     \<and> tbl_get (active_blocks p) ip = None \<and> \<not> fst (rate_limited p now)"

lemma policy_handle_cases:
  "cleared p t0 alert ip \<Longrightarrow> policy_handle p t0 t1 t2 action alert ip w =
     (case action alert ip w of
        (True, w') \<Rightarrow> (Inr (), (snd (rate_limited p t0))\<lparr>recent_actions := recent_actions (snd (rate_limited p t0)) @ [t1],
           active_blocks := tbl_insert (active_blocks p) ip t2\<rparr>, w')
      | (False, w') \<Rightarrow> (Inl ''action executor reported failure'', snd (rate_limited p t0), w'))"
  "\<not> cleared p t0 alert ip \<Longrightarrow> \<exists>why. fst (policy_handle p t0 t1 t2 action alert ip w) = Inl why
     \<and> snd (snd (policy_handle p t0 t1 t2 action alert ip w)) = w"
  by (auto simp: cleared_def policy_handle_def rate_limited_def Let_def not_le split: prod.splits bool.splits)

lemma rate_limited_fields [simp]:
  "min_severity (snd (rate_limited p t)) = min_severity p" "rp_allowlist (snd (rate_limited p t)) = rp_allowlist p"
  "max_actions_per_window (snd (rate_limited p t)) = max_actions_per_window p" "rp_window (snd (rate_limited p t)) = rp_window p"
  "active_blocks (snd (rate_limited p t)) = active_blocks p" "block_duration (snd (rate_limited p t)) = block_duration p"
  "recent_actions (snd (rate_limited p t)) = filter (\<lambda>s. duration_since t s < rp_window p) (recent_actions p)"
  by (simp_all add: rate_limited_def Let_def)

section \<open>Runs\<close>

datatype rp_op = Respond instant instant instant siem_alert string | Expire instant

text \<open>The third component records the actions that were taken, with their times.\<close>

fun rp_step :: "'w response_action \<Rightarrow> response_policy \<times> 'w \<times> (instant \<times> siem_alert \<times> string) list \<Rightarrow> rp_op \<Rightarrow>
    response_policy \<times> 'w \<times> (instant \<times> siem_alert \<times> string) list" where
  "rp_step act (p, w, taken) (Respond t0 t1 t2 alert ip) =
     (case policy_handle p t0 t1 t2 act alert ip w of
        (Inl _, p', w') \<Rightarrow> (p', w', taken)
      | (Inr _, p', w') \<Rightarrow> (p', w', taken @ [(t1, alert, ip)]))"
| "rp_step act (p, w, taken) (Expire now) = (expire_blocks p now, w, taken)"

fun op_times :: "rp_op \<Rightarrow> instant list" where
  "op_times (Respond t0 t1 t2 _ _) = [t0, t1, t2]"
| "op_times (Expire now) = [now]"

definition recent_at :: "duration \<Rightarrow> instant \<Rightarrow> instant list \<Rightarrow> instant list" where
  "recent_at win now ts = filter (\<lambda>t. now < t + win \<and> t \<le> now) ts"

text \<open>\<open>ts\<close> are the times of all actions so far, up to \<open>T\<close>: the policy remembers those that count.\<close>

definition rate_ok :: "duration \<Rightarrow> nat \<Rightarrow> instant \<Rightarrow> instant list \<Rightarrow> instant list \<Rightarrow> bool" where
  "rate_ok win n T recent ts \<longleftrightarrow> (\<forall>t \<in> set ts. t \<le> T) \<and> set recent \<subseteq> set ts \<and> length recent \<le> n
     \<and> recent_at win T ts = recent_at win T recent \<and> (\<forall>t \<in> set ts. length (recent_at win t ts) \<le> n)"

definition response_ok :: "response_policy \<Rightarrow> instant \<Rightarrow> response_policy \<times> 'w \<times> (instant \<times> siem_alert \<times> string) list \<Rightarrow> bool" where
  "response_ok p0 T = (\<lambda>(p, w, taken).
     min_severity p = min_severity p0 \<and> rp_allowlist p = rp_allowlist p0
     \<and> max_actions_per_window p = max_actions_per_window p0 \<and> rp_window p = rp_window p0
     \<and> (\<forall>x \<in> set taken. min_severity p0 \<le> sa_severity (fst (snd x)) \<and> snd (snd x) \<notin> set (rp_allowlist p0))
     \<and> rate_ok (rp_window p0) (unat (max_actions_per_window p0)) T (recent_actions p) (map fst taken))"

lemma recent_at_later:
  assumes "T \<le> T'" "\<forall>t \<in> set ts. t \<le> T"
  shows "recent_at win T' ts = filter (\<lambda>t. T' < t + win) (recent_at win T ts)"
  using assms unfolding recent_at_def filter_filter by (intro filter_cong) auto

lemma recent_filter:
  assumes "\<forall>t \<in> set ts. t \<le> T"
  shows "filter (\<lambda>s. duration_since T s < win) ts = recent_at win T ts"
  using assms unfolding recent_at_def by (intro filter_cong) (auto simp: duration_since_def)

lemma rate_ok_later:
  assumes ok: "rate_ok win n T recent ts" and T: "T \<le> T'"
  shows "rate_ok win n T' recent ts"
proof -
  have ts: "\<forall>t \<in> set ts. t \<le> T" and us: "\<forall>t \<in> set recent. t \<le> T" using ok by (auto simp: rate_ok_def)
  have "recent_at win T' ts = recent_at win T' recent"
    unfolding recent_at_later [OF T ts] recent_at_later [OF T us] using ok by (simp add: rate_ok_def)
  moreover have "\<forall>t \<in> set ts. t \<le> T'" using ts T by force
  ultimately show ?thesis using ok unfolding rate_ok_def by blast
qed

lemma taken_ok_snoc:
  assumes old: "\<forall>t \<in> set ts. t \<le> T" "\<forall>t \<in> set ts. length (recent_at win t ts) \<le> n" "T \<le> T'"
    and new: "length (recent_at win T' (ts @ [T'])) \<le> n"
  shows "\<forall>t \<in> set (ts @ [T']). length (recent_at win t (ts @ [T'])) \<le> n"
proof
  fix t assume t: "t \<in> set (ts @ [T'])"
  show "length (recent_at win t (ts @ [T'])) \<le> n"
  proof (cases "t = T'")
    case False
    then have "t \<in> set ts" "t < T'" using t old(1,3) by force+
    then have "recent_at win t (ts @ [T']) = recent_at win t ts" by (simp add: recent_at_def)
    then show ?thesis using old(2) \<open>t \<in> set ts\<close> by simp
  qed (use new in simp)
qed

text \<open>Pruning at a check and recording an action that passed it.\<close>

lemma rate_ok_prune:
  assumes ok: "rate_ok win n T recent ts"
  shows "rate_ok win n T (filter (\<lambda>s. duration_since T s < win) recent) ts"
proof -
  have "\<forall>t \<in> set recent. t \<le> T" using ok by (auto simp: rate_ok_def)
  then have f: "filter (\<lambda>s. duration_since T s < win) recent = recent_at win T recent" by (rule recent_filter)
  have "recent_at win T (recent_at win T recent) = recent_at win T recent" by (simp add: recent_at_def)
  moreover have "length (recent_at win T recent) \<le> length recent" by (simp add: recent_at_def)
  moreover have "set (recent_at win T recent) \<subseteq> set recent" by (auto simp: recent_at_def)
  ultimately show ?thesis using ok unfolding rate_ok_def f by auto
qed

lemma rate_ok_snoc:
  assumes ok: "rate_ok win n T recent ts" and room: "length recent < n" and T: "T \<le> T'"
  shows "rate_ok win n T' (recent @ [T']) (ts @ [T'])"
proof -
  have ok': "rate_ok win n T' recent ts" using ok T by (rule rate_ok_later)
  have eq: "recent_at win T' (ts @ [T']) = recent_at win T' (recent @ [T'])"
    using ok' by (simp add: rate_ok_def recent_at_def)
  have "length (recent_at win T' (recent @ [T'])) \<le> n"
    using room length_filter_le [of "\<lambda>t. T' < t + win \<and> t \<le> T'" "recent @ [T']"]
    unfolding recent_at_def by (simp del: filter_append length_filter_le)
  then have "\<forall>t \<in> set (ts @ [T']). length (recent_at win t (ts @ [T'])) \<le> n"
    using ok T by (intro taken_ok_snoc [of ts T]) (auto simp: eq rate_ok_def)
  moreover have "\<forall>t \<in> set (ts @ [T']). t \<le> T'" "set (recent @ [T']) \<subseteq> set (ts @ [T'])" "length (recent @ [T']) \<le> n"
    using ok' room by (auto simp: rate_ok_def)
  ultimately show ?thesis using eq unfolding rate_ok_def by blast
qed

lemma not_limited_room:
  assumes "\<not> fst (rate_limited p t)" "length (recent_actions p) \<le> unat (max_actions_per_window p)"
  shows "length (filter (\<lambda>s. duration_since t s < rp_window p) (recent_actions p)) < unat (max_actions_per_window p)"
proof -
  let ?n = "length (filter (\<lambda>s. duration_since t s < rp_window p) (recent_actions p))"
  have "?n \<le> unat (max_actions_per_window p)" using assms(2) length_filter_le le_trans by blast
  then have "unat (of_nat ?n :: u32) = ?n"
  proof -
    have "unat (max_actions_per_window p) < 2 ^ LENGTH(32)" by (rule unsigned_less)
    then show ?thesis using \<open>?n \<le> _\<close> by (simp add: unat_of_nat)
  qed
  then show ?thesis using assms(1) by (simp add: rate_limited_def Let_def not_le word_less_nat_alt)
qed

lemma rp_step_ok:
  assumes ok: "response_ok p0 T s" and times: "sorted (T # op_times a)"
  shows "response_ok p0 (last (op_times a)) (rp_step act s a)"
proof -
  obtain p w taken where s: "s = (p, w, taken)" by (cases s)
  have cfg: "min_severity p = min_severity p0" "rp_allowlist p = rp_allowlist p0"
      "max_actions_per_window p = max_actions_per_window p0" "rp_window p = rp_window p0"
    and tk: "\<forall>x \<in> set taken. min_severity p0 \<le> sa_severity (fst (snd x)) \<and> snd (snd x) \<notin> set (rp_allowlist p0)"
    and rate: "rate_ok (rp_window p0) (unat (max_actions_per_window p0)) T (recent_actions p) (map fst taken)"
    using ok by (auto simp: response_ok_def s)
  show ?thesis
  proof (cases a)
    case (Expire now)
    then show ?thesis using cfg tk rate_ok_later [OF rate, of now] times by (simp add: s response_ok_def expire_blocks_def)
  next
    case (Respond t0 t1 t2 alert ip)
    have t: "T \<le> t0" "t0 \<le> t1" "t1 \<le> t2" using times by (auto simp: Respond)
    define recent where "recent = filter (\<lambda>s. duration_since t0 s < rp_window p) (recent_actions p)"
    have r0: "rate_ok (rp_window p0) (unat (max_actions_per_window p0)) t0 recent (map fst taken)"
      using rate_ok_prune [OF rate_ok_later [OF rate t(1)]] by (simp add: recent_def cfg)
    have keep: "rate_ok (rp_window p0) (unat (max_actions_per_window p0)) t2 (recent_actions p) (map fst taken)"
      "rate_ok (rp_window p0) (unat (max_actions_per_window p0)) t2 recent (map fst taken)"
      using rate_ok_later [OF rate, of t2] rate_ok_later [OF r0, of t2] t by simp_all
    show ?thesis
    proof (cases "cleared p t0 alert ip")
      case False
      then have "\<exists>p' why. policy_handle p t0 t1 t2 act alert ip w = (Inl why, p', w) \<and> p' \<in> {p, snd (rate_limited p t0)}"
        by (auto simp: policy_handle_def cleared_def Let_def not_le split: prod.splits if_splits)
      then show ?thesis using cfg tk keep by (auto simp: s Respond response_ok_def recent_def)
    next
      case True
      have "length recent < unat (max_actions_per_window p0)"
        using not_limited_room [of p t0] True rate cfg by (simp add: cleared_def rate_ok_def recent_def)
      then have new: "rate_ok (rp_window p0) (unat (max_actions_per_window p0)) t2 (recent @ [t1]) (map fst taken @ [t1])"
        using rate_ok_later [OF rate_ok_snoc [OF r0 _ t(2)] t(3)] by simp
      show ?thesis
        using cfg tk keep new True policy_handle_cases(1) [OF True, of t1 t2 act w]
        by (cases "act alert ip w") (auto simp: s Respond response_ok_def recent_def cleared_def split: bool.splits)
    qed
  qed
qed

lemma rp_run_ok:
  assumes "sorted (concat (map op_times ops))"
  shows "response_ok (policy_new sev allow) (last (0 # concat (map op_times ops))) (foldl (rp_step act) (policy_new sev allow, w, []) ops)"
  using assms
proof (induction ops rule: rev_induct)
  case Nil
  show ?case by (simp add: response_ok_def rate_ok_def recent_at_def policy_new_def)
next
  case (snoc a ops)
  let ?T = "last (0 # concat (map op_times ops))"
  have srt: "sorted (concat (map op_times ops) @ op_times a)" using snoc.prems by simp
  have ne: "op_times a \<noteq> []" by (cases a) simp_all
  have "?T \<le> x" if "x \<in> set (op_times a)" for x
  proof (cases "concat (map op_times ops) = []")
    case True
    then show ?thesis by (simp only: last.simps simp_thms if_True le0)
  next
    case False
    then have "?T \<in> set (concat (map op_times ops))" using last_in_set by (simp only: last.simps if_False)
    then show ?thesis using srt that unfolding sorted_append by blast
  qed
  then have "sorted (?T # op_times a)" using srt by (simp only: sorted_append sorted_simps ball_simps) blast
  moreover have "last (0 # concat (map op_times (ops @ [a]))) = last (op_times a)" using ne by simp
  ultimately show ?case using rp_step_ok [of "policy_new sev allow" ?T _ a act] snoc srt by (simp add: sorted_append)
qed


definition sample_alert :: siem_alert where
  "sample_alert = \<lparr>sa_id = 1, sa_timestamp_ms = 0, sa_rule_id = ''r'', sa_title = ''t'', sa_severity = SHigh, sa_mitre = None,
     sa_source_events = [], sa_context = []\<rparr>"


text \<open>Nothing lifts a block but \<^verbatim>\<open>expire_blocks\<close>: without it, a target that was actioned once is refused as
  a duplicate for ever.\<close>

theorem actioned_once_without_expiry:
  assumes "tbl_get (active_blocks p) ip \<noteq> None" and "\<forall>a \<in> set ops. \<exists>t0 t1 t2 al ip'. a = Respond t0 t1 t2 al ip'"
  shows "tbl_get (active_blocks (fst (foldl (rp_step act) (p, w, taken) ops))) ip \<noteq> None"
  using assms
proof (induction ops arbitrary: p w taken)
  case (Cons a ops)
  obtain t0 t1 t2 al ip' where a: "a = Respond t0 t1 t2 al ip'" using Cons.prems(2) by auto
  obtain p' w' taken' where s: "rp_step act (p, w, taken) a = (p', w', taken')" by (metis prod_cases3)
  have "tbl_get (active_blocks p') ip \<noteq> None"
    using s Cons.prems(1) unfolding a
    by (auto simp: policy_handle_def rate_limited_def Let_def split: prod.splits sum.splits if_splits bool.splits)
  then show ?case using Cons.IH Cons.prems(2) by (simp add: s)
qed simp

end
