(* ===== verification/Siem_Correlation.thy ===== *)
theory Siem_Correlation
  imports ASD_Prelude Floats
begin

text \<open>
  The correlation engine (\<^verbatim>\<open>active-siem/crates/siem-correlation\<close>): the events of the three lanes,
  the per-host record, the emission rule, the sweep and the capacity limit.  The engine task is
  the only writer of its state, so an event or a sweep is one step.  The tokio channels are
  parameters: whether a send was accepted is an input of the step.
\<close>

section \<open>Events and verdicts\<close>

datatype corr_protocol = CTcp | CUdp | CIcmp | COther u8

record corr_flow =
  cf_src_ip :: ipaddr
  cf_dst_ip :: ipaddr
  cf_src_port :: u16
  cf_dst_port :: u16
  cf_protocol :: corr_protocol

datatype corr_severity = CLow | CMedium | CHigh | CCritical

instantiation corr_severity :: linorder
begin

fun sev_rank :: "corr_severity \<Rightarrow> nat" where
  "sev_rank CLow = 0" | "sev_rank CMedium = 1" | "sev_rank CHigh = 2" | "sev_rank CCritical = 3"

definition less_eq_corr_severity :: "corr_severity \<Rightarrow> corr_severity \<Rightarrow> bool" where
  "less_eq_corr_severity a b \<longleftrightarrow> sev_rank a \<le> sev_rank b"

definition less_corr_severity :: "corr_severity \<Rightarrow> corr_severity \<Rightarrow> bool" where
  "less_corr_severity a b \<longleftrightarrow> sev_rank a < sev_rank b"

instance
proof
  fix x y :: corr_severity
  show "x \<le> y \<Longrightarrow> y \<le> x \<Longrightarrow> x = y"
    by (cases x; cases y) (simp_all add: less_eq_corr_severity_def)
qed (auto simp: less_eq_corr_severity_def less_corr_severity_def)

end

datatype lane_source = LaneXdp | LaneClamAv | LaneSpectral

datatype lane_detail =
    DXdp corr_flow string bool
  | DClamAv string string bool
  | DSpectral corr_flow f64 f64

record corr_event =
  ev_host :: ipaddr
  ev_source :: lane_source
  ev_severity :: corr_severity
  ev_confidence :: f32
  ev_observed_at :: instant
  ev_detail :: lane_detail

datatype corr_reason = MultiLaneCorroboration | SingleLaneCritical

record corr_verdict =
  v_host :: ipaddr
  v_severity :: corr_severity
  v_confidence :: f32
  v_sources :: "lane_source list"
  v_evidence :: "corr_event list"
  v_reason :: corr_reason
  v_first_seen :: instant
  v_decided_at :: instant

record corr_metrics =
  events_received :: u64
  verdicts_emitted :: u64
  verdicts_dropped :: u64
  hosts_evicted_ttl :: u64
  hosts_evicted_capacity :: u64
  xdp_dropped :: u64
  clamav_dropped :: u64
  spectral_dropped :: u64

section \<open>The lane senders\<close>

definition xdp_event :: "ipaddr \<Rightarrow> corr_flow \<Rightarrow> string \<Rightarrow> bool \<Rightarrow> instant \<Rightarrow> corr_event" where
  "xdp_event host flow reason human_approved now =
     \<lparr>ev_host = host, ev_source = LaneXdp,
      ev_severity = (if human_approved then CCritical else CHigh),
      ev_confidence = (if human_approved then Fin 1 else mk_f32 (6 / 10)),
      ev_observed_at = now, ev_detail = DXdp flow reason human_approved\<rparr>"

definition clamav_event :: "ipaddr \<Rightarrow> string \<Rightarrow> string \<Rightarrow> bool \<Rightarrow> instant \<Rightarrow> corr_event" where
  "clamav_event host file_name signature quarantined now =
     \<lparr>ev_host = host, ev_source = LaneClamAv,
      ev_severity = (if quarantined then CHigh else CMedium),
      ev_confidence = Fin 1, ev_observed_at = now, ev_detail = DClamAv file_name signature quarantined\<rparr>"

definition spectral_event :: "ipaddr \<Rightarrow> corr_flow \<Rightarrow> f64 \<Rightarrow> f64 \<Rightarrow> instant \<Rightarrow> corr_event" where
  "spectral_event host flow anomaly_score fiedler_shift now =
     \<lparr>ev_host = host, ev_source = LaneSpectral,
      ev_severity = (if flt_ge anomaly_score (mk_f64 (9 / 10)) then CCritical
        else if flt_ge anomaly_score (mk_f64 (7 / 10)) then CHigh
        else if flt_ge anomaly_score (mk_f64 (4 / 10)) then CMedium
        else CLow),
      ev_confidence = f64_to_f32 (flt_clamp anomaly_score (Fin 0) (Fin 1)),
      ev_observed_at = now, ev_detail = DSpectral flow anomaly_score fiedler_shift\<rparr>"

text \<open>\<^verbatim>\<open>try_send\<close> never blocks: an event that is not accepted is counted for its lane.\<close>

fun count_dropped :: "lane_source \<Rightarrow> corr_metrics \<Rightarrow> corr_metrics" where
  "count_dropped LaneXdp m = m\<lparr>xdp_dropped := xdp_dropped m + 1\<rparr>"
| "count_dropped LaneClamAv m = m\<lparr>clamav_dropped := clamav_dropped m + 1\<rparr>"
| "count_dropped LaneSpectral m = m\<lparr>spectral_dropped := spectral_dropped m + 1\<rparr>"

definition submit :: "corr_event \<Rightarrow> bool \<Rightarrow> corr_event list \<times> corr_metrics \<Rightarrow> corr_event list \<times> corr_metrics" where
  "submit ev accepted = (\<lambda>(inbox, m). if accepted then (inbox @ [ev], m) else (inbox, count_dropped (ev_source ev) m))"

section \<open>The host record\<close>

record host_record =
  hr_evidence :: "corr_event list"
  hr_first_seen :: instant
  hr_last_seen :: instant
  finalized :: bool

definition host_new :: "corr_event \<Rightarrow> host_record" where
  "host_new ev = \<lparr>hr_evidence = [ev], hr_first_seen = ev_observed_at ev, hr_last_seen = ev_observed_at ev, finalized = False\<rparr>"

text \<open>\<^verbatim>\<open>remove(0)\<close> panics on an empty vector; evidence is never empty (\<open>tracked_ok\<close>).\<close>

definition host_push :: "host_record \<Rightarrow> corr_event \<Rightarrow> nat \<Rightarrow> host_record" where
  "host_push r ev max_evidence = r\<lparr>hr_last_seen := ev_observed_at ev,
     hr_evidence := (if length (hr_evidence r) \<ge> max_evidence then tl (hr_evidence r) else hr_evidence r) @ [ev]\<rparr>"

definition distinct_sources :: "host_record \<Rightarrow> lane_source list" where
  "distinct_sources r = foldl (\<lambda>srcs e. if ev_source e \<in> set srcs then srcs else srcs @ [ev_source e]) [] (hr_evidence r)"

definition max_severity :: "host_record \<Rightarrow> corr_severity" where
  "max_severity r = fold max (map ev_severity (hr_evidence r)) CLow"

definition mean_confidence :: "host_record \<Rightarrow> f32" where
  "mean_confidence r =
     (if hr_evidence r = [] then Fin 0
      else f32_div (foldl f32_add (Fin 0) (map ev_confidence (hr_evidence r))) (f32_of_nat (length (hr_evidence r))))"

section \<open>The engine\<close>

record corr_config =
  cc_window :: duration
  sweep_interval :: duration
  channel_capacity :: nat
  max_evidence_per_host :: nat
  max_tracked_hosts :: nat

definition corr_config_default :: corr_config where
  "corr_config_default = \<lparr>cc_window = from_secs 60, sweep_interval = from_secs 5, channel_capacity = 4096,
     max_evidence_per_host = 16, max_tracked_hosts = 100000\<rparr>"

record corr_engine =
  ce_state :: "(ipaddr, host_record) tbl"
  ce_config :: corr_config
  ce_metrics :: corr_metrics
  ce_sent :: "corr_verdict list" \<comment> \<open>the verdicts the containment channel accepted\<close>

definition corr_new :: "corr_config \<Rightarrow> corr_engine" where
  "corr_new cfg = \<lparr>ce_state = [], ce_config = cfg, ce_metrics = \<lparr>events_received = 0, verdicts_emitted = 0,
     verdicts_dropped = 0, hosts_evicted_ttl = 0, hosts_evicted_capacity = 0, xdp_dropped = 0,
     clamav_dropped = 0, spectral_dropped = 0\<rparr>, ce_sent = []\<rparr>"

definition corr_reason_of :: "host_record \<Rightarrow> corr_reason option" where
  "corr_reason_of r =
     (if length (distinct_sources r) \<ge> 2 then Some MultiLaneCorroboration
      else if max_severity r = CCritical then Some SingleLaneCritical
      else None)"

text \<open>The record is final before the send is tried, so a verdict the channel refuses is lost.\<close>

definition maybe_emit :: "corr_engine \<Rightarrow> ipaddr \<Rightarrow> instant \<Rightarrow> bool \<Rightarrow> corr_engine" where
  "maybe_emit en host now accepted =
     (case tbl_get (ce_state en) host of
        None \<Rightarrow> en
      | Some r \<Rightarrow>
          (case corr_reason_of r of
             None \<Rightarrow> en
           | Some reason \<Rightarrow>
               (let v = \<lparr>v_host = host, v_severity = max_severity r, v_confidence = mean_confidence r,
                      v_sources = distinct_sources r, v_evidence = hr_evidence r, v_reason = reason,
                      v_first_seen = hr_first_seen r, v_decided_at = now\<rparr>;
                    en1 = en\<lparr>ce_state := tbl_insert (ce_state en) host (r\<lparr>finalized := True\<rparr>)\<rparr>;
                    m = ce_metrics en1
                in if accepted
                   then en1\<lparr>ce_sent := ce_sent en1 @ [v], ce_metrics := m\<lparr>verdicts_emitted := verdicts_emitted m + 1\<rparr>\<rparr>
                   else en1\<lparr>ce_metrics := m\<lparr>verdicts_dropped := verdicts_dropped m + 1\<rparr>\<rparr>)))"

text \<open>\<^verbatim>\<open>min_by_key\<close> returns the first of the minimal elements.\<close>

fun oldest_host :: "(ipaddr, host_record) tbl \<Rightarrow> ipaddr option" where
  "oldest_host [] = None"
| "oldest_host [p] = Some (fst p)"
| "oldest_host (p # p' # t) = (if hr_last_seen (snd p) \<le> hr_last_seen (snd p') then oldest_host (p # t) else oldest_host (p' # t))"

definition enforce_capacity :: "corr_engine \<Rightarrow> corr_engine" where
  "enforce_capacity en =
     (if length (ce_state en) \<le> max_tracked_hosts (ce_config en) then en
      else case oldest_host (ce_state en) of
             None \<Rightarrow> en
           | Some h \<Rightarrow> en\<lparr>ce_state := tbl_remove (ce_state en) h,
               ce_metrics := (ce_metrics en)\<lparr>hosts_evicted_capacity := hosts_evicted_capacity (ce_metrics en) + 1\<rparr>\<rparr>)"

definition corr_handle_event :: "corr_engine \<Rightarrow> corr_event \<Rightarrow> instant \<Rightarrow> bool \<Rightarrow> corr_engine" where
  "corr_handle_event en ev now accepted =
     (let en0 = en\<lparr>ce_metrics := (ce_metrics en)\<lparr>events_received := events_received (ce_metrics en) + 1\<rparr>\<rparr>;
          host = ev_host ev;
          (already_finalized, r) = (case tbl_get (ce_state en0) host of
             None \<Rightarrow> (False, host_new ev)
           | Some r \<Rightarrow> (finalized r, host_push r ev (max_evidence_per_host (ce_config en0))));
          en1 = en0\<lparr>ce_state := tbl_insert (ce_state en0) host r\<rparr>
      in enforce_capacity (if already_finalized then en1 else maybe_emit en1 host now accepted))"

definition corr_sweep_expired :: "corr_engine \<Rightarrow> instant \<Rightarrow> corr_engine" where
  "corr_sweep_expired en now =
     (let st = tbl_retain (\<lambda>_ r. duration_since now (hr_last_seen r) < cc_window (ce_config en)) (ce_state en);
          evicted = length (ce_state en) - length st; m = ce_metrics en
      in en\<lparr>ce_state := st,
           ce_metrics := (if evicted > 0 then m\<lparr>hosts_evicted_ttl := hosts_evicted_ttl m + of_nat evicted\<rparr> else m)\<rparr>)"

datatype corr_op = CorrEvent corr_event instant bool | CorrSweep instant

fun corr_step :: "corr_engine \<Rightarrow> corr_op \<Rightarrow> corr_engine" where
  "corr_step en (CorrEvent ev now accepted) = corr_handle_event en ev now accepted"
| "corr_step en (CorrSweep now) = corr_sweep_expired en now"

section \<open>The record\<close>

lemma distinct_sources_fold:
  "distinct srcs \<Longrightarrow> distinct (foldl (\<lambda>srcs e. if ev_source e \<in> set srcs then srcs else srcs @ [ev_source e]) srcs es)
    \<and> set (foldl (\<lambda>srcs e. if ev_source e \<in> set srcs then srcs else srcs @ [ev_source e]) srcs es) = set srcs \<union> ev_source ` set es"
  by (induction es arbitrary: srcs) auto

lemma distinct_sources_set [simp]:
  "set (distinct_sources r) = ev_source ` set (hr_evidence r)" "distinct (distinct_sources r)"
  using distinct_sources_fold [of "[]" "hr_evidence r"] by (simp_all add: distinct_sources_def)

lemma distinct_sources_length: "length (distinct_sources r) = card (ev_source ` set (hr_evidence r))"
  using distinct_card [of "distinct_sources r"] by simp

lemma max_critical: "max a b = CCritical \<longleftrightarrow> a = CCritical \<or> b = CCritical"
  by (cases a; cases b) (simp_all add: max_def less_eq_corr_severity_def)

lemma fold_max_critical: "fold max xs a = CCritical \<longleftrightarrow> a = CCritical \<or> CCritical \<in> set xs"
  by (induction xs arbitrary: a) (auto simp: max_critical)

lemma max_severity_critical: "max_severity r = CCritical \<longleftrightarrow> (\<exists>e \<in> set (hr_evidence r). ev_severity e = CCritical)"
  by (simp add: max_severity_def fold_max_critical image_iff) metis

section \<open>The invariant\<close>

text \<open>Evidence for a verdict: everything was submitted for that host, and the reason holds of it.\<close>

definition verdict_sound :: "corr_event set \<Rightarrow> corr_verdict \<Rightarrow> bool" where
  "verdict_sound es v \<longleftrightarrow> v_evidence v \<noteq> [] \<and> set (v_evidence v) \<subseteq> {e \<in> es. ev_host e = v_host v}
     \<and> set (v_sources v) = ev_source ` set (v_evidence v)
     \<and> (case v_reason v of
          MultiLaneCorroboration \<Rightarrow> 2 \<le> card (ev_source ` set (v_evidence v))
        | SingleLaneCritical \<Rightarrow> (\<exists>e \<in> set (v_evidence v). ev_severity e = CCritical))"

definition record_ok :: "corr_config \<Rightarrow> corr_event set \<Rightarrow> ipaddr \<Rightarrow> host_record \<Rightarrow> bool" where
  "record_ok cfg es h r \<longleftrightarrow> hr_evidence r \<noteq> [] \<and> length (hr_evidence r) \<le> max 1 (max_evidence_per_host cfg)
     \<and> set (hr_evidence r) \<subseteq> {e \<in> es. ev_host e = h}"

definition tracked_ok :: "corr_event set \<Rightarrow> corr_engine \<Rightarrow> bool" where
  "tracked_ok es en \<longleftrightarrow> tbl_ok (ce_state en)
     \<and> (\<forall>h r. tbl_get (ce_state en) h = Some r \<longrightarrow> record_ok (ce_config en) es h r)
     \<and> (\<forall>v \<in> set (ce_sent en). verdict_sound es v)"

text \<open>A record is settled when a verdict was tried for it or none is due.\<close>

definition settled :: "host_record \<Rightarrow> bool" where
  "settled r \<longleftrightarrow> finalized r \<or> corr_reason_of r = None"

definition reported :: "corr_engine \<Rightarrow> ipaddr set \<Rightarrow> bool" where
  "reported en H \<longleftrightarrow> (\<forall>h r. tbl_get (ce_state en) h = Some r \<longrightarrow> h \<in> H \<or> settled r)"

lemma settled_finalized [simp]: "finalized r \<Longrightarrow> settled r"
  by (simp add: settled_def)

lemma record_ok_mono: "record_ok cfg es h r \<Longrightarrow> es \<subseteq> es' \<Longrightarrow> record_ok cfg es' h r"
  by (auto simp: record_ok_def)

lemma verdict_sound_mono: "verdict_sound es v \<Longrightarrow> es \<subseteq> es' \<Longrightarrow> verdict_sound es' v"
  by (auto simp: verdict_sound_def)

lemma host_new_ok: "record_ok cfg (insert ev es) (ev_host ev) (host_new ev)"
  by (simp add: record_ok_def host_new_def)

lemma host_push_ok:
  "record_ok cfg es (ev_host ev) r \<Longrightarrow> record_ok cfg (insert ev es) (ev_host ev) (host_push r ev (max_evidence_per_host cfg))"
  by (auto simp: record_ok_def host_push_def dest: list.set_sel(2))

lemma corr_reason_None:
  "corr_reason_of r = None \<longleftrightarrow>
     \<not> 2 \<le> card (ev_source ` set (hr_evidence r)) \<and> \<not> (\<exists>e \<in> set (hr_evidence r). ev_severity e = CCritical)"
  by (simp add: corr_reason_of_def distinct_sources_length max_severity_critical)

lemma maybe_emit_cases:
  obtains (silent) "maybe_emit en h now acc = en"
      "\<And>r. tbl_get (ce_state en) h = Some r \<Longrightarrow> corr_reason_of r = None"
  | (emit) r reason v where "tbl_get (ce_state en) h = Some r" "corr_reason_of r = Some reason"
      "ce_state (maybe_emit en h now acc) = tbl_insert (ce_state en) h (r\<lparr>finalized := True\<rparr>)"
      "ce_config (maybe_emit en h now acc) = ce_config en"
      "ce_sent (maybe_emit en h now acc) = (if acc then ce_sent en @ [v] else ce_sent en)"
      "v_host v = h" "v_evidence v = hr_evidence r" "v_sources v = distinct_sources r" "v_reason v = reason"
proof (cases "\<exists>r reason. tbl_get (ce_state en) h = Some r \<and> corr_reason_of r = Some reason")
  case False
  then show thesis by (intro silent) (auto simp: maybe_emit_def split: option.split)
next
  case True
  then obtain r reason where "tbl_get (ce_state en) h = Some r" "corr_reason_of r = Some reason" by blast
  then show thesis
    by (intro emit [of r reason "\<lparr>v_host = h, v_severity = max_severity r, v_confidence = mean_confidence r,
          v_sources = distinct_sources r, v_evidence = hr_evidence r, v_reason = reason,
          v_first_seen = hr_first_seen r, v_decided_at = now\<rparr>"]) (simp_all add: maybe_emit_def Let_def)
qed

lemma reason_sound:
  "corr_reason_of r = Some reason \<Longrightarrow> record_ok cfg es h r \<Longrightarrow> v_host v = h \<Longrightarrow> v_evidence v = hr_evidence r \<Longrightarrow>
   v_sources v = distinct_sources r \<Longrightarrow> v_reason v = reason \<Longrightarrow> verdict_sound es v"
  by (auto simp: verdict_sound_def record_ok_def corr_reason_of_def distinct_sources_length max_severity_critical
      split: if_splits)

lemma maybe_emit_ok:
  assumes ok: "tracked_ok es en" and rep: "reported en {h}"
  shows "tracked_ok es (maybe_emit en h now acc) \<and> reported (maybe_emit en h now acc) {}
    \<and> length (ce_state (maybe_emit en h now acc)) = length (ce_state en)
    \<and> ce_config (maybe_emit en h now acc) = ce_config en"
proof (cases rule: maybe_emit_cases [of en h now acc])
  case silent
  then have "reported en {}" using rep settled_def unfolding reported_def by (metis singletonD)
  then show ?thesis using ok silent by simp
next
  case (emit r reason v)
  have r: "record_ok (ce_config en) es h r" using ok emit(1) by (auto simp: tracked_ok_def)
  have "tracked_ok es (maybe_emit en h now acc)"
    using ok r reason_sound [OF emit(2) r emit(6-9)] by (auto simp: tracked_ok_def emit(3-5) record_ok_def)
  moreover have "reported (maybe_emit en h now acc) {}" using rep by (auto simp: reported_def emit(3))
  moreover have "length (ce_state (maybe_emit en h now acc)) = length (ce_state en)"
    using tbl_len_insert [of "ce_state en" h "r\<lparr>finalized := True\<rparr>"] emit(1) by (simp add: emit(3) tbl_len_def)
  ultimately show ?thesis by (simp add: emit(4))
qed

lemma oldest_host_mem: "t \<noteq> [] \<Longrightarrow> \<exists>h \<in> fst ` set t. oldest_host t = Some h"
  by (induction t rule: oldest_host.induct) auto

text \<open>The evicted host is one that was seen least recently.\<close>

lemma oldest_host_least:
  "oldest_host t = Some h \<Longrightarrow> \<exists>r. (h, r) \<in> set t \<and> (\<forall>p \<in> set t. hr_last_seen r \<le> hr_last_seen (snd p))"
proof (induction t rule: oldest_host.induct)
  case (3 p p' t)
  show ?case
  proof (cases "hr_last_seen (snd p) \<le> hr_last_seen (snd p')")
    case True
    then obtain r where "(h, r) \<in> set (p # t)" "\<forall>x \<in> set (p # t). hr_last_seen r \<le> hr_last_seen (snd x)" using 3 by auto
    with True show ?thesis by (intro exI [of _ r]) (auto intro: order_trans)
  next
    case False
    then obtain r where "(h, r) \<in> set (p' # t)" "\<forall>x \<in> set (p' # t). hr_last_seen r \<le> hr_last_seen (snd x)" using 3 by auto
    with False show ?thesis by (intro exI [of _ r]) (auto intro: order_trans)
  qed
next
  case (2 p)
  then show ?case by (cases p) simp
qed simp

lemma length_tbl_remove: "tbl_ok t \<Longrightarrow> k \<in> fst ` set t \<Longrightarrow> Suc (length (tbl_remove t k)) = length t"
proof (induction t)
  case (Cons p t)
  show ?case
  proof (cases "fst p = k")
    case True
    then have "k \<notin> fst ` set t" using Cons.prems(1) by (auto simp: tbl_ok_def)
    then have "filter (\<lambda>p. fst p \<noteq> k) t = t" by (auto intro!: filter_True)
    with True show ?thesis by (simp add: tbl_remove_def)
  next
    case False
    then show ?thesis using Cons by (auto simp: tbl_ok_def tbl_remove_def)
  qed
qed simp

lemma tracked_ok_subset:
  assumes "tracked_ok es en" "tbl_ok (ce_state en')" "ce_config en' = ce_config en" "ce_sent en' = ce_sent en"
    and "\<And>h r. tbl_get (ce_state en') h = Some r \<Longrightarrow> tbl_get (ce_state en) h = Some r"
  shows "tracked_ok es en'" "reported en {} \<Longrightarrow> reported en' {}"
  using assms unfolding tracked_ok_def reported_def by auto

lemma enforce_capacity_ok:
  assumes ok: "tracked_ok es en" "reported en {}" and len: "length (ce_state en) \<le> Suc (max_tracked_hosts (ce_config en))"
  shows "tracked_ok es (enforce_capacity en) \<and> reported (enforce_capacity en) {} \<and> ce_config (enforce_capacity en) = ce_config en
    \<and> length (ce_state (enforce_capacity en)) \<le> max_tracked_hosts (ce_config en)"
proof (cases "length (ce_state en) \<le> max_tracked_hosts (ce_config en)")
  case True
  then show ?thesis using ok by (simp add: enforce_capacity_def)
next
  case False
  have t: "tbl_ok (ce_state en)" using ok by (simp add: tracked_ok_def)
  obtain h where h: "h \<in> fst ` set (ce_state en)" "oldest_host (ce_state en) = Some h"
    using oldest_host_mem [of "ce_state en"] False by fastforce
  have en': "ce_state (enforce_capacity en) = tbl_remove (ce_state en) h" "ce_config (enforce_capacity en) = ce_config en"
    "ce_sent (enforce_capacity en) = ce_sent en"
    using False h by (simp_all add: enforce_capacity_def)
  have "tbl_get (ce_state en) h' = Some r" if "tbl_get (ce_state (enforce_capacity en)) h' = Some r" for h' r
    using that by (auto simp: en'(1) split: if_splits)
  then have "tracked_ok es (enforce_capacity en)" "reported (enforce_capacity en) {}"
    using tracked_ok_subset [OF ok(1), of "enforce_capacity en"] ok(2) t en' by auto
  then show ?thesis using length_tbl_remove [OF t h(1)] len by (simp add: en')
qed

lemma handle_event_ok:
  assumes ok: "tracked_ok es en" "reported en {}" and len: "length (ce_state en) \<le> max_tracked_hosts (ce_config en)"
  shows "tracked_ok (insert ev es) (corr_handle_event en ev now acc) \<and> reported (corr_handle_event en ev now acc) {}
    \<and> ce_config (corr_handle_event en ev now acc) = ce_config en
    \<and> length (ce_state (corr_handle_event en ev now acc)) \<le> max_tracked_hosts (ce_config en)"
proof -
  let ?en0 = "en\<lparr>ce_metrics := (ce_metrics en)\<lparr>events_received := events_received (ce_metrics en) + 1\<rparr>\<rparr>"
  define fin r where "fin = (case tbl_get (ce_state en) (ev_host ev) of None \<Rightarrow> False | Some r \<Rightarrow> finalized r)"
    and "r = (case tbl_get (ce_state en) (ev_host ev) of None \<Rightarrow> host_new ev
        | Some r \<Rightarrow> host_push r ev (max_evidence_per_host (ce_config en)))"
  let ?en1 = "?en0\<lparr>ce_state := tbl_insert (ce_state en) (ev_host ev) r\<rparr>"
  let ?en2 = "if fin then ?en1 else maybe_emit ?en1 (ev_host ev) now acc"
  have eq: "corr_handle_event en ev now acc = enforce_capacity ?en2"
    by (simp add: corr_handle_event_def fin_def r_def Let_def split: option.split)
  have "record_ok (ce_config en) (insert ev es) (ev_host ev) r"
    using ok(1) host_new_ok host_push_ok unfolding r_def tracked_ok_def by (auto split: option.split)
  then have t1: "tracked_ok (insert ev es) ?en1"
    using ok(1) unfolding tracked_ok_def by (auto intro: record_ok_mono verdict_sound_mono)
  have rep1: "reported ?en1 {ev_host ev}" using ok(2) by (auto simp: reported_def)
  have fin: "fin \<Longrightarrow> finalized r" by (auto simp: fin_def r_def host_push_def split: option.splits)
  then have rep2: "fin \<Longrightarrow> reported ?en1 {}" using ok(2) by (auto simp: reported_def)
  have "length (ce_state ?en1) \<le> Suc (max_tracked_hosts (ce_config en))"
    using len tbl_len_insert [of "ce_state en" "ev_host ev" r] by (auto simp: tbl_len_def split: if_splits)
  then have "tracked_ok (insert ev es) ?en2 \<and> reported ?en2 {} \<and> ce_config ?en2 = ce_config en
      \<and> length (ce_state ?en2) \<le> Suc (max_tracked_hosts (ce_config en))"
    using t1 rep2 maybe_emit_ok [OF t1 rep1, of now acc] by simp
  then show ?thesis unfolding eq using enforce_capacity_ok [of "insert ev es" ?en2] by metis
qed

lemma corr_sweep_ok:
  assumes ok: "tracked_ok es en" "reported en {}" and len: "length (ce_state en) \<le> max_tracked_hosts (ce_config en)"
  shows "tracked_ok es (corr_sweep_expired en now) \<and> reported (corr_sweep_expired en now) {}
    \<and> ce_config (corr_sweep_expired en now) = ce_config en
    \<and> length (ce_state (corr_sweep_expired en now)) \<le> max_tracked_hosts (ce_config en)"
proof -
  let ?en = "corr_sweep_expired en now"
  have t: "tbl_ok (ce_state en)" using ok(1) by (simp add: tracked_ok_def)
  have f: "ce_state ?en = tbl_retain (\<lambda>_ r. duration_since now (hr_last_seen r) < cc_window (ce_config en)) (ce_state en)"
    "ce_config ?en = ce_config en" "ce_sent ?en = ce_sent en"
    by (simp_all add: corr_sweep_expired_def Let_def)
  have "tbl_get (ce_state en) h = Some r" if "tbl_get (ce_state ?en) h = Some r" for h r
    using that t by (auto simp: f(1) tbl_get_retain split: option.splits if_splits)
  then have "tracked_ok es ?en" "reported ?en {}"
    using tracked_ok_subset [OF ok(1), of ?en] ok(2) t f by auto
  moreover have "length (ce_state ?en) \<le> length (ce_state en)"
    using tbl_len_retain_le by (auto simp: f tbl_len_def)
  ultimately show ?thesis using len f(2) by linarith
qed

section \<open>Properties\<close>

fun op_events :: "corr_op \<Rightarrow> corr_event set" where
  "op_events (CorrEvent ev _ _) = {ev}"
| "op_events (CorrSweep _) = {}"

lemma corr_run_ok:
  "tracked_ok (\<Union> (op_events ` set ops)) (foldl corr_step (corr_new cfg) ops)
   \<and> reported (foldl corr_step (corr_new cfg) ops) {}
   \<and> ce_config (foldl corr_step (corr_new cfg) ops) = cfg
   \<and> length (ce_state (foldl corr_step (corr_new cfg) ops)) \<le> max_tracked_hosts cfg"
proof (induction ops rule: rev_induct)
  case Nil
  show ?case by (simp add: tracked_ok_def reported_def corr_new_def)
next
  case (snoc a ops)
  let ?en = "foldl corr_step (corr_new cfg) ops"
  have IH: "tracked_ok (\<Union> (op_events ` set ops)) ?en" "reported ?en {}" "ce_config ?en = cfg"
    "length (ce_state ?en) \<le> max_tracked_hosts (ce_config ?en)" using snoc by simp_all
  show ?case
  proof (cases a)
    case (CorrEvent ev now acc)
    have "\<Union> (op_events ` set (ops @ [a])) = insert ev (\<Union> (op_events ` set ops))" by (auto simp: CorrEvent)
    then show ?thesis using handle_event_ok [OF IH(1,2,4), of ev now acc] IH(3) by (simp add: CorrEvent)
  next
    case (CorrSweep now)
    have "\<Union> (op_events ` set (ops @ [a])) = \<Union> (op_events ` set ops)" by (auto simp: CorrSweep)
    then show ?thesis using corr_sweep_ok [OF IH(1,2,4), of now] IH(3) by (simp add: CorrSweep)
  qed
qed

text \<open>C19: Every verdict sent to containment is earned: all its evidence was submitted for its host, and
  it holds events of two different lanes, or an event that a lane itself called critical.\<close>

theorem verdicts_sound:
  assumes "v \<in> set (ce_sent (foldl corr_step (corr_new cfg) ops))"
  shows "v_evidence v \<noteq> []
    \<and> (\<forall>e \<in> set (v_evidence v). ev_host e = v_host v \<and> (\<exists>now acc. CorrEvent e now acc \<in> set ops))
    \<and> (2 \<le> card (ev_source ` set (v_evidence v)) \<or> (\<exists>e \<in> set (v_evidence v). ev_severity e = CCritical))"
proof -
  have v: "verdict_sound (\<Union> (op_events ` set ops)) v" using corr_run_ok [of ops cfg] assms by (auto simp: tracked_ok_def)
  have ev: "\<exists>now acc. CorrEvent e now acc \<in> set ops" if e: "e \<in> \<Union> (op_events ` set ops)" for e
  proof -
    obtain a where "a \<in> set ops" "e \<in> op_events a" using e by auto
    then show ?thesis by - (cases a, auto)
  qed
  have "\<forall>e \<in> set (v_evidence v). ev_host e = v_host v \<and> (\<exists>now acc. CorrEvent e now acc \<in> set ops)"
    using v ev unfolding verdict_sound_def by blast
  with v show ?thesis unfolding verdict_sound_def by (cases "v_reason v") simp_all
qed

definition sample_host :: ipaddr where
  "sample_host = V4 1"

definition sample_clam :: "instant \<Rightarrow> corr_event" where
  "sample_clam t = clamav_event sample_host ''f'' ''sig'' True t"

definition sample_corr_flow :: corr_flow where
  "sample_corr_flow = \<lparr>cf_src_ip = sample_host, cf_dst_ip = V4 2, cf_src_port = 1, cf_dst_port = 2, cf_protocol = CTcp\<rparr>"

definition sample_xdp :: "instant \<Rightarrow> corr_event" where
  "sample_xdp t = xdp_event sample_host sample_corr_flow ''scan'' True t"

definition sample_corr :: corr_engine where
  "sample_corr = foldl corr_step (corr_new corr_config_default)
     [CorrEvent (sample_clam 0) 0 True, CorrEvent (sample_xdp 1) 2 True]"

lemmas sample_corr_unfold = sample_corr_def corr_handle_event_def maybe_emit_def corr_new_def corr_reason_of_def
  distinct_sources_def max_severity_def sample_clam_def sample_xdp_def clamav_event_def xdp_event_def host_new_def
  host_push_def enforce_capacity_def tbl_get_def tbl_insert_def Let_def corr_config_default_def max_def
  less_eq_corr_severity_def

lemma sample_corr_sent: "length (ce_sent sample_corr) = 1"
  by (simp add: sample_corr_unfold)

theorem verdicts_sound_witness:
  "2 \<le> card (ev_source ` set (v_evidence (hd (ce_sent sample_corr))))
   \<or> (\<exists>e \<in> set (v_evidence (hd (ce_sent sample_corr))). ev_severity e = CCritical)"
proof -
  have "hd (ce_sent sample_corr) \<in> set (ce_sent sample_corr)" using sample_corr_sent by (cases "ce_sent sample_corr") auto
  then show ?thesis unfolding sample_corr_def using verdicts_sound by blast
qed



text \<open>A verdict the containment channel refuses is gone: the host is final, and later evidence does not
  produce another one.\<close>

theorem dropped_verdict_not_retried:
  "ce_sent (foldl corr_step (corr_new corr_config_default)
     [CorrEvent (sample_clam 0) 0 True, CorrEvent (sample_xdp 1) 2 False, CorrEvent (sample_xdp 3) 4 True]) = []"
  by (simp add: sample_corr_unfold)

text \<open>The window is measured from the last event of the host, so evidence older than the window
  still corroborates when other events of the same lane kept the record alive.\<close>

theorem old_evidence_corroborates:
  "\<exists>v. ce_sent (foldl corr_step (corr_new corr_config_default)
     [CorrEvent (sample_clam 0) 0 True, CorrSweep (from_secs 50), CorrEvent (sample_clam (from_secs 55)) (from_secs 55) True,
      CorrSweep (from_secs 100), CorrEvent (xdp_event sample_host sample_corr_flow ''scan'' False (from_secs 110)) (from_secs 110) True]) = [v]
     \<and> sample_clam 0 \<in> set (v_evidence v) \<and> v_reason v = MultiLaneCorroboration
     \<and> cc_window corr_config_default < duration_since (v_decided_at v) (v_first_seen v)"
  by (simp add: sample_corr_unfold corr_sweep_expired_def tbl_retain_def duration_since_def from_secs_def)

end
