(* ===== verification/Siem_Review.thy ===== *)
theory Siem_Review
  imports Review_Gate Siem_Response Siem_Correlation Ip_Parse
begin

text \<open>
  The review-gated response (\<^verbatim>\<open>siem-review\<close>): the classifier's top-two selection
  (\<^verbatim>\<open>siem-ml/classifier.rs\<close>), the adapters that turn a classifier prediction or a correlation verdict
  into a prediction for the review queue (\<^verbatim>\<open>siem-correlation-bridge\<close>), and the composition of the
  review queue with the response policy.  The network itself, which yields the class
  probabilities, is the list of its outputs here.
\<close>

section \<open>The classifier's answer\<close>

datatype category = Benign | Reconnaissance | BruteForce | Infiltration | CommandAndControl | DenialOfService

definition all_categories :: "category list" where
  "all_categories = [Benign, Reconnaissance, BruteForce, Infiltration, CommandAndControl, DenialOfService]"

fun category_index :: "category \<Rightarrow> nat" where
  "category_index Benign = 0"
| "category_index Reconnaissance = 1"
| "category_index BruteForce = 2"
| "category_index Infiltration = 3"
| "category_index CommandAndControl = 4"
| "category_index DenialOfService = 5"

definition from_index :: "nat \<Rightarrow> category option" where
  "from_index i = find (\<lambda>c. category_index c = i) all_categories"

fun category_name :: "category \<Rightarrow> string" where
  "category_name Benign = ''Benign''"
| "category_name Reconnaissance = ''Reconnaissance''"
| "category_name BruteForce = ''BruteForce''"
| "category_name Infiltration = ''Infiltration''"
| "category_name CommandAndControl = ''CommandAndControl''"
| "category_name DenialOfService = ''DenialOfService''"

record prediction =
  pr_category :: category
  pr_confidence :: f32
  runner_up_category :: "category option"
  pr_runner_up_confidence :: "f32 option"

definition f32_MIN :: f32 where
  "f32_MIN = Fin (- (2 ^ 24 - 1) * 2 ^ 104)"

fun top_two :: "nat \<Rightarrow> (nat \<times> f32) \<times> (nat \<times> f32) \<Rightarrow> f32 list \<Rightarrow> (nat \<times> f32) \<times> (nat \<times> f32)" where
  "top_two i acc [] = acc"
| "top_two i (best, runner_up) (p # ps) =
     top_two (Suc i)
       (if flt_lt (snd best) p then ((i, p), best)
        else if flt_lt (snd runner_up) p then (best, (i, p))
        else (best, runner_up)) ps"

definition predict :: "f32 list \<Rightarrow> prediction" where
  "predict probs =
     (let (best, runner_up) = top_two 0 ((0, f32_MIN), (0, f32_MIN)) probs
      in \<lparr>pr_category = (case from_index (fst best) of Some c \<Rightarrow> c | None \<Rightarrow> Benign),
          pr_confidence = snd best, runner_up_category = from_index (fst runner_up),
          pr_runner_up_confidence = (if flt_lt f32_MIN (snd runner_up) then Some (snd runner_up) else None)\<rparr>)"

section \<open>Adapters\<close>

definition to_flow_prediction :: "string \<Rightarrow> prediction \<Rightarrow> bool \<Rightarrow> timestamp \<Rightarrow> flow_prediction" where
  "to_flow_prediction f p anomalous observed =
     \<lparr>fp_flow_id = f, predicted_label = category_name (pr_category p), fp_confidence = pr_confidence p,
      runner_up_label = map_option category_name (runner_up_category p),
      runner_up_confidence = pr_runner_up_confidence p, is_out_of_distribution = anomalous, observed_at = observed\<rparr>"

fun protocol_from_u8 :: "u8 \<Rightarrow> corr_protocol" where
  "protocol_from_u8 p = (if p = 6 then CTcp else if p = 17 then CUdp else if p = 1 then CIcmp else COther p)"

fun flow_key_from_kind :: "event_kind \<Rightarrow> corr_flow option" where
  "flow_key_from_kind (Flow src dst sp dp pr _ _ _ _ _) =
     Option.bind (parse_ip src) (\<lambda>s. Option.bind (parse_ip dst) (\<lambda>d.
       Some \<lparr>cf_src_ip = s, cf_dst_ip = d, cf_src_port = sp, cf_dst_port = dp, cf_protocol = protocol_from_u8 pr\<rparr>))"
| "flow_key_from_kind _ = None"

definition flow_key_from_event :: "siem_event \<Rightarrow> corr_flow option" where
  "flow_key_from_event ev = flow_key_from_kind (se_kind ev)"

definition rule_alert_to_xdp :: "ipaddr \<Rightarrow> corr_flow \<Rightarrow> siem_alert \<Rightarrow> bool \<Rightarrow> instant \<Rightarrow> corr_event" where
  "rule_alert_to_xdp host flow alert approved now = xdp_event host flow (sa_rule_id alert @ '': '' @ sa_title alert) approved now"

definition ml_score_to_spectral :: "ipaddr \<Rightarrow> corr_flow \<Rightarrow> f64 \<Rightarrow> instant \<Rightarrow> corr_event" where
  "ml_score_to_spectral host flow score now = spectral_event host flow score (Fin 0) now"

definition verdict_to_flow_prediction :: "corr_verdict \<Rightarrow> string \<Rightarrow> timestamp \<Rightarrow> flow_prediction" where
  "verdict_to_flow_prediction v f now =
     \<lparr>fp_flow_id = f,
      predicted_label = (case v_reason v of MultiLaneCorroboration \<Rightarrow> ''MultiLaneCorroboration'' | SingleLaneCritical \<Rightarrow> ''SingleLaneCritical''),
      fp_confidence = v_confidence v, runner_up_label = None, runner_up_confidence = None,
      is_out_of_distribution = (v_reason v = SingleLaneCritical), observed_at = now\<rparr>"

section \<open>The gate\<close>

datatype disposition =
    Executed
  | WithheldByPolicy string
  | DQueuedForReview trigger_reason
  | Dismissed
  | Escalated

record gated_response =
  gr_queue :: review_queue
  gr_policy :: response_policy

definition gated_new :: "trigger_config \<Rightarrow> sla_policy \<Rightarrow> response_policy \<Rightarrow> review_error + gated_response" where
  "gated_new cfg pol policy = (case queue_new cfg pol of Inl e \<Rightarrow> Inl e | Inr q \<Rightarrow> Inr \<lparr>gr_queue = q, gr_policy = policy\<rparr>)"

text \<open>The clock readings of the policy, see \<open>policy_handle\<close>.\<close>

type_synonym readings = "instant \<times> instant \<times> instant"

definition run_policy :: "gated_response \<Rightarrow> readings \<Rightarrow> siem_alert \<Rightarrow> string \<Rightarrow> 'w response_action \<Rightarrow> 'w \<Rightarrow> disposition \<times> gated_response \<times> 'w" where
  "run_policy g = (\<lambda>(t0, t1, t2) alert ip action w.
     (case policy_handle (gr_policy g) t0 t1 t2 action alert ip w of
        (Inr _, p, w') \<Rightarrow> (Executed, g\<lparr>gr_policy := p\<rparr>, w')
      | (Inl reason, p, w') \<Rightarrow> (WithheldByPolicy reason, g\<lparr>gr_policy := p\<rparr>, w')))"

definition handle_flow_prediction :: "gated_response \<Rightarrow> timestamp \<Rightarrow> readings \<Rightarrow> flow_prediction \<Rightarrow> siem_alert \<Rightarrow> string \<Rightarrow> 'w response_action \<Rightarrow> 'w \<Rightarrow>
    (review_error + disposition) \<times> gated_response \<times> 'w" where
  "handle_flow_prediction g now ts p alert ip action w =
     (case ingest (gr_queue g) now p of
        (Inl err, q) \<Rightarrow> (Inl err, g\<lparr>gr_queue := q\<rparr>, w)
      | (Inr (OutcomeAutoResolved ExecuteContainment _), q) \<Rightarrow>
          (case run_policy (g\<lparr>gr_queue := q\<rparr>) ts alert ip action w of (d, g', w') \<Rightarrow> (Inr d, g', w'))
      | (Inr (OutcomeAutoResolved Dismiss _), q) \<Rightarrow> (Inr Dismissed, g\<lparr>gr_queue := q\<rparr>, w)
      | (Inr (OutcomeAutoResolved EscalateFurther _), q) \<Rightarrow> (Inr Escalated, g\<lparr>gr_queue := q\<rparr>, w)
      | (Inr (QueuedForReview reason), q) \<Rightarrow> (Inr (DQueuedForReview reason), g\<lparr>gr_queue := q\<rparr>, w))"

definition gated_handle :: "gated_response \<Rightarrow> timestamp \<Rightarrow> timestamp \<Rightarrow> readings \<Rightarrow> string \<Rightarrow> prediction \<Rightarrow> bool \<Rightarrow> siem_alert \<Rightarrow> string \<Rightarrow>
    'w response_action \<Rightarrow> 'w \<Rightarrow> (review_error + disposition) \<times> gated_response \<times> 'w" where
  "gated_handle g observed now ts f p anomalous alert ip action w =
     handle_flow_prediction g now ts (to_flow_prediction f p anomalous observed) alert ip action w"

definition resolve_and_execute :: "gated_response \<Rightarrow> timestamp \<Rightarrow> readings \<Rightarrow> string \<Rightarrow> string \<Rightarrow> verdict \<Rightarrow> string \<Rightarrow> siem_alert \<Rightarrow> string \<Rightarrow>
    'w response_action \<Rightarrow> 'w \<Rightarrow> (review_error + disposition) \<times> gated_response \<times> 'w" where
  "resolve_and_execute g now ts f who v why alert ip action w =
     (case record_decision (gr_queue g) now f who v why of
        (Inl err, q) \<Rightarrow> (Inl err, g\<lparr>gr_queue := q\<rparr>, w)
      | (Inr d, q) \<Rightarrow>
          (case ad_verdict d of
             ExecuteContainment \<Rightarrow>
               (case run_policy (g\<lparr>gr_queue := q\<rparr>) ts alert ip action w of (d', g', w') \<Rightarrow> (Inr d', g', w'))
           | Dismiss \<Rightarrow> (Inr Dismissed, g\<lparr>gr_queue := q\<rparr>, w)
           | EscalateFurther \<Rightarrow> (Inr Escalated, g\<lparr>gr_queue := q\<rparr>, w)))"

definition gated_sweep :: "gated_response \<Rightarrow> timestamp \<Rightarrow> (nat \<Rightarrow> timestamp) \<Rightarrow> int \<Rightarrow> (alert_level \<times> sla_breach) list \<Rightarrow>
    (review_error + sla_breach list) \<times> gated_response \<times> (alert_level \<times> sla_breach) list" where
  "gated_sweep g now clk sla out =
     (case sweep_expired (gr_queue g) now clk sla out of (r, q, out') \<Rightarrow> (r, g\<lparr>gr_queue := q\<rparr>, out'))"

section \<open>What a written decision means\<close>

lemma approved_if_recorded:
  assumes ok: "queue_ok q" and d: "recorded (rq_engine q) d" "ad_verdict d = ExecuteContainment"
  shows "containment_decision q (ad_flow_id d) = Approved (decision_id d)"
proof -
  have "audit_ok (rq_engine q)" using ok by (simp add: queue_ok_def)
  then have "d \<in> set (decisions_for_flow (rq_engine q) (ad_flow_id d))" using d(1) by (simp add: audit.entries_set)
  then have "decisions_for_flow (rq_engine q) (ad_flow_id d) = [d]" using decisions_sole [OF ok, of "ad_flow_id d"] by auto
  then show ?thesis by (simp add: containment_decision_def check_def d(2))
qed

lemma resolve_recorded:
  assumes "queue_ok q" "inst_at (rq_engine q) f = Some (prediction_instance p)"
    and "\<And>k. decision_id (dec k) = k \<and> ad_flow_id (dec k) = f"
    and "resolve q f dec item = (Inr d, q')"
  shows "recorded (rq_engine q') d \<and> ad_flow_id d = f \<and> (\<exists>k. d = dec k)"
  by (rule resolve_cases [OF assms(1,2), of dec item]) (use assms(3,4) in \<open>auto simp: recorded_def\<close>)

lemma ingest_contains:
  assumes ok: "queue_ok q" and i: "ingest q now p = (Inr (OutcomeAutoResolved ExecuteContainment k), q')"
  shows "containment_decision q' (fp_flow_id p) = Approved k \<and> evaluate p (trigger_cfg q) = None
    \<and> predicted_label p \<noteq> benign_label (trigger_cfg q)"
proof -
  have ok': "queue_ok q'" using ingest_ok [OF ok, of now p] i by simp
  have a: "audit_ok (rq_engine q)" using ok by (simp add: queue_ok_def)
  let ?f = "fp_flow_id p"
  let ?dec = "\<lambda>did. \<lparr>decision_id = did, ad_flow_id = ?f, ad_reviewer = SystemAutoResolve, ad_verdict = ExecuteContainment,
      rationale = auto_rationale p (trigger_cfg q), decided_at = now\<rparr>"
  obtain e d where new: "tbl_get (rq_items q) ?f = None" and e: "record_prediction (rq_engine q) p = Inr e"
    and t: "evaluate p (trigger_cfg q) = None" and v: "predicted_label p \<noteq> benign_label (trigger_cfg q)" and k: "decision_id d = k"
    and r: "resolve (q\<lparr>rq_engine := e\<rparr>) ?f ?dec (\<lambda>did. \<lparr>qi_prediction = p, qi_state = AutoResolved did, enqueued_at = now\<rparr>) = (Inr d, q')"
    using i by (auto simp: ingest_def Let_def split: if_splits sum.splits option.splits prod.splits)
  note rp = record_prediction_ok [OF a e]
  have ok1: "queue_ok (q\<lparr>rq_engine := e\<rparr>)" by (rule prediction_queue_ok [OF ok e])
  obtain k' where "recorded (rq_engine q') d" "d = ?dec k'"
    using resolve_recorded [OF ok1 _ _ r, of p] by (auto simp: rp(2))
  then show ?thesis using approved_if_recorded [OF ok', of d] k t v by simp
qed

lemma record_decision_contains:
  assumes ok: "queue_ok q" and r: "record_decision q now f who v why = (Inr d, q')" and v: "ad_verdict d = ExecuteContainment"
  shows "containment_decision q' f = Approved (decision_id d) \<and> v = ExecuteContainment \<and> trim who \<noteq> [] \<and> trim why \<noteq> []
    \<and> ad_reviewer d = Human who"
proof -
  have ok': "queue_ok q'" using record_decision_ok [OF ok, of now f who v why] r by simp
  obtain it where it: "tbl_get (rq_items q) f = Some it" "is_open (qi_state it)" and g: "trim who \<noteq> []" "trim why \<noteq> []"
    and res: "resolve q f (\<lambda>did. \<lparr>decision_id = did, ad_flow_id = f, ad_reviewer = Human who, ad_verdict = v,
        rationale = why, decided_at = now\<rparr>) (\<lambda>did. it\<lparr>qi_state := Resolved did\<rparr>) = (Inr d, q')"
    using r by (auto simp: record_decision_def split: if_splits option.splits)
  obtain k where "recorded (rq_engine q') d" "d = \<lparr>decision_id = k, ad_flow_id = f, ad_reviewer = Human who,
      ad_verdict = v, rationale = why, decided_at = now\<rparr>"
    using resolve_recorded [OF ok open_item(1) [OF ok it] _ res] by auto
  then show ?thesis using approved_if_recorded [OF ok', of d] v g by simp
qed

section \<open>Runs\<close>

datatype gated_op =
    GPredict timestamp readings flow_prediction siem_alert string
  | GResolve timestamp readings string string verdict string siem_alert string
  | GSweep timestamp "nat \<Rightarrow> timestamp" int

fun gated_step :: "'w response_action \<Rightarrow> gated_response \<times> 'w \<Rightarrow> gated_op \<Rightarrow> gated_response \<times> 'w" where
  "gated_step act (g, w) (GPredict now ts p alert ip) = snd (handle_flow_prediction g now ts p alert ip act w)"
| "gated_step act (g, w) (GResolve now ts f who v why alert ip) = snd (resolve_and_execute g now ts f who v why alert ip act w)"
| "gated_step act (g, w) (GSweep now clk sla) = (fst (snd (gated_sweep g now clk sla [])), w)"

fun gated_flow :: "gated_op \<Rightarrow> string option" where
  "gated_flow (GPredict _ _ p _ _) = Some (fp_flow_id p)"
| "gated_flow (GResolve _ _ f _ _ _ _ _) = Some f"
| "gated_flow (GSweep _ _ _) = None"

fun gated_target :: "gated_op \<Rightarrow> (instant \<times> siem_alert \<times> string) option" where
  "gated_target (GPredict _ (t0, _) _ alert ip) = Some (t0, alert, ip)"
| "gated_target (GResolve _ (t0, _) _ _ _ _ alert ip) = Some (t0, alert, ip)"
| "gated_target (GSweep _ _ _) = None"

lemma run_policy_effect:
  assumes "run_policy g ts alert ip act w = (d, g', w')"
  shows "gr_queue g' = gr_queue g" "d = Executed \<or> w' \<noteq> w \<Longrightarrow> cleared (gr_policy g) (fst ts) alert ip"
proof -
  obtain t0 t1 t2 where ts: "ts = (t0, t1, t2)" by (cases ts)
  show "gr_queue g' = gr_queue g" using assms by (auto simp: run_policy_def ts split: prod.splits sum.splits)
  show "cleared (gr_policy g) (fst ts) alert ip" if "d = Executed \<or> w' \<noteq> w"
  proof (rule ccontr)
    assume "\<not> cleared (gr_policy g) (fst ts) alert ip"
    then show False
      using policy_handle_cases(2) [of "gr_policy g" t0 alert ip t1 t2 act w] assms that
      by (auto simp: run_policy_def ts split: prod.splits sum.splits)
  qed
qed

lemma gated_effect:
  assumes ok: "queue_ok (gr_queue g)" and s: "gated_step act (g, w) a = (g', w')"
  shows "queue_ok (gr_queue g') \<and> trigger_cfg (gr_queue g') = trigger_cfg (gr_queue g)
      \<and> rq_sla_policy (gr_queue g') = rq_sla_policy (gr_queue g)"
    and "w' \<noteq> w \<Longrightarrow> \<exists>f k t alert ip. gated_flow a = Some f \<and> containment_decision (gr_queue g') f = Approved k
      \<and> gated_target a = Some (t, alert, ip) \<and> cleared (gr_policy g) t alert ip"
proof -
  have "(queue_ok (gr_queue g') \<and> trigger_cfg (gr_queue g') = trigger_cfg (gr_queue g)
      \<and> rq_sla_policy (gr_queue g') = rq_sla_policy (gr_queue g))
    \<and> (w' \<noteq> w \<longrightarrow> (\<exists>f k t alert ip. gated_flow a = Some f \<and> containment_decision (gr_queue g') f = Approved k
      \<and> gated_target a = Some (t, alert, ip) \<and> cleared (gr_policy g) t alert ip))"
  proof (cases a)
    case (GPredict now ts p alert ip)
    obtain r q where i: "ingest (gr_queue g) now p = (r, q)" by (cases "ingest (gr_queue g) now p")
    have q: "queue_ok q" "trigger_cfg q = trigger_cfg (gr_queue g)" "rq_sla_policy q = rq_sla_policy (gr_queue g)"
      using ingest_ok [OF ok, of now p] step_keeps_cfg(1) [of "gr_queue g" now p] by (simp_all add: i)
    show ?thesis
    proof (cases "\<exists>k. r = Inr (OutcomeAutoResolved ExecuteContainment k)")
      case False
      then have "g' = g\<lparr>gr_queue := q\<rparr>" "w' = w"
        using s by (auto simp: GPredict handle_flow_prediction_def i split: sum.splits ingest_outcome.splits verdict.splits)
      then show ?thesis using q by simp
    next
      case True
      then obtain k where r: "r = Inr (OutcomeAutoResolved ExecuteContainment k)" by blast
      obtain d where p: "run_policy (g\<lparr>gr_queue := q\<rparr>) ts alert ip act w = (d, g', w')"
        using s by (auto simp: GPredict handle_flow_prediction_def i r split: prod.splits)
      show ?thesis using q run_policy_effect [OF p] ingest_contains [OF ok, of now p k q] i r
        by (cases ts) (auto simp: GPredict)
    qed
  next
    case (GResolve now ts f who v why alert ip)
    obtain r q where i: "record_decision (gr_queue g) now f who v why = (r, q)" by (cases "record_decision (gr_queue g) now f who v why")
    have q: "queue_ok q" "trigger_cfg q = trigger_cfg (gr_queue g)" "rq_sla_policy q = rq_sla_policy (gr_queue g)"
      using record_decision_ok [OF ok, of now f who v why] step_keeps_cfg(3) [of "gr_queue g" now f who v why] by (simp_all add: i)
    show ?thesis
    proof (cases "\<exists>d. r = Inr d \<and> ad_verdict d = ExecuteContainment")
      case False
      then have "g' = g\<lparr>gr_queue := q\<rparr>" "w' = w"
        using s by (auto simp: GResolve resolve_and_execute_def i split: sum.splits verdict.splits)
      then show ?thesis using q by simp
    next
      case True
      then obtain dd where r: "r = Inr dd" "ad_verdict dd = ExecuteContainment" by blast
      obtain d where p: "run_policy (g\<lparr>gr_queue := q\<rparr>) ts alert ip act w = (d, g', w')"
        using s by (auto simp: GResolve resolve_and_execute_def i r split: prod.splits)
      show ?thesis using q run_policy_effect [OF p] record_decision_contains [OF ok, of now f who v why dd q] i r
        by (cases ts) (auto simp: GResolve)
    qed
  next
    case (GSweep now clk sla)
    have l: "gr_queue g' = snd (sweep_loop (gr_queue g) clk 0 sla (expired_flows (gr_queue g) (wrap_i64 (now - sla))))" "w' = w"
      using s by (auto simp: GSweep gated_sweep_def sweep_expired_def sweep_expired_with_sink_def split: prod.splits sum.splits)
    then show ?thesis using sweep_loop_inv [OF ok expired_flows_open(1) [OF ok]] by simp
  qed
  then show "queue_ok (gr_queue g') \<and> trigger_cfg (gr_queue g') = trigger_cfg (gr_queue g)
      \<and> rq_sla_policy (gr_queue g') = rq_sla_policy (gr_queue g)"
    and "w' \<noteq> w \<Longrightarrow> \<exists>f k t alert ip. gated_flow a = Some f \<and> containment_decision (gr_queue g') f = Approved k
      \<and> gated_target a = Some (t, alert, ip) \<and> cleared (gr_policy g) t alert ip"
    by blast+
qed

lemma gated_run_ok:
  assumes "gated_new cfg pol policy = Inr g0" and "foldl (gated_step act) (g0, w0) ops = (g, w)"
  shows "queue_ok (gr_queue g) \<and> trigger_cfg (gr_queue g) = cfg \<and> rq_sla_policy (gr_queue g) = pol"
proof -
  let ?I = "\<lambda>s. queue_ok (gr_queue (fst s)) \<and> trigger_cfg (gr_queue (fst s)) = cfg \<and> rq_sla_policy (gr_queue (fst s)) = pol"
  have "?I (foldl (gated_step act) (g0, w0) ops)"
  proof (rule foldl_inv)
    show "?I (gated_step act s a)" if "?I s" for s a
      using that gated_effect(1) [of "fst s" act "snd s" a] by (cases "gated_step act s a") auto
    show "?I (g0, w0)" using assms(1) queue_new_ok by (auto simp: gated_new_def split: sum.splits)
  qed
  then show ?thesis by (simp add: assms(2))
qed

section \<open>Properties\<close>

text \<open>C11: The gate is closed unless two independent locks open.  In any run, an operation that lets the
  response action touch the world belongs to a flow whose containment the audit graph approves
  through its only decision, and that decision has authority; and the response policy had
  cleared the target: severity, allowlist, duplicates and rate.\<close>

theorem actions_doubly_gated:
  assumes "gated_new cfg pol policy = Inr g0" and "foldl (gated_step act) (g0, w0) ops = (g, w)"
    and "gated_step act (g, w) a = (g', w')" and "w' \<noteq> w"
  shows "\<exists>f d it t alert ip. gated_flow a = Some f \<and> containment_decision (gr_queue g') f = Approved (decision_id d)
    \<and> decisions_for_flow (rq_engine (gr_queue g')) f = [d]
    \<and> tbl_get (rq_items (gr_queue g')) f = Some it \<and> authorised cfg pol (qi_prediction it) d
    \<and> gated_target a = Some (t, alert, ip) \<and> cleared (gr_policy g) t alert ip"
proof -
  have ok: "queue_ok (gr_queue g)" "trigger_cfg (gr_queue g) = cfg" "rq_sla_policy (gr_queue g) = pol"
    using gated_run_ok [OF assms(1,2)] by simp_all
  note e = gated_effect [OF ok(1) assms(3)]
  obtain f k t alert ip where f: "gated_flow a = Some f" "containment_decision (gr_queue g') f = Approved k"
    "gated_target a = Some (t, alert, ip)" "cleared (gr_policy g) t alert ip"
    using e(2) [OF assms(4)] by blast
  obtain d it where "decisions_for_flow (rq_engine (gr_queue g')) f = [d]" "tbl_get (rq_items (gr_queue g')) f = Some it"
    "authorised cfg pol (qi_prediction it) d" "decision_id d = k"
    using decisions_sole [of "gr_queue g'" f] e(1) f(2) ok(2,3)
    by (auto simp: containment_decision_def check_def Let_def split: if_splits)
  then show ?thesis using f by blast
qed

definition sample_gated :: gated_response where
  "sample_gated = \<lparr>gr_queue = sample_queue, gr_policy = policy_new SLow []\<rparr>"

theorem actions_doubly_gated_witness:
  "\<exists>d. decisions_for_flow (rq_engine (gr_queue (fst (gated_step log_only
      (foldl (gated_step log_only) (sample_gated, []) [GPredict 9 (0, 0, 0) (sample_flow ''f'' (Fin 0)) sample_alert ''10.0.0.3''])
      (GResolve 10 (1, 1, 1) ''f'' ''ann'' ExecuteContainment ''seen'' sample_alert ''10.0.0.3''))))) ''f'' = [d]"
proof -
  let ?ops = "[GPredict 9 (0, 0, 0) (sample_flow ''f'' (Fin 0)) sample_alert ''10.0.0.3'']"
  let ?a = "GResolve 10 (1, 1, 1) ''f'' ''ann'' ExecuteContainment ''seen'' sample_alert ''10.0.0.3''"
  have new: "gated_new sample_cfg FailSafe (policy_new SLow []) = Inr sample_gated"
    by (simp add: gated_new_def sample_queue_new sample_gated_def)
  obtain g w where r: "foldl (gated_step log_only) (sample_gated, []) ?ops = (g, w)"
    by (cases "foldl (gated_step log_only) (sample_gated, []) ?ops")
  obtain g' w' where st: "gated_step log_only (g, w) ?a = (g', w')" by (cases "gated_step log_only (g, w) ?a")
  have w0: "snd (foldl (gated_step log_only) (sample_gated, []) ?ops) = []"
    by (simp add: rq_unfold sample_gated_def handle_flow_prediction_def)
  have "snd (gated_step log_only (foldl (gated_step log_only) (sample_gated, []) ?ops) ?a) \<noteq> []"
    by (simp add: rq_unfold sample_gated_def handle_flow_prediction_def resolve_and_execute_def show_nat_0 run_policy_def
        policy_handle_def policy_new_def rate_limited_def log_only_def sample_alert_def less_siem_severity_def)
  then have "w' \<noteq> []" by (simp only: r st snd_conv) simp
  moreover have "w = []" using w0 by (simp only: r snd_conv)
  ultimately have w: "w' \<noteq> w" "w' \<noteq> []" by simp_all
  have "\<exists>d. decisions_for_flow (rq_engine (gr_queue g')) ''f'' = [d]"
    using actions_doubly_gated [OF new r st w(1)] by auto
  then show ?thesis by (simp only: r st fst_conv)
qed

text \<open>The classifier never answers NaN, whatever the network yields.\<close>

lemma top_two_not_NaN:
  "snd (fst acc) \<noteq> NaN \<Longrightarrow> snd (fst (top_two i acc ps)) \<noteq> NaN"
proof (induction i acc ps rule: top_two.induct)
  case (2 i best runner_up p ps)
  have "flt_lt (snd best) p \<Longrightarrow> p \<noteq> NaN" by (cases p) simp_all
  then show ?case using 2 by simp
qed simp

lemma predict_not_NaN: "pr_confidence (predict probs) \<noteq> NaN"
proof -
  have "f32_MIN \<noteq> NaN" by (simp add: f32_MIN_def)
  then show ?thesis
    using top_two_not_NaN [of "((0, f32_MIN), (0, f32_MIN))" 0 probs] by (simp add: predict_def case_prod_beta Let_def)
qed

text \<open>The spectral lane can: a score that is not a number passes every comparison of the trigger, so a
  corroborated verdict with such a confidence is contained without a human.\<close>

lemma flt_add_NaN: "flt_add mk x NaN = NaN"
  by (cases x) simp_all

theorem nan_verdict_auto_contains:
  "evaluate (verdict_to_flow_prediction (hd (ce_sent (foldl corr_step (corr_new corr_config_default)
      [CorrEvent (sample_clam 0) 0 True, CorrEvent (spectral_event sample_host sample_corr_flow NaN (Fin 0) 1) 2 True]))) f now) cfg = None"
  by (simp add: sample_corr_unfold spectral_event_def flt_clamp_def verdict_to_flow_prediction_def evaluate_def margin_def
      mean_confidence_def flt_add_NaN)

end
