(* ===== verification/Containment.thy ===== *)
theory Containment
  imports Firewall_Sync Control_Socket Siem_Review Nsm_Detect
begin

text \<open>
  The orchestrator (\<^verbatim>\<open>orchestrator/src\<close>) and the bridge that feeds it from the network monitor
  (\<^verbatim>\<open>bridges/asd-xdp-bridge\<close>): an alert of the monitor becomes evidence against a host, a verdict of
  the correlation engine becomes a prediction for the review gate, and a verdict the gate lets through
  runs the containment action: a block at the network card, the host's entry in the firewall's
  configuration, and an edge to the threat anchor in the spectral graph.  What the control socket
  answers and what the file system does are arguments of each step.
\<close>

section \<open>Alerts of the network monitor\<close>

text \<open>\<^verbatim>\<open>serde_json::Value\<close>; a number is an unsigned, a negative or a floating one.\<close>

datatype json =
    JNull
  | JBool bool
  | JUInt u64
  | JNegInt int
  | JFloat f64
  | JString string
  | JArray "json list"
  | JObject "(string \<times> json) list"

fun json_get :: "json \<Rightarrow> string \<Rightarrow> json option" where
  "json_get (JObject t) k = tbl_get t k"
| "json_get _ k = None"

fun json_u64 :: "json \<Rightarrow> u64 option" where
  "json_u64 (JUInt n) = Some n"
| "json_u64 _ = None"

fun json_f64 :: "json \<Rightarrow> f64 option" where
  "json_f64 (JUInt n) = Some (f64_of_nat (unat n))"
| "json_f64 (JNegInt i) = Some (mk_f64 (of_int i))"
| "json_f64 (JFloat x) = Some x"
| "json_f64 _ = None"

record nsm_alert =
  na_ts_unix :: u64
  na_severity :: nsm_severity
  na_detector :: string
  na_message :: string
  na_src_ip :: "ipaddr option"
  na_dst_ip :: "ipaddr option"
  na_extra :: json

definition extra_u64 :: "nsm_alert \<Rightarrow> string \<Rightarrow> u64 option" where
  "extra_u64 a k = Option.bind (json_get (na_extra a) k) json_u64"

definition extra_port :: "nsm_alert \<Rightarrow> string \<Rightarrow> u16" where
  "extra_port a k = (case extra_u64 a k of Some p \<Rightarrow> ucast p | None \<Rightarrow> 0)"

definition extra_protocol :: "nsm_alert \<Rightarrow> corr_protocol" where
  "extra_protocol a =
     (case extra_u64 a ''proto'' of
        Some p \<Rightarrow> if p = 6 then CTcp else if p = 17 then CUdp else if p = 1 then CIcmp else COther (ucast p)
      | None \<Rightarrow> CTcp)"

definition nsm_alert_flow_key :: "nsm_alert \<Rightarrow> corr_flow option" where
  "nsm_alert_flow_key a =
     (case na_src_ip a of
        None \<Rightarrow> None
      | Some src \<Rightarrow>
          Some \<lparr>cf_src_ip = src, cf_dst_ip = (case na_dst_ip a of Some d \<Rightarrow> d | None \<Rightarrow> src),
            cf_src_port = extra_port a ''src_port'', cf_dst_port = extra_port a ''dst_port'',
            cf_protocol = extra_protocol a\<rparr>)"

definition nsm_alert_host :: "nsm_alert \<Rightarrow> ipaddr option" where
  "nsm_alert_host a = (case na_src_ip a of Some s \<Rightarrow> Some s | None \<Rightarrow> na_dst_ip a)"

text \<open>The event that \<^verbatim>\<open>submit_alert\<close> hands to the XDP lane, when the alert names a host.\<close>

definition submit_alert :: "nsm_alert \<Rightarrow> instant \<Rightarrow> corr_event option" where
  "submit_alert a now =
     (case nsm_alert_host a of
        None \<Rightarrow> None
      | Some host \<Rightarrow>
          (let flow = (case nsm_alert_flow_key a of
                 Some f \<Rightarrow> f
               | None \<Rightarrow> \<lparr>cf_src_ip = host, cf_dst_ip = host, cf_src_port = 0, cf_dst_port = 0, cf_protocol = CTcp\<rparr>)
           in Some (xdp_event host flow (''nsm/'' @ na_detector a @ '': '' @ na_message a) False now)))"

section \<open>The control client\<close>

datatype control_error = ConnectFailed | WriteFailed | ReadFailed | Remote string

text \<open>\<open>wire\<close> is what one exchange on the control socket gives: an error, or everything read until the
  server closes.\<close>

type_synonym wire = "string \<Rightarrow> control_error + string"

definition round_trip :: "wire \<Rightarrow> string \<Rightarrow> control_error + string" where
  "round_trip wire command =
     (case wire (command @ [CHR 0x0A]) of
        Inl e \<Rightarrow> Inl e
      | Inr raw \<Rightarrow> (let r = trim raw in if take 5 r = ''ERROR'' then Inl (Remote r) else Inr r))"

definition control_block :: "wire \<Rightarrow> ipaddr \<Rightarrow> u64 \<Rightarrow> control_error + string" where
  "control_block wire ip ttl = round_trip wire (''BLOCK '' @ show_ip ip @ ''/32 '' @ show_nat (unat ttl))"

definition control_unblock :: "wire \<Rightarrow> ipaddr \<Rightarrow> control_error + string" where
  "control_unblock wire ip = round_trip wire (''UNBLOCK '' @ show_ip ip @ ''/32'')"

definition control_status :: "wire \<Rightarrow> control_error + string" where
  "control_status wire = round_trip wire ''STATUS''"

section \<open>The threat anchor\<close>

text \<open>\<^verbatim>\<open>NodeInterner\<close> of \<^verbatim>\<open>spec-engine\<close>: names to ids and back, ids handed out from one upwards; and the edge list.\<close>

record interner =
  in_counter :: u64
  in_forward :: "(string, u64) tbl"
  in_reverse :: "(u64, string) tbl"

definition interner_new :: interner where
  "interner_new = \<lparr>in_counter = 1, in_forward = [], in_reverse = []\<rparr>"

definition get_or_intern :: "interner \<Rightarrow> string \<Rightarrow> u64 \<times> interner" where
  "get_or_intern t s =
     (case tbl_get (in_forward t) s of
        Some i \<Rightarrow> (i, t)
      | None \<Rightarrow> (in_counter t, \<lparr>in_counter = in_counter t + 1, in_forward = tbl_insert (in_forward t) s (in_counter t),
                   in_reverse = tbl_insert (in_reverse t) (in_counter t) s\<rparr>))"

record spectral_graph =
  sg_interner :: interner
  observed_edges :: "(string \<times> string) list"

definition record_confirmed_threat :: "spectral_graph \<Rightarrow> ipaddr \<Rightarrow> spectral_graph" where
  "record_confirmed_threat g host =
     (let entity = ''Ip:'' @ show_ip host; anchor = ''Host:asd_confirmed_threat_anchor'';
          t1 = snd (get_or_intern (sg_interner g) entity);
          t2 = snd (get_or_intern t1 anchor)
      in g\<lparr>sg_interner := t2, observed_edges := observed_edges g @ [(entity, anchor)]\<rparr>)"

section \<open>The containment action\<close>

text \<open>\<^verbatim>\<open>ActiveContainment\<close> with the file system it writes to; \<open>panicked\<close> records a panic, after which the
  process is gone.  The hash set of confirmed hosts is a list without duplicates.\<close>

record containment =
  xdp_block_ttl_secs :: u64
  firewall_config_path :: path
  ac_spectral :: "spectral_graph option"
  confirmed_hosts :: "ipaddr list"
  ac_files :: files
  panicked :: bool

definition containment_new :: "u64 \<Rightarrow> path \<Rightarrow> spectral_graph option \<Rightarrow> files \<Rightarrow> containment" where
  "containment_new ttl p g fs = \<lparr>xdp_block_ttl_secs = ttl, firewall_config_path = p, ac_spectral = g,
     confirmed_hosts = [], ac_files = fs, panicked = False\<rparr>"

definition execute :: "(string \<Rightarrow> toml option) \<Rightarrow> (toml \<Rightarrow> string option) \<Rightarrow> wire \<Rightarrow> environment \<Rightarrow> containment response_action" where
  "execute from_str to_string wire env alert target c =
     (case parse_ip target of
        None \<Rightarrow> (False, c)
      | Some host \<Rightarrow>
          (let xdp_ok = (case control_block wire host (xdp_block_ttl_secs c) of Inl _ \<Rightarrow> False | Inr _ \<Rightarrow> True);
               hosts = List.insert host (confirmed_hosts c);
               (r, fs) = sync_confirmed_hosts from_str to_string env (ac_files c) (firewall_config_path c) hosts;
               c = c\<lparr>confirmed_hosts := hosts, ac_files := fs\<rparr>
           in case r of
                Panicked \<Rightarrow> (False, c\<lparr>panicked := True\<rparr>)
              | _ \<Rightarrow> (xdp_ok \<or> r = Done (),
                      c\<lparr>ac_spectral := map_option (\<lambda>g. record_confirmed_threat g host) (ac_spectral c)\<rparr>)))"

section \<open>The verdict loop\<close>

fun correlation_severity_to_core :: "corr_severity \<Rightarrow> siem_severity" where
  "correlation_severity_to_core CLow = SLow"
| "correlation_severity_to_core CMedium = SMedium"
| "correlation_severity_to_core CHigh = SHigh"
| "correlation_severity_to_core CCritical = SCritical"

definition parse_severity :: "string \<Rightarrow> siem_severity" where
  "parse_severity s =
     (case map_of [(''info'', SInfo), (''low'', SLow), (''medium'', SMedium), (''high'', SHigh), (''critical'', SCritical)]
             (map lower s) of
        Some v \<Rightarrow> v
      | None \<Rightarrow> SHigh)"

fun show_reason :: "corr_reason \<Rightarrow> string" where
  "show_reason MultiLaneCorroboration = ''MultiLaneCorroboration''"
| "show_reason SingleLaneCritical = ''SingleLaneCritical''"

fun show_lane :: "lane_source \<Rightarrow> string" where
  "show_lane LaneXdp = ''Xdp''" | "show_lane LaneClamAv = ''ClamAv''" | "show_lane LaneSpectral = ''Spectral''"

definition verdict_flow_id :: "ipaddr \<Rightarrow> u64 \<Rightarrow> string" where
  "verdict_flow_id host n = ''corr-'' @ show_ip host @ ''-'' @ show_nat (unat n)"

definition verdict_alert :: "u64 \<Rightarrow> corr_verdict \<Rightarrow> siem_alert" where
  "verdict_alert n v = \<lparr>sa_id = n, sa_timestamp_ms = 0, sa_rule_id = ''asd-correlation'',
     sa_title = show_reason (v_reason v) @ '' across ['' @ join_with '', '' (map show_lane (v_sources v)) @ '']'',
     sa_severity = correlation_severity_to_core (v_severity v), sa_mitre = None, sa_source_events = [], sa_context = []\<rparr>"

record orchestrator =
  or_next_id :: u64
  or_gated :: gated_response
  or_containment :: containment

text \<open>One turn of the loop: the verdict received, the clock of the queue, the clock readings of the policy,
  and the environment of the action.\<close>

type_synonym turn = "corr_verdict \<times> timestamp \<times> readings \<times> wire \<times> environment"

fun handle_verdict :: "(string \<Rightarrow> toml option) \<Rightarrow> (toml \<Rightarrow> string option) \<Rightarrow> orchestrator \<Rightarrow> turn \<Rightarrow> (review_error + disposition) \<times> orchestrator" where
  "handle_verdict from_str to_string o1 (v, now, ts, wire, env) =
     (let n = or_next_id o1;
          p = verdict_to_flow_prediction v (verdict_flow_id (v_host v) n) now;
          (d, g, c) = handle_flow_prediction (or_gated o1) now ts p (verdict_alert n v) (show_ip (v_host v))
            (execute from_str to_string wire env) (or_containment o1)
      in (d, \<lparr>or_next_id = n + 1, or_gated = g, or_containment = c\<rparr>))"

fun handle_verdicts :: "(string \<Rightarrow> toml option) \<Rightarrow> (toml \<Rightarrow> string option) \<Rightarrow> orchestrator \<Rightarrow> turn list \<Rightarrow> (review_error + disposition) list \<times> orchestrator" where
  "handle_verdicts from_str to_string o1 [] = ([], o1)"
| "handle_verdicts from_str to_string o1 (t # ts) =
     (let (d, o2) = handle_verdict from_str to_string o1 t;
          (ds, o3) = handle_verdicts from_str to_string o2 ts
      in (d # ds, o3))"

text \<open>The set-up of \<^verbatim>\<open>main\<close>.\<close>

definition orchestrator_new :: "string \<Rightarrow> string list \<Rightarrow> containment \<Rightarrow> review_error + orchestrator" where
  "orchestrator_new min_sev allowed c =
     (case gated_new trigger_default FailSafe (policy_new (parse_severity min_sev) allowed) of
        Inl e \<Rightarrow> Inl e
      | Inr g \<Rightarrow> Inr \<lparr>or_next_id = 1, or_gated = g, or_containment = c\<rparr>)"

section \<open>What a turn does\<close>

lemma run_policy_cases:
  assumes "run_policy g ts alert ip act w = (d, g', w')"
  shows "(d = Executed \<or> (\<exists>why. d = WithheldByPolicy why)) \<and> (w' = w \<or> w' = snd (act alert ip w))
    \<and> min_severity (gr_policy g') = min_severity (gr_policy g) \<and> rp_allowlist (gr_policy g') = rp_allowlist (gr_policy g)"
proof -
  obtain t0 t1 t2 where ts: "ts = (t0, t1, t2)" by (cases ts)
  show ?thesis using assms
    by (auto simp: run_policy_def ts policy_handle_def rate_limited_def Let_def split: if_splits prod.splits bool.splits)
qed

lemma run_policy_cleared:
  assumes "run_policy g ts alert ip act w = (d, g', w')" and "cleared (gr_policy g) (fst ts) alert ip"
  shows "w' = snd (act alert ip w)"
proof -
  obtain t0 t1 t2 where ts: "ts = (t0, t1, t2)" by (cases ts)
  show ?thesis using assms policy_handle_cases(1) [of "gr_policy g" t0 alert ip t1 t2 act w]
    by (auto simp: run_policy_def ts split: prod.splits bool.splits)
qed

lemma handle_keeps:
  assumes "handle_flow_prediction g now ts p alert ip act w = (r, g', w')"
  shows "min_severity (gr_policy g') = min_severity (gr_policy g) \<and> rp_allowlist (gr_policy g') = rp_allowlist (gr_policy g)
    \<and> (w' = w \<or> w' = snd (act alert ip w))"
  using assms
  by (auto simp: handle_flow_prediction_def split: prod.splits sum.splits ingest_outcome.splits verdict.splits dest: run_policy_cases)

lemma handle_gate:
  assumes ok: "queue_ok (gr_queue g)" and h: "handle_flow_prediction g now ts p alert ip act w = (r, g', w')"
  shows "queue_ok (gr_queue g') \<and> trigger_cfg (gr_queue g') = trigger_cfg (gr_queue g)"
    and "w' \<noteq> w \<Longrightarrow> Review_Types.evaluate p (trigger_cfg (gr_queue g)) = None \<and> cleared (gr_policy g) (fst ts) alert ip"
proof -
  have s: "gated_step act (g, w) (GPredict now ts p alert ip) = (g', w')" by (simp add: h)
  show "queue_ok (gr_queue g') \<and> trigger_cfg (gr_queue g') = trigger_cfg (gr_queue g)" using gated_effect(1) [OF ok s] by blast
  assume ne: "w' \<noteq> w"
  obtain k q where "ingest (gr_queue g) now p = (Inr (OutcomeAutoResolved ExecuteContainment k), q)"
    using h ne by (auto simp: handle_flow_prediction_def split: prod.splits sum.splits ingest_outcome.splits verdict.splits)
  then have "Review_Types.evaluate p (trigger_cfg (gr_queue g)) = None" using ingest_contains [OF ok] by blast
  moreover have "cleared (gr_policy g) (fst ts) alert ip" using gated_effect(2) [OF ok s ne] by (cases ts) auto
  ultimately show "Review_Types.evaluate p (trigger_cfg (gr_queue g)) = None \<and> cleared (gr_policy g) (fst ts) alert ip" by blast
qed

lemma execute_hosts: "set (confirmed_hosts (snd (execute from_str to_string wire env alert target c))) =
  set (confirmed_hosts c) \<union> set_option (parse_ip target)"
  by (auto simp: execute_def Let_def split: option.splits prod.splits sync_outcome.splits)

definition gate_ok :: "siem_severity \<Rightarrow> string list \<Rightarrow> orchestrator \<Rightarrow> bool" where
  "gate_ok sev allowed o1 \<longleftrightarrow> queue_ok (gr_queue (or_gated o1)) \<and> trigger_cfg (gr_queue (or_gated o1)) = trigger_default
     \<and> min_severity (gr_policy (or_gated o1)) = sev \<and> rp_allowlist (gr_policy (or_gated o1)) = allowed"

lemma gate_ok_new: "orchestrator_new min_sev allowed c = Inr o1 \<Longrightarrow>
  gate_ok (parse_severity min_sev) allowed o1 \<and> or_containment o1 = c \<and> or_next_id o1 = 1"
  using queue_new_ok by (auto simp: orchestrator_new_def gated_new_def gate_ok_def policy_new_def split: sum.splits)

text \<open>What justifies that a verdict's host is contained.\<close>

definition justified :: "siem_severity \<Rightarrow> string list \<Rightarrow> corr_verdict \<Rightarrow> bool" where
  "justified sev allowed v \<longleftrightarrow> v_reason v = MultiLaneCorroboration
     \<and> \<not> flt_lt (v_confidence v) (min_attack_confidence trigger_default)
     \<and> sev \<le> correlation_severity_to_core (v_severity v) \<and> show_ip (v_host v) \<notin> set allowed"

lemma verdict_trigger: "Review_Types.evaluate (verdict_to_flow_prediction v f now) trigger_default =
  (if v_reason v = SingleLaneCritical then Some NovelPattern
   else if flt_lt (v_confidence v) (min_attack_confidence trigger_default) then Some LowConfidenceAttack else None)"
  by (cases "v_reason v") (simp_all add: Review_Types.evaluate_def verdict_to_flow_prediction_def trigger_default_def margin_def)

lemma handle_verdict_step:
  assumes ok: "gate_ok sev allowed o1" and h: "handle_verdict from_str to_string o1 (v, rest) = (d, o2)"
  shows "gate_ok sev allowed o2"
    and "h \<in> set (confirmed_hosts (or_containment o2)) \<Longrightarrow> h \<notin> set (confirmed_hosts (or_containment o1)) \<Longrightarrow>
      parse_ip (show_ip (v_host v)) = Some h \<and> justified sev allowed v"
proof -
  obtain now ts wire env where rest: "rest = (now, ts, wire, env)" by (cases rest)
  let ?n = "or_next_id o1" and ?c = "or_containment o1"
  obtain g c where s: "handle_flow_prediction (or_gated o1) now ts (verdict_to_flow_prediction v (verdict_flow_id (v_host v) ?n) now)
      (verdict_alert ?n v) (show_ip (v_host v)) (execute from_str to_string wire env) ?c = (d, g, c)"
    and o2: "o2 = \<lparr>or_next_id = ?n + 1, or_gated = g, or_containment = c\<rparr>"
    using h by (auto simp: rest Let_def split: prod.splits)
  have q: "queue_ok (gr_queue (or_gated o1))" "trigger_cfg (gr_queue (or_gated o1)) = trigger_default"
    using ok by (simp_all add: gate_ok_def)
  show "gate_ok sev allowed o2" using ok handle_gate(1) [OF q(1) s] handle_keeps [OF s] by (simp add: gate_ok_def o2)
  assume new: "h \<in> set (confirmed_hosts (or_containment o2))" "h \<notin> set (confirmed_hosts (or_containment o1))"
  then have "c \<noteq> ?c" by (auto simp: o2)
  with handle_keeps [OF s] have "c = snd (execute from_str to_string wire env (verdict_alert ?n v) (show_ip (v_host v)) ?c)" by blast
  then have "parse_ip (show_ip (v_host v)) = Some h" using new execute_hosts by (auto simp: o2)
  moreover have "justified sev allowed v"
    using handle_gate(2) [OF q(1) s \<open>c \<noteq> ?c\<close>] ok
    by (auto simp: justified_def q(2) verdict_trigger cleared_def gate_ok_def verdict_alert_def split: if_splits intro: corr_reason.exhaust)
  ultimately show "parse_ip (show_ip (v_host v)) = Some h \<and> justified sev allowed v" by blast
qed

lemma handle_verdicts_hosts:
  assumes "gate_ok sev allowed o1" and "handle_verdicts from_str to_string o1 ts = (ds, o2)"
    and "h \<in> set (confirmed_hosts (or_containment o2))"
  shows "h \<in> set (confirmed_hosts (or_containment o1))
    \<or> (\<exists>t \<in> set ts. parse_ip (show_ip (v_host (fst t))) = Some h \<and> justified sev allowed (fst t))"
  using assms
proof (induction ts arbitrary: o1 ds)
  case (Cons t ts)
  obtain d o' where d: "handle_verdict from_str to_string o1 t = (d, o')" by fastforce
  then obtain ds' where r: "handle_verdicts from_str to_string o' ts = (ds', o2)" using Cons.prems(2) by (auto split: prod.splits)
  note step = handle_verdict_step [OF Cons.prems(1), of from_str to_string "fst t" "snd t" d o'] d
  show ?case using Cons.IH [OF _ r Cons.prems(3)] step by auto
qed simp


section \<open>No verdict is refused\<close>

lemma show_nat_inj: "show_nat a = show_nat b \<Longrightarrow> a = b"
  using parse_show_nat [OF max.cobounded1 [of a b]] parse_show_nat [OF max.cobounded2 [of b a]] by (metis Inr_inject)

lemma numbered_inj:
  assumes "xs @ CHR ''-'' # show_nat a = ys @ CHR ''-'' # show_nat b"
  shows "xs = ys \<and> a = b"
proof -
  have d: "CHR ''-'' \<notin> set (show_nat a)" "CHR ''-'' \<notin> set (show_nat b)" by (simp_all add: show_nat_no_sep)
  have "rev (show_nat a) @ CHR ''-'' # rev xs = rev (show_nat b) @ CHR ''-'' # rev ys"
    using arg_cong [OF assms, of rev] by simp
  then have "rev (show_nat a) = rev (show_nat b) \<and> rev xs = rev ys"
    using d split_once_append [of "CHR ''-''" "rev (show_nat a)" "rev xs"] split_once_append [of "CHR ''-''" "rev (show_nat b)" "rev ys"]
    by (metis option.inject prod.inject set_rev)
  then show ?thesis using show_nat_inj by simp
qed

lemma verdict_flow_id_inj: "verdict_flow_id h n = verdict_flow_id h' n' \<Longrightarrow> n = n'"
  using numbered_inj [of "''corr-'' @ show_ip h" "unat n" "''corr-'' @ show_ip h'" "unat n'"]
  by (simp add: verdict_flow_id_def word_unat_eq_iff)

definition decision_name :: "string \<Rightarrow> nat \<Rightarrow> string" where
  "decision_name f k = ''dec-'' @ f @ ''-'' @ show_nat k"

lemma decision_name_inj: "decision_name f k = decision_name f' k' \<Longrightarrow> f = f'"
  using numbered_inj [of f k f' k'] by (simp add: decision_name_def)

lemma decision_name_flow: "decision_name f k \<noteq> verdict_flow_id h n"
  by (simp add: decision_name_def verdict_flow_id_def)

text \<open>The ids in the audit graph belong to the verdicts numbered so far.\<close>

definition ids_below :: "u64 \<Rightarrow> review_queue \<Rightarrow> bool" where
  "ids_below n q \<longleftrightarrow> (\<forall>k. inst_at (rq_engine q) k \<noteq> None \<longrightarrow>
     (\<exists>h m. m < n \<and> (k = verdict_flow_id h m \<or> (\<exists>s. k = decision_name (verdict_flow_id h m) s))))"

lemma ids_below_fresh:
  assumes "ids_below n q"
  shows "inst_at (rq_engine q) (verdict_flow_id h n) = None"
    "inst_at (rq_engine q) (decision_name (verdict_flow_id h n) k) = None"
  using assms verdict_flow_id_inj decision_name_inj decision_name_flow unfolding ids_below_def by (metis order_less_irrefl)+

lemma ingest_fresh:
  assumes ok: "queue_ok q" and f: "inst_at (rq_engine q) (fp_flow_id p) = None"
    and dec: "inst_at (rq_engine q) (decision_name (fp_flow_id p) (unat (decision_seq q))) = None"
  shows "\<exists>out q'. ingest q now p = (Inr out, q')
    \<and> (case Review_Types.evaluate p (trigger_cfg q) of Some r \<Rightarrow> out = QueuedForReview r
       | None \<Rightarrow> (\<exists>k. out = OutcomeAutoResolved (if predicted_label p = benign_label (trigger_cfg q) then Dismiss else ExecuteContainment) k))
    \<and> (\<forall>k. inst_at (rq_engine q') k \<noteq> None \<longrightarrow>
         inst_at (rq_engine q) k \<noteq> None \<or> k = fp_flow_id p \<or> (\<exists>s. k = decision_name (fp_flow_id p) s))"
proof -
  let ?f = "fp_flow_id p"
  have a: "audit_ok (rq_engine q)" using ok by (simp add: queue_ok_def)
  have new: "tbl_get (rq_items q) ?f = None"
    using ok f unfolding queue_ok_def item_ok_def by (metis not_Some_eq)
  obtain e where e: "record_prediction (rq_engine q) p = Inr e" using f by (simp add: record_prediction_eq [OF a])
  note r = record_prediction_ok [OF a e]
  show ?thesis
  proof (cases "Review_Types.evaluate p (trigger_cfg q)")
    case (Some reason)
    then show ?thesis by (simp add: ingest_def new e Let_def r(2))
  next
    case None
    let ?v = "if predicted_label p = benign_label (trigger_cfg q) then Dismiss else ExecuteContainment"
    let ?dec = "\<lambda>did. \<lparr>decision_id = did, ad_flow_id = ?f, ad_reviewer = SystemAutoResolve, ad_verdict = ?v,
        rationale = auto_rationale p (trigger_cfg q), decided_at = now\<rparr>"
    let ?item = "\<lambda>did. \<lparr>qi_prediction = p, qi_state = AutoResolved did, enqueued_at = now\<rparr>"
    have k: "fst (next_decision_id (q\<lparr>rq_engine := e\<rparr>) ?f) = decision_name ?f (unat (decision_seq q))"
      by (simp add: next_decision_id_def decision_name_def)
    have ne: "decision_name ?f (unat (decision_seq q)) \<noteq> ?f" by (simp add: decision_name_def)
    show ?thesis
      by (rule resolve_cases [OF prediction_queue_ok [OF ok e], of ?f p ?dec ?item])
        (use None new e dec ne in \<open>auto simp: ingest_def Let_def r(2) k\<close>)
  qed
qed

text \<open>What the loop answers to a verdict.\<close>

definition expected :: "corr_verdict \<Rightarrow> disposition \<Rightarrow> bool" where
  "expected v d \<longleftrightarrow>
     (if v_reason v = SingleLaneCritical then d = DQueuedForReview NovelPattern
      else if flt_lt (v_confidence v) (min_attack_confidence trigger_default) then d = DQueuedForReview LowConfidenceAttack
      else d = Executed \<or> (\<exists>why. d = WithheldByPolicy why))"

lemma verdict_prediction_fields [simp]:
  "fp_flow_id (verdict_to_flow_prediction v f now) = f"
  "predicted_label (verdict_to_flow_prediction v f now) \<noteq> benign_label trigger_default"
  by (simp_all add: verdict_to_flow_prediction_def trigger_default_def split: corr_reason.splits)

lemma ids_below_step:
  assumes "ids_below n q" and "n + 1 \<noteq> 0"
    and "\<forall>k. inst_at (rq_engine q') k \<noteq> None \<longrightarrow> inst_at (rq_engine q) k \<noteq> None
      \<or> k = verdict_flow_id h n \<or> (\<exists>s. k = decision_name (verdict_flow_id h n) s)"
  shows "ids_below (n + 1) q'"
proof -
  have lt: "m < n + 1 \<longleftrightarrow> m \<le> n" for m
    using assms(2) unfolding word_less_nat_alt word_le_nat_alt
    by (metis Suc_eq_plus1 add.commute less_Suc_eq_le unatSuc)
  show ?thesis using assms(1,3) unfolding ids_below_def lt by (metis order_less_imp_le order_refl)
qed

lemma handle_verdict_expected:
  assumes ok: "gate_ok sev allowed o1" and ids: "ids_below (or_next_id o1) (gr_queue (or_gated o1))" and n: "or_next_id o1 + 1 \<noteq> 0"
  shows "\<exists>d o2. handle_verdict from_str to_string o1 (v, now, ts, wire, env) = (Inr d, o2) \<and> expected v d
    \<and> or_next_id o2 = or_next_id o1 + 1 \<and> ids_below (or_next_id o2) (gr_queue (or_gated o2))
    \<and> (v_reason v = MultiLaneCorroboration \<and> \<not> flt_lt (v_confidence v) (min_attack_confidence trigger_default)
         \<and> cleared (gr_policy (or_gated o1)) (fst ts) (verdict_alert (or_next_id o1) v) (show_ip (v_host v)) \<longrightarrow>
       or_containment o2 = snd (execute from_str to_string wire env (verdict_alert (or_next_id o1) v) (show_ip (v_host v)) (or_containment o1)))"
proof -
  let ?n = "or_next_id o1" and ?q = "gr_queue (or_gated o1)"
  let ?p = "verdict_to_flow_prediction v (verdict_flow_id (v_host v) ?n) now"
  have q: "queue_ok ?q" "trigger_cfg ?q = trigger_default" using ok by (simp_all add: gate_ok_def)
  obtain out q' where i: "ingest ?q now ?p = (Inr out, q')"
    and out: "case Review_Types.evaluate ?p trigger_default of Some r \<Rightarrow> out = QueuedForReview r
       | None \<Rightarrow> \<exists>k. out = OutcomeAutoResolved ExecuteContainment k"
    and q': "\<forall>k. inst_at (rq_engine q') k \<noteq> None \<longrightarrow> inst_at (rq_engine ?q) k \<noteq> None
      \<or> k = verdict_flow_id (v_host v) ?n \<or> (\<exists>s. k = decision_name (verdict_flow_id (v_host v) ?n) s)"
    using ingest_fresh [OF q(1), of ?p now, unfolded verdict_prediction_fields q(2), OF ids_below_fresh [OF ids]]
    unfolding if_not_P [OF verdict_prediction_fields(2)] by (elim exE conjE) (rule that)
  have ids': "ids_below (?n + 1) q'" by (rule ids_below_step [OF ids n q'])
  show ?thesis
  proof (cases "Review_Types.evaluate ?p trigger_default")
    case (Some r)
    then show ?thesis
      using i out ids' by (auto simp: handle_flow_prediction_def Let_def expected_def verdict_trigger split: if_splits)
  next
    case None
    then obtain k where k: "out = OutcomeAutoResolved ExecuteContainment k" using out by auto
    obtain d g c where r: "run_policy (or_gated o1\<lparr>gr_queue := q'\<rparr>) ts (verdict_alert ?n v) (show_ip (v_host v))
        (execute from_str to_string wire env) (or_containment o1) = (d, g, c)" using prod_cases3 by blast
    show ?thesis
      using i ids' run_policy_cases [OF r] run_policy_effect(1) [OF r] run_policy_cleared [OF r] None
      by (auto simp: handle_flow_prediction_def Let_def k r expected_def verdict_trigger split: if_splits)
  qed
qed

lemma ids_below_new: "orchestrator_new min_sev allowed c = Inr o1 \<Longrightarrow> ids_below (or_next_id o1) (gr_queue (or_gated o1))"
  using register_ok by (fastforce simp: orchestrator_new_def gated_new_def queue_new_def ids_below_def split: sum.splits)

lemma handle_verdicts_expected:
  assumes "gate_ok sev allowed o1" and "ids_below (or_next_id o1) (gr_queue (or_gated o1))"
    and "unat (or_next_id o1) + length ts < 2 ^ 64" and "handle_verdicts from_str to_string o1 ts = (ds, o2)"
  shows "list_all2 (\<lambda>t d. \<exists>x. d = Inr x \<and> expected (fst t) x) ts ds"
  using assms
proof (induction ts arbitrary: o1 ds)
  case (Cons t ts)
  obtain v now rs wire env where t: "t = (v, now, rs, wire, env)" by (cases t)
  have u: "unat (or_next_id o1 + 1) = unat (or_next_id o1) + 1" "or_next_id o1 + 1 \<noteq> 0"
    using Cons.prems(3) by (auto simp: unat_word_ariths word_unat_eq_iff)
  obtain d o' where d: "handle_verdict from_str to_string o1 t = (Inr d, o')" "expected v d"
      "or_next_id o' = or_next_id o1 + 1" "ids_below (or_next_id o') (gr_queue (or_gated o'))"
    using handle_verdict_expected [OF Cons.prems(1,2) u(2), of from_str to_string v now rs wire env] by (auto simp: t)
  obtain ds' where r: "handle_verdicts from_str to_string o' ts = (ds', o2)" "ds = Inr d # ds'"
    using Cons.prems(4) d(1) by (auto split: prod.splits)
  have "gate_ok sev allowed o'" using handle_verdict_step(1) [OF Cons.prems(1), of from_str to_string v _ "Inr d" o'] d(1) t by blast
  then show ?case using Cons.IH [OF _ d(4) _ r(1)] Cons.prems(3) d(2,3) u(1) by (simp add: r(2) t)
qed simp


text \<open>A verdict of two lanes about one host, with a control socket that answers and a file system that works.\<close>

definition sample_verdict :: corr_verdict where
  "sample_verdict = \<lparr>v_host = V4 Firewall_Sync.sample_host, v_severity = CHigh, v_confidence = Fin 1,
     v_sources = [LaneClamAv, LaneSpectral], v_evidence = [], v_reason = MultiLaneCorroboration, v_first_seen = 0, v_decided_at = 0\<rparr>"

definition sample_turn :: turn where
  "sample_turn = (sample_verdict, 0, (0, 0, 0), (\<lambda>_. Inr ''OK: Blocked''), sample_env)"

definition sample_start :: containment where
  "sample_start = containment_new 3600 sample_path None ((\<lambda>_. None)(sample_path := Some ''before''))"

lemma attack_threshold: "\<not> flt_lt (Fin 1) (min_attack_confidence trigger_default)"
proof -
  have "rnd 53 (- 1074) (90 / 100) \<le> rnd 53 (- 1074) 1" by (rule rnd_mono) simp_all
  also have "rnd 53 (- 1074) (1 :: rat) = 1" using rnd_int_exact [of 1 53 "- 1074"] by simp
  finally have "rnd 53 (- 1074) (90 / 100) \<le> (1 :: rat)" .
  moreover have "0 \<le> rnd 53 (- 1074) (90 / 100 :: rat)" by (rule rnd_nonneg) simp
  moreover have "(1 :: rat) < 2 powi 1024" using two_powi_less_iff [of 0 1024] by simp
  ultimately show ?thesis by (simp add: trigger_default_def mk_f64_def mk_flt_def Let_def)
qed

lemma sample_new: "\<exists>o1. orchestrator_new ''high'' [] sample_start = Inr o1"
  using register_ok by (auto simp: orchestrator_new_def gated_new_def queue_new_def)

lemma sample_run:
  assumes new: "orchestrator_new ''high'' [] sample_start = Inr o1"
  shows "V4 Firewall_Sync.sample_host \<in> set (confirmed_hosts (or_containment (snd (handle_verdicts sample_from_str sample_to_string o1 [sample_turn]))))"
proof -
  note ok = gate_ok_new [OF new]
  have "cleared (gr_policy (or_gated o1)) 0 (verdict_alert 1 sample_verdict) (show_ip (V4 Firewall_Sync.sample_host))"
    using new by (auto simp: orchestrator_new_def gated_new_def cleared_def policy_new_def rate_limited_def verdict_alert_def
        sample_verdict_def parse_severity_def lower_def less_eq_siem_severity_def split: sum.splits)
  then have "or_containment (snd (handle_verdict sample_from_str sample_to_string o1 sample_turn)) =
      snd (execute sample_from_str sample_to_string (\<lambda>_. Inr ''OK: Blocked'') sample_env (verdict_alert 1 sample_verdict) (show_ip (V4 Firewall_Sync.sample_host)) sample_start)"
    using handle_verdict_expected [OF conjunct1 [OF ok] ids_below_new [OF new], of sample_from_str sample_to_string sample_verdict 0 "(0, 0, 0)"
      "\<lambda>_. Inr ''OK: Blocked''" sample_env] ok attack_threshold
    by (auto simp: sample_turn_def sample_verdict_def)
  then show ?thesis by (simp add: execute_hosts parse_ip_show_v4 case_prod_beta Let_def)
qed



section \<open>Evidence of the network monitor\<close>

lemma mk_f32_le_dyadic:
  assumes "0 \<le> x" "x \<le> of_int n / 2 ^ k" "n < 2 ^ 24" "k \<le> 149" "0 \<le> n"
  shows "\<exists>r. mk_f32 x = Fin r \<and> 0 \<le> r \<and> r \<le> of_int n / 2 ^ k"
proof -
  have "rnd 24 (- 149) x \<le> rnd 24 (- 149) (of_int n / 2 ^ k)" using assms(2) by (rule rnd_mono) simp
  also have "\<dots> = of_int n / 2 ^ k" using assms(3,4,5) by (intro rnd_dyadic_exact) auto
  finally have r: "rnd 24 (- 149) x \<le> of_int n / 2 ^ k" .
  have "(of_int n / 2 ^ k :: rat) \<le> of_int n / 1" using assms(5) by (intro divide_left_mono) simp_all
  also have "\<dots> < of_int (2 ^ 24)" using assms(3) by (simp only: of_int_less_iff div_by_1)
  also have "(of_int (2 ^ 24) :: rat) \<le> 2 powi 128" using two_powi_le_iff [of 24 128] by simp
  finally have "rnd 24 (- 149) x < 2 powi 128" using r by linarith
  then show ?thesis using r rnd_nonneg [OF assms(1), of 24 "- 149"] by (simp add: mk_f32_def mk_flt_def Let_def)
qed

lemma attack_threshold_low: "x \<le> 7 / 8 \<Longrightarrow> flt_lt (Fin x) (min_attack_confidence trigger_default)"
proof -
  assume x: "x \<le> 7 / 8"
  have "rnd 53 (- 1074) (115 / 128) \<le> rnd 53 (- 1074) (90 / 100)" by (rule rnd_mono) simp_all
  moreover have "rnd 53 (- 1074) (115 / 128) = (115 / 128 :: rat)" using rnd_dyadic_exact [of 115 53 "- 1074" 7] by simp
  ultimately have "x < rnd 53 (- 1074) (90 / 100)" using x by simp
  moreover have "0 \<le> rnd 53 (- 1074) (90 / 100 :: rat)" by (rule rnd_nonneg) simp
  ultimately show ?thesis by (simp add: trigger_default_def mk_f64_def mk_flt_def Let_def)
qed

text \<open>The mean of two confidences that are at most \<open>5 / 8\<close> and \<open>1\<close>, in either order, rounding included.\<close>

lemma pair_mean:
  assumes ev: "map ev_confidence (hr_evidence r) = [Fin a, Fin b]" and nonneg: "0 \<le> a" "0 \<le> b"
    and a: "a \<le> of_int n / 2 ^ 3" and b: "b \<le> of_int (13 - n) / 2 ^ 3" and n: "0 \<le> n" "n \<le> 13"
  shows "\<exists>m. mean_confidence r = Fin m \<and> m \<le> 13 / 16"
proof -
  obtain s1 where s1: "mk_f32 a = Fin s1" "0 \<le> s1" "s1 \<le> of_int n / 2 ^ 3"
    using mk_f32_le_dyadic [OF nonneg(1) a] n by auto
  have "s1 + b \<le> of_int 13 / 2 ^ 3" using s1(3) b by (simp add: diff_divide_distrib)
  then obtain s2 where s2: "mk_f32 (s1 + b) = Fin s2" "0 \<le> s2" "s2 \<le> of_int 13 / 2 ^ 3"
    using mk_f32_le_dyadic [of "s1 + b" 13 3] s1(2) nonneg(2) by auto
  obtain m where m: "mk_f32 (s2 / 2) = Fin m" "m \<le> of_int 13 / 2 ^ 4"
    using mk_f32_le_dyadic [of "s2 / 2" 13 4] s2(2,3) by auto
  have "rnd 24 (- 149) 2 = (2 :: rat)" using rnd_int_exact [of 2 24 "- 149"] by simp
  moreover have "(2 :: rat) < 2 powi 128" using two_powi_less_iff [of 1 128] by simp
  ultimately have "mk_f32 2 = Fin 2" by (simp add: mk_f32_def mk_flt_def Let_def)
  moreover have "length (hr_evidence r) = 2" using arg_cong [OF ev, of length] by simp
  ultimately have "mean_confidence r = Fin m"
    using s1(1) s2(1) m(1) by (auto simp: mean_confidence_def ev f32_of_nat_def)
  then show ?thesis using m(2) by simp
qed

lemma submitted_confidence:
  assumes "submit_alert a now = Some e"
  shows "\<exists>x. ev_confidence e = Fin x \<and> 0 \<le> x \<and> x \<le> of_int 5 / 2 ^ 3 \<and> ev_source e = LaneXdp"
  using assms mk_f32_le_dyadic [of "6 / 10" 5 3]
  by (auto simp: submit_alert_def xdp_event_def Let_def split: option.splits)

text \<open> An alert of the network monitor keeps containment from being automatic.  Alerts enter the XDP lane
  as unapproved, with confidence 0.6; whatever single piece of evidence of another lane corroborates one,
  with a confidence between 0 and 1, and in whichever order they arrive, the mean stays below the review
  threshold of 0.9 and the verdict waits for a human as a low-confidence attack.\<close>

theorem monitor_evidence_waits:
  assumes "submit_alert a now = Some e" and "ev_confidence e' = Fin c" "0 \<le> c" "c \<le> 1"
    and "hr_evidence r = [e, e'] \<or> hr_evidence r = [e', e]"
    and "v_confidence v = mean_confidence r" and "v_reason v = MultiLaneCorroboration"
  shows "expected v d \<longleftrightarrow> d = DQueuedForReview LowConfidenceAttack"
proof -
  obtain x where x: "ev_confidence e = Fin x" "0 \<le> x" "x \<le> of_int 5 / 2 ^ 3"
    using submitted_confidence [OF assms(1)] by blast
  have "\<exists>m. mean_confidence r = Fin m \<and> m \<le> 13 / 16"
    using assms(5)
  proof
    assume "hr_evidence r = [e, e']"
    then show ?thesis by (intro pair_mean [of r x c 5]) (use x assms(2-4) in auto)
  next
    assume "hr_evidence r = [e', e]"
    then show ?thesis by (intro pair_mean [of r c x 8]) (use x assms(2-4) in auto)
  qed
  then have "flt_lt (v_confidence v) (min_attack_confidence trigger_default)"
    using attack_threshold_low assms(6) by fastforce
  then show ?thesis using assms(7) by (simp add: expected_def)
qed

definition sample_nsm_alert :: nsm_alert where
  "sample_nsm_alert = \<lparr>na_ts_unix = 0, na_severity = SevHigh, na_detector = ''portscan'', na_message = ''scan'',
     na_src_ip = Some (V4 Firewall_Sync.sample_host), na_dst_ip = None, na_extra = JNull\<rparr>"

definition sample_record :: host_record where
  "sample_record = (host_new (the (submit_alert sample_nsm_alert 0)))\<lparr>hr_evidence := [the (submit_alert sample_nsm_alert 0),
     clamav_event (V4 Firewall_Sync.sample_host) ''f'' ''Eicar'' True 1]\<rparr>"

theorem monitor_evidence_waits_witness:
  "\<forall>d. expected (sample_verdict\<lparr>v_confidence := mean_confidence sample_record\<rparr>) d \<longleftrightarrow> d = DQueuedForReview LowConfidenceAttack"
proof
  fix d
  obtain e where e: "submit_alert sample_nsm_alert 0 = Some e" by (simp add: submit_alert_def nsm_alert_host_def sample_nsm_alert_def Let_def)
  show "expected (sample_verdict\<lparr>v_confidence := mean_confidence sample_record\<rparr>) d \<longleftrightarrow> d = DQueuedForReview LowConfidenceAttack"
    by (rule monitor_evidence_waits [OF e, of "clamav_event (V4 Firewall_Sync.sample_host) ''f'' ''Eicar'' True 1" 1 sample_record])
      (simp_all add: clamav_event_def sample_record_def e sample_verdict_def)
qed

text \<open>A flood is reported by its target only, and the evidence is then held against that target.\<close>

lemma flood_victim_accused:
  assumes "synflood_observe det now pkt = (Some al, det')" and "na_src_ip a = al_src al" "na_dst_ip a = al_dst al"
  shows "\<exists>e. submit_alert a t = Some e \<and> ev_host e = pm_dst_ip pkt"
  using assms by (auto simp: synflood_observe_def submit_alert_def nsm_alert_host_def xdp_event_def Let_def split: if_splits)

end
