(* ===== verification/Siem_Rules.thy ===== *)
theory Siem_Rules
  imports Siem_Response "HOL-Library.Sublist"
begin

text \<open>
  The rule engine of the SIEM (\<^verbatim>\<open>siem-rules\<close>): field resolution, pattern and threshold rules with
  their windows, alert numbering.  The regular expression crate and the YAML reader are
  parameters (\<open>regex pat s\<close> is false for a pattern that does not compile).
\<close>

section \<open>Rules\<close>

datatype field_match = Equals string | Contains string | Regex string

definition contains_str :: "string \<Rightarrow> string \<Rightarrow> bool" where
  "contains_str s v = list_ex (\<lambda>i. take (length v) (drop i s) = v) [0..<Suc (length s)]"

fun is_match :: "(string \<Rightarrow> string \<Rightarrow> bool) \<Rightarrow> field_match \<Rightarrow> string \<Rightarrow> bool" where
  "is_match regex (Equals v) s = (s = v)"
| "is_match regex (Contains v) s = contains_str s v"
| "is_match regex (Regex pat) s = regex pat s"

datatype rule_kind =
    Match string field_match
  | Threshold string field_match string u32 u64 \<comment> \<open>field, pattern, group by, count, window in seconds\<close>

record rule_def =
  rd_id :: string
  rd_title :: string
  rd_severity :: siem_severity
  rd_mitre :: "string option"
  rd_kind :: rule_kind

record rule_engine =
  re_rules :: "rule_def list"
  windows :: "(string \<times> string, u64 list) tbl"
  next_alert_id :: u64

definition rule_engine_new :: "rule_def list \<Rightarrow> rule_engine" where
  "rule_engine_new rules = \<lparr>re_rules = rules, windows = [], next_alert_id = 1\<rparr>"

section \<open>Processing\<close>

definition resolve_field :: "siem_event \<Rightarrow> string \<Rightarrow> string option" where
  "resolve_field ev field =
     (case tbl_get (se_fields ev) field of
        Some v \<Rightarrow> Some v
      | None \<Rightarrow>
          (case se_kind ev of
             Log source message \<Rightarrow>
               if field = ''source'' then Some source else if field = ''message'' then Some message else None
           | Flow src_ip dst_ip _ dst_port _ _ _ _ _ _ \<Rightarrow>
               if field = ''src_ip'' then Some src_ip else if field = ''dst_ip'' then Some dst_ip
               else if field = ''dst_port'' then Some (show_nat (unat dst_port)) else None
           | FileIntegrity path change _ _ \<Rightarrow>
               if field = ''path'' then Some path else if field = ''change'' then Some change else None))"

definition build_alert :: "rule_engine \<Rightarrow> rule_def \<Rightarrow> siem_event \<Rightarrow> (string, string) tbl \<Rightarrow> siem_alert \<times> rule_engine" where
  "build_alert en rule ev ctx =
     (\<lparr>sa_id = next_alert_id en, sa_timestamp_ms = se_timestamp_ms ev, sa_rule_id = rd_id rule, sa_title = rd_title rule,
       sa_severity = rd_severity rule, sa_mitre = rd_mitre rule, sa_source_events = [se_id ev], sa_context = ctx\<rparr>,
      en\<lparr>next_alert_id := next_alert_id en + 1\<rparr>)"

definition saturating_sub :: "u64 \<Rightarrow> u64 \<Rightarrow> u64" where
  "saturating_sub a b = (if b \<le> a then a - b else 0)"

definition window_cutoff :: "siem_event \<Rightarrow> u64 \<Rightarrow> u64" where
  "window_cutoff ev window_secs = saturating_sub (se_timestamp_ms ev) (window_secs * 1000)"

text \<open>One turn of the loop over the rules.\<close>

definition process_rule :: "(string \<Rightarrow> string \<Rightarrow> bool) \<Rightarrow> siem_event \<Rightarrow> siem_alert list \<times> rule_engine \<Rightarrow> rule_def \<Rightarrow> siem_alert list \<times> rule_engine" where
  "process_rule regex ev = (\<lambda>(alerts, en) rule.
     (case rd_kind rule of
        Match field pattern \<Rightarrow>
          (case resolve_field ev field of
             None \<Rightarrow> (alerts, en)
           | Some v \<Rightarrow>
               if is_match regex pattern v
               then let (a, en') = build_alert en rule ev [] in (alerts @ [a], en')
               else (alerts, en))
      | Threshold field pattern group_by count window_secs \<Rightarrow>
          (case resolve_field ev field of
             None \<Rightarrow> (alerts, en)
           | Some v \<Rightarrow>
               if \<not> is_match regex pattern v then (alerts, en)
               else case resolve_field ev group_by of
                      None \<Rightarrow> (alerts, en)
                    | Some g \<Rightarrow>
                        (let key = (rd_id rule, g);
                             hits = dropWhile (\<lambda>t. t < window_cutoff ev window_secs)
                               (tbl_get_or (windows en) key [] @ [se_timestamp_ms ev]);
                             hit_count = (of_nat (length hits) :: u32)
                         in if count \<le> hit_count
                            then
                              let ctx = tbl_insert (tbl_insert [] group_by g) ''hit_count'' (show_nat (unat hit_count));
                                  (a, en') = build_alert (en\<lparr>windows := tbl_insert (windows en) key []\<rparr>) rule ev ctx
                              in (alerts @ [a], en')
                            else (alerts, en\<lparr>windows := tbl_insert (windows en) key hits\<rparr>)))))"

definition process :: "(string \<Rightarrow> string \<Rightarrow> bool) \<Rightarrow> rule_engine \<Rightarrow> siem_event \<Rightarrow> siem_alert list \<times> rule_engine" where
  "process regex en ev = foldl (process_rule regex ev) ([], en) (re_rules en)"

definition process_all :: "(string \<Rightarrow> string \<Rightarrow> bool) \<Rightarrow> rule_engine \<Rightarrow> siem_event list \<Rightarrow> rule_engine" where
  "process_all regex en evs = foldl (\<lambda>en ev. snd (process regex en ev)) en evs"

section \<open>Windows hold matching events\<close>

text \<open>An event counts towards a threshold rule's group.\<close>

definition counts :: "(string \<Rightarrow> string \<Rightarrow> bool) \<Rightarrow> rule_def \<Rightarrow> string \<Rightarrow> siem_event \<Rightarrow> bool" where
  "counts regex rule g ev \<longleftrightarrow>
     (case rd_kind rule of
        Match _ _ \<Rightarrow> False
      | Threshold field pattern group_by _ _ \<Rightarrow>
          (case resolve_field ev field of None \<Rightarrow> False | Some v \<Rightarrow> is_match regex pattern v)
          \<and> resolve_field ev group_by = Some g)"

abbreviation hits_of :: "rule_engine \<Rightarrow> rule_def \<Rightarrow> string \<Rightarrow> u64 list" where
  "hits_of en rule g \<equiv> tbl_get_or (windows en) (rd_id rule, g) []"

lemma process_rule_other:
  assumes "rd_id r \<noteq> rd_id r'"
  shows "hits_of (snd (process_rule regex ev s r')) r g = hits_of (snd s) r g"
proof -
  obtain al en where s: "s = (al, en)" by (cases s)
  show ?thesis using assms
    by (auto simp: s process_rule_def build_alert_def Let_def split: rule_kind.split option.split)
qed

lemma process_rule_self:
  "subseq (hits_of (snd (process_rule regex ev s r)) r g)
     (hits_of (snd s) r g @ (if counts regex r g ev then [se_timestamp_ms ev] else []))"
proof -
  obtain al en where s: "s = (al, en)" by (cases s)
  show ?thesis
    by (auto simp: s process_rule_def build_alert_def counts_def Let_def split: rule_kind.split option.split
        intro: suffix_imp_subseq suffix_dropWhile)
qed

lemma process_rule_alerts:
  "\<exists>new. fst (process_rule regex ev s r) = fst s @ new \<and> (\<forall>a \<in> set new. sa_rule_id a = rd_id r)
    \<and> (\<forall>a \<in> set new. \<forall>f p gb n w. rd_kind r = Threshold f p gb n w \<longrightarrow>
         (\<exists>g. counts regex r g ev \<and> tbl_get (sa_context a) gb = (if gb = ''hit_count'' then tbl_get (sa_context a) gb else Some g)
            \<and> n \<le> of_nat (length (dropWhile (\<lambda>t. t < window_cutoff ev w) (hits_of (snd s) r g @ [se_timestamp_ms ev])))))"
proof -
  obtain al en where s: "s = (al, en)" by (cases s)
  show ?thesis
    by (auto simp: s process_rule_def build_alert_def counts_def Let_def split: rule_kind.split option.split)
qed

lemma process_rules_other:
  assumes "\<forall>r' \<in> set rs. rd_id r' \<noteq> rd_id r"
  shows "hits_of (snd (foldl (process_rule regex ev) s rs)) r g = hits_of (snd s) r g
    \<and> (\<forall>a \<in> set (fst (foldl (process_rule regex ev) s rs)). sa_rule_id a = rd_id r \<longrightarrow> a \<in> set (fst s))"
  using assms
proof (induction rs arbitrary: s)
  case (Cons r' rs)
  obtain new where "fst (process_rule regex ev s r') = fst s @ new" "\<forall>a \<in> set new. sa_rule_id a = rd_id r'"
    using process_rule_alerts [of regex ev s r'] by blast
  then show ?case
    using Cons.IH [of "process_rule regex ev s r'"] Cons.prems process_rule_other [of r r' regex ev s g] by fastforce
qed simp

lemma process_at:
  assumes "distinct (map rd_id (re_rules en))" "r \<in> set (re_rules en)"
  obtains s where "\<And>g. hits_of (snd s) r g = hits_of en r g"
    "\<And>g. hits_of (snd (process regex en ev)) r g = hits_of (snd (process_rule regex ev s r)) r g"
    "\<And>a. a \<in> set (fst (process regex en ev)) \<Longrightarrow> sa_rule_id a = rd_id r \<Longrightarrow>
       a \<in> set (fst (process_rule regex ev s r)) \<and> a \<notin> set (fst s)"
proof -
  obtain xs ys where rs: "re_rules en = xs @ r # ys" using assms(2) by (meson split_list)
  let ?s = "foldl (process_rule regex ev) ([], en) xs"
  have xs: "\<forall>r' \<in> set xs. rd_id r' \<noteq> rd_id r" and ys: "\<forall>r' \<in> set ys. rd_id r' \<noteq> rd_id r"
    using assms(1) by (auto simp: rs image_iff)
  have p: "process regex en ev = foldl (process_rule regex ev) (process_rule regex ev ?s r) ys"
    by (simp add: process_def rs)
  show thesis
  proof (rule that [of ?s])
    show "hits_of (snd ?s) r g = hits_of en r g" for g using process_rules_other [OF xs, of regex ev "([], en)" g] by simp
    show "hits_of (snd (process regex en ev)) r g = hits_of (snd (process_rule regex ev ?s r)) r g" for g
      unfolding p using process_rules_other [OF ys] by blast
    fix a assume "a \<in> set (fst (process regex en ev))" "sa_rule_id a = rd_id r"
    then show "a \<in> set (fst (process_rule regex ev ?s r)) \<and> a \<notin> set (fst ?s)"
      unfolding p using process_rules_other [OF ys, of regex ev "process_rule regex ev ?s r"]
        process_rules_other [OF xs, of regex ev "([], en)"] by auto
  qed
qed

lemma process_rule_rules [simp]: "re_rules (snd (process_rule regex ev s r)) = re_rules (snd s)"
  by (cases s) (simp add: process_rule_def build_alert_def Let_def split: rule_kind.split option.split)

lemma process_rules [simp]: "re_rules (snd (process regex en ev)) = re_rules en"
proof -
  have "re_rules (snd (foldl (process_rule regex ev) s rs)) = re_rules (snd s)" for s rs
    by (induction rs arbitrary: s) simp_all
  then show ?thesis by (simp add: process_def)
qed

lemma process_all_rules [simp]: "re_rules (process_all regex en evs) = re_rules en"
  by (induction evs rule: rev_induct) (simp_all add: process_all_def)

lemma windows_counted:
  assumes "distinct (map rd_id rules)" "r \<in> set rules"
  shows "subseq (hits_of (process_all regex (rule_engine_new rules) evs) r g)
    (map se_timestamp_ms (filter (counts regex r g) evs))"
proof (induction evs rule: rev_induct)
  case Nil
  show ?case by (simp add: process_all_def rule_engine_new_def tbl_get_or_def)
next
  case (snoc ev evs)
  let ?en = "process_all regex (rule_engine_new rules) evs"
  have rs: "re_rules ?en = rules" by (simp add: rule_engine_new_def)
  obtain s where s: "hits_of (snd s) r g = hits_of ?en r g"
    "hits_of (snd (process regex ?en ev)) r g = hits_of (snd (process_rule regex ev s r)) r g"
    using process_at [of ?en r] assms rs by metis
  have "subseq (hits_of (snd (process regex ?en ev)) r g)
      (hits_of ?en r g @ (if counts regex r g ev then [se_timestamp_ms ev] else []))"
    using process_rule_self [of regex ev s r g] s by simp
  also have "subseq \<dots> (map se_timestamp_ms (filter (counts regex r g) evs) @ (if counts regex r g ev then [se_timestamp_ms ev] else []))"
    using snoc.IH by (simp add: list_emb_append_mono)
  finally show ?case by (auto simp: process_all_def)
qed

section \<open>Properties\<close>

lemma sorted_dropWhile_filter:
  fixes xs :: "'a::linorder list"
  shows "sorted xs \<Longrightarrow> dropWhile (\<lambda>t. t < c) xs = filter (\<lambda>t. c \<le> t) xs"
proof (induction xs)
  case (Cons x xs)
  show ?case
  proof (cases "x < c")
    case False
    then have "\<forall>y \<in> set (x # xs). c \<le> y" using Cons.prems by auto
    then show ?thesis using False by (simp add: filter_True)
  qed (use Cons in auto)
qed simp

lemma sorted_subseq: "subseq xs ys \<Longrightarrow> sorted ys \<Longrightarrow> sorted xs"
  by (induction rule: list_emb.induct) (auto dest: list_emb_set)


definition sample_rule :: rule_def where
  "sample_rule = \<lparr>rd_id = ''ssh'', rd_title = ''t'', rd_severity = SHigh, rd_mitre = None,
     rd_kind = Threshold ''message'' (Contains ''Fail'') ''src_ip'' 2 60\<rparr>"

definition sample_log :: "u64 \<Rightarrow> siem_event" where
  "sample_log t = \<lparr>se_id = t, se_timestamp_ms = t, se_host = ''h'', se_agent_id = ''a'',
     se_kind = Log ''sshd'' ''Fail root'', se_fields = [(''src_ip'', ''1.2.3.4'')]\<rparr>"


text \<open>Out of order, a stale hit behind a newer one still counts.\<close>

theorem threshold_out_of_order:
  "length (fst (process (\<lambda>_ _. False) (process_all (\<lambda>_ _. False)
      (rule_engine_new [sample_rule\<lparr>rd_kind := Threshold ''message'' (Contains ''Fail'') ''src_ip'' 3 60\<rparr>])
      [sample_log 200000, sample_log 1000]) (sample_log 201000))) = 1"
  by code_simp

end
