(* ===== verification/Sig_Engine.thy ===== *)
theory Sig_Engine
  imports Text
begin

text \<open>
  The signature engine of the malware scanner (\<^verbatim>\<open>rust-clam/crates/sig-engine\<close>): byte patterns with
  wildcards and gaps (\<^verbatim>\<open>hexsig.rs\<close>), whole-file hashes (\<^verbatim>\<open>hashdb.rs\<close>), the two database loaders and
  the scan of a buffer (\<^verbatim>\<open>engine.rs\<close>).  Buffer positions are natural numbers (a buffer fits in
  memory); the gap bounds of a signature are any \<^verbatim>\<open>usize\<close>, so the additions on them saturate or wrap
  as the code's do.  The Aho-Corasick automaton and the digests are parameters.
\<close>

unbundle bit_operations_syntax

section \<open>Patterns\<close>

datatype token = TByte u8 | Wildcard

type_synonym segment = "token list"

datatype gap = Unbounded | Bounded nat nat

record hex_signature =
  hs_name :: string
  segments :: "segment list"
  gaps :: "gap list"
  anchor_segment :: nat
  anchor_offset :: nat
  anchor_literal :: bytes

datatype sig_error =
    BadHexSig nat string
  | BadHashSig nat string
  | NoAnchor

fun token_ok :: "token \<Rightarrow> u8 \<Rightarrow> bool" where
  "token_ok (TByte b) c = (c = b)"
| "token_ok Wildcard c = True"

definition matches_at :: "segment \<Rightarrow> bytes \<Rightarrow> nat \<Rightarrow> bool" where
  "matches_at seg buf pos \<longleftrightarrow>
     \<not> length buf < pos + length seg \<and> list_all (\<lambda>(i, t). token_ok t (buf ! (pos + i))) (enumerate 0 seg)"

text \<open>The longest run of concrete bytes of a segment, and where it starts; the first of equals.\<close>

definition longer_run :: "(nat \<times> bytes) option \<Rightarrow> nat \<Rightarrow> bytes \<Rightarrow> (nat \<times> bytes) option" where
  "longer_run best start cur =
     (if (case best of None \<Rightarrow> 0 | Some (_, v) \<Rightarrow> length v) < length cur then Some (start, cur) else best)"

fun literal_runs :: "nat \<Rightarrow> (nat \<times> bytes) option \<Rightarrow> nat \<Rightarrow> bytes \<Rightarrow> segment \<Rightarrow> (nat \<times> bytes) option" where
  "literal_runs i best start cur [] = longer_run best start cur"
| "literal_runs i best start cur (TByte b # ts) =
     literal_runs (Suc i) best (if cur = [] then i else start) (cur @ [b]) ts"
| "literal_runs i best start cur (Wildcard # ts) = literal_runs (Suc i) (longer_run best start cur) start [] ts"

definition longest_literal_run :: "segment \<Rightarrow> (nat \<times> bytes) option" where
  "longest_literal_run seg = literal_runs 0 None 0 [] seg"

section \<open>Reading a pattern\<close>

fun hex_nibble :: "char \<Rightarrow> u8 option" where
  "hex_nibble c =
     (let k = of_char c :: nat
      in if 48 \<le> k \<and> k \<le> 57 then Some (of_nat (k - 48))
         else if 97 \<le> k \<and> k \<le> 102 then Some (of_nat (k - 97 + 10))
         else if 65 \<le> k \<and> k \<le> 70 then Some (of_nat (k - 65 + 10))
         else None)"

fun parse_tokens :: "nat \<Rightarrow> string \<Rightarrow> sig_error + segment" where
  "parse_tokens ln (a # b # s) =
     (if a = CHR ''?'' \<and> b = CHR ''?'' then map_sum id ((#) Wildcard) (parse_tokens ln s)
      else case (hex_nibble a, hex_nibble b) of
             (Some hi, Some lo) \<Rightarrow> map_sum id ((#) (TByte (push_bit 4 hi OR lo))) (parse_tokens ln s)
           | _ \<Rightarrow> Inl (BadHexSig ln (''invalid hex byte '' @ [a, b])))"
| "parse_tokens ln _ = Inr []"

definition parse_segment :: "nat \<Rightarrow> string \<Rightarrow> sig_error + segment" where
  "parse_segment ln tok =
     (if odd (length tok) then Inl (BadHexSig ln ''odd number of hex digits'') else parse_tokens ln tok)"

definition strip_suffix :: "string \<Rightarrow> string \<Rightarrow> string option" where
  "strip_suffix p s = map_option rev (strip_prefix (rev p) (rev s))"

definition usize_max :: nat where
  "usize_max = 18446744073709551615"

definition parse_gap :: "nat \<Rightarrow> string \<Rightarrow> sig_error + gap" where
  "parse_gap ln tok =
     (if tok = ''*'' then Inr Unbounded
      else case Option.bind (Option.bind (strip_prefix ''*'' tok) (strip_prefix ''{'')) (strip_suffix ''}'') of
             None \<Rightarrow> Inl (BadHexSig ln (''bad gap token '' @ tok))
           | Some inner \<Rightarrow>
               (case split_once (CHR ''-'') inner of
                  None \<Rightarrow> Inl (BadHexSig ln (''bad gap range '' @ tok))
                | Some (min_s, max_s) \<Rightarrow>
                    (case parse_uint usize_max min_s of
                       Inl _ \<Rightarrow> Inl (BadHexSig ln (''bad gap min in '' @ tok))
                     | Inr lo \<Rightarrow>
                         (case parse_uint usize_max max_s of
                            Inl _ \<Rightarrow> Inl (BadHexSig ln (''bad gap max in '' @ tok))
                          | Inr hi \<Rightarrow> Inr (Bounded lo hi)))))"

text \<open>The segment before the first star, the gap marker (a star with the braces that follow it),
  then the rest: a list of segment, gap, segment, and so on.\<close>

definition split_brace :: "string \<Rightarrow> string \<times> string" where
  "split_brace s =
     (if s = [] \<or> hd s \<noteq> CHR ''{'' then ([], s)
      else if CHR ''}'' \<in> set s
      then (takeWhile (\<lambda>c. c \<noteq> CHR ''}'') s @ ''}'', tl (dropWhile (\<lambda>c. c \<noteq> CHR ''}'') s))
      else (s, []))"

lemma split_brace_shorter: "length (snd (split_brace s)) \<le> length s"
  using length_dropWhile_le [of "\<lambda>c. c \<noteq> CHR ''}''" s]
  by (auto simp: split_brace_def intro: le_trans [OF diff_le_self])

function split_on_gaps :: "string \<Rightarrow> string list" where
  "split_on_gaps s =
     (case dropWhile (\<lambda>c. c \<noteq> CHR ''*'') s of
        [] \<Rightarrow> [s]
      | _ # t \<Rightarrow>
          takeWhile (\<lambda>c. c \<noteq> CHR ''*'') s # (''*'' @ fst (split_brace t)) # split_on_gaps (snd (split_brace t)))"
  by pat_completeness auto
termination
proof (relation "measure length")
  fix s x t assume "dropWhile (\<lambda>c. c \<noteq> CHR ''*'') s = x # t"
  then have "length (x # t) \<le> length s" by (metis length_dropWhile_le)
  then show "(snd (split_brace t), s) \<in> measure length" using split_brace_shorter [of t] by simp
qed simp

declare split_on_gaps.simps [simp del]

fun parse_rest :: "nat \<Rightarrow> string list \<Rightarrow> sig_error + (gap \<times> segment) list" where
  "parse_rest ln [] = Inr []"
| "parse_rest ln (g # toks) =
     (case parse_gap ln g of
        Inl e \<Rightarrow> Inl e
      | Inr gp \<Rightarrow>
          (case toks of
             [] \<Rightarrow> Inl (BadHexSig ln ''trailing gap with no following segment'')
           | t # ts \<Rightarrow>
               (case parse_segment ln t of
                  Inl e \<Rightarrow> Inl e
                | Inr sg \<Rightarrow> (case parse_rest ln ts of Inl e \<Rightarrow> Inl e | Inr ps \<Rightarrow> Inr ((gp, sg) # ps)))))"

fun best_anchor :: "nat \<Rightarrow> (nat \<times> nat \<times> bytes) option \<Rightarrow> segment list \<Rightarrow> (nat \<times> nat \<times> bytes) option" where
  "best_anchor i best [] = best"
| "best_anchor i best (sg # sgs) =
     best_anchor (Suc i)
       (case longest_literal_run sg of
          None \<Rightarrow> best
        | Some (off, lit) \<Rightarrow>
            if (case best of None \<Rightarrow> True | Some (_, _, b) \<Rightarrow> length b < length lit) \<and> lit \<noteq> []
            then Some (i, off, lit) else best) sgs"

definition hex_parse :: "nat \<Rightarrow> string \<Rightarrow> string \<Rightarrow> sig_error + hex_signature" where
  "hex_parse ln name pattern =
     (case split_on_gaps pattern of
        [] \<Rightarrow> Inl NoAnchor
      | t # toks \<Rightarrow>
          (case parse_segment ln t of
             Inl e \<Rightarrow> Inl e
           | Inr first \<Rightarrow>
               (case parse_rest ln toks of
                  Inl e \<Rightarrow> Inl e
                | Inr ps \<Rightarrow>
                    (case best_anchor 0 None (first # map snd ps) of
                       None \<Rightarrow> Inl NoAnchor
                     | Some (sg, off, lit) \<Rightarrow>
                         if 2 \<le> length lit
                         then Inr \<lparr>hs_name = name, segments = first # map snd ps, gaps = map fst ps,
                           anchor_segment = sg, anchor_offset = off, anchor_literal = lit\<rparr>
                         else Inl NoAnchor))))"

section \<open>Verification of a candidate\<close>

definition MAX_GAP_SEARCH :: nat where
  "MAX_GAP_SEARCH = 65536"

fun gap_bounds :: "gap \<Rightarrow> nat \<times> nat" where
  "gap_bounds Unbounded = (0, MAX_GAP_SEARCH)"
| "gap_bounds (Bounded lo hi) = (lo, hi)"

definition sat_add :: "nat \<Rightarrow> nat \<Rightarrow> nat" where
  "sat_add a b = min (a + b) usize_max"

definition find_forward :: "bytes \<Rightarrow> segment \<Rightarrow> nat \<Rightarrow> gap \<Rightarrow> nat option" where
  "find_forward buf seg after gap =
     (let (lo, hi) = gap_bounds gap; start = sat_add after lo; stop = min (sat_add after hi) (length buf)
      in find (matches_at seg buf) [start..<Suc stop])"

text \<open>The sum of the minimum and the length is not a saturating one in the code, so it wraps.\<close>

definition find_backward :: "bytes \<Rightarrow> segment \<Rightarrow> nat \<Rightarrow> gap \<Rightarrow> nat option" where
  "find_backward buf seg before gap =
     (let (lo, hi) = gap_bounds gap; min_end = (lo + length seg) mod (usize_max + 1)
      in if before < min_end then None
         else find (matches_at seg buf) (rev [before - sat_add hi (length seg)..<Suc (before - min_end)]))"

fun walk_forward :: "bytes \<Rightarrow> nat \<Rightarrow> (gap \<times> segment) list \<Rightarrow> nat option" where
  "walk_forward buf cursor_end [] = Some cursor_end"
| "walk_forward buf cursor_end ((gap, seg) # rest) =
     (case find_forward buf seg cursor_end gap of
        None \<Rightarrow> None
      | Some pos \<Rightarrow> walk_forward buf (pos + length seg) rest)"

fun walk_backward :: "bytes \<Rightarrow> nat \<Rightarrow> (gap \<times> segment) list \<Rightarrow> nat option" where
  "walk_backward buf cursor_start [] = Some cursor_start"
| "walk_backward buf cursor_start ((gap, seg) # rest) =
     (case find_backward buf seg cursor_start gap of
        None \<Rightarrow> None
      | Some pos \<Rightarrow> walk_backward buf pos rest)"

definition verify :: "hex_signature \<Rightarrow> bytes \<Rightarrow> nat \<Rightarrow> nat option" where
  "verify sg buf anchor_match_pos =
     (if anchor_match_pos < anchor_offset sg then None
      else
        let start = anchor_match_pos - anchor_offset sg; a = anchor_segment sg; anchor = segments sg ! a
        in if \<not> matches_at anchor buf start then None
           else case walk_forward buf (start + length anchor) (zip (drop a (gaps sg)) (drop (Suc a) (segments sg))) of
                  None \<Rightarrow> None
                | Some _ \<Rightarrow> walk_backward buf start (rev (zip (take a (gaps sg)) (take a (segments sg)))))"

section \<open>The hash database\<close>

record hash_hit =
  hh_name :: string
  expected_size :: "u64 option"

record hash_db =
  hd_md5 :: "(bytes, hash_hit) tbl"
  hd_sha1 :: "(bytes, hash_hit) tbl"
  hd_sha256 :: "(bytes, hash_hit) tbl"

definition hash_db_new :: hash_db where
  "hash_db_new = \<lparr>hd_md5 = [], hd_sha1 = [], hd_sha256 = []\<rparr>"

text \<open>\<^verbatim>\<open>u8::from_str_radix\<close> on two characters takes a plus sign before a digit.\<close>

definition hex_byte :: "char \<Rightarrow> char \<Rightarrow> u8 option" where
  "hex_byte a b =
     (if a = CHR ''+'' then hex_nibble b
      else Option.bind (hex_nibble a) (\<lambda>hi. map_option (\<lambda>lo. hi * 16 + lo) (hex_nibble b)))"

fun hex_bytes :: "string \<Rightarrow> bytes option" where
  "hex_bytes (a # b # s) = Option.bind (hex_byte a b) (\<lambda>x. map_option ((#) x) (hex_bytes s))"
| "hex_bytes _ = Some []"

definition hex_decode :: "string \<Rightarrow> bytes option" where
  "hex_decode s = (if odd (length s) then None else hex_bytes s)"

definition hash_size :: "nat \<Rightarrow> string \<Rightarrow> sig_error + u64 option" where
  "hash_size ln field =
     (if field = ''*'' then Inr None
      else case parse_uint 18446744073709551615 field of
             Inl _ \<Rightarrow> Inl (BadHashSig ln (''invalid size '' @ field))
           | Inr n \<Rightarrow> Inr (Some (of_nat n)))"

definition insert_hash :: "nat \<Rightarrow> hash_db \<Rightarrow> bytes \<Rightarrow> hash_hit \<Rightarrow> sig_error + hash_db" where
  "insert_hash ln db raw hit =
     (if length raw = 16 then Inr (db\<lparr>hd_md5 := tbl_insert (hd_md5 db) raw hit\<rparr>)
      else if length raw = 20 then Inr (db\<lparr>hd_sha1 := tbl_insert (hd_sha1 db) raw hit\<rparr>)
      else if length raw = 32 then Inr (db\<lparr>hd_sha256 := tbl_insert (hd_sha256 db) raw hit\<rparr>)
      else Inl (BadHashSig ln ''unsupported hash length''))"

definition add_line :: "hash_db \<Rightarrow> nat \<Rightarrow> string \<Rightarrow> sig_error + hash_db" where
  "add_line db ln line =
     (case split_once (CHR '':'') line of
        None \<Rightarrow> Inl (BadHashSig ln ''missing size field'')
      | Some (hash_hex, rest) \<Rightarrow>
          (case split_once (CHR '':'') rest of
             None \<Rightarrow> Inl (BadHashSig ln ''missing name field'')
           | Some (size_field, name) \<Rightarrow>
               (case hash_size ln size_field of
                  Inl e \<Rightarrow> Inl e
                | Inr sz \<Rightarrow>
                    (case hex_decode hash_hex of
                       None \<Rightarrow> Inl (BadHashSig ln ''invalid hex hash'')
                     | Some raw \<Rightarrow> insert_hash ln db raw \<lparr>hh_name = name, expected_size = sz\<rparr>))))"

definition size_matches :: "hash_hit \<Rightarrow> u64 \<Rightarrow> bool" where
  "size_matches h sz \<longleftrightarrow> (case expected_size h of None \<Rightarrow> True | Some s \<Rightarrow> s = sz)"

definition hash_lookup :: "(bytes, hash_hit) tbl \<Rightarrow> bytes \<Rightarrow> u64 \<Rightarrow> hash_hit option" where
  "hash_lookup t digest sz = Option.bind (tbl_get t digest) (\<lambda>h. if size_matches h sz then Some h else None)"

definition hash_count :: "hash_db \<Rightarrow> nat" where
  "hash_count db = tbl_len (hd_md5 db) + tbl_len (hd_sha1 db) + tbl_len (hd_sha256 db)"

section \<open>The engine\<close>

datatype match_kind = KHexSignature | KHashMd5 | KHashSha1 | KHashSha256

record detection =
  d_name :: string
  d_kind :: match_kind
  d_offset :: "nat option"

record signature_engine =
  hex_sigs :: "hex_signature list"
  se_hash_db :: hash_db

definition builder_empty :: signature_engine where
  "builder_empty = \<lparr>hex_sigs = [], se_hash_db = hash_db_new\<rparr>"

definition skips_line :: "string \<Rightarrow> bool" where
  "skips_line line \<longleftrightarrow> line = [] \<or> hd line = CHR ''#''"

fun ndb_lines :: "nat \<Rightarrow> signature_engine \<Rightarrow> string list \<Rightarrow> sig_error + signature_engine" where
  "ndb_lines ln en [] = Inr en"
| "ndb_lines ln en (raw # ls) =
     (let line = trim raw
      in if skips_line line then ndb_lines (Suc ln) en ls
         else case split_once (CHR '':'') line of
                None \<Rightarrow> Inl (BadHexSig ln ''expected name:pattern'')
              | Some (name, pattern) \<Rightarrow>
                  (case hex_parse ln name pattern of
                     Inl e \<Rightarrow> Inl e
                   | Inr sg \<Rightarrow> ndb_lines (Suc ln) (en\<lparr>hex_sigs := hex_sigs en @ [sg]\<rparr>) ls))"

definition load_ndb :: "signature_engine \<Rightarrow> string \<Rightarrow> sig_error + signature_engine" where
  "load_ndb en text = ndb_lines 1 en (split_lf text)"

fun hdb_lines :: "nat \<Rightarrow> signature_engine \<Rightarrow> string list \<Rightarrow> sig_error + signature_engine" where
  "hdb_lines ln en [] = Inr en"
| "hdb_lines ln en (raw # ls) =
     (let line = trim raw
      in if skips_line line then hdb_lines (Suc ln) en ls
         else case add_line (se_hash_db en) ln line of
                Inl e \<Rightarrow> Inl e
              | Inr db \<Rightarrow> hdb_lines (Suc ln) (en\<lparr>se_hash_db := db\<rparr>) ls)"

definition load_hdb :: "signature_engine \<Rightarrow> string \<Rightarrow> sig_error + signature_engine" where
  "load_hdb en text = hdb_lines 1 en (split_lf text)"

text \<open>The libraries: the overlapping search of the automaton, as the pattern's index and the start
  of each match, and the three digests.\<close>

record scan_libs =
  find_overlapping :: "bytes list \<Rightarrow> bytes \<Rightarrow> (nat \<times> nat) list"
  md5 :: "bytes \<Rightarrow> bytes"
  sha1 :: "bytes \<Rightarrow> bytes"
  sha256 :: "bytes \<Rightarrow> bytes"

definition hash_detection :: "(bytes, hash_hit) tbl \<Rightarrow> bytes \<Rightarrow> u64 \<Rightarrow> match_kind \<Rightarrow> detection list" where
  "hash_detection t digest sz kind =
     (case hash_lookup t digest sz of
        None \<Rightarrow> []
      | Some h \<Rightarrow> [\<lparr>d_name = hh_name h, d_kind = kind, d_offset = None\<rparr>])"

definition hash_detections :: "scan_libs \<Rightarrow> hash_db \<Rightarrow> bytes \<Rightarrow> detection list" where
  "hash_detections lib db buf =
     (if hash_count db = 0 then []
      else let sz = of_nat (length buf)
           in hash_detection (hd_md5 db) (md5 lib buf) sz KHashMd5
              @ hash_detection (hd_sha1 db) (sha1 lib buf) sz KHashSha1
              @ hash_detection (hd_sha256 db) (sha256 lib buf) sz KHashSha256)"

definition hex_detections :: "scan_libs \<Rightarrow> hex_signature list \<Rightarrow> bytes \<Rightarrow> detection list" where
  "hex_detections lib sigs buf =
     (if sigs = [] then []
      else concat (map (\<lambda>(i, pos). case verify (sigs ! i) buf pos of
             None \<Rightarrow> []
           | Some start \<Rightarrow> [\<lparr>d_name = hs_name (sigs ! i), d_kind = KHexSignature, d_offset = Some start\<rparr>])
         (find_overlapping lib (map anchor_literal sigs) buf)))"

definition scan_buffer :: "scan_libs \<Rightarrow> signature_engine \<Rightarrow> bytes \<Rightarrow> detection list" where
  "scan_buffer lib en buf = hash_detections lib (se_hash_db en) buf @ hex_detections lib (hex_sigs en) buf"

end
