(* ===== verification/Sig_Matching.thy ===== *)
theory Sig_Matching
  imports Sig_Engine
begin

text \<open>
  What the signature engine detects: a reference semantics of patterns, soundness of the
  verification of a candidate, its completeness for patterns whose gaps are all open on buffers
  within the search ceiling, and the pattern with two bounded gaps that it misses.
\<close>

section \<open>The meaning of a pattern\<close>

fun gap_allows :: "gap \<Rightarrow> nat \<Rightarrow> bool" where
  "gap_allows Unbounded d = True"
| "gap_allows (Bounded lo hi) d = (lo \<le> d \<and> d \<le> hi)"

fun follows :: "bytes \<Rightarrow> nat \<Rightarrow> (gap \<times> segment) list \<Rightarrow> bool" where
  "follows buf c [] = True"
| "follows buf c ((g, s) # ps) =
     (\<exists>q \<ge> c. gap_allows g (q - c) \<and> matches_at s buf q \<and> follows buf (q + length s) ps)"

text \<open>A pattern is its first segment and the gaps and segments after it.\<close>

definition occurs_at :: "segment \<Rightarrow> (gap \<times> segment) list \<Rightarrow> bytes \<Rightarrow> nat \<Rightarrow> bool" where
  "occurs_at s ps buf p \<longleftrightarrow> matches_at s buf p \<and> follows buf (p + length s) ps"

definition pattern_at :: "hex_signature \<Rightarrow> bytes \<Rightarrow> nat \<Rightarrow> bool" where
  "pattern_at sg buf p \<longleftrightarrow> occurs_at (hd (segments sg)) (zip (gaps sg) (tl (segments sg))) buf p"

section \<open>Well-formed signatures\<close>

definition sig_ok :: "hex_signature \<Rightarrow> bool" where
  "sig_ok sg \<longleftrightarrow> length (segments sg) = Suc (length (gaps sg)) \<and> anchor_segment sg < length (segments sg)
     \<and> 2 \<le> length (anchor_literal sg)
     \<and> take (length (anchor_literal sg)) (drop (anchor_offset sg) (segments sg ! anchor_segment sg))
         = map TByte (anchor_literal sg)"

definition run_in :: "segment \<Rightarrow> nat \<times> bytes \<Rightarrow> bool" where
  "run_in seg r \<longleftrightarrow> take (length (snd r)) (drop (fst r) seg) = map TByte (snd r)"

lemma run_in_mono: "run_in seg r \<Longrightarrow> run_in (seg @ ts) r"
proof -
  assume r: "run_in seg r"
  then have "length (snd r) \<le> length (drop (fst r) seg)"
    by (metis length_map length_take min.cobounded1 run_in_def)
  then show ?thesis using r by (simp add: run_in_def)
qed

lemma longer_run_in: "pred_option (run_in seg) best \<Longrightarrow> cur = [] \<or> run_in seg (start, cur) \<Longrightarrow>
  pred_option (run_in seg) (longer_run best start cur)"
  by (auto simp: longer_run_def)

lemma literal_runs_in:
  assumes "i = length seen" "pred_option (run_in seen) best" "cur = [] \<or> start + length cur = i \<and> run_in seen (start, cur)"
  shows "pred_option (run_in (seen @ ts)) (literal_runs i best start cur ts)"
  using assms
proof (induction i best start cur ts arbitrary: seen rule: literal_runs.induct)
  case (1 i best start cur)
  then show ?case using longer_run_in by auto
next
  case (2 i best start cur b ts)
  have "pred_option (run_in (seen @ [TByte b])) best"
    using "2.prems"(2) run_in_mono by (cases best) auto
  moreover have "run_in (seen @ [TByte b]) (if cur = [] then i else start, cur @ [b])"
    using "2.prems"(1,3) by (auto simp: run_in_def)
  ultimately show ?case
    using "2.IH" [of "seen @ [TByte b]"] "2.prems"(1,3) by (auto split: if_splits)
next
  case (3 i best start cur ts)
  have "pred_option (run_in (seen @ [Wildcard])) (longer_run best start cur)"
    using longer_run_in [of seen best cur start] "3.prems"(2,3) run_in_mono
    by (cases "longer_run best start cur") auto
  then show ?case using "3.IH" [of "seen @ [Wildcard]"] "3.prems"(1) by simp
qed

lemma longest_literal_run_in: "longest_literal_run seg = Some r \<Longrightarrow> run_in seg r"
  using literal_runs_in [of 0 "[]" None "[]" 0 seg] by (simp add: longest_literal_run_def)

lemma best_anchor_in:
  assumes "i = length seen" "\<And>a off lit. best = Some (a, off, lit) \<Longrightarrow> a < length seen \<and> run_in (seen ! a) (off, lit)"
    and "best_anchor i best sgs = Some (a, off, lit)"
  shows "a < length (seen @ sgs) \<and> run_in ((seen @ sgs) ! a) (off, lit)"
  using assms
proof (induction i best sgs arbitrary: seen rule: best_anchor.induct)
  case (1 i best)
  then show ?case by simp
next
  case (2 i best sg sgs)
  let ?best = "case longest_literal_run sg of None \<Rightarrow> best | Some (off, lit) \<Rightarrow>
    if (case best of None \<Rightarrow> True | Some (_, _, b) \<Rightarrow> length b < length lit) \<and> lit \<noteq> [] then Some (i, off, lit) else best"
  have best: "a < length (seen @ [sg]) \<and> run_in ((seen @ [sg]) ! a) (off, lit)" if "?best = Some (a, off, lit)" for a off lit
  proof (cases "?best = best")
    case True
    then show ?thesis using that "2.prems"(2) [of a off lit] by (simp add: nth_append)
  next
    case False
    then have "longest_literal_run sg = Some (off, lit)" "a = i"
      using that by (auto split: option.splits if_splits)
    then show ?thesis using longest_literal_run_in "2.prems"(1) by simp
  qed
  have "Suc i = length (seen @ [sg])" using "2.prems"(1) by simp
  from "2.IH" [OF this best "2.prems"(3) [unfolded best_anchor.simps]] show ?case by simp
qed

lemma hex_parse_ok: "hex_parse ln name pat = Inr sg \<Longrightarrow> sig_ok sg \<and> hs_name sg = name"
proof -
  assume p: "hex_parse ln name pat = Inr sg"
  obtain first ps a off lit where f: "best_anchor 0 None (first # map snd ps) = Some (a, off, lit)" "2 \<le> length lit"
    and sg: "sg = \<lparr>hs_name = name, segments = first # map snd ps, gaps = map fst ps,
      anchor_segment = a, anchor_offset = off, anchor_literal = lit\<rparr>"
    using p by (auto simp: hex_parse_def split: list.splits sum.splits option.splits if_splits)
  show ?thesis using best_anchor_in [OF _ _ f(1), of "[]"] f(2) by (simp add: sg sig_ok_def run_in_def)
qed

lemma ndb_lines_ok: "ndb_lines ln en ls = Inr en' \<Longrightarrow> list_all sig_ok (hex_sigs en) \<Longrightarrow> list_all sig_ok (hex_sigs en')"
proof (induction ln en ls rule: ndb_lines.induct)
  case (2 ln en raw ls)
  show ?case
  proof (cases "skips_line (trim raw)")
    case True
    then show ?thesis using "2.IH"(1) [OF refl True] "2.prems" by simp
  next
    case False
    then obtain name pat sg where p: "split_once (CHR '':'') (trim raw) = Some (name, pat)" "hex_parse ln name pat = Inr sg"
      using "2.prems"(1) by (auto simp: Let_def split: option.splits sum.splits)
    then show ?thesis using "2.IH"(2) [OF refl False p(1) refl p(2)] "2.prems" False hex_parse_ok [OF p(2)] by simp
  qed
qed simp

lemma load_ndb_ok: "load_ndb builder_empty text = Inr en \<Longrightarrow> list_all sig_ok (hex_sigs en)"
  by (auto simp: load_ndb_def builder_empty_def dest: ndb_lines_ok)

section \<open>Soundness\<close>

lemma find_sorted_least: "sorted xs \<Longrightarrow> x \<in> set xs \<Longrightarrow> P x \<Longrightarrow> \<exists>y. find P xs = Some y \<and> y \<le> x"
  by (induction xs) auto

lemma find_sorted_greatest: "sorted xs \<Longrightarrow> x \<in> set xs \<Longrightarrow> P x \<Longrightarrow> \<exists>y. find P (rev xs) = Some y \<and> x \<le> y"
proof (induction xs rule: rev_induct)
  case (snoc a xs)
  then show ?case by (cases "P a") (auto simp: sorted_append)
qed simp

lemma find_forward_window:
  "find_forward buf seg c gap = Some q \<Longrightarrow> matches_at seg buf q \<and> sat_add c (fst (gap_bounds gap)) \<le> q
     \<and> q \<le> sat_add c (snd (gap_bounds gap)) \<and> q \<le> length buf"
  by (cases "gap_bounds gap") (auto simp: find_forward_def Let_def dest!: find_SomeD)

lemma find_forward_sound:
  assumes "find_forward buf seg c gap = Some q" "length buf < usize_max"
  shows "c \<le> q \<and> gap_allows gap (q - c) \<and> matches_at seg buf q"
  using find_forward_window [OF assms(1)] assms(2) by (cases gap) (auto simp: sat_add_def MAX_GAP_SEARCH_def)

lemma matches_at_le: "matches_at seg buf q \<Longrightarrow> q + length seg \<le> length buf"
  by (simp add: matches_at_def)

lemma walk_forward_sound:
  "walk_forward buf c ps = Some e \<Longrightarrow> length buf < usize_max \<Longrightarrow> follows buf c ps"
proof (induction buf c ps rule: walk_forward.induct)
  case (2 buf c gap seg rest)
  then obtain q where q: "find_forward buf seg c gap = Some q" "walk_forward buf (q + length seg) rest = Some e"
    by (auto split: option.splits)
  show ?case using "2.IH" [OF q] find_forward_sound [OF q(1)] "2.prems"(2) by auto
qed simp

text \<open>The minimum of a gap and the segment before it fit in a \<^verbatim>\<open>usize\<close> together.\<close>

definition gap_fits :: "gap \<times> segment \<Rightarrow> bool" where
  "gap_fits p \<longleftrightarrow> fst (gap_bounds (fst p)) + length (snd p) \<le> usize_max"

lemma find_backward_window:
  assumes "find_backward buf seg c gap = Some q" "gap_fits (gap, seg)"
  shows "matches_at seg buf q \<and> q + fst (gap_bounds gap) + length seg \<le> c \<and> c - sat_add (snd (gap_bounds gap)) (length seg) \<le> q"
proof -
  obtain lo hi where b: "gap_bounds gap = (lo, hi)" by fastforce
  have m: "(lo + length seg) mod (usize_max + 1) = lo + length seg" using assms(2) by (simp add: gap_fits_def b)
  have f: "\<not> c < lo + length seg" "find (matches_at seg buf) (rev [c - sat_add hi (length seg)..<Suc (c - (lo + length seg))]) = Some q"
    using assms(1) unfolding find_backward_def b prod.case m Let_def by (auto split: if_splits)
  then show ?thesis using find_SomeD [OF f(2)] by (auto simp: b)
qed

lemma find_backward_sound:
  assumes "find_backward buf seg c gap = Some q" "gap_fits (gap, seg)" "c \<le> length buf" "length buf < usize_max"
  shows "q + length seg \<le> c \<and> gap_allows gap (c - (q + length seg)) \<and> matches_at seg buf q"
  using find_backward_window [OF assms(1,2)] assms(3,4) by (cases gap) (auto simp: sat_add_def min_def split: if_splits)

text \<open>The segments before the anchor: walking back extends an occurrence to the left.\<close>

fun extend_left :: "(gap \<times> segment) list \<Rightarrow> segment \<Rightarrow> (gap \<times> segment) list \<Rightarrow> segment \<times> (gap \<times> segment) list" where
  "extend_left [] s ps = (s, ps)"
| "extend_left ((g, t) # qs) s ps = extend_left qs t ((g, s) # ps)"

lemma walk_backward_sound:
  assumes "walk_backward buf c qs = Some r" "occurs_at s ps buf c" "list_all gap_fits qs" "length buf < usize_max"
  shows "case extend_left qs s ps of (t, rs) \<Rightarrow> occurs_at t rs buf r"
  using assms
proof (induction qs arbitrary: c s ps)
  case (Cons a qs)
  obtain g t where a: "a = (g, t)" by (cases a)
  obtain q where q: "find_backward buf t c g = Some q" "walk_backward buf q qs = Some r"
    using Cons.prems(1) by (auto simp: a split: option.splits)
  have "c \<le> length buf" using Cons.prems(2) matches_at_le by (fastforce simp: occurs_at_def)
  then have "occurs_at t ((g, s) # ps) buf q"
    using find_backward_sound [OF q(1)] Cons.prems by (auto simp: occurs_at_def a)
  then show ?case using Cons.IH [OF q(2)] Cons.prems by (simp add: a)
qed simp

lemma extend_left_whole:
  "length ss = Suc (length gs) \<Longrightarrow> a \<le> length gs \<Longrightarrow>
   extend_left (rev (zip (take a gs) (take a ss))) (ss ! a) (zip (drop a gs) (drop (Suc a) ss)) = (hd ss, zip gs (tl ss))"
proof (induction a)
  case 0
  then show ?case by (cases ss) auto
next
  case (Suc a)
  have "zip (take (Suc a) gs) (take (Suc a) ss) = zip (take a gs) (take a ss) @ [(gs ! a, ss ! a)]"
    using Suc.prems by (simp add: take_Suc_conv_app_nth)
  moreover have "(gs ! a, ss ! Suc a) # zip (drop (Suc a) gs) (drop (Suc (Suc a)) ss) = zip (drop a gs) (drop (Suc a) ss)"
    using Suc.prems by (simp add: Cons_nth_drop_Suc [symmetric])
  ultimately show ?case using Suc by simp
qed

lemma verify_sound:
  assumes ok: "sig_ok sg" and fits: "list_all gap_fits (zip (gaps sg) (segments sg))" and buf: "length buf < usize_max"
    and v: "verify sg buf m = Some p"
  shows "pattern_at sg buf p"
proof -
  let ?a = "anchor_segment sg" and ?c = "m - anchor_offset sg"
  let ?anchor = "segments sg ! ?a" and ?post = "zip (drop ?a (gaps sg)) (drop (Suc ?a) (segments sg))"
  let ?pre = "rev (zip (take ?a (gaps sg)) (take ?a (segments sg)))"
  obtain e where w: "matches_at ?anchor buf ?c" "walk_forward buf (?c + length ?anchor) ?post = Some e"
    "walk_backward buf ?c ?pre = Some p"
    using v by (auto simp: verify_def Let_def split: if_splits option.splits)
  have pre: "list_all gap_fits ?pre" using fits by (auto simp: list_all_iff take_zip [symmetric] dest: in_set_takeD)
  have "occurs_at ?anchor ?post buf ?c" using w(1) walk_forward_sound [OF w(2) buf] by (simp add: occurs_at_def)
  note walk_backward_sound [OF w(3) this pre buf]
  then show ?thesis using ok extend_left_whole [of "segments sg" "gaps sg" ?a] by (simp add: pattern_at_def sig_ok_def)
qed

section \<open>Completeness\<close>

definition open_gaps :: "(gap \<times> segment) list \<Rightarrow> bool" where
  "open_gaps ps \<longleftrightarrow> list_all (\<lambda>p. fst p = Unbounded) ps"

lemma walk_forward_complete:
  assumes "follows buf c' ps" "c \<le> c'" "open_gaps ps" "length buf \<le> MAX_GAP_SEARCH"
  shows "walk_forward buf c ps \<noteq> None"
  using assms
proof (induction ps arbitrary: c c')
  case (Cons a ps)
  obtain s where a: "a = (Unbounded, s)" using Cons.prems(3) by (cases a) (auto simp: open_gaps_def)
  obtain q where q: "c' \<le> q" "matches_at s buf q" "follows buf (q + length s) ps" using Cons.prems(1) by (auto simp: a)
  have "q \<le> length buf" using matches_at_le [OF q(2)] by simp
  then obtain r where r: "find_forward buf s c Unbounded = Some r" "r \<le> q"
    using find_sorted_least [of "[c..<Suc (min (sat_add c MAX_GAP_SEARCH) (length buf))]" q "matches_at s buf"] q Cons.prems(2,4)
    by (auto simp: find_forward_def sat_add_def usize_max_def MAX_GAP_SEARCH_def Let_def simp del: upt_Suc)
  then show ?case using Cons.IH [OF q(3), of "r + length s"] Cons.prems(3,4) by (simp add: a open_gaps_def)
qed simp

fun precedes :: "bytes \<Rightarrow> nat \<Rightarrow> (gap \<times> segment) list \<Rightarrow> bool" where
  "precedes buf c [] = True"
| "precedes buf c ((g, t) # qs) = (\<exists>q. q + length t \<le> c \<and> matches_at t buf q \<and> precedes buf q qs)"

lemma walk_backward_complete:
  assumes "precedes buf c' qs" "c' \<le> c" "c \<le> length buf" "open_gaps qs" "length buf \<le> MAX_GAP_SEARCH"
  shows "walk_backward buf c qs \<noteq> None"
  using assms
proof (induction qs arbitrary: c c')
  case (Cons a qs)
  obtain t where a: "a = (Unbounded, t)" using Cons.prems(4) by (cases a) (auto simp: open_gaps_def)
  obtain q where q: "q + length t \<le> c'" "matches_at t buf q" "precedes buf q qs" using Cons.prems(1) by (auto simp: a)
  have len: "length t \<le> 65536" using matches_at_le [OF q(2)] Cons.prems(5) by (simp add: MAX_GAP_SEARCH_def)
  then have m: "(0 + length t) mod (usize_max + 1) = length t" by (simp add: usize_max_def)
  have "q < Suc (c - length t)" using q(1) Cons.prems(2) by simp
  then obtain r where r: "find (matches_at t buf) (rev [c - sat_add MAX_GAP_SEARCH (length t)..<Suc (c - length t)]) = Some r" "q \<le> r"
    using find_sorted_greatest [of "[c - sat_add MAX_GAP_SEARCH (length t)..<Suc (c - length t)]" q "matches_at t buf"] q Cons.prems(2,3,5) len
    by (auto simp: sat_add_def usize_max_def MAX_GAP_SEARCH_def simp del: upt_Suc)
  then have f: "find_backward buf t c Unbounded = Some r"
    using q(1) Cons.prems(2) unfolding find_backward_def gap_bounds.simps prod.case m Let_def by simp
  have "r \<le> length buf" using find_SomeD [OF r(1)] matches_at_le by fastforce
  then show ?case using Cons.IH [OF q(3) r(2)] Cons.prems(4,5) f by (simp add: a open_gaps_def)
qed simp

lemma extend_left_split:
  "case extend_left qs s ps of (t, rs) \<Rightarrow> occurs_at t rs buf r \<Longrightarrow> \<exists>c. precedes buf c qs \<and> occurs_at s ps buf c"
proof (induction qs s ps rule: extend_left.induct)
  case (2 g t qs s ps)
  then obtain c where "precedes buf c qs" "occurs_at t ((g, s) # ps) buf c" by auto
  then show ?case by (auto simp: occurs_at_def)
qed auto

lemma verify_complete:
  assumes ok: "sig_ok sg" and p: "pattern_at sg buf p" and open_gaps: "set (gaps sg) \<subseteq> {Unbounded}"
    and small: "gaps sg = [] \<or> length buf \<le> MAX_GAP_SEARCH"
  shows "\<exists>c start. matches_at (segments sg ! anchor_segment sg) buf c \<and> verify sg buf (c + anchor_offset sg) = Some start"
proof -
  let ?a = "anchor_segment sg"
  let ?anchor = "segments sg ! ?a" and ?post = "zip (drop ?a (gaps sg)) (drop (Suc ?a) (segments sg))"
  let ?pre = "rev (zip (take ?a (gaps sg)) (take ?a (segments sg)))"
  have "case extend_left ?pre ?anchor ?post of (t, rs) \<Rightarrow> occurs_at t rs buf p"
    using ok p extend_left_whole [of "segments sg" "gaps sg" ?a] by (simp add: pattern_at_def sig_ok_def)
  from extend_left_split [OF this]
  obtain c where c: "precedes buf c ?pre" "matches_at ?anchor buf c" "follows buf (c + length ?anchor) ?post"
    by (auto simp: occurs_at_def)
  have og: "open_gaps ?post" "open_gaps ?pre"
    using open_gaps by (auto simp: open_gaps_def list_all_iff dest!: set_zip_leftD in_set_dropD in_set_takeD)
  have "c \<le> length buf" using matches_at_le [OF c(2)] by simp
  then have "walk_forward buf (c + length ?anchor) ?post \<noteq> None \<and> walk_backward buf c ?pre \<noteq> None"
    using small walk_forward_complete [OF c(3) _ og(1)] walk_backward_complete [OF c(1) _ _ og(2)] by auto
  then obtain e start where "walk_forward buf (c + length ?anchor) ?post = Some e" "walk_backward buf c ?pre = Some start"
    by blast
  then have "verify sg buf (c + anchor_offset sg) = Some start" using c(2) by (simp add: verify_def)
  then show ?thesis using c(2) by blast
qed

lemma matches_at_literal:
  assumes "matches_at seg buf c" "run_in seg (off, lit)" "lit \<noteq> []"
  shows "c + off + length lit \<le> length buf \<and> take (length lit) (drop (c + off) buf) = lit"
proof -
  have tok: "token_ok (seg ! i) (buf ! (c + i))" if "i < length seg" for i
    using assms(1) that by (auto simp: matches_at_def list_all_iff in_set_enumerate_eq)
  have "length (take (length lit) (drop off seg)) = length lit" using assms(2) by (simp add: run_in_def)
  then have len: "off + length lit \<le> length seg" using assms(3) by (cases lit) auto
  have at: "seg ! (off + j) = TByte (lit ! j)" if "j < length lit" for j
  proof -
    have "take (length lit) (drop off seg) ! j = map TByte lit ! j" using assms(2) by (simp add: run_in_def)
    then show ?thesis using that len by auto
  qed
  have "c + off + length lit \<le> length buf" using len matches_at_le [OF assms(1)] by simp
  moreover have "buf ! (c + off + j) = lit ! j" if "j < length lit" for j
    using tok [of "off + j"] at [OF that] that len by (simp add: add.assoc)
  ultimately show ?thesis by (auto intro!: nth_equalityI)
qed

section \<open>Scans\<close>

text \<open>What the automaton's overlapping search documents: every occurrence of every pattern.\<close>

definition ac_ok :: "scan_libs \<Rightarrow> bool" where
  "ac_ok lib \<longleftrightarrow> (\<forall>lits buf. set (find_overlapping lib lits buf) =
     {(i, p). i < length lits \<and> p + length (lits ! i) \<le> length buf \<and> take (length (lits ! i)) (drop p buf) = lits ! i})"

definition naive_overlapping :: "bytes list \<Rightarrow> bytes \<Rightarrow> (nat \<times> nat) list" where
  "naive_overlapping lits buf = filter (\<lambda>(i, p). p + length (lits ! i) \<le> length buf \<and> take (length (lits ! i)) (drop p buf) = lits ! i)
     (List.product [0..<length lits] [0..<Suc (length buf)])"

definition sample_libs :: scan_libs where
  "sample_libs = \<lparr>find_overlapping = naive_overlapping, md5 = (\<lambda>_. []), sha1 = (\<lambda>_. []), sha256 = (\<lambda>_. [])\<rparr>"

lemma sample_libs_ok: "ac_ok sample_libs"
  by (auto simp: ac_ok_def sample_libs_def naive_overlapping_def simp del: upt_Suc)

lemma hex_detections_iff:
  assumes "ac_ok lib" "list_all sig_ok sigs"
  shows "d \<in> set (hex_detections lib sigs buf) \<longleftrightarrow>
    (\<exists>i m start. i < length sigs \<and> m + length (anchor_literal (sigs ! i)) \<le> length buf
       \<and> take (length (anchor_literal (sigs ! i))) (drop m buf) = anchor_literal (sigs ! i)
       \<and> verify (sigs ! i) buf m = Some start
       \<and> d = \<lparr>d_name = hs_name (sigs ! i), d_kind = KHexSignature, d_offset = Some start\<rparr>)"
proof (cases "sigs = []")
  case False
  let ?lits = "map anchor_literal sigs"
  have "d \<in> set (hex_detections lib sigs buf) \<longleftrightarrow> (\<exists>(i, m) \<in> set (find_overlapping lib ?lits buf).
      \<exists>start. verify (sigs ! i) buf m = Some start
        \<and> d = \<lparr>d_name = hs_name (sigs ! i), d_kind = KHexSignature, d_offset = Some start\<rparr>)"
    using False by (force simp: hex_detections_def split: option.splits)
  also have "set (find_overlapping lib ?lits buf) = {(i, m). i < length sigs
      \<and> m + length (anchor_literal (sigs ! i)) \<le> length buf
      \<and> take (length (anchor_literal (sigs ! i))) (drop m buf) = anchor_literal (sigs ! i)}"
    using assms(1) by (auto simp: ac_ok_def)
  finally show ?thesis by blast
qed (simp add: hex_detections_def)

text \<open> A reported pattern is there: for every database that loads, a detection by pattern names a
  signature of the database, and at the reported offset the buffer has all its segments, byte for
  byte outside the wildcards, with every gap within its bounds.\<close>

theorem hex_detection_sound:
  assumes load: "load_ndb builder_empty text = Inr en" and ac: "ac_ok lib" and buf: "length buf < usize_max"
    and fits: "\<forall>sg \<in> set (hex_sigs en). list_all gap_fits (zip (gaps sg) (segments sg))"
    and d: "d \<in> set (scan_buffer lib en buf)" "d_kind d = KHexSignature"
  shows "\<exists>sg \<in> set (hex_sigs en). \<exists>p. d_name d = hs_name sg \<and> d_offset d = Some p \<and> pattern_at sg buf p"
proof -
  note ok = load_ndb_ok [OF load]
  have "d \<in> set (hex_detections lib (hex_sigs en) buf)"
    using d by (auto simp: scan_buffer_def hash_detections_def hash_detection_def Let_def split: if_splits option.splits)
  then obtain i m start where i: "i < length (hex_sigs en)" "verify (hex_sigs en ! i) buf m = Some start"
    "d = \<lparr>d_name = hs_name (hex_sigs en ! i), d_kind = KHexSignature, d_offset = Some start\<rparr>"
    unfolding hex_detections_iff [OF ac ok] by blast
  have "pattern_at (hex_sigs en ! i) buf start"
    using ok fits i(1) by (intro verify_sound [OF _ _ buf i(2)]) (auto simp: list_all_iff)
  then show ?thesis using i by auto
qed

lemma pattern_reported:
  assumes ok: "list_all sig_ok (hex_sigs en)" and ac: "ac_ok lib"
    and sg: "sg \<in> set (hex_sigs en)" "pattern_at sg buf p" "set (gaps sg) \<subseteq> {Unbounded}"
    and small: "gaps sg = [] \<or> length buf \<le> MAX_GAP_SEARCH"
  shows "\<exists>d \<in> set (scan_buffer lib en buf). d_name d = hs_name sg \<and> d_kind d = KHexSignature"
proof -
  have sok: "sig_ok sg" using ok sg(1) by (simp add: list_all_iff)
  obtain i where i: "i < length (hex_sigs en)" "hex_sigs en ! i = sg" using sg(1) by (meson in_set_conv_nth)
  obtain c start where c: "matches_at (segments sg ! anchor_segment sg) buf c" "verify sg buf (c + anchor_offset sg) = Some start"
    using verify_complete [OF sok sg(2,3) small] by blast
  have "run_in (segments sg ! anchor_segment sg) (anchor_offset sg, anchor_literal sg)" "anchor_literal sg \<noteq> []"
    using sok by (auto simp: sig_ok_def run_in_def)
  note lit = matches_at_literal [OF c(1) this]
  have "\<lparr>d_name = hs_name sg, d_kind = KHexSignature, d_offset = Some start\<rparr> \<in> set (hex_detections lib (hex_sigs en) buf)"
    unfolding hex_detections_iff [OF ac ok] using i lit c(2) by blast
  then have "\<lparr>d_name = hs_name sg, d_kind = KHexSignature, d_offset = Some start\<rparr> \<in> set (scan_buffer lib en buf)"
    by (simp add: scan_buffer_def)
  then show ?thesis by (rule rev_bexI) simp
qed

text \<open> A pattern whose gaps are all open is never missed in a buffer within the search ceiling, and
  one without gaps in no buffer: when it occurs anywhere, the scan reports it.\<close>

theorem hex_detection_complete:
  assumes load: "load_ndb builder_empty text = Inr en" and ac: "ac_ok lib"
    and sg: "sg \<in> set (hex_sigs en)" "pattern_at sg buf p" "set (gaps sg) \<subseteq> {Unbounded}"
    and small: "gaps sg = [] \<or> length buf \<le> MAX_GAP_SEARCH"
  shows "\<exists>d \<in> set (scan_buffer lib en buf). d_name d = hs_name sg \<and> d_kind d = KHexSignature"
  using load_ndb_ok [OF load] ac sg small by (rule pattern_reported)

definition sample_sig :: hex_signature where
  "sample_sig = \<lparr>hs_name = ''E'', segments = [[TByte 0xAA, Wildcard], [TByte 0xCC, TByte 0xDD]],
     gaps = [Unbounded], anchor_segment = 1, anchor_offset = 0, anchor_literal = [0xCC, 0xDD]\<rparr>"

definition sample_buf :: bytes where
  "sample_buf = [1, 0xAA, 2, 3, 0xCC, 0xDD]"

lemmas load_ndb_unfold = load_ndb_def split_lf.simps trim_def is_space_def skips_line_def split_once_def hex_parse_def
  split_on_gaps.simps split_brace_def parse_segment_def parse_gap_def strip_prefix_def strip_suffix_def parse_uint_def
  digit_value_def usize_max_def longest_literal_run_def longer_run_def builder_empty_def Let_def

lemma sample_sig_load: "load_ndb builder_empty ''E:aa??*ccdd'' = Inr \<lparr>hex_sigs = [sample_sig], se_hash_db = hash_db_new\<rparr>"
  by (simp add: load_ndb_unfold sample_sig_def)

lemma sample_sig_there: "pattern_at sample_sig sample_buf 1"
  by (auto simp: pattern_at_def occurs_at_def sample_sig_def sample_buf_def matches_at_def intro!: exI [of _ 4])

theorem hex_detection_complete_witness:
  "\<exists>d \<in> set (scan_buffer sample_libs \<lparr>hex_sigs = [sample_sig], se_hash_db = hash_db_new\<rparr> sample_buf). d_name d = ''E''"
  using hex_detection_complete [OF sample_sig_load sample_libs_ok _ sample_sig_there]
  by (auto simp: sample_sig_def sample_buf_def MAX_GAP_SEARCH_def)

theorem hex_detection_sound_witness:
  "pattern_at sample_sig sample_buf 1"
proof -
  let ?d = "\<lparr>d_name = ''E'', d_kind = KHexSignature, d_offset = Some 1\<rparr>"
  let ?en = "\<lparr>hex_sigs = [sample_sig], se_hash_db = hash_db_new\<rparr>"
  have "verify sample_sig sample_buf 4 = Some 1"
    by (simp add: verify_def sample_sig_def sample_buf_def matches_at_def find_backward_def sat_add_def usize_max_def
        MAX_GAP_SEARCH_def upt_rec [of 0] upt_rec [of "Suc 0"] upt_rec [of "Suc (Suc 0)"] upt_rec [of "Suc (Suc (Suc 0))"] Let_def)
  then have "?d \<in> set (scan_buffer sample_libs ?en sample_buf)"
    using hex_detections_iff [OF sample_libs_ok, of "[sample_sig]" ?d sample_buf] load_ndb_ok [OF sample_sig_load]
    by (auto simp: scan_buffer_def sample_sig_def sample_buf_def intro: exI [of _ 4])
  then show ?thesis
    using hex_detection_sound [OF sample_sig_load sample_libs_ok, of sample_buf ?d]
    by (simp add: sample_buf_def usize_max_def gap_fits_def sample_sig_def)
qed

definition missed_sig :: hex_signature where
  "missed_sig = \<lparr>hs_name = ''E'', segments = [[TByte 0xAA, TByte 0xBB], [TByte 0xCC], [TByte 0xDD]],
     gaps = [Bounded 0 4, Bounded 0 0], anchor_segment = 0, anchor_offset = 0, anchor_literal = [0xAA, 0xBB]\<rparr>"

definition missed_buf :: bytes where
  "missed_buf = [0xAA, 0xBB, 0xCC, 0, 0xCC, 0xDD]"

lemma missed_sig_load: "load_ndb builder_empty ''E:aabb*{0-4}cc*{0-0}dd'' = Inr \<lparr>hex_sigs = [missed_sig], se_hash_db = hash_db_new\<rparr>"
  by (simp add: load_ndb_unfold missed_sig_def)

lemma missed_sig_verify: "verify missed_sig missed_buf 0 = None"
  by (simp add: verify_def missed_sig_def missed_buf_def matches_at_def find_forward_def sat_add_def usize_max_def Let_def upt_rec [of 2])

lemma missed_sig_anchor: "m + 2 \<le> length missed_buf \<Longrightarrow> take 2 (drop m missed_buf) = [0xAA, 0xBB] \<Longrightarrow> m = 0"
proof -
  assume m: "m + 2 \<le> length missed_buf" "take 2 (drop m missed_buf) = [0xAA, 0xBB]"
  then have "m = 0 \<or> m = 1 \<or> m = 2 \<or> m = 3 \<or> m = 4" by (auto simp: missed_buf_def)
  then show ?thesis using m(2) by (auto simp: missed_buf_def)
qed

lemma missed_sig_there: "pattern_at missed_sig missed_buf 0"
proof -
  have "matches_at [TByte 0xAA, TByte 0xBB] missed_buf 0" "matches_at [TByte 0xCC] missed_buf 4" "matches_at [TByte 0xDD] missed_buf 5"
    by (simp_all add: matches_at_def missed_buf_def)
  moreover from this have "follows missed_buf 5 [(Bounded 0 0, [TByte 0xDD])]" by (auto intro: exI [of _ 5])
  ultimately have "follows missed_buf 2 [(Bounded 0 4, [TByte 0xCC]), (Bounded 0 0, [TByte 0xDD])]"
    unfolding follows.simps(2) [of _ 2] by (intro exI [of _ 4]) simp
  then show ?thesis using \<open>matches_at _ _ 0\<close>
    by (simp add: pattern_at_def occurs_at_def missed_sig_def numeral_2_eq_2 del: follows.simps)
qed

text \<open>C33: A pattern with two bounded gaps can be missed: the walk takes the nearest occurrence of the
  next segment and never a later one, so a buffer in which only the later one leads on to the
  third segment holds the pattern and passes as clean, whatever the automaton.\<close>

theorem bounded_gap_pattern_missed:
  assumes "ac_ok lib"
  shows "\<exists>en. load_ndb builder_empty ''E:aabb*{0-4}cc*{0-0}dd'' = Inr en
    \<and> pattern_at (hd (hex_sigs en)) missed_buf 0 \<and> scan_buffer lib en missed_buf = []"
proof -
  let ?en = "\<lparr>hex_sigs = [missed_sig], se_hash_db = hash_db_new\<rparr>"
  have "verify missed_sig missed_buf m = None"
    if "m + length (anchor_literal missed_sig) \<le> length missed_buf"
      "take (length (anchor_literal missed_sig)) (drop m missed_buf) = anchor_literal missed_sig" for m
    using missed_sig_anchor [of m] that missed_sig_verify by (simp add: missed_sig_def numeral_2_eq_2)
  then have "d \<notin> set (hex_detections lib [missed_sig] missed_buf)" for d
    using hex_detections_iff [OF assms, of "[missed_sig]" d missed_buf] load_ndb_ok [OF missed_sig_load] by auto
  then have "hex_detections lib [missed_sig] missed_buf = []" by (metis last_in_set)
  then have "scan_buffer lib ?en missed_buf = []"
    by (simp add: scan_buffer_def hash_detections_def hash_count_def hash_db_new_def tbl_len_def)
  then show ?thesis using missed_sig_load missed_sig_there by (intro exI [of _ ?en]) simp
qed

theorem bounded_gap_pattern_missed_witness:
  "\<exists>en. scan_buffer sample_libs en missed_buf = [] \<and> pattern_at (hd (hex_sigs en)) missed_buf 0"
  using bounded_gap_pattern_missed [OF sample_libs_ok] by blast

end
