(* ===== verification/Pe_Analyze.thy ===== *)
theory Pe_Analyze
  imports Text Floats
begin

text \<open>
  The PE header parser and the structural heuristics of the malware scanner
  (\<^verbatim>\<open>rust-clam/crates/pe-analyze\<close>).  An index outside the buffer, where Rust panics, is the
  value \<open>None\<close>, so that the absence of panics is a theorem; offsets are 64-bit \<^verbatim>\<open>usize\<close> values with
  the checked and saturating operations of the code.  A section's name is kept as its bytes;
  \<^verbatim>\<open>log2\<close> is a parameter.
\<close>

unbundle bit_operations_syntax

section \<open>Reading\<close>

datatype pe_error = TruncatedDos | BadDosMagic | BadPeOffset | BadPeMagic | TruncatedHeaders | TruncatedSections

definition le16 :: "u8 \<Rightarrow> u8 \<Rightarrow> u16" where
  "le16 a b = ucast a + 256 * ucast b"

definition le32 :: "u8 \<Rightarrow> u8 \<Rightarrow> u8 \<Rightarrow> u8 \<Rightarrow> u32" where
  "le32 a b c d = ucast a + 0x100 * ucast b + 0x10000 * ucast c + 0x1000000 * ucast d"

text \<open>\<^verbatim>\<open>slice::get\<close> and the indexing expression; both need an ordered range within the buffer.\<close>

definition slice :: "bytes \<Rightarrow> nat \<Rightarrow> nat \<Rightarrow> bytes option" where
  "slice buf a b = (if a \<le> b \<and> b \<le> length buf then Some (take (b - a) (drop a buf)) else None)"

definition u16_at :: "bytes \<Rightarrow> nat \<Rightarrow> u16 option" where
  "u16_at buf off = map_option (\<lambda>s. le16 (s ! 0) (s ! 1)) (slice buf off (off + 2))"

definition u32_at :: "bytes \<Rightarrow> nat \<Rightarrow> u32 option" where
  "u32_at buf off = map_option (\<lambda>s. le32 (s ! 0) (s ! 1) (s ! 2) (s ! 3)) (slice buf off (off + 4))"

definition u32_at_or_0 :: "bytes \<Rightarrow> nat \<Rightarrow> u32" where
  "u32_at_or_0 buf off = (case u32_at buf off of None \<Rightarrow> 0 | Some x \<Rightarrow> x)"

definition checked :: "nat \<Rightarrow> nat option" where
  "checked n = (if n < 2 ^ 64 then Some n else None)"

record section_info =
  sec_name :: bytes
  virtual_size :: u32
  raw_size :: u32
  raw_offset :: u32
  characteristics :: u32
  sec_entropy :: f64

definition is_executable :: "section_info \<Rightarrow> bool" where
  "is_executable s \<longleftrightarrow> characteristics s AND 0x20000000 \<noteq> 0"

definition is_writable :: "section_info \<Rightarrow> bool" where
  "is_writable s \<longleftrightarrow> characteristics s AND 0x80000000 \<noteq> 0"

record pe_info =
  machine :: u16
  number_of_sections :: u16
  entry_point_rva :: u32
  pe_sections :: "section_info list"

definition pe_entropy :: "(f64 \<Rightarrow> f64) \<Rightarrow> bytes \<Rightarrow> f64" where
  "pe_entropy log2 data =
     (let len = f64_of_nat (length data);
          counts = filter (\<lambda>c. c > 0) (map (\<lambda>b. length (filter (\<lambda>x. x = b) data)) (map word_of_nat [0..<256]))
      in foldl f64_add (Fin 0)
           (map (\<lambda>c. let p = f64_div (f64_of_nat c) len in f64_mul (flt_neg p) (log2 p)) counts))"

definition SECTION_HEADER_SIZE :: nat where
  "SECTION_HEADER_SIZE = 40"

definition trim_zeros :: "bytes \<Rightarrow> bytes" where
  "trim_zeros s = rev (dropWhile (\<lambda>b. b = 0) (rev s))"

definition section_entropy :: "(f64 \<Rightarrow> f64) \<Rightarrow> bytes \<Rightarrow> u32 \<Rightarrow> u32 \<Rightarrow> f64" where
  "section_entropy log2 buf off len =
     (case slice buf (unat off) (min (min (unat off + unat len) (2 ^ 64 - 1)) (length buf)) of
        None \<Rightarrow> Fin 0
      | Some s \<Rightarrow> if s = [] then Fin 0 else pe_entropy log2 s)"

text \<open>One turn of the loop over the section table; \<open>None\<close> is a panic.\<close>

definition parse_section :: "(f64 \<Rightarrow> f64) \<Rightarrow> bytes \<Rightarrow> nat \<Rightarrow> section_info option" where
  "parse_section log2 buf base =
     map_option (\<lambda>name_bytes.
         let raw = u32_at_or_0 buf (base + 16); off = u32_at_or_0 buf (base + 20)
         in \<lparr>sec_name = trim_zeros name_bytes, virtual_size = u32_at_or_0 buf (base + 8), raw_size = raw, raw_offset = off,
             characteristics = u32_at_or_0 buf (base + 36), sec_entropy = section_entropy log2 buf off raw\<rparr>)
       (slice buf base (base + 8))"

fun parse_sections :: "(f64 \<Rightarrow> f64) \<Rightarrow> bytes \<Rightarrow> nat \<Rightarrow> nat \<Rightarrow> section_info list option" where
  "parse_sections log2 buf base 0 = Some []"
| "parse_sections log2 buf base (Suc n) =
     Option.bind (parse_section log2 buf base) (\<lambda>s.
       map_option ((#) s) (parse_sections log2 buf (base + SECTION_HEADER_SIZE) n))"

text \<open>The checks in the order of the code: each \<open>ok_or\<close> and each comparison is an early return, each
  indexing expression can panic.\<close>

abbreviation or_err :: "'a option \<Rightarrow> pe_error \<Rightarrow> ('a \<Rightarrow> (pe_error + 'b) option) \<Rightarrow> (pe_error + 'b) option" where
  "or_err x e k \<equiv> (case x of None \<Rightarrow> Some (Inl e) | Some v \<Rightarrow> k v)"

abbreviation guard_err :: "bool \<Rightarrow> pe_error \<Rightarrow> (pe_error + 'b) option \<Rightarrow> (pe_error + 'b) option" where
  "guard_err c e k \<equiv> (if c then Some (Inl e) else k)"

definition parse_table :: "(f64 \<Rightarrow> f64) \<Rightarrow> bytes \<Rightarrow> u16 \<Rightarrow> u16 \<Rightarrow> u32 \<Rightarrow> nat \<Rightarrow> (pe_error + pe_info) option" where
  "parse_table log2 buf mach nsec entry table_off =
     or_err (checked (unat nsec * SECTION_HEADER_SIZE)) TruncatedSections (\<lambda>table_bytes.
     or_err (checked (table_off + table_bytes)) TruncatedSections (\<lambda>sections_end.
     guard_err (sections_end > length buf) TruncatedSections
       (map_option (\<lambda>secs. Inr \<lparr>machine = mach, number_of_sections = nsec, entry_point_rva = entry, pe_sections = secs\<rparr>)
          (parse_sections log2 buf table_off (unat nsec)))))"

definition parse_headers :: "(f64 \<Rightarrow> f64) \<Rightarrow> bytes \<Rightarrow> nat \<Rightarrow> (pe_error + pe_info) option" where
  "parse_headers log2 buf coff_off =
     or_err (u16_at buf coff_off) TruncatedHeaders (\<lambda>mach.
     or_err (u16_at buf (coff_off + 2)) TruncatedHeaders (\<lambda>nsec.
     or_err (u16_at buf (coff_off + 16)) TruncatedHeaders (\<lambda>opt_size.
     or_err (checked (coff_off + 20)) TruncatedHeaders (\<lambda>opt_off.
     guard_err (unat opt_size < 20) TruncatedHeaders
     (guard_err (case checked (opt_off + unat opt_size) of None \<Rightarrow> True | Some e \<Rightarrow> e > length buf) TruncatedHeaders
     (or_err (u32_at buf (opt_off + 16)) TruncatedHeaders (\<lambda>entry.
     or_err (checked (opt_off + unat opt_size)) TruncatedSections (\<lambda>table_off.
       parse_table log2 buf mach nsec entry table_off))))))))"

definition pe_parse :: "(f64 \<Rightarrow> f64) \<Rightarrow> bytes \<Rightarrow> (pe_error + pe_info) option" where
  "pe_parse log2 buf =
     guard_err (length buf < 64) TruncatedDos
     (Option.bind (slice buf 0 2) (\<lambda>magic.
     guard_err (magic \<noteq> [0x4D, 0x5A]) BadDosMagic
     (or_err (u32_at buf 0x3C) TruncatedDos (\<lambda>lfanew.
     let e_lfanew = unat lfanew
     in or_err (checked (e_lfanew + 26)) BadPeOffset (\<lambda>pe_header_end.
        guard_err (pe_header_end > length buf) BadPeOffset
        (Option.bind (slice buf e_lfanew (e_lfanew + 4)) (\<lambda>pe_magic.
        guard_err (pe_magic \<noteq> [0x50, 0x45, 0, 0]) BadPeMagic
        (or_err (checked (e_lfanew + 4)) BadPeOffset (\<lambda>coff_off.
          parse_headers log2 buf coff_off)))))))))"

section \<open>Heuristics\<close>

record pe_heuristics =
  high_entropy_sections :: "bytes list"
  writable_and_executable_sections :: "bytes list"
  entry_point_outside_sections :: bool
  suspiciously_few_sections :: bool
  score :: u32

definition score_section :: "pe_heuristics \<Rightarrow> section_info \<Rightarrow> pe_heuristics" where
  "score_section h s =
     (let h = (if flt_ge (sec_entropy s) (mk_f64 (72 / 10)) \<and> raw_size s \<ge> 256
               then h\<lparr>high_entropy_sections := high_entropy_sections h @ [sec_name s], score := score h + 30\<rparr> else h)
      in if is_executable s \<and> is_writable s
         then h\<lparr>writable_and_executable_sections := writable_and_executable_sections h @ [sec_name s], score := score h + 40\<rparr>
         else h)"

definition entry_in_section :: "pe_info \<Rightarrow> section_info \<Rightarrow> bool" where
  "entry_in_section info s \<longleftrightarrow>
     unat (raw_offset s) \<le> unat (entry_point_rva info) \<and>
     unat (entry_point_rva info) < min (unat (raw_offset s) + unat (max (virtual_size s) (raw_size s))) (2 ^ 32 - 1)"

definition heuristics :: "pe_info \<Rightarrow> pe_heuristics" where
  "heuristics info =
     (let h = foldl score_section \<lparr>high_entropy_sections = [], writable_and_executable_sections = [],
            entry_point_outside_sections = False, suspiciously_few_sections = False, score = 0\<rparr> (pe_sections info);
          h = (if \<not> list_ex (entry_in_section info) (pe_sections info) \<and> pe_sections info \<noteq> []
               then h\<lparr>entry_point_outside_sections := True, score := score h + 25\<rparr> else h)
      in if number_of_sections info \<le> 2 then h\<lparr>suspiciously_few_sections := True, score := score h + 10\<rparr> else h)"

text \<open>\<^verbatim>\<open>rsplitn\<close> at the last two dots; names in ASCII.\<close>

definition rsplit_once :: "char \<Rightarrow> string \<Rightarrow> (string \<times> string) option" where
  "rsplit_once c s = map_option (\<lambda>(a, b). (rev b, rev a)) (split_once c (rev s))"

definition EXECUTABLE_EXTS :: "string list" where
  "EXECUTABLE_EXTS = [''exe'', ''scr'', ''bat'', ''cmd'', ''com'', ''pif'', ''vbs'', ''vbe'', ''js'', ''jse'', ''wsf'',
     ''jar'', ''msi'', ''ps1'']"

definition BENIGN_EXTS :: "string list" where
  "BENIGN_EXTS = [''pdf'', ''doc'', ''docx'', ''xls'', ''xlsx'', ''ppt'', ''pptx'', ''jpg'', ''jpeg'', ''png'', ''gif'',
     ''txt'', ''zip'', ''rar'', ''csv'']"

definition suspicious_filename :: "string \<Rightarrow> string option" where
  "suspicious_filename filename =
     (case rsplit_once (CHR ''.'') filename of
        None \<Rightarrow> None
      | Some (rest, last_ext) \<Rightarrow>
          (case rsplit_once (CHR ''.'') rest of
             None \<Rightarrow> None
           | Some (_, second_ext) \<Rightarrow>
               (let l = map lower last_ext; s = map lower second_ext
                in if l \<in> set EXECUTABLE_EXTS \<and> s \<in> set BENIGN_EXTS then Some (s @ ''.'' @ l) else None)))"

section \<open>Robustness\<close>

lemma slice_Some: "slice buf a b = Some s \<longleftrightarrow> a \<le> b \<and> b \<le> length buf \<and> s = take (b - a) (drop a buf)"
  by (auto simp: slice_def)

lemma checked_Some [simp]: "checked n = Some m \<longleftrightarrow> m = n \<and> n < 2 ^ 64"
  by (auto simp: checked_def)

lemma parse_sections_total:
  "base + n * SECTION_HEADER_SIZE \<le> length buf \<Longrightarrow> \<exists>secs. parse_sections log2 buf base n = Some secs \<and> length secs = n"
proof (induction n arbitrary: base)
  case (Suc n)
  have "base + 8 \<le> length buf" using Suc.prems by (simp add: SECTION_HEADER_SIZE_def)
  then obtain s where s: "parse_section log2 buf base = Some s" by (simp add: parse_section_def slice_def)
  obtain secs where "parse_sections log2 buf (base + SECTION_HEADER_SIZE) n = Some secs" "length secs = n"
    using Suc.IH [of "base + SECTION_HEADER_SIZE"] Suc.prems by (auto simp: ac_simps)
  then show ?case using s by simp
qed simp

definition parsed_ok :: "(pe_error + pe_info) option \<Rightarrow> bool" where
  "parsed_ok x \<longleftrightarrow> (case x of None \<Rightarrow> False | Some (Inl _) \<Rightarrow> True
     | Some (Inr info) \<Rightarrow> length (pe_sections info) = unat (number_of_sections info))"

lemma parse_table_ok: "parsed_ok (parse_table log2 buf mach nsec entry off)"
  using parse_sections_total [of off "unat nsec" buf log2] by (auto simp: parse_table_def parsed_ok_def checked_def)

lemma parsed_ok_err [simp]: "parsed_ok (Some (Inl e))"
  by (simp add: parsed_ok_def)

lemma parse_headers_ok: "parsed_ok (parse_headers log2 buf off)"
  by (simp add: parse_headers_def parse_table_ok split: option.split)

lemma pe_parse_ok: "parsed_ok (pe_parse log2 buf)"
  by (auto simp: pe_parse_def slice_def parse_headers_ok Let_def split: option.split)

lemma score_fold:
  assumes "unat (score h) + 70 * length ss < 2 ^ 32"
  shows "unat (score (foldl score_section h ss)) + 30 * length (high_entropy_sections h) + 40 * length (writable_and_executable_sections h)
    = unat (score h) + 30 * length (high_entropy_sections (foldl score_section h ss))
      + 40 * length (writable_and_executable_sections (foldl score_section h ss))"
    "unat (score (foldl score_section h ss)) \<le> unat (score h) + 70 * length ss"
proof -
  have add: "unat (w + 30) = unat w + 30" "unat (w + 40) = unat w + 40" if "unat w + 70 < 2 ^ 32" for w :: u32
    using that by (simp_all add: unat_word_ariths)
  have step: "unat (score (score_section h s)) \<le> unat (score h) + 70
    \<and> unat (score (score_section h s)) + 30 * length (high_entropy_sections h) + 40 * length (writable_and_executable_sections h)
    = unat (score h) + 30 * length (high_entropy_sections (score_section h s))
      + 40 * length (writable_and_executable_sections (score_section h s))"
    if "unat (score h) + 70 < 2 ^ 32" for h :: pe_heuristics and s
    using that by (simp add: score_section_def Let_def unat_word_ariths)
  show "unat (score (foldl score_section h ss)) + 30 * length (high_entropy_sections h) + 40 * length (writable_and_executable_sections h)
    = unat (score h) + 30 * length (high_entropy_sections (foldl score_section h ss))
      + 40 * length (writable_and_executable_sections (foldl score_section h ss))"
    "unat (score (foldl score_section h ss)) \<le> unat (score h) + 70 * length ss"
    using assms
  proof (induction ss arbitrary: h)
    case (Cons s ss)
    { case 1 with Cons.IH(1) [of "score_section h s"] step [of h s] show ?case by simp }
    { case 2 with Cons.IH(2) [of "score_section h s"] step [of h s] show ?case by simp }
  qed simp_all
qed

text \<open>C34: The parser is total on hostile input: whatever the bytes, no index is ever out of range, so a
  malformed file is an error value and never a panic; a file that parses has as many sections as
  its header declares, and its suspicion score is exactly the sum of the weights of the traits
  that are reported, without overflow.\<close>

theorem pe_parse_never_panics:
  "case pe_parse log2 buf of
     None \<Rightarrow> False
   | Some (Inl e) \<Rightarrow> True
   | Some (Inr info) \<Rightarrow> length (pe_sections info) = unat (number_of_sections info)
       \<and> unat (score (heuristics info)) = 30 * length (high_entropy_sections (heuristics info))
           + 40 * length (writable_and_executable_sections (heuristics info))
           + (if entry_point_outside_sections (heuristics info) then 25 else 0)
           + (if suspiciously_few_sections (heuristics info) then 10 else 0)"
proof -
  have "unat (score (heuristics info)) = 30 * length (high_entropy_sections (heuristics info))
           + 40 * length (writable_and_executable_sections (heuristics info))
           + (if entry_point_outside_sections (heuristics info) then 25 else 0)
           + (if suspiciously_few_sections (heuristics info) then 10 else 0)"
    if len: "length (pe_sections info) = unat (number_of_sections info)" for info
  proof -
    let ?h0 = "\<lparr>high_entropy_sections = [], writable_and_executable_sections = [],
      entry_point_outside_sections = False, suspiciously_few_sections = False, score = 0\<rparr> :: pe_heuristics"
    have "length (pe_sections info) < 65536"
      using len unsigned_less [of "number_of_sections info", where ?'a = nat] by simp
    then have b: "unat (score ?h0) + 70 * length (pe_sections info) < 2 ^ 32 - 35" by simp
    have keep: "entry_point_outside_sections (foldl score_section h ss) = entry_point_outside_sections h"
      "suspiciously_few_sections (foldl score_section h ss) = suspiciously_few_sections h" for h ss
      by (induction ss arbitrary: h) (auto simp: score_section_def Let_def)
    note f = score_fold [of ?h0 "pe_sections info"]
    show ?thesis using f b keep [of ?h0 "pe_sections info"]
      by (simp add: heuristics_def Let_def unat_word_ariths)
  qed
  then show ?thesis using pe_parse_ok [of log2 buf] by (auto simp: parsed_ok_def split: option.splits sum.splits)
qed

end
