(* ===== verification/Archive_Guard.thy ===== *)
theory Archive_Guard
  imports Text
begin

text \<open>
  The archive guard (\<^verbatim>\<open>rust-clam/crates/archive-guard\<close>): limits, the budget that is charged as bytes
  come out of a decoder, and the five extractors.  The decoders (zip, gzip, tar, 7z, cab) are
  parameters: what they list for a buffer, and for each member the bytes of its successive
  reads, where an empty read or a failed one ends the member.  The counters are natural numbers;
  the code's 64-bit ones cannot wrap before as many bytes have been read.
\<close>

section \<open>The budget\<close>

record guard_limits =
  max_depth :: nat
  max_entries :: nat
  max_total_uncompressed :: nat
  max_ratio :: nat
  read_chunk :: nat
  max_file_size :: nat

definition guard_limits_default :: guard_limits where
  "guard_limits_default = \<lparr>max_depth = 16, max_entries = 10000, max_total_uncompressed = 4294967296, max_ratio = 1000,
     read_chunk = 1048576, max_file_size = 209715200\<rparr>"

datatype guard_error =
    DepthExceeded nat
  | EntryCountExceeded nat
  | TotalSizeExceeded nat
  | RatioExceeded string nat
  | ZipErr string
  | SevenZErr string
  | CabErr string
  | GuardIo string

record guard_budget =
  limits :: guard_limits
  depth :: nat
  entries_seen :: nat
  total_uncompressed :: nat

definition budget_new :: "guard_limits \<Rightarrow> guard_budget" where
  "budget_new l = \<lparr>limits = l, depth = 0, entries_seen = 0, total_uncompressed = 0\<rparr>"

text \<open>The depth is counted up before it is compared, and stays so when the answer is an error.\<close>

definition enter_archive :: "guard_budget \<Rightarrow> guard_error option \<times> guard_budget" where
  "enter_archive b =
     (let b = b\<lparr>depth := depth b + 1\<rparr>
      in (if depth b > max_depth (limits b) then Some (DepthExceeded (depth b)) else None, b))"

definition leave_archive :: "guard_budget \<Rightarrow> guard_budget" where
  "leave_archive b = b\<lparr>depth := depth b - 1\<rparr>"

definition charge_entry :: "guard_budget \<Rightarrow> nat \<Rightarrow> guard_error option \<times> guard_budget" where
  "charge_entry b n =
     (let b = b\<lparr>entries_seen := entries_seen b + 1\<rparr>
      in if entries_seen b > max_entries (limits b) then (Some (EntryCountExceeded (max_entries (limits b))), b)
         else
           let b = b\<lparr>total_uncompressed := total_uncompressed b + n\<rparr>
           in (if total_uncompressed b > max_total_uncompressed (limits b)
               then Some (TotalSizeExceeded (max_total_uncompressed (limits b))) else None, b))"

section \<open>Extraction\<close>

record member =
  m_name :: string
  m_reads :: "bytes list"

record zip_member =
  zm_member :: member
  zm_compressed :: nat
  zm_size :: nat

text \<open>What the decoders give for a buffer: the zip and tar members with the ones that cannot be
  opened as \<open>None\<close> (for tar also whether it is a regular file), the gzip reads, the 7z members with
  a stream and the error that ends the listing, the cabinet members that can be read.\<close>

record archive_libs =
  zip_open :: "nat \<Rightarrow> bytes \<Rightarrow> string + zip_member option list"
  gz_reads :: "nat \<Rightarrow> bytes \<Rightarrow> bytes list"
  tar_open :: "nat \<Rightarrow> bytes \<Rightarrow> string + (bool \<times> member) option list"
  sevenz_open :: "nat \<Rightarrow> bytes \<Rightarrow> string + (bool \<times> member) list \<times> string option"
  cab_open :: "nat \<Rightarrow> bytes \<Rightarrow> string + member option list"

text \<open>The read loop that all extractors share: a chunk that breaks the budget is not kept.\<close>

fun read_loop :: "guard_budget \<Rightarrow> bytes \<Rightarrow> bytes list \<Rightarrow> bytes \<times> guard_error option \<times> guard_budget" where
  "read_loop b data [] = (data, None, b)"
| "read_loop b data (chunk # reads) =
     (if chunk = [] then (data, None, b)
      else case charge_entry b (length chunk) of
             (Some e, b') \<Rightarrow> (data, Some e, b')
           | (None, b') \<Rightarrow> read_loop b' (data @ chunk) reads)"

type_synonym extracted = "string \<times> bytes"

fun extract_members :: "guard_budget \<Rightarrow> member list \<Rightarrow> extracted list \<times> guard_error option \<times> guard_budget" where
  "extract_members b [] = ([], None, b)"
| "extract_members b (m # ms) =
     (case read_loop b [] (m_reads m) of
        (data, Some e, b') \<Rightarrow> ([(m_name m, data)], Some e, b')
      | (data, None, b') \<Rightarrow>
          (case extract_members b' ms of (out, hit, b'') \<Rightarrow> ((m_name m, data) # out, hit, b'')))"

text \<open>A zip member is first judged by its declared sizes.\<close>

fun zip_members :: "guard_budget \<Rightarrow> zip_member option list \<Rightarrow> extracted list \<times> guard_error option \<times> guard_budget" where
  "zip_members b [] = ([], None, b)"
| "zip_members b (None # ms) = zip_members b ms"
| "zip_members b (Some zm # ms) =
     (let m = zm_member zm; declared_ratio = zm_size zm div max (zm_compressed zm) 1
      in if declared_ratio > max_ratio (limits b) then ([], Some (RatioExceeded (m_name m) declared_ratio), b)
         else case read_loop b [] (m_reads m) of
                (data, Some e, b') \<Rightarrow> ([(m_name m, data)], Some e, b')
              | (data, None, b') \<Rightarrow>
                  (case zip_members b' ms of (out, hit, b'') \<Rightarrow> ((m_name m, data) # out, hit, b'')))"

type_synonym extraction = "(guard_error + extracted list \<times> guard_error option) \<times> guard_budget"

definition extract_zip :: "archive_libs \<Rightarrow> bytes \<Rightarrow> guard_budget \<Rightarrow> extraction" where
  "extract_zip lib buf b =
     (case zip_open lib (read_chunk (limits b)) buf of
        Inl e \<Rightarrow> (Inl (ZipErr e), b)
      | Inr ms \<Rightarrow> (case zip_members b ms of (out, hit, b') \<Rightarrow> (Inr (out, hit), b')))"

definition extract_gzip :: "archive_libs \<Rightarrow> bytes \<Rightarrow> guard_budget \<Rightarrow> (bytes \<times> guard_error option) \<times> guard_budget" where
  "extract_gzip lib buf b =
     (case read_loop b [] (gz_reads lib (read_chunk (limits b)) buf) of (data, hit, b') \<Rightarrow> ((data, hit), b'))"

definition extract_tar :: "archive_libs \<Rightarrow> bytes \<Rightarrow> guard_budget \<Rightarrow> extraction" where
  "extract_tar lib buf b =
     (case tar_open lib (read_chunk (limits b)) buf of
        Inl e \<Rightarrow> (Inl (GuardIo e), b)
      | Inr es \<Rightarrow>
          (case extract_members b (map snd (filter fst (List.map_filter id es))) of (out, hit, b') \<Rightarrow> (Inr (out, hit), b')))"

definition extract_7z :: "archive_libs \<Rightarrow> bytes \<Rightarrow> guard_budget \<Rightarrow> extraction" where
  "extract_7z lib buf b =
     (case sevenz_open lib (read_chunk (limits b)) buf of
        Inl e \<Rightarrow> (Inl (SevenZErr e), b)
      | Inr (es, err) \<Rightarrow>
          (case extract_members b (map snd (filter fst es)) of
             (out, hit, b') \<Rightarrow>
               (case (hit, err) of
                  (None, Some e) \<Rightarrow> (Inl (SevenZErr e), b')
                | _ \<Rightarrow> (Inr (out, hit), b'))))"

definition extract_cab :: "archive_libs \<Rightarrow> bytes \<Rightarrow> guard_budget \<Rightarrow> extraction" where
  "extract_cab lib buf b =
     (case cab_open lib (read_chunk (limits b)) buf of
        Inl e \<Rightarrow> (Inl (CabErr e), b)
      | Inr ms \<Rightarrow> (case extract_members b (List.map_filter id ms) of (out, hit, b') \<Rightarrow> (Inr (out, hit), b')))"

definition looks_like_tar :: "bytes \<Rightarrow> bool" where
  "looks_like_tar buf \<longleftrightarrow> 263 \<le> length buf \<and> take 5 (drop 257 buf) = [0x75, 0x73, 0x74, 0x61, 0x72]"

definition looks_like_7z :: "bytes \<Rightarrow> bool" where
  "looks_like_7z buf \<longleftrightarrow> 6 \<le> length buf \<and> take 6 buf = [0x37, 0x7A, 0xBC, 0xAF, 0x27, 0x1C]"

definition looks_like_cab :: "bytes \<Rightarrow> bool" where
  "looks_like_cab buf \<longleftrightarrow> 4 \<le> length buf \<and> take 4 buf = [0x4D, 0x53, 0x43, 0x46]"

section \<open>The budget holds\<close>

text \<open>What an extraction hands over is paid for: it fits between the charged totals, and together with
  all that came before it is within the limit.\<close>

definition bytes_of :: "extracted list \<Rightarrow> nat" where
  "bytes_of out = sum_list (map (\<lambda>e. length (snd e)) out)"

definition within_budget :: "guard_budget \<Rightarrow> nat \<Rightarrow> guard_budget \<Rightarrow> bool" where
  "within_budget b n b' \<longleftrightarrow> limits b' = limits b \<and> depth b' = depth b \<and> entries_seen b \<le> entries_seen b'
     \<and> total_uncompressed b + n \<le> total_uncompressed b'
     \<and> (n = 0 \<or> total_uncompressed b + n \<le> max_total_uncompressed (limits b))"

lemma within_refl [simp]: "within_budget b 0 b"
  by (simp add: within_budget_def)

lemma charge_entry_fields:
  "limits (snd (charge_entry b n)) = limits b" "depth (snd (charge_entry b n)) = depth b"
  "fst (charge_entry b n) = None \<Longrightarrow> total_uncompressed (snd (charge_entry b n)) = total_uncompressed b + n
     \<and> total_uncompressed b + n \<le> max_total_uncompressed (limits b) \<and> entries_seen (snd (charge_entry b n)) = entries_seen b + 1
     \<and> entries_seen b < max_entries (limits b)"
  "entries_seen b \<le> entries_seen (snd (charge_entry b n))" "total_uncompressed b \<le> total_uncompressed (snd (charge_entry b n))"
  by (auto simp: charge_entry_def Let_def split: if_splits)

lemma within_trans: "within_budget b n b' \<Longrightarrow> within_budget b' k b'' \<Longrightarrow> within_budget b (n + k) b''"
  by (auto simp: within_budget_def)

lemma charge_within: "charge_entry b n = (r, b') \<Longrightarrow> within_budget b (if r = None then n else 0) b'"
  by (auto simp: charge_entry_def within_budget_def Let_def split: if_splits)

lemma read_loop_within:
  "read_loop b data reads = (out, hit, b') \<Longrightarrow> \<exists>more. out = data @ more \<and> within_budget b (length more) b'"
proof (induction b data reads rule: read_loop.induct)
  case (2 b data chunk reads)
  show ?case
  proof (cases "chunk = []")
    case True
    then show ?thesis using "2.prems" by auto
  next
    case False
    obtain r b1 where c: "charge_entry b (length chunk) = (r, b1)" by fastforce
    note w = charge_within [OF c]
    show ?thesis
    proof (cases r)
      case None
      then have "read_loop b1 (data @ chunk) reads = (out, hit, b')" using "2.prems" False c by simp
      from "2.IH" [OF False c [unfolded None, symmetric] refl this] obtain more where
        "out = data @ (chunk @ more)" "within_budget b1 (length more) b'" by auto
      then show ?thesis using within_trans [OF w] None by (intro exI [of _ "chunk @ more"]) simp
    next
      case (Some e)
      then show ?thesis using "2.prems" False c w by auto
    qed
  qed
qed auto

lemma read_loop_start: "read_loop b [] reads = (out, hit, b') \<Longrightarrow> within_budget b (length out) b'"
  using read_loop_within by fastforce

lemma bytes_of_simps [simp]: "bytes_of [] = 0" "bytes_of (e # out) = length (snd e) + bytes_of out"
  by (simp_all add: bytes_of_def)

lemma extract_members_within: "extract_members b ms = (out, hit, b') \<Longrightarrow> within_budget b (bytes_of out) b'"
proof (induction b ms arbitrary: out hit b' rule: extract_members.induct)
  case (2 b m ms)
  obtain data h b1 where r: "read_loop b [] (m_reads m) = (data, h, b1)" by (metis prod_cases3)
  show ?case using "2.prems" "2.IH" [OF r [symmetric] refl] within_trans [OF read_loop_start [OF r]] read_loop_start [OF r]
    by (cases h) (auto simp: r split: prod.splits)
qed auto

lemma zip_members_within: "zip_members b ms = (out, hit, b') \<Longrightarrow> within_budget b (bytes_of out) b'"
proof (induction b ms arbitrary: out hit b' rule: zip_members.induct)
  case (3 b zm ms)
  obtain data h b1 where r: "read_loop b [] (m_reads (zm_member zm)) = (data, h, b1)" by (metis prod_cases3)
  show ?case
    using "3.prems" "3.IH" [OF refl refl _ r [symmetric] refl] within_trans [OF read_loop_start [OF r]] read_loop_start [OF r]
    by (cases h) (auto simp: r Let_def split: prod.splits if_splits)
qed auto

text \<open>The bytes that an extraction hands over.\<close>

definition handed :: "guard_error + extracted list \<times> guard_error option \<Rightarrow> extracted list" where
  "handed r = (case r of Inl _ \<Rightarrow> [] | Inr (out, _) \<Rightarrow> out)"

lemma within_less: "within_budget b n b' \<Longrightarrow> k \<le> n \<Longrightarrow> within_budget b k b'"
  by (auto simp: within_budget_def)

lemma extract_within:
  "extract_zip lib buf b = (r, b') \<Longrightarrow> within_budget b (bytes_of (handed r)) b'"
  "extract_tar lib buf b = (r, b') \<Longrightarrow> within_budget b (bytes_of (handed r)) b'"
  "extract_7z lib buf b = (r, b') \<Longrightarrow> within_budget b (bytes_of (handed r)) b'"
  "extract_cab lib buf b = (r, b') \<Longrightarrow> within_budget b (bytes_of (handed r)) b'"
  by (auto simp: extract_zip_def extract_tar_def extract_7z_def extract_cab_def handed_def
      split: sum.splits prod.splits option.splits dest!: zip_members_within extract_members_within intro: within_less)

lemma extract_gzip_within: "extract_gzip lib buf b = ((data, hit), b') \<Longrightarrow> within_budget b (length data) b'"
  by (auto simp: extract_gzip_def split: prod.splits dest: read_loop_start)

end
