(* ===== verification/Scanner.thy ===== *)
theory Scanner
  imports Sig_Matching Pe_Analyze Archive_Guard
begin

text \<open>
  The scanner (\<^verbatim>\<open>rust-clam/crates/scanner-core\<close>): the recursive scan of a buffer and of the archives
  in it, the scan of a file and of a directory's files.  The recursion is the code's; it ends
  because the depth budget bounds it, which is the termination proof here.
\<close>

section \<open>Reports\<close>

datatype scan_reason = NotRegular | TooLarge nat nat | GuardTripped guard_error | ScanIo string

datatype scan_verdict =
    Clean
  | Infected "detection list"
  | Skipped scan_reason
  | LimitExceeded "detection list" scan_reason

record file_report =
  fr_path :: string
  fr_logical :: string
  fr_verdict :: scan_verdict
  fr_pe :: "pe_heuristics option"

text \<open>The libraries below the scanner.\<close>

record scan_world =
  w_sig :: scan_libs
  w_arch :: archive_libs
  w_log2 :: "f64 \<Rightarrow> f64"

record scanner =
  sc_engine :: signature_engine
  sc_limits :: guard_limits

definition scanner_new :: "signature_engine \<Rightarrow> scanner" where
  "scanner_new en = \<lparr>sc_engine = en, sc_limits = guard_limits_default\<rparr>"

definition with_limits :: "scanner \<Rightarrow> guard_limits \<Rightarrow> scanner" where
  "with_limits sc l = sc\<lparr>sc_limits := l\<rparr>"

section \<open>The scan of a buffer\<close>

definition pe_report :: "(f64 \<Rightarrow> f64) \<Rightarrow> bytes \<Rightarrow> pe_heuristics option" where
  "pe_report log2 buf =
     (if 64 \<le> length buf \<and> take 2 buf = [0x4D, 0x5A]
      then case pe_parse log2 buf of Some (Inr info) \<Rightarrow> Some (heuristics info) | _ \<Rightarrow> None
      else None)"

definition own_report :: "scan_world \<Rightarrow> scanner \<Rightarrow> string \<Rightarrow> bytes \<Rightarrow> string \<Rightarrow> file_report" where
  "own_report W sc path buf lp =
     (let detections = scan_buffer (w_sig W) (sc_engine sc) buf
      in \<lparr>fr_path = path, fr_logical = lp, fr_verdict = (if detections = [] then Clean else Infected detections),
          fr_pe = pe_report (w_log2 W) buf\<rparr>)"

definition limit_report :: "string \<Rightarrow> string \<Rightarrow> guard_error \<Rightarrow> file_report" where
  "limit_report path lp e = \<lparr>fr_path = path, fr_logical = lp, fr_verdict = LimitExceeded [] (GuardTripped e), fr_pe = None\<rparr>"

datatype archive_kind = Zip | Gzip | Tar | SevenZ | Cab

definition archive_kind_of :: "bytes \<Rightarrow> archive_kind option" where
  "archive_kind_of buf =
     (if 4 \<le> length buf \<and> take 4 buf = [0x50, 0x4B, 3, 4] then Some Zip
      else if 2 \<le> length buf \<and> buf ! 0 = 0x1F \<and> buf ! 1 = 0x8B then Some Gzip
      else if looks_like_tar buf then Some Tar
      else if looks_like_7z buf then Some SevenZ
      else if looks_like_cab buf then Some Cab
      else None)"

fun extract_kind :: "archive_kind \<Rightarrow> archive_libs \<Rightarrow> bytes \<Rightarrow> guard_budget \<Rightarrow> extraction" where
  "extract_kind Zip lib buf b = extract_zip lib buf b"
| "extract_kind Gzip lib buf b =
     (case extract_gzip lib buf b of ((data, hit), b') \<Rightarrow> (Inr ([(''(gunzip)'', data)], hit), b'))"
| "extract_kind Tar lib buf b = extract_tar lib buf b"
| "extract_kind SevenZ lib buf b = extract_7z lib buf b"
| "extract_kind Cab lib buf b = extract_cab lib buf b"

lemma scan_extract_within: "extract_kind k lib buf b = (r, b') \<Longrightarrow> within_budget b (bytes_of (handed r)) b'"
proof (cases k)
  case Gzip
  assume "extract_kind k lib buf b = (r, b')"
  then show ?thesis using Gzip extract_gzip_within [of lib buf b] by (auto simp: handed_def split: prod.splits)
qed (simp_all add: extract_within)

lemma extract_depth: "extract_kind k lib buf b = (r, b') \<Longrightarrow> depth b' = depth b \<and> limits b' = limits b"
  using scan_extract_within by (fastforce simp: within_budget_def)

definition nested_name :: "string \<Rightarrow> string \<Rightarrow> string" where
  "nested_name lp name = lp @ '' -> '' @ name"

text \<open>\<^verbatim>\<open>scan_bytes\<close> and its loop over the members of an archive.\<close>

function (sequential) scan_bytes :: "scan_world \<Rightarrow> scanner \<Rightarrow> string \<Rightarrow> bytes \<Rightarrow> string \<Rightarrow> guard_budget \<Rightarrow> file_report list \<times> guard_budget"
  and scan_entries :: "scan_world \<Rightarrow> scanner \<Rightarrow> string \<Rightarrow> string \<Rightarrow> extracted list \<Rightarrow> guard_budget \<Rightarrow> file_report list \<times> guard_budget"
where
  "scan_bytes W sc path buf lp b =
     (case archive_kind_of buf of
        None \<Rightarrow> ([own_report W sc path buf lp], b)
      | Some k \<Rightarrow>
          (case enter_archive b of
             (Some e, b1) \<Rightarrow> ([own_report W sc path buf lp, limit_report path lp e], b1)
           | (None, b1) \<Rightarrow>
               (case extract_kind k (w_arch W) buf b1 of
                  (Inl e, b2) \<Rightarrow> ([own_report W sc path buf lp, limit_report path lp e], leave_archive b2)
                | (Inr (entries, hit), b2) \<Rightarrow>
                    (case scan_entries W sc path lp entries b2 of
                       (rs, b3) \<Rightarrow>
                         (own_report W sc path buf lp # rs @ (case hit of None \<Rightarrow> [] | Some e \<Rightarrow> [limit_report path lp e]),
                          leave_archive b3)))))"
| "scan_entries W sc path lp [] b = ([], b)"
| "scan_entries W sc path lp (e # es) b =
     (case scan_bytes W sc path (snd e) (nested_name lp (fst e)) b of
        (rs, b1) \<Rightarrow> (case scan_entries W sc path lp es b1 of (rs', b2) \<Rightarrow> (rs @ rs', b2)))"
  by pat_completeness auto

lemma enter_archive_None: "enter_archive b = (None, b1) \<Longrightarrow> depth b1 = Suc (depth b) \<and> limits b1 = limits b
  \<and> entries_seen b1 = entries_seen b \<and> total_uncompressed b1 = total_uncompressed b \<and> depth b < max_depth (limits b)"
  by (auto simp: enter_archive_def Let_def split: if_splits)

lemma enter_archive_Some: "enter_archive b = (Some e, b1) \<Longrightarrow> depth b1 = Suc (depth b) \<and> limits b1 = limits b
  \<and> entries_seen b1 = entries_seen b \<and> total_uncompressed b1 = total_uncompressed b \<and> max_depth (limits b) \<le> depth b"
  by (auto simp: enter_archive_def Let_def split: if_splits)

lemma scan_depth_dom:
  "scan_bytes_scan_entries_dom (Inl (W, sc, path, buf, lp, b)) \<Longrightarrow>
     depth b \<le> depth (snd (scan_bytes W sc path buf lp b)) \<and> limits (snd (scan_bytes W sc path buf lp b)) = limits b"
  "scan_bytes_scan_entries_dom (Inr (W, sc, path, lp, es, b)) \<Longrightarrow>
     depth b \<le> depth (snd (scan_entries W sc path lp es b)) \<and> limits (snd (scan_entries W sc path lp es b)) = limits b"
proof (induction W sc path buf lp b and W sc path lp es b rule: scan_bytes_scan_entries.pinduct)
  case (1 W sc path buf lp b)
  note psimps = scan_bytes.psimps [OF "1.hyps"]
  show ?case
  proof (cases "archive_kind_of buf")
    case None
    then show ?thesis by (simp add: psimps)
  next
    case k: (Some k)
    obtain err b1 where en: "enter_archive b = (err, b1)" by fastforce
    obtain r b2 where ex: "extract_kind k (w_arch W) buf b1 = (r, b2)" by fastforce
    show ?thesis
    proof (cases "err = None \<and> (\<exists>es hit. r = Inr (es, hit))")
      case True
      then obtain es hit where t: "err = None" "r = Inr (es, hit)" by blast
      note IH = "1.IH" [OF k en [unfolded t, symmetric] refl ex [unfolded t, symmetric] refl refl]
      show ?thesis using IH enter_archive_None [OF en [unfolded t]] extract_depth [OF ex]
        by (auto simp: psimps k en ex t leave_archive_def split: prod.split)
    next
      case False
      then show ?thesis using extract_depth [OF ex] enter_archive_None [of b b1] enter_archive_Some [of b _ b1] en
        by (cases err; cases r) (auto simp: psimps k ex leave_archive_def)
    qed
  qed
next
  case (2 W sc path lp b)
  then show ?case by (simp add: scan_entries.psimps)
next
  case (3 W sc path lp e es b)
  then show ?case by (fastforce simp: scan_entries.psimps split: prod.splits)
qed

text \<open>The rank of a call: the depth that is left, then for the loop the members that are left.\<close>

definition scan_rank where
  "scan_rank = (\<lambda>x. case x of
       Inl (W, sc, path, buf, lp, b) \<Rightarrow> (max_depth (limits b) - depth b, 0)
     | Inr (W, sc, path, lp, es, b) \<Rightarrow> (max_depth (limits b) - depth b, Suc (length es)))"

termination scan_bytes
proof (relation "inv_image (less_than <*lex*> less_than) scan_rank")
  show "wf (inv_image (less_than <*lex*> less_than) scan_rank)" by (intro wf_inv_image wf_lex_prod wf_less_than)
next
  fix W :: scan_world and sc path buf lp b k x b1 r b2 p es hit
  assume a: "archive_kind_of buf = Some k" "(x, b1) = enter_archive b" "x = None"
    "(r, b2) = extract_kind k (w_arch W) buf b1" "r = Inr p" "(es, hit) = p"
  have "depth b1 = Suc (depth b)" "limits b1 = limits b" "depth b < max_depth (limits b)"
    using enter_archive_None [of b b1] a(2,3) by auto
  moreover have "depth b2 = depth b1 \<and> limits b2 = limits b1" using extract_depth [OF a(4) [symmetric]] .
  ultimately show "(Inr (W, sc, path, lp, es, b2), Inl (W, sc, path, buf, lp, b)) \<in> inv_image (less_than <*lex*> less_than) scan_rank"
    by (simp add: scan_rank_def)
next
  fix W sc path lp e es b
  show "(Inl (W, sc, path, snd e, nested_name lp (fst e), b), Inr (W, sc, path, lp, e # es, b))
    \<in> inv_image (less_than <*lex*> less_than) scan_rank"
    by (simp add: scan_rank_def)
next
  fix W sc path lp e es b rs b1
  assume a: "(rs, b1) = scan_bytes W sc path (snd e) (nested_name lp (fst e)) b"
    "scan_bytes_scan_entries_dom (Inl (W, sc, path, snd e, nested_name lp (fst e), b))"
  have "depth b \<le> depth b1" "limits b1 = limits b" using scan_depth_dom(1) [OF a(2)] a(1) by (metis snd_conv)+
  then show "(Inr (W, sc, path, lp, es, b1), Inr (W, sc, path, lp, e # es, b)) \<in> inv_image (less_than <*lex*> less_than) scan_rank"
    by (auto simp: scan_rank_def)
qed

declare scan_bytes.simps [simp del]

definition scan_in_memory :: "scan_world \<Rightarrow> scanner \<Rightarrow> string \<Rightarrow> bytes \<Rightarrow> file_report list" where
  "scan_in_memory W sc real_path data = fst (scan_bytes W sc real_path data real_path (budget_new (sc_limits sc)))"

section \<open>Files\<close>

text \<open>The file system: type and length, whether it can be opened, and its contents when mapped.\<close>

record file_system =
  fs_metadata :: "string \<Rightarrow> string + bool \<times> nat"
  fs_open :: "string \<Rightarrow> string option"
  fs_map :: "string \<Rightarrow> string + bytes"
  fs_walk :: "string \<Rightarrow> (string + bool \<times> string) list"

definition skipped :: "string \<Rightarrow> scan_reason \<Rightarrow> file_report list" where
  "skipped path reason = [\<lparr>fr_path = path, fr_logical = path, fr_verdict = Skipped reason, fr_pe = None\<rparr>]"

definition scan_path :: "scan_world \<Rightarrow> file_system \<Rightarrow> scanner \<Rightarrow> string \<Rightarrow> string + file_report list" where
  "scan_path W fs sc path =
     (case fs_metadata fs path of
        Inl e \<Rightarrow> Inl e
      | Inr (is_file, len) \<Rightarrow>
          if \<not> is_file then Inr (skipped path NotRegular)
          else if len > max_file_size (sc_limits sc) then Inr (skipped path (TooLarge len (max_file_size (sc_limits sc))))
          else case fs_open fs path of
                 Some e \<Rightarrow> Inl e
               | None \<Rightarrow>
                   if len = 0 then Inr (fst (scan_bytes W sc path [] path (budget_new (sc_limits sc))))
                   else case fs_map fs path of
                          Inl e \<Rightarrow> Inl e
                        | Inr data \<Rightarrow> Inr (fst (scan_bytes W sc path data path (budget_new (sc_limits sc)))))"

definition scan_directory :: "scan_world \<Rightarrow> file_system \<Rightarrow> scanner \<Rightarrow> string \<Rightarrow> file_report list" where
  "scan_directory W fs sc dir =
     (let files = map snd (filter fst (List.map_filter (\<lambda>e. case e of Inl _ \<Rightarrow> None | Inr f \<Rightarrow> Some f) (fs_walk fs dir)))
      in concat (map (\<lambda>p. case scan_path W fs sc p of
             Inr reports \<Rightarrow> reports
           | Inl e \<Rightarrow> [\<lparr>fr_path = p, fr_logical = p, fr_verdict = LimitExceeded [] (ScanIo e), fr_pe = None\<rparr>]) files))"

section \<open>No blind spots\<close>

text \<open>What an archive holds according to its decoder, without any limit.\<close>

definition content :: "bytes list \<Rightarrow> bytes" where
  "content reads = concat (takeWhile (\<lambda>c. c \<noteq> []) reads)"

definition member_content :: "member \<Rightarrow> extracted" where
  "member_content m = (m_name m, content (m_reads m))"

fun members :: "archive_kind \<Rightarrow> archive_libs \<Rightarrow> nat \<Rightarrow> bytes \<Rightarrow> extracted list" where
  "members Zip lib n buf = (case zip_open lib n buf of Inl _ \<Rightarrow> [] | Inr ms \<Rightarrow> map (member_content \<circ> zm_member) (List.map_filter id ms))"
| "members Gzip lib n buf = [(''(gunzip)'', content (gz_reads lib n buf))]"
| "members Tar lib n buf = (case tar_open lib n buf of Inl _ \<Rightarrow> [] | Inr es \<Rightarrow> map member_content (map snd (filter fst (List.map_filter id es))))"
| "members SevenZ lib n buf = (case sevenz_open lib n buf of Inl _ \<Rightarrow> [] | Inr (es, _) \<Rightarrow> map member_content (map snd (filter fst es)))"
| "members Cab lib n buf = (case cab_open lib n buf of Inl _ \<Rightarrow> [] | Inr ms \<Rightarrow> map member_content (List.map_filter id ms))"

inductive holds :: "archive_libs \<Rightarrow> nat \<Rightarrow> bytes \<Rightarrow> string \<Rightarrow> bytes \<Rightarrow> string \<Rightarrow> bool" for lib n where
  Self: "holds lib n buf lp buf lp"
| Member: "archive_kind_of buf = Some k \<Longrightarrow> (name, data) \<in> set (members k lib n buf) \<Longrightarrow>
    holds lib n data (nested_name lp name) d lp' \<Longrightarrow> holds lib n buf lp d lp'"

inductive_cases holdsE: "holds lib n buf lp d lp'"

lemma read_loop_content: "read_loop b data reads = (out, None, b') \<Longrightarrow> out = data @ content reads"
  by (induction b data reads rule: read_loop.induct) (auto simp: content_def split: if_splits prod.splits option.splits)

lemma extract_members_content: "extract_members b ms = (out, None, b') \<Longrightarrow> out = map member_content ms"
  by (induction b ms arbitrary: out b' rule: extract_members.induct)
    (auto simp: member_content_def dest!: read_loop_content split: prod.splits option.splits)

lemma zip_members_content: "zip_members b ms = (out, None, b') \<Longrightarrow> out = map (member_content \<circ> zm_member) (List.map_filter id ms)"
  by (induction b ms arbitrary: out b' rule: zip_members.induct)
    (auto simp: member_content_def Let_def map_filter_simps dest!: read_loop_content split: prod.splits option.splits if_splits)

lemma extract_content:
  "extract_kind k lib buf b = (Inr (es, None), b') \<Longrightarrow> es = members k lib (read_chunk (limits b)) buf"
  by (cases k) (auto simp: extract_zip_def extract_gzip_def extract_tar_def extract_7z_def extract_cab_def
      split: sum.splits prod.splits option.splits
      dest!: zip_members_content extract_members_content read_loop_content)

lemma scan_limits: "limits (snd (scan_bytes W sc path buf lp b)) = limits b" "limits (snd (scan_entries W sc path lp es b)) = limits b"
proof (induction W sc path buf lp b and W sc path lp es b rule: scan_bytes_scan_entries.induct)
  case (1 W sc path buf lp b)
  show ?case
  proof (cases "archive_kind_of buf")
    case None
    then show ?thesis by (simp add: scan_bytes.simps)
  next
    case k: (Some k)
    obtain err b1 where en: "enter_archive b = (err, b1)" by fastforce
    obtain r b2 where ex: "extract_kind k (w_arch W) buf b1 = (r, b2)" by fastforce
    have lim: "limits b1 = limits b" "limits b2 = limits b1"
      using en extract_depth [OF ex] by (auto simp: enter_archive_def Let_def split: if_splits)
    have IH: "limits (snd (scan_entries W sc path lp es b2)) = limits b" if "err = None" "r = Inr (es, hit)" for es hit
      using "1.IH" [OF k en [symmetric] that(1) ex [symmetric] that(2) refl] lim by simp
    show ?thesis
      by (auto simp: scan_bytes.simps k en ex lim leave_archive_def split: prod.split option.split sum.split)
        (metis IH snd_conv)
  qed
qed (auto split: prod.splits)

text \<open>A verdict that says the scan was cut off.\<close>

definition cut_off :: "file_report \<Rightarrow> bool" where
  "cut_off r \<longleftrightarrow> (case fr_verdict r of LimitExceeded _ _ \<Rightarrow> True | _ \<Rightarrow> False)"

lemma cut_off_reports [simp]: "cut_off (limit_report path lp e)" "\<not> cut_off (own_report W sc path buf lp)"
  by (simp_all add: cut_off_def limit_report_def own_report_def Let_def)

lemma scan_reaches:
  "\<forall>r \<in> set (fst (scan_bytes W sc path buf lp b)). \<not> cut_off r \<Longrightarrow>
     holds (w_arch W) (read_chunk (limits b)) buf lp d lp' \<Longrightarrow>
     own_report W sc path d lp' \<in> set (fst (scan_bytes W sc path buf lp b))"
  "\<forall>r \<in> set (fst (scan_entries W sc path lp es b)). \<not> cut_off r \<Longrightarrow> (name, data) \<in> set es \<Longrightarrow>
     holds (w_arch W) (read_chunk (limits b)) data (nested_name lp name) d lp' \<Longrightarrow>
     own_report W sc path d lp' \<in> set (fst (scan_entries W sc path lp es b))"
proof (induction W sc path buf lp b and W sc path lp es b arbitrary: d lp' and name data d lp' rule: scan_bytes_scan_entries.induct)
  case (1 W sc path buf lp b)
  show ?case
  proof (cases "archive_kind_of buf")
    case None
    then show ?thesis using "1.prems"(2) by (auto simp: scan_bytes.simps elim: holdsE)
  next
    case k: (Some k)
    obtain err b1 where en: "enter_archive b = (err, b1)" by fastforce
    obtain r b2 where ex: "extract_kind k (w_arch W) buf b1 = (r, b2)" by fastforce
    have "err = None" using "1.prems"(1) by (cases err) (auto simp: scan_bytes.simps k en)
    moreover obtain es hit where "r = Inr (es, hit)"
      using "1.prems"(1) calculation by (cases r) (auto simp: scan_bytes.simps k en ex)
    moreover have "hit = None" using "1.prems"(1) calculation
      by (cases hit) (auto simp: scan_bytes.simps k en ex split: prod.splits)
    ultimately have t: "err = None" "r = Inr (es, None)" by auto
    note IH = "1.IH" [OF k en [unfolded t, symmetric] refl ex [unfolded t, symmetric] refl refl]
    have lim: "limits b2 = limits b" using extract_depth [OF ex] enter_archive_None [of b b1] en t by simp
    have eq: "fst (scan_bytes W sc path buf lp b) = own_report W sc path buf lp # fst (scan_entries W sc path lp es b2)"
      by (simp add: scan_bytes.simps k en ex t split: prod.split)
    show ?thesis using "1.prems"(2)
    proof (cases rule: holds.cases)
      case Self
      then show ?thesis by (simp add: eq)
    next
      case (Member k' name data)
      moreover have "es = members k (w_arch W) (read_chunk (limits b)) buf"
        using extract_content [OF ex [unfolded t]] enter_archive_None [of b b1] en t by simp
      ultimately show ?thesis using IH [of name data d lp'] "1.prems"(1) by (simp add: eq lim k)
    qed
  qed
next
  case (3 W sc path lp e es b)
  obtain rs b1 where s: "scan_bytes W sc path (snd e) (nested_name lp (fst e)) b = (rs, b1)" by fastforce
  have "limits b1 = limits b" using scan_limits(1) [of W sc path "snd e" "nested_name lp (fst e)" b] s by simp
  then show ?case using "3.prems" "3.IH"(1) [of d lp'] "3.IH"(2) [OF s [symmetric], of name data d lp']
    by (auto simp: s split: prod.splits)
qed simp

text \<open> No blind spots: whatever the decoders, if no report of a scan says that it was cut off, then
  every buffer that is nested anywhere in the scanned one, at any depth and in any mix of formats,
  was itself scanned in full and has its own report under its nested name.\<close>

theorem scan_no_blind_spots:
  assumes "\<forall>r \<in> set (scan_in_memory W sc path data). \<not> cut_off r"
    and "holds (w_arch W) (read_chunk (sc_limits sc)) data path d lp"
  shows "own_report W sc path d lp \<in> set (scan_in_memory W sc path data)"
  using scan_reaches(1) [of W sc path data path "budget_new (sc_limits sc)" d lp] assms
  by (simp add: scan_in_memory_def budget_new_def)


text \<open>A store-only zip decoder: one member without declared sizes, the bytes after the magic.\<close>

definition stored_zip :: archive_libs where
  "stored_zip = \<lparr>zip_open = (\<lambda>n buf. Inr [Some \<lparr>zm_member = \<lparr>m_name = ''x'', m_reads = [drop 4 buf]\<rparr>, zm_compressed = 0, zm_size = 0\<rparr>]),
     gz_reads = (\<lambda>n buf. []), tar_open = (\<lambda>n buf. Inr []), sevenz_open = (\<lambda>n buf. Inr ([], None)), cab_open = (\<lambda>n buf. Inr [])\<rparr>"

definition sample_world :: scan_world where
  "sample_world = \<lparr>w_sig = sample_libs, w_arch = stored_zip, w_log2 = (\<lambda>x. x)\<rparr>"

definition sample_scanner :: scanner where
  "sample_scanner = scanner_new \<lparr>hex_sigs = [sample_sig], se_hash_db = hash_db_new\<rparr>"

definition zipped :: "bytes \<Rightarrow> bytes" where
  "zipped buf = [0x50, 0x4B, 3, 4] @ buf"

lemma zipped_kind [simp]: "archive_kind_of (zipped buf) = Some Zip"
  by (simp add: archive_kind_of_def zipped_def)

lemma zipped_members: "buf \<noteq> [] \<Longrightarrow> members Zip stored_zip n (zipped buf) = [(''x'', buf)]"
  by (simp add: stored_zip_def zipped_def member_content_def content_def map_filter_simps)

lemma sample_kind [simp]: "archive_kind_of sample_buf = None"
  by (simp add: archive_kind_of_def sample_buf_def looks_like_tar_def looks_like_7z_def looks_like_cab_def)

lemma sample_holds: "holds stored_zip n (zipped (zipped sample_buf)) ''f'' sample_buf ''f -> x -> x''"
proof -
  have "zipped sample_buf \<noteq> []" "sample_buf \<noteq> []" by (simp_all add: zipped_def sample_buf_def)
  note m = this [THEN zipped_members, of n]
  have "holds stored_zip n sample_buf ''f -> x -> x'' sample_buf ''f -> x -> x''" by (rule holds.Self)
  then have "holds stored_zip n (zipped sample_buf) ''f -> x'' sample_buf ''f -> x -> x''"
    by (intro holds.Member [of "zipped sample_buf" Zip "''x''" sample_buf]) (simp_all add: m nested_name_def del: members.simps)
  then show ?thesis
    by (intro holds.Member [of "zipped (zipped sample_buf)" Zip "''x''" "zipped sample_buf"]) (simp_all add: m nested_name_def del: members.simps)
qed

lemma stored_zip_extract: "buf \<noteq> [] \<Longrightarrow> entries_seen b < max_entries (limits b) \<Longrightarrow>
  total_uncompressed b + length buf \<le> max_total_uncompressed (limits b)  \<Longrightarrow>
  extract_zip stored_zip (zipped buf) b =
    (Inr ([(''x'', buf)], None), b\<lparr>entries_seen := entries_seen b + 1, total_uncompressed := total_uncompressed b + length buf\<rparr>)"
  by (simp add: extract_zip_def stored_zip_def zipped_def charge_entry_def Let_def)

lemma sample_scan: "\<forall>r \<in> set (scan_in_memory sample_world sample_scanner ''f'' (zipped (zipped sample_buf))). \<not> cut_off r"
proof -
  have ne: "sample_buf \<noteq> []" "zipped sample_buf \<noteq> []" "length sample_buf = 6" "length (zipped sample_buf) = 10"
    by (simp_all add: zipped_def sample_buf_def)
  note ex = stored_zip_extract [OF ne(1)] stored_zip_extract [OF ne(2)]
  show ?thesis
    by (simp add: scan_in_memory_def scan_bytes.simps sample_world_def sample_scanner_def scanner_new_def
        budget_new_def guard_limits_default_def enter_archive_def leave_archive_def ex ne Let_def)
qed

theorem scan_no_blind_spots_witness:
  "own_report sample_world sample_scanner ''f'' sample_buf ''f -> x -> x''
    \<in> set (scan_in_memory sample_world sample_scanner ''f'' (zipped (zipped sample_buf)))"
  using scan_no_blind_spots [OF sample_scan, of sample_buf "''f -> x -> x''"] sample_holds by (simp add: sample_world_def)


section \<open>The budget over a whole scan\<close>

text \<open>What a scan does with its budget: it enters and leaves archives and extracts.\<close>

datatype guard_op = Enter | Leave | Extract archive_kind bytes

fun guard_step :: "archive_libs \<Rightarrow> guard_budget \<Rightarrow> guard_op \<Rightarrow> extracted list \<times> guard_budget" where
  "guard_step lib b Enter = ([], snd (enter_archive b))"
| "guard_step lib b Leave = ([], leave_archive b)"
| "guard_step lib b (Extract k buf) = apfst handed (extract_kind k lib buf b)"

fun guard_run :: "archive_libs \<Rightarrow> guard_budget \<Rightarrow> guard_op list \<Rightarrow> extracted list" where
  "guard_run lib b [] = []"
| "guard_run lib b (op1 # ops) = (case guard_step lib b op1 of (out, b') \<Rightarrow> out @ guard_run lib b' ops)"

definition paid :: "guard_budget \<Rightarrow> nat \<Rightarrow> guard_budget \<Rightarrow> bool" where
  "paid b n b' \<longleftrightarrow> limits b' = limits b \<and> total_uncompressed b + n \<le> total_uncompressed b'
     \<and> (n = 0 \<or> total_uncompressed b + n \<le> max_total_uncompressed (limits b))"

lemma bytes_of_append [simp]: "bytes_of (xs @ ys) = bytes_of xs + bytes_of ys"
  by (simp add: bytes_of_def)

lemma guard_step_paid: "guard_step lib b op1 = (out, b') \<Longrightarrow> paid b (bytes_of out) b'"
proof (cases op1)
  case (Extract k buf)
  assume "guard_step lib b op1 = (out, b')"
  then obtain r where "extract_kind k lib buf b = (r, b')" "out = handed r"
    using Extract by (cases "extract_kind k lib buf b") auto
  then show ?thesis using scan_extract_within [of k lib buf b r b'] by (simp add: within_budget_def paid_def)
qed (auto simp: paid_def enter_archive_def leave_archive_def Let_def)

lemma guard_run_paid:
  "bytes_of (guard_run lib b ops) = 0 \<or> total_uncompressed b + bytes_of (guard_run lib b ops) \<le> max_total_uncompressed (limits b)"
proof (induction ops arbitrary: b)
  case (Cons op1 ops)
  obtain out b' where s: "guard_step lib b op1 = (out, b')" by fastforce
  show ?case using guard_step_paid [OF s] Cons.IH [of b'] by (auto simp: s paid_def)
qed simp

text \<open>C25: Archive bombs are bounded: however the archives nest, in whatever order they are entered, left and
  extracted, and whatever the decoders deliver, all the bytes handed to the scanner on one budget
  together stay within the limit on uncompressed bytes.\<close>

theorem extraction_bounded:
  "sum_list (map (\<lambda>e. length (snd e)) (guard_run lib (budget_new l) ops)) \<le> max_total_uncompressed l"
  using guard_run_paid [of lib "budget_new l" ops] unfolding bytes_of_def [symmetric]
  by (elim disjE) (simp_all add: budget_new_def)

text \<open>The limit on entries counts reads: members without content are never charged, however many there are.\<close>

lemma empty_members_uncharged:
  "\<forall>m \<in> set ms. m_reads m = [] \<Longrightarrow> extract_members b ms = (map (\<lambda>m. (m_name m, [])) ms, None, b)"
  by (induction ms) auto

text \<open>A refused archive is not left again: after it the whole rest of the scan is one level deeper.\<close>

lemma refused_archive_leaks_depth:
  "archive_kind_of buf = Some k \<Longrightarrow> max_depth (limits b) \<le> depth b \<Longrightarrow>
     depth (snd (scan_bytes W sc path buf lp b)) = Suc (depth b)"
  by (simp add: scan_bytes.simps enter_archive_def Let_def)

end
