(* ===== verification/File_Vault.thy ===== *)
theory File_Vault
  imports Text
begin

text \<open>
  The quarantine store of the malware scanner (\<^verbatim>\<open>rust-clam/crates/rclam-quarantine\<close>): a detected file
  is encrypted under a fresh key, stored with a record that holds the key, and only then removed; it can be
  listed, verified, restored and deleted.  The store is a table from file names to contents.  The
  crates \<^verbatim>\<open>chacha20poly1305\<close>, \<^verbatim>\<open>sha2\<close>, \<^verbatim>\<open>hex\<close> and \<^verbatim>\<open>serde_json\<close> are the fields of \<open>crypto\<close>; the laws the
  properties rely on are \<open>crypto_ok\<close>.  Fresh random values and the outcome of every write are arguments.
\<close>

section \<open>Data\<close>

record vault_record =
  vr_id :: string
  original_path :: string
  signature_name :: string
  quarantined_at :: int
  vr_sha256 :: string
  vr_file_size :: u64
  key_hex :: string
  nonce_hex :: string
  stored_filename :: string

datatype vault_error = VaultIo string | Store | NotFound string | IntegrityCheckFailed string

text \<open>A panic is an outcome of its own.\<close>

datatype 'a vault_result = VOk 'a | VErr vault_error | VPanic

record crypto =
  aead_encrypt :: "bytes \<Rightarrow> bytes \<Rightarrow> bytes \<Rightarrow> bytes option"
  aead_decrypt :: "bytes \<Rightarrow> bytes \<Rightarrow> bytes \<Rightarrow> bytes option"
  sha256_hex :: "bytes \<Rightarrow> string"
  hex_encode :: "bytes \<Rightarrow> string"
  hex_decode :: "string \<Rightarrow> bytes option"
  json_encode :: "vault_record \<Rightarrow> bytes option"
  json_decode :: "bytes \<Rightarrow> vault_record option"

record vault =
  vault_dir :: "(string, bytes) tbl"
  outside :: "string \<Rightarrow> bytes option"

text \<open>The random values of one quarantine, the clock, and the outcome of each write: \<open>None\<close> when it succeeds,
  else what is left in the file.\<close>

record quarantine_env =
  rand_key :: bytes
  rand_nonce :: bytes
  rand_id :: string
  utc_now :: int
  quar_write :: "bytes option"
  meta_write :: "bytes option"

section \<open>Text files\<close>

text \<open>\<^verbatim>\<open>fs::read_to_string\<close> refuses a file that is not UTF-8.\<close>

definition cont :: "u8 \<Rightarrow> bool" where
  "cont b \<longleftrightarrow> 0x80 \<le> b \<and> b \<le> 0xBF"

fun utf8_ok :: "bytes \<Rightarrow> bool" where
  "utf8_ok [] = True"
| "utf8_ok (a # bs) =
     (if a < 0x80 then utf8_ok bs
      else case bs of
        [] \<Rightarrow> False
      | b # cs \<Rightarrow>
          if 0xC2 \<le> a \<and> a \<le> 0xDF then cont b \<and> utf8_ok cs
          else case cs of
            [] \<Rightarrow> False
          | c # ds \<Rightarrow>
              if 0xE0 \<le> a \<and> a \<le> 0xEF
              then cont b \<and> (a = 0xE0 \<longrightarrow> 0xA0 \<le> b) \<and> (a = 0xED \<longrightarrow> b \<le> 0x9F) \<and> cont c \<and> utf8_ok ds
              else case ds of
                [] \<Rightarrow> False
              | d # es \<Rightarrow>
                  0xF0 \<le> a \<and> a \<le> 0xF4 \<and> cont b \<and> (a = 0xF0 \<longrightarrow> 0x90 \<le> b) \<and> (a = 0xF4 \<longrightarrow> b \<le> 0x8F)
                  \<and> cont c \<and> cont d \<and> utf8_ok es)"

definition is_json_name :: "string \<Rightarrow> bool" where
  "is_json_name n \<longleftrightarrow> 5 < length n \<and> drop (length n - 5) n = ''.json''"

section \<open>Operations\<close>

definition quarantine_bytes :: "crypto \<Rightarrow> quarantine_env \<Rightarrow> vault \<Rightarrow> string \<Rightarrow> bytes \<Rightarrow> string \<Rightarrow> vault_record vault_result \<times> vault" where
  "quarantine_bytes cr env v path data sig =
     (case aead_encrypt cr (rand_key env) (rand_nonce env) data of
        None \<Rightarrow> (VErr Store, v)
      | Some ct \<Rightarrow>
          (let stored = rand_id env @ ''.quar''
           in case quar_write env of
                Some left \<Rightarrow> (VErr (VaultIo stored), v\<lparr>vault_dir := tbl_insert (vault_dir v) stored left\<rparr>)
              | None \<Rightarrow>
                  (let v = v\<lparr>vault_dir := tbl_insert (vault_dir v) stored ct\<rparr>;
                       r = \<lparr>vr_id = rand_id env, original_path = path, signature_name = sig, quarantined_at = utc_now env,
                            vr_sha256 = sha256_hex cr data, vr_file_size = of_nat (length data),
                            key_hex = hex_encode cr (rand_key env), nonce_hex = hex_encode cr (rand_nonce env),
                            stored_filename = stored\<rparr>;
                       meta = rand_id env @ ''.json''
                   in case json_encode cr r of
                        None \<Rightarrow> (VErr Store, v)
                      | Some js \<Rightarrow>
                          (case meta_write env of
                             Some left \<Rightarrow> (VErr (VaultIo meta), v\<lparr>vault_dir := tbl_insert (vault_dir v) meta left\<rparr>)
                           | None \<Rightarrow> (VOk r, v\<lparr>vault_dir := tbl_insert (vault_dir v) meta js\<rparr>)))))"

definition quarantine_file :: "crypto \<Rightarrow> quarantine_env \<Rightarrow> bool \<Rightarrow> vault \<Rightarrow> string \<Rightarrow> string \<Rightarrow> vault_record vault_result \<times> vault" where
  "quarantine_file cr env remove_ok v path sig =
     (case outside v path of
        None \<Rightarrow> (VErr (VaultIo path), v)
      | Some data \<Rightarrow>
          (case quarantine_bytes cr env v path data sig of
             (VOk r, v') \<Rightarrow>
               if remove_ok then (VOk r, v'\<lparr>outside := (outside v')(path := None)\<rparr>) else (VErr (VaultIo path), v')
           | (e, v') \<Rightarrow> (e, v')))"

text \<open>The loop over the directory: the first record that cannot be read ends it, one that cannot be decoded is
  skipped.\<close>

fun list_entries :: "crypto \<Rightarrow> (string \<times> bytes) list \<Rightarrow> vault_error + vault_record list" where
  "list_entries cr [] = Inr []"
| "list_entries cr ((n, b) # es) =
     (if \<not> is_json_name n then list_entries cr es
      else if \<not> utf8_ok b then Inl (VaultIo n)
      else case list_entries cr es of
             Inl e \<Rightarrow> Inl e
           | Inr rs \<Rightarrow> Inr (case json_decode cr b of Some r \<Rightarrow> r # rs | None \<Rightarrow> rs))"

definition list_records :: "crypto \<Rightarrow> vault \<Rightarrow> vault_error + vault_record list" where
  "list_records cr v = map_sum id (sort_key (\<lambda>r. - quarantined_at r)) (list_entries cr (vault_dir v))"

definition find_record :: "crypto \<Rightarrow> vault \<Rightarrow> string \<Rightarrow> vault_error + vault_record" where
  "find_record cr v i =
     (case list_records cr v of
        Inl e \<Rightarrow> Inl e
      | Inr rs \<Rightarrow> (case find (\<lambda>r. vr_id r = i) rs of Some r \<Rightarrow> Inr r | None \<Rightarrow> Inl (NotFound i)))"

text \<open>\<^verbatim>\<open>Key::from_slice\<close> and \<^verbatim>\<open>Nonce::from_slice\<close> panic on a slice of another length.\<close>

definition decrypt_record :: "crypto \<Rightarrow> vault \<Rightarrow> vault_record \<Rightarrow> bytes vault_result" where
  "decrypt_record cr v r =
     (case tbl_get (vault_dir v) (stored_filename r) of
        None \<Rightarrow> VErr (VaultIo (stored_filename r))
      | Some ct \<Rightarrow>
          (case hex_decode cr (key_hex r) of
             None \<Rightarrow> VErr Store
           | Some k \<Rightarrow>
               (case hex_decode cr (nonce_hex r) of
                  None \<Rightarrow> VErr Store
                | Some n \<Rightarrow>
                    if length k \<noteq> 32 \<or> length n \<noteq> 12 then VPanic
                    else case aead_decrypt cr k n ct of
                           None \<Rightarrow> VErr (IntegrityCheckFailed (vr_id r))
                         | Some d \<Rightarrow> VOk d)))"

text \<open>\<open>write_left\<close> is the outcome of writing the restored file, as for the other writes.\<close>

definition restore :: "crypto \<Rightarrow> bytes option \<Rightarrow> vault \<Rightarrow> string \<Rightarrow> string option \<Rightarrow> string vault_result \<times> vault" where
  "restore cr write_left v i restore_to =
     (case find_record cr v i of
        Inl e \<Rightarrow> (VErr e, v)
      | Inr r \<Rightarrow>
          (case decrypt_record cr v r of
             VErr e \<Rightarrow> (VErr e, v)
           | VPanic \<Rightarrow> (VPanic, v)
           | VOk data \<Rightarrow>
               (let dest = (case restore_to of Some p \<Rightarrow> p | None \<Rightarrow> original_path r)
                in case write_left of
                     Some left \<Rightarrow> (VErr (VaultIo dest), v\<lparr>outside := (outside v)(dest := Some left)\<rparr>)
                   | None \<Rightarrow> (VOk dest, v\<lparr>outside := (outside v)(dest := Some data)\<rparr>))))"

definition verify_item :: "crypto \<Rightarrow> vault \<Rightarrow> string \<Rightarrow> unit vault_result" where
  "verify_item cr v i =
     (case find_record cr v i of
        Inl e \<Rightarrow> VErr e
      | Inr r \<Rightarrow>
          (case decrypt_record cr v r of
             VErr e \<Rightarrow> VErr e
           | VPanic \<Rightarrow> VPanic
           | VOk data \<Rightarrow> if sha256_hex cr data \<noteq> vr_sha256 r then VErr (IntegrityCheckFailed i) else VOk ()))"

definition delete_item :: "crypto \<Rightarrow> bool \<Rightarrow> bool \<Rightarrow> vault \<Rightarrow> string \<Rightarrow> unit vault_result \<times> vault" where
  "delete_item cr stored_removed meta_removed v i =
     (case find_record cr v i of
        Inl e \<Rightarrow> (VErr e, v)
      | Inr r \<Rightarrow>
          (let v = (if stored_removed then v\<lparr>vault_dir := tbl_remove (vault_dir v) (stored_filename r)\<rparr> else v);
               meta = i @ ''.json''
           in if meta_removed \<and> tbl_get (vault_dir v) meta \<noteq> None
              then (VOk (), v\<lparr>vault_dir := tbl_remove (vault_dir v) meta\<rparr>)
              else (VErr (VaultIo meta), v)))"

section \<open>Laws and invariant\<close>

text \<open>Decryption undoes encryption and accepts nothing else, the hexadecimal and JSON encodings can be read back,
  and JSON is UTF-8.\<close>

definition crypto_ok :: "crypto \<Rightarrow> bool" where
  "crypto_ok cr \<longleftrightarrow> (\<forall>k n d c. aead_encrypt cr k n d = Some c \<longleftrightarrow> aead_decrypt cr k n c = Some d)
     \<and> (\<forall>b. hex_decode cr (hex_encode cr b) = Some b)
     \<and> (\<forall>r js. json_encode cr r = Some js \<longrightarrow> json_decode cr js = Some r \<and> utf8_ok js)"

text \<open>Every record is text and lies under its own id, next to its payload.\<close>

definition dir_ok :: "crypto \<Rightarrow> (string, bytes) tbl \<Rightarrow> bool" where
  "dir_ok cr t \<longleftrightarrow> tbl_ok t
     \<and> (\<forall>n b. tbl_get t n = Some b \<and> is_json_name n \<longrightarrow>
          utf8_ok b \<and> (\<forall>r. json_decode cr b = Some r \<longrightarrow> n = vr_id r @ ''.json'' \<and> stored_filename r = vr_id r @ ''.quar''))"

abbreviation vault_ok :: "crypto \<Rightarrow> vault \<Rightarrow> bool" where
  "vault_ok cr v \<equiv> dir_ok cr (vault_dir v)"

lemma dir_ok_entry: "dir_ok cr t \<Longrightarrow> tbl_get t n = Some b \<Longrightarrow> is_json_name n \<Longrightarrow> utf8_ok b"
  "dir_ok cr t \<Longrightarrow> tbl_get t n = Some b \<Longrightarrow> is_json_name n \<Longrightarrow> json_decode cr b = Some r \<Longrightarrow>
     n = vr_id r @ ''.json'' \<and> stored_filename r = vr_id r @ ''.quar''"
  unfolding dir_ok_def by blast+

lemma json_name: "is_json_name (i @ ''.json'') \<longleftrightarrow> i \<noteq> []"
  by (cases i) (simp_all add: is_json_name_def)

lemma quar_name: "\<not> is_json_name (i @ ''.quar'')"
  by (auto simp: is_json_name_def)

lemma names_differ: "i @ ''.quar'' \<noteq> j @ ''.json''" "j @ ''.json'' \<noteq> i @ ''.quar''"
  by (auto dest: arg_cong [of _ _ last])

lemma list_entries_eq:
  assumes "\<forall>(n, b) \<in> set es. is_json_name n \<longrightarrow> utf8_ok b"
  shows "list_entries cr es = Inr (List.map_filter (\<lambda>(n, b). if is_json_name n then json_decode cr b else None) es)"
  using assms by (induction es) (auto simp: map_filter_simps split: option.splits if_splits)

lemma vault_listed:
  assumes "vault_ok cr v"
  shows "\<exists>rs. list_records cr v = Inr rs \<and> (\<forall>r. r \<in> set rs \<longleftrightarrow>
    (\<exists>n b. tbl_get (vault_dir v) n = Some b \<and> is_json_name n \<and> json_decode cr b = Some r))"
proof -
  have ok: "tbl_ok (vault_dir v)" using assms by (simp add: dir_ok_def)
  have "\<forall>(n, b) \<in> set (vault_dir v). is_json_name n \<longrightarrow> utf8_ok b"
    using dir_ok_entry(1) [OF assms] tbl_mem_get [OF ok] by blast
  note entries = list_entries_eq [OF this, of cr]
  have "r \<in> set (List.map_filter (\<lambda>(n, b). if is_json_name n then json_decode cr b else None) (vault_dir v)) \<longleftrightarrow>
      (\<exists>n b. tbl_get (vault_dir v) n = Some b \<and> is_json_name n \<and> json_decode cr b = Some r)" for r
    unfolding set_map_filter tbl_mem_iff [OF ok, symmetric] mem_Collect_eq split_def Bex_def split_paired_Ex fst_conv snd_conv
    by (metis option.distinct(1))
  then show ?thesis by (simp add: list_records_def entries)
qed

lemma find_record_iff:
  assumes ok: "vault_ok cr v" and i: "i \<noteq> []"
  shows "find_record cr v i = Inr r \<longleftrightarrow>
    (\<exists>b. tbl_get (vault_dir v) (i @ ''.json'') = Some b \<and> json_decode cr b = Some r \<and> vr_id r = i)"
proof -
  obtain rs where rs: "list_records cr v = Inr rs"
      "\<And>r. r \<in> set rs \<longleftrightarrow> (\<exists>n b. tbl_get (vault_dir v) n = Some b \<and> is_json_name n \<and> json_decode cr b = Some r)"
    using vault_listed [OF ok] by blast
  have named: "n = vr_id r @ ''.json''" if "tbl_get (vault_dir v) n = Some b" "is_json_name n" "json_decode cr b = Some r" for n b r
    using dir_ok_entry(2) [OF ok that] by blast
  have mem: "r \<in> set rs \<and> vr_id r = i \<longleftrightarrow>
      (\<exists>b. tbl_get (vault_dir v) (i @ ''.json'') = Some b \<and> json_decode cr b = Some r \<and> vr_id r = i)" for r
    unfolding rs(2) using named i json_name by metis
  have unique: "r = r'" if "r \<in> set rs \<and> vr_id r = i" "r' \<in> set rs \<and> vr_id r' = i" for r r'
    using that unfolding mem by auto
  show ?thesis
    using unique unfolding mem [symmetric] find_record_def rs(1)
    by (auto split: option.splits simp: find_None_iff dest!: find_SomeD)
qed

text \<open>The store holds a file: under this id, with this path, and decrypting to these bytes.\<close>

definition held :: "crypto \<Rightarrow> vault \<Rightarrow> string \<Rightarrow> string \<Rightarrow> bytes \<Rightarrow> bool" where
  "held cr v i path data \<longleftrightarrow> (\<exists>r. find_record cr v i = Inr r \<and> original_path r = path
     \<and> decrypt_record cr v r = VOk data \<and> vr_sha256 r = sha256_hex cr data)"

lemma found_stored:
  assumes ok: "vault_ok cr v" and i: "i \<noteq> []" and "find_record cr v i = Inr r"
  shows "stored_filename r = i @ ''.quar''"
proof -
  obtain b where b: "tbl_get (vault_dir v) (i @ ''.json'') = Some b" "json_decode cr b = Some r" "vr_id r = i"
    using assms(3) unfolding find_record_iff [OF ok i] by blast
  show ?thesis using conjunct2 [OF dir_ok_entry(2) [OF ok b(1) _ b(2)]] i by (simp add: json_name b(3))
qed

lemma held_cong:
  assumes "vault_ok cr v" "vault_ok cr v'" "i \<noteq> []"
    and "tbl_get (vault_dir v') (i @ ''.json'') = tbl_get (vault_dir v) (i @ ''.json'')"
    and "tbl_get (vault_dir v') (i @ ''.quar'') = tbl_get (vault_dir v) (i @ ''.quar'')"
  shows "held cr v i path data \<Longrightarrow> held cr v' i path data"
proof -
  have find: "find_record cr v' i = Inr r \<longleftrightarrow> find_record cr v i = Inr r" for r
    by (simp add: find_record_iff assms(1-4))
  show "held cr v i path data \<Longrightarrow> held cr v' i path data"
    unfolding held_def find using found_stored [OF assms(1,3)] assms(5) by (auto simp: decrypt_record_def)
qed

section \<open>Quarantining\<close>

text \<open>A fresh id, keys of the right size, and a torn record that does not pass for one.\<close>

definition env_ok :: "crypto \<Rightarrow> vault \<Rightarrow> quarantine_env \<Rightarrow> bool" where
  "env_ok cr v env \<longleftrightarrow> rand_id env \<noteq> [] \<and> length (rand_key env) = 32 \<and> length (rand_nonce env) = 12
     \<and> tbl_get (vault_dir v) (rand_id env @ ''.json'') = None \<and> tbl_get (vault_dir v) (rand_id env @ ''.quar'') = None
     \<and> (\<forall>left. meta_write env = Some left \<longrightarrow> utf8_ok left \<and> json_decode cr left = None)"

lemma dir_ok_quar: "dir_ok cr t \<Longrightarrow> dir_ok cr (tbl_insert t (i @ ''.quar'') b)"
  by (auto simp: dir_ok_def quar_name)

lemma dir_ok_json:
  assumes "dir_ok cr t" and "utf8_ok b" and "\<And>r. json_decode cr b = Some r \<Longrightarrow> vr_id r = i \<and> stored_filename r = i @ ''.quar''"
  shows "dir_ok cr (tbl_insert t (i @ ''.json'') b)"
  using assms by (auto simp: dir_ok_def)

definition new_record :: "crypto \<Rightarrow> quarantine_env \<Rightarrow> string \<Rightarrow> bytes \<Rightarrow> string \<Rightarrow> vault_record" where
  "new_record cr env path data sig = \<lparr>vr_id = rand_id env, original_path = path, signature_name = sig, quarantined_at = utc_now env,
     vr_sha256 = sha256_hex cr data, vr_file_size = of_nat (length data), key_hex = hex_encode cr (rand_key env),
     nonce_hex = hex_encode cr (rand_nonce env), stored_filename = rand_id env @ ''.quar''\<rparr>"

lemma quarantine_bytes_cases:
  assumes "quarantine_bytes cr env v path data sig = (res, v')"
  obtains (nothing) "v' = v" "res = VErr Store"
  | (payload) b e where "v' = v\<lparr>vault_dir := tbl_insert (vault_dir v) (rand_id env @ ''.quar'') b\<rparr>" "res = VErr e"
  | (torn) b left e where "v' = v\<lparr>vault_dir := tbl_insert (tbl_insert (vault_dir v) (rand_id env @ ''.quar'') b) (rand_id env @ ''.json'') left\<rparr>"
      "meta_write env = Some left" "res = VErr e"
  | (stored) ct js where "v' = v\<lparr>vault_dir := tbl_insert (tbl_insert (vault_dir v) (rand_id env @ ''.quar'') ct) (rand_id env @ ''.json'') js\<rparr>"
      "aead_encrypt cr (rand_key env) (rand_nonce env) data = Some ct" "json_encode cr (new_record cr env path data sig) = Some js"
      "res = VOk (new_record cr env path data sig)"
  using assms by (auto simp: quarantine_bytes_def new_record_def Let_def split: option.splits)

lemma quarantine_bytes_ok:
  assumes cr: "crypto_ok cr" and ok: "vault_ok cr v" and env: "env_ok cr v env"
    and q: "quarantine_bytes cr env v path data sig = (res, v')"
  shows "vault_ok cr v' \<and> outside v' = outside v
    \<and> (\<forall>n. n \<noteq> rand_id env @ ''.json'' \<and> n \<noteq> rand_id env @ ''.quar'' \<longrightarrow> tbl_get (vault_dir v') n = tbl_get (vault_dir v) n)"
  using q
proof (cases rule: quarantine_bytes_cases)
  case (torn b left e)
  then show ?thesis using dir_ok_json [OF dir_ok_quar [OF ok], of left "rand_id env"] env by (simp add: env_ok_def)
next
  case (stored ct js)
  have "json_decode cr js = Some (new_record cr env path data sig) \<and> utf8_ok js" using cr stored(3) by (simp add: crypto_ok_def)
  then show ?thesis using dir_ok_json [OF dir_ok_quar [OF ok], of js "rand_id env"] stored(1) by (simp add: new_record_def)
qed (use ok dir_ok_quar [OF ok] in simp_all)

lemma quarantine_bytes_held:
  assumes cr: "crypto_ok cr" and ok: "vault_ok cr v" and env: "env_ok cr v env"
    and q: "quarantine_bytes cr env v path data sig = (VOk r, v')"
  shows "vr_id r = rand_id env \<and> held cr v' (rand_id env) path data"
  using q
proof (cases rule: quarantine_bytes_cases)
  case (stored ct js)
  have js: "json_decode cr js = Some (new_record cr env path data sig)" using cr stored(3) by (simp add: crypto_ok_def)
  have "find_record cr v' (rand_id env) = Inr (new_record cr env path data sig)"
    using quarantine_bytes_ok [OF cr ok env q] env js
    by (subst find_record_iff) (simp_all add: env_ok_def stored(1) new_record_def)
  moreover have "decrypt_record cr v' (new_record cr env path data sig) = VOk data"
    using cr env stored(2) by (simp add: decrypt_record_def stored(1) new_record_def names_differ crypto_ok_def env_ok_def)
  ultimately show ?thesis using stored(4) by (simp add: held_def new_record_def)
qed simp_all

section \<open>Runs\<close>

datatype vault_op =
    VQuarantine quarantine_env bool string string
  | VRestore "bytes option" string "string option"
  | VDelete bool bool string
  | VOutside string "bytes option"

text \<open>The last operation is whatever else happens to files outside the store.\<close>

fun vault_step :: "crypto \<Rightarrow> vault \<Rightarrow> vault_op \<Rightarrow> vault" where
  "vault_step cr v (VQuarantine env ok path sig) = snd (quarantine_file cr env ok v path sig)"
| "vault_step cr v (VRestore left i dest) = snd (restore cr left v i dest)"
| "vault_step cr v (VDelete a b i) = snd (delete_item cr a b v i)"
| "vault_step cr v (VOutside p b) = v\<lparr>outside := (outside v)(p := b)\<rparr>"

text \<open>A run in which every quarantine draws a fresh id and nobody deletes \<open>i\<close>.\<close>

fun spares :: "crypto \<Rightarrow> string \<Rightarrow> vault \<Rightarrow> vault_op list \<Rightarrow> bool" where
  "spares cr i v [] = True"
| "spares cr i v (op # ops) =
     ((case op of VQuarantine env _ _ _ \<Rightarrow> env_ok cr v env | VDelete _ _ j \<Rightarrow> j \<noteq> i \<and> j \<noteq> [] | _ \<Rightarrow> True)
      \<and> spares cr i (vault_step cr v op) ops)"

lemma held_entry: "vault_ok cr v \<Longrightarrow> i \<noteq> [] \<Longrightarrow> held cr v i path data \<Longrightarrow> tbl_get (vault_dir v) (i @ ''.json'') \<noteq> None"
  by (auto simp: held_def find_record_iff)

lemma dir_ok_remove: "dir_ok cr t \<Longrightarrow> dir_ok cr (tbl_remove t n)"
  by (auto simp: dir_ok_def)

lemma quarantine_file_dir:
  "vault_dir (snd (quarantine_file cr env rm v path sig)) =
     (case outside v path of None \<Rightarrow> vault_dir v | Some d \<Rightarrow> vault_dir (snd (quarantine_bytes cr env v path d sig)))"
  by (auto simp: quarantine_file_def split: option.splits prod.splits vault_result.splits)

lemma vault_step_held:
  assumes cr: "crypto_ok cr" and ok: "vault_ok cr v" and i: "i \<noteq> []" and held: "held cr v i path data" and sp: "spares cr i v [op]"
  shows "vault_ok cr (vault_step cr v op) \<and> held cr (vault_step cr v op) i path data"
proof (cases op)
  case (VQuarantine env rm p sig)
  show ?thesis
  proof (cases "outside v p")
    case None
    then show ?thesis using ok held held_cong [OF ok, of "vault_step cr v op" i] i by (simp add: VQuarantine quarantine_file_dir)
  next
    case (Some d)
    have env: "env_ok cr v env" using sp by (simp add: VQuarantine)
    obtain res v' where q: "quarantine_bytes cr env v p d sig = (res, v')" by fastforce
    have ne: "rand_id env \<noteq> i" using held_entry [OF ok i held] env by (auto simp: env_ok_def)
    have dir: "vault_dir (vault_step cr v op) = vault_dir v'" by (simp add: VQuarantine quarantine_file_dir Some q)
    show ?thesis
      using quarantine_bytes_ok [OF cr ok env q] held ne i
      by (auto simp: dir names_differ intro!: held_cong [OF ok, of "vault_step cr v op"])
  qed
next
  case (VRestore left j dest)
  have "vault_dir (vault_step cr v op) = vault_dir v"
    by (auto simp: VRestore restore_def Let_def split: sum.splits vault_result.splits option.splits)
  then show ?thesis using ok held i held_cong [OF ok, of "vault_step cr v op" i] by simp
next
  case (VDelete a b j)
  have j: "j \<noteq> i" "j \<noteq> []" using sp by (simp_all add: VDelete)
  show ?thesis
  proof (cases "find_record cr v j")
    case (Inl e)
    then show ?thesis using ok held by (simp add: VDelete delete_item_def)
  next
    case (Inr r)
    have st: "stored_filename r = j @ ''.quar''" by (rule found_stored [OF ok j(2) Inr])
    show ?thesis
      using ok held i j
      by (auto simp: st VDelete delete_item_def Inr Let_def dir_ok_remove names_differ intro!: held_cong [OF ok])
  qed
next
  case (VOutside p b)
  then show ?thesis using ok held i held_cong [OF ok, of "vault_step cr v op" i] by simp
qed

lemma vault_run_held:
  assumes "crypto_ok cr" "vault_ok cr v" "i \<noteq> []" "held cr v i path data" "spares cr i v ops"
  shows "vault_ok cr (foldl (vault_step cr) v ops) \<and> held cr (foldl (vault_step cr) v ops) i path data"
  using assms
proof (induction ops arbitrary: v)
  case (Cons op ops)
  then show ?case using vault_step_held [OF Cons.prems(1-4), of op] by simp
qed simp


text \<open>An instance that meets the laws: a cipher that prefixes key and nonce, and a JSON encoding of one record.\<close>

definition sample_quarantine :: quarantine_env where
  "sample_quarantine = \<lparr>rand_key = replicate 32 7, rand_nonce = replicate 12 9, rand_id = ''a1'', utc_now = 0,
     quar_write = None, meta_write = None\<rparr>"

definition sample_crypto0 :: crypto where
  "sample_crypto0 = \<lparr>aead_encrypt = (\<lambda>k n d. Some ((k @ n) @ d)),
     aead_decrypt = (\<lambda>k n c. if take (length (k @ n)) c = k @ n then Some (drop (length (k @ n)) c) else None),
     sha256_hex = (\<lambda>d. ''sum''), hex_encode = map (\<lambda>b. char_of (unat b)),
     hex_decode = (\<lambda>s. Some (map (\<lambda>c. of_nat (of_char c)) s)), json_encode = (\<lambda>_. None), json_decode = (\<lambda>_. None)\<rparr>"

definition sample_item :: vault_record where
  "sample_item = new_record sample_crypto0 sample_quarantine ''/tmp/x'' [1, 2, 3] ''Eicar''"

definition sample_crypto :: crypto where
  "sample_crypto = sample_crypto0\<lparr>json_encode := (\<lambda>r. if r = sample_item then Some [0x7B] else None),
     json_decode := (\<lambda>b. if b = [0x7B] then Some sample_item else None)\<rparr>"

definition sample_vault :: vault where
  "sample_vault = \<lparr>vault_dir = [], outside = (\<lambda>_. None)(''/tmp/x'' := Some [1, 2, 3])\<rparr>"

lemma sample_crypto_ok: "crypto_ok sample_crypto"
proof -
  have aead: "(k @ n) @ d = c \<longleftrightarrow> take (length (k @ n)) c = k @ n \<and> drop (length (k @ n)) c = d" for k n d c :: bytes
    by (metis append_eq_conv_conj append_take_drop_id)
  have hex: "of_nat (unat b mod 256) = b" for b :: u8
    using unsigned_less [of b, where ?'a = nat] by simp
  show ?thesis
    using aead by (auto simp: crypto_ok_def sample_crypto_def sample_crypto0_def hex comp_def map_idI split: if_splits)
qed


section \<open>Failures\<close>

text \<open>A quarantine that does not succeed leaves the original where it was.\<close>

lemma failed_quarantine_keeps_file:
  assumes "crypto_ok cr" and "vault_ok cr v" and "env_ok cr v env"
    and "quarantine_file cr env rm v path sig = (VErr e, v')"
  shows "outside v' = outside v"
  using assms quarantine_bytes_ok [OF assms(1-3)]
  by (fastforce simp: quarantine_file_def split: option.splits prod.splits vault_result.splits if_splits)

text \<open>What decrypts is exactly what was encrypted: a payload that was tampered with is refused.\<close>

lemma tampering_detected:
  assumes "crypto_ok cr" and "decrypt_record cr v r = VOk data"
  shows "\<exists>k n. hex_decode cr (key_hex r) = Some k \<and> hex_decode cr (nonce_hex r) = Some n
    \<and> tbl_get (vault_dir v) (stored_filename r) = aead_encrypt cr k n data"
proof -
  have "aead_encrypt cr k n d = Some c" if "aead_decrypt cr k n c = Some d" for k n d c
    using assms(1) that by (simp add: crypto_ok_def)
  then show ?thesis using assms(2) by (auto simp: decrypt_record_def split: option.splits if_splits)
qed

text \<open>One record that is not UTF-8, such as one torn inside a character, makes every item unreachable, although
  records that cannot be decoded are meant to be skipped.\<close>

lemma torn_record_blocks_store:
  assumes "(n, b) \<in> set (vault_dir v)" "is_json_name n" "\<not> utf8_ok b"
  shows "\<exists>e. find_record cr v i = Inl e"
proof -
  have "\<exists>e. list_entries cr es = Inl e" if "(n, b) \<in> set es" for es
    using that assms(2,3) by (induction es) (auto split: sum.splits)
  then show ?thesis using assms(1) by (fastforce simp: find_record_def list_records_def)
qed

end
