(* ===== verification/Scan_Daemon.thy ===== *)
theory Scan_Daemon
  imports Scanner File_Vault
begin

text \<open>
  The scan daemon (\<^verbatim>\<open>rust-clam/crates/rclam-daemon\<close>): which paths a client may ask about
  (\<^verbatim>\<open>allowlist.rs\<close>), how many connections a peer may have (\<^verbatim>\<open>limits.rs\<close>) and what a command line is
  answered (\<^verbatim>\<open>main.rs\<close>).  A path is the list of its components, and \<^verbatim>\<open>canonicalize\<close> is a parameter.
  Admission is a sequence of separate critical sections, so it is a transition system over
  connections whose steps interleave.
\<close>

section \<open>The path allowlist\<close>

type_synonym components = "string list"

datatype denial = NoRootsConfigured | NotPermitted

record path_world =
  canonicalize :: "string \<Rightarrow> components option"
  is_dir :: "components \<Rightarrow> bool"
  show_path :: "components \<Rightarrow> string"

fun allowlist_new :: "path_world \<Rightarrow> string list \<Rightarrow> (string \<times> bool) + components list" where
  "allowlist_new pw [] = Inr []"
| "allowlist_new pw (r # rs) =
     (case canonicalize pw r of
        None \<Rightarrow> Inl (r, False)
      | Some c \<Rightarrow>
          if \<not> is_dir pw c then Inl (r, True)
          else (case allowlist_new pw rs of Inl e \<Rightarrow> Inl e | Inr cs \<Rightarrow> Inr (c # cs)))"

definition starts_with :: "components \<Rightarrow> components \<Rightarrow> bool" where
  "starts_with p pre \<longleftrightarrow> take (length pre) p = pre"

definition check_path :: "path_world \<Rightarrow> components list \<Rightarrow> string \<Rightarrow> denial + components" where
  "check_path pw roots requested =
     (if roots = [] then Inl NoRootsConfigured
      else case canonicalize pw requested of
             None \<Rightarrow> Inl NotPermitted
           | Some c \<Rightarrow> if \<exists>r \<in> set roots. starts_with c r then Inr c else Inl NotPermitted)"

section \<open>Commands\<close>

record daemon_metrics =
  connections_total :: u64
  connections_rejected_busy :: u64
  connections_rejected_rate_limited :: u64
  connections_rejected_concurrency :: u64
  connections_rejected_path :: u64
  scans_total :: u64
  files_scanned_total :: u64
  files_infected_total :: u64
  scan_errors_total :: u64

definition daemon_metrics_zero :: daemon_metrics where
  "daemon_metrics_zero = \<lparr>connections_total = 0, connections_rejected_busy = 0, connections_rejected_rate_limited = 0,
     connections_rejected_concurrency = 0, connections_rejected_path = 0, scans_total = 0, files_scanned_total = 0,
     files_infected_total = 0, scan_errors_total = 0\<rparr>"

record daemon =
  dm_world :: scan_world
  dm_files :: file_system
  dm_paths :: path_world
  dm_scanner :: scanner
  dm_roots :: "components list"
  dm_show_reason :: "scan_reason \<Rightarrow> string"
  dm_version :: string

fun report_lines :: "(scan_reason \<Rightarrow> string) \<Rightarrow> file_report \<Rightarrow> string" where
  "report_lines show r =
     (case fr_verdict r of
        Clean \<Rightarrow> fr_logical r @ '': OK'' @ [CHR 0x0A]
      | Infected ds \<Rightarrow> concat (map (\<lambda>d. fr_logical r @ '': '' @ d_name d @ '' FOUND'' @ [CHR 0x0A]) ds)
      | Skipped reason \<Rightarrow> fr_logical r @ '': SKIPPED('' @ show reason @ '')'' @ [CHR 0x0A]
      | LimitExceeded _ reason \<Rightarrow> fr_logical r @ '': LIMIT EXCEEDED('' @ show reason @ '')'' @ [CHR 0x0A])"

definition is_infected :: "file_report \<Rightarrow> bool" where
  "is_infected r \<longleftrightarrow> (case fr_verdict r of Infected _ \<Rightarrow> True | _ \<Rightarrow> False)"

definition summary_line :: "file_report list \<Rightarrow> string" where
  "summary_line rs = (if \<exists>r \<in> set rs. is_infected r then ''SCAN SUMMARY: INFECTED'' else ''SCAN SUMMARY: OK'') @ [CHR 0x0A]"

definition run_scan :: "daemon \<Rightarrow> daemon_metrics \<Rightarrow> string \<Rightarrow> string \<times> daemon_metrics" where
  "run_scan d m path =
     (let m = m\<lparr>scans_total := scans_total m + 1\<rparr>
      in case check_path (dm_paths d) (dm_roots d) path of
           Inl _ \<Rightarrow> (path @ '': ERROR access denied'' @ [CHR 0x0A], m\<lparr>connections_rejected_path := connections_rejected_path m + 1\<rparr>)
         | Inr p \<Rightarrow>
             (case (if is_dir (dm_paths d) p then Inr (scan_directory (dm_world d) (dm_files d) (dm_scanner d) (show_path (dm_paths d) p))
                    else scan_path (dm_world d) (dm_files d) (dm_scanner d) (show_path (dm_paths d) p)) of
                Inl e \<Rightarrow> (path @ '': ERROR '' @ e @ [CHR 0x0A], m\<lparr>scan_errors_total := scan_errors_total m + 1\<rparr>)
              | Inr rs \<Rightarrow>
                  (concat (map (report_lines (dm_show_reason d)) rs) @ summary_line rs,
                   m\<lparr>files_scanned_total := files_scanned_total m + of_nat (length rs),
                     files_infected_total := files_infected_total m + of_nat (length (filter is_infected rs))\<rparr>)))"

definition render_stats :: "daemon_metrics \<Rightarrow> string" where
  "render_stats m = ''SCANS '' @ show_nat (unat (scans_total m)) @ [CHR 0x0A] @ ''FILES '' @ show_nat (unat (files_scanned_total m)) @ [CHR 0x0A]
     @ ''INFECTED '' @ show_nat (unat (files_infected_total m)) @ [CHR 0x0A] @ ''ERRORS '' @ show_nat (unat (scan_errors_total m)) @ [CHR 0x0A]
     @ ''END'' @ [CHR 0x0A]"

definition MAX_COMMAND_LINE_BYTES :: nat where
  "MAX_COMMAND_LINE_BYTES = 8192"

text \<open>What one connection is answered; \<open>Exit\<close> ends the process after its answer.  \<^verbatim>\<open>read_line\<close> takes what
  arrives up to a line feed, the cap or the end of the stream, and fails on a line that is not UTF-8.\<close>

datatype reply = NoReply | Reply string | Exit string

definition read_line :: "string \<Rightarrow> string" where
  "read_line input =
     (let s = take (MAX_COMMAND_LINE_BYTES + 1) input
      in takeWhile (\<lambda>c. c \<noteq> CHR 0x0A) s @ take 1 (dropWhile (\<lambda>c. c \<noteq> CHR 0x0A) s))"

definition handle_conn :: "daemon \<Rightarrow> daemon_metrics \<Rightarrow> string \<Rightarrow> reply \<times> daemon_metrics" where
  "handle_conn d m input =
     (let line = read_line input; cmd = trim line
      in if line = [] then (NoReply, m)
         else if \<not> utf8_ok (map (\<lambda>c. of_nat (of_char c)) line) then (NoReply, m)
         else if last line \<noteq> CHR 0x0A \<and> length line > MAX_COMMAND_LINE_BYTES then (Reply (''ERROR command line too long'' @ [CHR 0x0A]), m)
         else if eq_ignore_ascii_case cmd ''PING'' then (Reply (''PONG'' @ [CHR 0x0A]), m)
         else if eq_ignore_ascii_case cmd ''VERSION'' then (Reply (''rclamd '' @ dm_version d @ '' / unified-hex-hash-engine'' @ [CHR 0x0A]), m)
         else if eq_ignore_ascii_case cmd ''STATS'' then (Reply (render_stats m), m)
         else if eq_ignore_ascii_case cmd ''SHUTDOWN'' then (Exit (''OK'' @ [CHR 0x0A]), m)
         else case (case strip_prefix ''SCAN '' cmd of Some p \<Rightarrow> Some p | None \<Rightarrow> strip_prefix ''CONTSCAN '' cmd) of
                Some p \<Rightarrow> (case run_scan d m p of (out, m') \<Rightarrow> (Reply out, m'))
              | None \<Rightarrow> (Reply (''ERROR unknown command: '' @ cmd @ [CHR 0x0A]), m))"

section \<open>Admission\<close>

datatype peer_key = Uid u32 | PeerIp ipaddr | UnknownPeer

record peer_state =
  pe_tokens :: f64
  last_refill :: instant
  pe_sem :: nat
  pe_last_seen :: instant

text \<open>Where the task of a connection stands.  A number names the semaphore of its peer entry.\<close>

datatype stage =
    Waiting
  | Checked nat
  | Holding nat
  | Admitted nat
  | Serving nat
  | Done reply

text \<open>Semaphores outlive the entries that refer to them, as their \<^verbatim>\<open>Arc\<close>s do: a table of free permits.\<close>

record peer_limits =
  rate_per_sec :: f64
  pl_burst :: f64
  max_concurrent :: nat
  pl_peers :: "(peer_key, peer_state) tbl"
  pl_sems :: "(nat, nat) tbl"
  pl_next :: nat

record server =
  sv_daemon :: daemon
  sv_limits :: peer_limits
  sv_metrics :: daemon_metrics
  max_connections :: nat
  sv_free :: nat
  sv_conns :: "(nat, peer_key \<times> stage) tbl"
  sv_exited :: bool

definition limits_new :: "f64 \<Rightarrow> f64 \<Rightarrow> nat \<Rightarrow> peer_limits" where
  "limits_new rate burst n = \<lparr>rate_per_sec = rate, pl_burst = burst, max_concurrent = n, pl_peers = [], pl_sems = [], pl_next = 0\<rparr>"

definition server_new :: "daemon \<Rightarrow> peer_limits \<Rightarrow> nat \<Rightarrow> server" where
  "server_new d l n = \<lparr>sv_daemon = d, sv_limits = l, sv_metrics = daemon_metrics_zero, max_connections = n, sv_free = n,
     sv_conns = [], sv_exited = False\<rparr>"

definition set_stage :: "server \<Rightarrow> nat \<Rightarrow> peer_key \<Rightarrow> stage \<Rightarrow> server" where
  "set_stage sv c p st = sv\<lparr>sv_conns := tbl_insert (sv_conns sv) c (p, st)\<rparr>"

text \<open>The first critical section of \<^verbatim>\<open>admit\<close>: evict, look up or create, refill, test.\<close>

definition idle_evict_after :: duration where
  "idle_evict_after = from_secs 600"

definition evict :: "(peer_key, peer_state) tbl \<Rightarrow> instant \<Rightarrow> (peer_key, peer_state) tbl" where
  "evict t now = tbl_retain (\<lambda>_ s. duration_since now (pe_last_seen s) < idle_evict_after) t"

definition lookup_peer :: "peer_limits \<Rightarrow> instant \<Rightarrow> peer_key \<Rightarrow> peer_state \<times> peer_limits" where
  "lookup_peer l now p =
     (case tbl_get (pl_peers l) p of
        Some s \<Rightarrow> (s, l)
      | None \<Rightarrow> (\<lparr>pe_tokens = pl_burst l, last_refill = now, pe_sem = pl_next l, pe_last_seen = now\<rparr>,
                 l\<lparr>pl_sems := tbl_insert (pl_sems l) (pl_next l) (max_concurrent l), pl_next := pl_next l + 1\<rparr>))"

definition refill :: "peer_limits \<Rightarrow> instant \<Rightarrow> peer_state \<Rightarrow> peer_state" where
  "refill l now s = s\<lparr>pe_last_seen := now,
     pe_tokens := flt_min (f64_add (pe_tokens s) (f64_mul (as_secs_f64 (duration_since now (last_refill s))) (rate_per_sec l))) (pl_burst l),
     last_refill := now\<rparr>"

definition admit_check :: "peer_limits \<Rightarrow> peer_key \<Rightarrow> instant \<Rightarrow> nat option \<times> peer_limits" where
  "admit_check l p now =
     (let l = l\<lparr>pl_peers := evict (pl_peers l) now\<rparr>;
          (s, l) = lookup_peer l now p;
          s = refill l now s;
          l = l\<lparr>pl_peers := tbl_insert (pl_peers l) p s\<rparr>
      in (if flt_lt (pe_tokens s) (Fin 1) then None else Some (pe_sem s), l))"

text \<open>Between the two sections: \<^verbatim>\<open>try_acquire_owned\<close> on the entry's semaphore.\<close>

definition try_acquire :: "peer_limits \<Rightarrow> nat \<Rightarrow> peer_limits option" where
  "try_acquire l s =
     (case tbl_get (pl_sems l) s of
        Some (Suc a) \<Rightarrow> Some (l\<lparr>pl_sems := tbl_insert (pl_sems l) s a\<rparr>)
      | _ \<Rightarrow> None)"

text \<open>The second critical section: the token is taken only now.\<close>

definition admit_charge :: "peer_limits \<Rightarrow> peer_key \<Rightarrow> peer_limits" where
  "admit_charge l p =
     (case tbl_get (pl_peers l) p of
        None \<Rightarrow> l
      | Some e \<Rightarrow> l\<lparr>pl_peers := tbl_insert (pl_peers l) p (e\<lparr>pe_tokens := f64_sub (pe_tokens e) (Fin 1)\<rparr>)\<rparr>)"

text \<open>Dropping the permit.\<close>

definition release :: "peer_limits \<Rightarrow> nat \<Rightarrow> peer_limits" where
  "release l s = (case tbl_get (pl_sems l) s of None \<Rightarrow> l | Some a \<Rightarrow> l\<lparr>pl_sems := tbl_insert (pl_sems l) s (a + 1)\<rparr>)"

section \<open>Connections\<close>

text \<open>An accepted connection, or one step of the task that serves a connection, at a time and with the input
  that its client sent; the steps of the tasks interleave in any order.\<close>

datatype conn_op = Accept nat peer_key | Advance nat instant string

definition refuse :: "server \<Rightarrow> nat \<Rightarrow> peer_key \<Rightarrow> string \<Rightarrow> server" where
  "refuse sv c p msg = set_stage sv c p (Done (Reply (msg @ [CHR 0x0A])))"

definition spawn_conn :: "server \<Rightarrow> nat \<Rightarrow> peer_key \<Rightarrow> server" where
  "spawn_conn sv c p =
     set_stage (sv\<lparr>sv_metrics := (sv_metrics sv)\<lparr>connections_total := connections_total (sv_metrics sv) + 1\<rparr>\<rparr>) c p Waiting"

fun advance :: "server \<Rightarrow> nat \<Rightarrow> peer_key \<Rightarrow> instant \<Rightarrow> string \<Rightarrow> stage \<Rightarrow> server" where
  "advance sv c p now input Waiting =
     (case admit_check (sv_limits sv) p now of
        (None, l) \<Rightarrow>
          refuse (sv\<lparr>sv_limits := l, sv_metrics := (sv_metrics sv)
            \<lparr>connections_rejected_rate_limited := connections_rejected_rate_limited (sv_metrics sv) + 1\<rparr>\<rparr>)
            c p ''ERROR rate limit exceeded, slow down''
      | (Some s, l) \<Rightarrow> set_stage (sv\<lparr>sv_limits := l\<rparr>) c p (Checked s))"
| "advance sv c p now input (Checked s) =
     (case try_acquire (sv_limits sv) s of
        None \<Rightarrow>
          refuse (sv\<lparr>sv_metrics := (sv_metrics sv)
            \<lparr>connections_rejected_concurrency := connections_rejected_concurrency (sv_metrics sv) + 1\<rparr>\<rparr>)
            c p ''ERROR too many concurrent connections from this peer''
      | Some l \<Rightarrow> set_stage (sv\<lparr>sv_limits := l\<rparr>) c p (Holding s))"
| "advance sv c p now input (Holding s) = set_stage (sv\<lparr>sv_limits := admit_charge (sv_limits sv) p\<rparr>) c p (Admitted s)"
| "advance sv c p now input (Admitted s) =
     (case sv_free sv of
        0 \<Rightarrow>
          refuse (sv\<lparr>sv_limits := release (sv_limits sv) s, sv_metrics := (sv_metrics sv)
            \<lparr>connections_rejected_busy := connections_rejected_busy (sv_metrics sv) + 1\<rparr>\<rparr>)
            c p ''ERROR server busy, try again later''
      | Suc n \<Rightarrow> set_stage (sv\<lparr>sv_free := n\<rparr>) c p (Serving s))"
| "advance sv c p now input (Serving s) =
     (case handle_conn (sv_daemon sv) (sv_metrics sv) input of
        (r, m) \<Rightarrow>
          set_stage (sv\<lparr>sv_limits := release (sv_limits sv) s, sv_metrics := m, sv_free := sv_free sv + 1,
            sv_exited := (case r of Exit _ \<Rightarrow> True | _ \<Rightarrow> False)\<rparr>) c p (Done r))"
| "advance sv c p now input (Done r) = sv"

fun server_step :: "server \<Rightarrow> conn_op \<Rightarrow> server" where
  "server_step sv (Accept c p) =
     (if sv_exited sv \<or> tbl_get (sv_conns sv) c \<noteq> None then sv else spawn_conn sv c p)"
| "server_step sv (Advance c now input) =
     (if sv_exited sv then sv
      else case tbl_get (sv_conns sv) c of None \<Rightarrow> sv | Some (p, st) \<Rightarrow> advance sv c p now input st)"

definition server_run :: "server \<Rightarrow> conn_op list \<Rightarrow> server" where
  "server_run sv ops = foldl server_step sv ops"

section \<open>Prometheus text\<close>

definition prom_metric :: "string \<Rightarrow> string \<Rightarrow> string \<Rightarrow> string \<Rightarrow> string" where
  "prom_metric kind name help val = ''# HELP '' @ name @ '' '' @ help @ [CHR 0x0A] @ ''# TYPE '' @ name @ '' '' @ kind @ [CHR 0x0A]
     @ name @ '' '' @ val @ [CHR 0x0A]"

definition prom_counter :: "string \<Rightarrow> string \<Rightarrow> u64 \<Rightarrow> string" where
  "prom_counter name help v = prom_metric ''counter'' name help (show_nat (unat v))"

definition render_prometheus :: "daemon_metrics \<Rightarrow> u64 \<Rightarrow> nat \<Rightarrow> nat \<Rightarrow> string" where
  "render_prometheus m uptime_secs queue_capacity queue_available =
     prom_counter ''rclamd_connections_total'' ''Total connections accepted'' (connections_total m)
     @ prom_counter ''rclamd_connections_rejected_busy_total''
         ''Connections rejected because the global connection cap was reached'' (connections_rejected_busy m)
     @ prom_counter ''rclamd_connections_rejected_rate_limited_total''
         ''Connections rejected by per-peer rate limiting'' (connections_rejected_rate_limited m)
     @ prom_counter ''rclamd_connections_rejected_concurrency_total''
         ''Connections rejected by the per-peer concurrency cap'' (connections_rejected_concurrency m)
     @ prom_counter ''rclamd_connections_rejected_path_total''
         ''SCAN requests rejected because the path was not in an allowed root'' (connections_rejected_path m)
     @ prom_counter ''rclamd_scans_total'' ''Total SCAN/CONTSCAN requests handled'' (scans_total m)
     @ prom_counter ''rclamd_files_scanned_total''
         ''Total individual files scanned (including archive members)'' (files_scanned_total m)
     @ prom_counter ''rclamd_files_infected_total''
         ''Total individual files that produced a signature match'' (files_infected_total m)
     @ prom_counter ''rclamd_scan_errors_total'' ''Total scan requests that errored'' (scan_errors_total m)
     @ prom_metric ''gauge'' ''rclamd_uptime_seconds'' ''Seconds since daemon start'' (show_nat (unat uptime_secs))
     @ prom_metric ''gauge'' ''rclamd_connection_queue_capacity'' ''Configured max_connections'' (show_nat queue_capacity)
     @ prom_metric ''gauge'' ''rclamd_connection_queue_available'' ''Free connection slots right now'' (show_nat queue_available)"

text \<open>One request of the metrics endpoint; \<open>buf\<close> is what a single read of at most 2048 bytes gave, decoded, and
  \<open>None\<close> stands for a read that failed or timed out.\<close>

definition metrics_path :: "string \<Rightarrow> string" where
  "metrics_path req =
     (case split_lf req of
        [] \<Rightarrow> ''/''
      | line # _ \<Rightarrow> (case split_whitespace line of _ # w # _ \<Rightarrow> w | _ \<Rightarrow> ''/''))"

definition crlf :: string where
  "crlf = [CHR 0x0D, CHR 0x0A]"

definition metrics_response :: "server \<Rightarrow> u64 \<Rightarrow> string option \<Rightarrow> string option" where
  "metrics_response sv uptime read = map_option (\<lambda>req.
     let (status, body) =
           (if metrics_path req = ''/healthz'' then (''200 OK'', ''ok'' @ [CHR 0x0A])
            else if metrics_path req = ''/metrics'' then
              (''200 OK'', render_prometheus (sv_metrics sv) uptime (max_connections sv) (sv_free sv))
            else (''404 Not Found'', ''not found'' @ [CHR 0x0A]))
     in ''HTTP/1.1 '' @ status @ crlf @ ''Content-Type: text/plain; version=0.0.4'' @ crlf @ ''Content-Length: ''
        @ show_nat (length body) @ crlf @ ''Connection: close'' @ crlf @ crlf @ body) read"

section \<open>Permits are conserved\<close>

definition conns_at :: "(nat, peer_key \<times> stage) tbl \<Rightarrow> (peer_key \<Rightarrow> stage \<Rightarrow> bool) \<Rightarrow> nat set" where
  "conns_at t Q = {c. \<exists>p st. tbl_get t c = Some (p, st) \<and> Q p st}"

lemma finite_conns_at [simp, intro]: "finite (conns_at t Q)"
proof (rule finite_subset)
  show "conns_at t Q \<subseteq> fst ` set t" by (force simp: conns_at_def dest: tbl_get_mem)
qed simp

lemma conns_at_insert: "conns_at (tbl_insert t c (p, st)) Q = (if Q p st then insert c (conns_at t Q) else conns_at t Q - {c})"
  by (auto simp: conns_at_def split: if_splits)

text \<open>One connection changes its stage: the count moves by at most one, and is written without subtraction.\<close>

lemma card_conns_at_insert:
  assumes "tbl_get t c = Some (p, old)"
  shows "card (conns_at (tbl_insert t c (p, new)) Q) + (if Q p old then 1 else 0) = card (conns_at t Q) + (if Q p new then 1 else 0)"
proof -
  have "c \<in> conns_at t Q \<longleftrightarrow> Q p old" using assms by (auto simp: conns_at_def)
  moreover from this have "Q p old \<Longrightarrow> card (conns_at t Q) > 0" by (auto simp: card_gt_0_iff)
  ultimately show ?thesis by (auto simp: conns_at_insert card_insert_if card_Diff_singleton_if)
qed

lemma card_conns_at_fresh:
  assumes "tbl_get t c = None" "\<not> Q p st"
  shows "card (conns_at (tbl_insert t c (p, st)) Q) = card (conns_at t Q)"
proof -
  have "c \<notin> conns_at t Q" using assms(1) by (auto simp: conns_at_def)
  with assms(2) show ?thesis by (simp add: conns_at_insert)
qed

fun permit :: "stage \<Rightarrow> nat option" where
  "permit (Holding s) = Some s"
| "permit (Admitted s) = Some s"
| "permit (Serving s) = Some s"
| "permit _ = None"

fun serving :: "stage \<Rightarrow> bool" where
  "serving (Serving _) = True"
| "serving _ = False"

text \<open>The semaphore a stage refers to, permit or not.\<close>

fun sem_ref :: "stage \<Rightarrow> nat option" where
  "sem_ref (Checked s) = Some s"
| "sem_ref st = permit st"

definition holders :: "server \<Rightarrow> nat \<Rightarrow> nat set" where
  "holders sv s = conns_at (sv_conns sv) (\<lambda>_ st. permit st = Some s)"

definition being_served :: "server \<Rightarrow> nat set" where
  "being_served sv = conns_at (sv_conns sv) (\<lambda>_ st. serving st)"

definition sems_ok :: "peer_limits \<Rightarrow> bool" where
  "sems_ok l \<longleftrightarrow> tbl_ok (pl_peers l) \<and> (\<forall>s. tbl_get (pl_sems l) s = None \<longleftrightarrow> pl_next l \<le> s)
     \<and> (\<forall>k e. tbl_get (pl_peers l) k = Some e \<longrightarrow> pe_sem e < pl_next l)"

text \<open>A semaphore that does not exist yet counts as full.\<close>

definition free_permits :: "peer_limits \<Rightarrow> nat \<Rightarrow> nat" where
  "free_permits l s = tbl_get_or (pl_sems l) s (max_concurrent l)"

definition permits_ok :: "server \<Rightarrow> bool" where
  "permits_ok sv \<longleftrightarrow> sems_ok (sv_limits sv)
     \<and> (\<forall>c p st s. tbl_get (sv_conns sv) c = Some (p, st) \<longrightarrow> sem_ref st = Some s \<longrightarrow> s < pl_next (sv_limits sv))
     \<and> (\<forall>s. free_permits (sv_limits sv) s + card (holders sv s) = max_concurrent (sv_limits sv))
     \<and> sv_free sv + card (being_served sv) = max_connections sv"

lemma permit_ref: "permit st = Some s \<Longrightarrow> sem_ref st = Some s"
  by (cases st) auto

lemma permits_ok_new: "permits_ok (server_new d (limits_new r b n) k)"
  by (simp add: permits_ok_def sems_ok_def server_new_def limits_new_def holders_def being_served_def conns_at_def free_permits_def tbl_get_or_def)

text \<open>What the first critical section keeps: it may add an entry with a new, full semaphore, and never touches another.\<close>

lemma admit_check_limits:
  assumes "sems_ok l" and "admit_check l p now = (r, l')"
  shows "sems_ok l'" and "max_concurrent l' = max_concurrent l" and "pl_next l \<le> pl_next l'" and "r = Some s \<Longrightarrow> s < pl_next l'"
    and "free_permits l' i = free_permits l i"
proof -
  have peers: "tbl_ok (evict (pl_peers l) now)" "tbl_get (evict (pl_peers l) now) k = Some e \<Longrightarrow> pe_sem e < pl_next l" for k e
    using assms(1) by (auto simp: sems_ok_def evict_def tbl_get_retain split: option.splits if_splits)
  have fresh: "tbl_get (pl_sems l) (pl_next l) = None" using assms(1) by (simp add: sems_ok_def)
  note defs = sems_ok_def admit_check_def lookup_peer_def refill_def Let_def
  show "sems_ok l'" using assms peers by (fastforce simp: defs split: option.splits if_splits)
  show m: "max_concurrent l' = max_concurrent l" and "pl_next l \<le> pl_next l'"
    using assms(2) by (auto simp: defs split: option.splits)
  show "r = Some s \<Longrightarrow> s < pl_next l'"
    using assms(2) peers(2) by (fastforce simp: defs split: option.splits if_splits)
  have "pl_sems l' = (if tbl_get (evict (pl_peers l) now) p = None then tbl_insert (pl_sems l) (pl_next l) (max_concurrent l)
      else pl_sems l)"
    using assms(2) by (auto simp: defs split: option.splits)
  then show "free_permits l' i = free_permits l i" using fresh m by (simp add: free_permits_def tbl_get_or_def)
qed

lemma sems_ok_put:
  assumes "sems_ok l" "s < pl_next l"
  shows "sems_ok (l\<lparr>pl_sems := tbl_insert (pl_sems l) s a\<rparr>)"
  using assms by (simp add: sems_ok_def)

lemma sems_ok_defined: "sems_ok l \<Longrightarrow> s < pl_next l \<Longrightarrow> \<exists>a. tbl_get (pl_sems l) s = Some a"
  by (metis sems_ok_def not_le option.exhaust)

lemma try_acquire_limits:
  assumes "sems_ok l" "s < pl_next l" "try_acquire l s = Some l'"
  shows "sems_ok l'" "pl_next l' = pl_next l" "max_concurrent l' = max_concurrent l" "pl_peers l' = pl_peers l"
    "free_permits l i = free_permits l' i + (if i = s then 1 else 0)"
  using assms by (auto simp: try_acquire_def free_permits_def tbl_get_or_def sems_ok_put split: option.splits nat.splits)

lemma release_limits:
  assumes "sems_ok l" "s < pl_next l"
  shows "sems_ok (release l s)" "pl_next (release l s) = pl_next l" "max_concurrent (release l s) = max_concurrent l"
    "pl_peers (release l s) = pl_peers l" "free_permits (release l s) i = free_permits l i + (if i = s then 1 else 0)"
  using assms sems_ok_defined [OF assms]
  by (auto simp: release_def free_permits_def tbl_get_or_def sems_ok_put split: option.splits)

lemma admit_charge_limits:
  assumes "sems_ok l"
  shows "sems_ok (admit_charge l p)" "pl_next (admit_charge l p) = pl_next l" "max_concurrent (admit_charge l p) = max_concurrent l"
    "free_permits (admit_charge l p) i = free_permits l i"
  using assms by (auto simp: admit_charge_def sems_ok_def free_permits_def split: option.splits)

text \<open>A connection moves to another stage: what it gives up and what it takes balance.\<close>

lemma permits_ok_stage:
  assumes ok: "permits_ok sv" and c: "tbl_get (sv_conns sv) c = Some (p, old)"
    and same: "sv_conns sv' = sv_conns sv" "max_connections sv' = max_connections sv"
    and l: "sems_ok (sv_limits sv')" "pl_next (sv_limits sv) \<le> pl_next (sv_limits sv')"
      "max_concurrent (sv_limits sv') = max_concurrent (sv_limits sv)"
    and new: "\<And>s. sem_ref new = Some s \<Longrightarrow> s < pl_next (sv_limits sv')"
    and permits: "\<And>s. free_permits (sv_limits sv') s + (if permit new = Some s then 1 else 0)
      = free_permits (sv_limits sv) s + (if permit old = Some s then 1 else 0)"
    and free: "sv_free sv' + (if serving new then 1 else 0) = sv_free sv + (if serving old then 1 else 0)"
  shows "permits_ok (set_stage sv' c p new)"
proof -
  have "free_permits (sv_limits sv') s + card (holders (set_stage sv' c p new) s) = max_concurrent (sv_limits sv)" for s
  proof -
    have "free_permits (sv_limits sv) s + card (conns_at (sv_conns sv) (\<lambda>_ st. permit st = Some s)) = max_concurrent (sv_limits sv)"
      using ok unfolding permits_ok_def holders_def by blast
    with permits [of s] card_conns_at_insert [OF c, of new "\<lambda>_ st. permit st = Some s"] show ?thesis
      unfolding holders_def set_stage_def by (simp add: same split: if_splits)
  qed
  moreover have "sv_free sv' + card (being_served (set_stage sv' c p new)) = max_connections sv"
    using ok free card_conns_at_insert [OF c, of new "\<lambda>_ st. serving st"]
    unfolding permits_ok_def being_served_def set_stage_def by (simp add: same split: if_splits)
  moreover have "\<forall>k q st s. tbl_get (sv_conns sv) k = Some (q, st) \<longrightarrow> sem_ref st = Some s \<longrightarrow> s < pl_next (sv_limits sv')"
    using ok l(2) by (metis permits_ok_def less_le_trans)
  ultimately show ?thesis using l(1,3) new same unfolding permits_ok_def by (auto simp: set_stage_def split: if_splits)
qed

lemma advance_permits:
  assumes ok: "permits_ok sv" and c: "tbl_get (sv_conns sv) c = Some (p, st)"
  shows "permits_ok (advance sv c p now input st)"
proof -
  have l: "sems_ok (sv_limits sv)" and ref: "\<And>s. sem_ref st = Some s \<Longrightarrow> s < pl_next (sv_limits sv)"
    using ok c unfolding permits_ok_def by blast+
  note stage = permits_ok_stage [OF ok c]
  show ?thesis
  proof (cases st)
    case Waiting
    then show ?thesis using admit_check_limits [OF l]
      by (cases "admit_check (sv_limits sv) p now") (auto simp: refuse_def split: option.splits intro!: stage)
  next
    case (Checked s)
    show ?thesis
    proof (cases "try_acquire (sv_limits sv) s")
      case (Some l')
      then show ?thesis using Checked ref try_acquire_limits [OF l _ Some] by (auto intro!: stage)
    qed (use Checked l in \<open>auto simp: refuse_def intro!: stage\<close>)
  next
    case (Holding s)
    then show ?thesis using ref admit_charge_limits [OF l] by (auto intro!: stage)
  next
    case (Admitted s)
    then show ?thesis using ref release_limits [OF l, of s] l by (auto simp: refuse_def split: nat.splits intro!: stage)
  next
    case (Serving s)
    then show ?thesis using ref release_limits [OF l, of s] by (auto split: prod.splits intro!: stage)
  qed (simp add: ok)
qed

lemma spawn_permits: "permits_ok sv \<Longrightarrow> tbl_get (sv_conns sv) c = None \<Longrightarrow> permits_ok (spawn_conn sv c p)"
  by (auto simp: permits_ok_def spawn_conn_def set_stage_def holders_def being_served_def card_conns_at_fresh split: if_splits)

lemma server_step_permits: "permits_ok sv \<Longrightarrow> permits_ok (server_step sv op)"
  by (cases op) (simp_all add: spawn_permits advance_permits del: not_None_eq split: option.splits)

lemma server_run_permits: "permits_ok sv \<Longrightarrow> permits_ok (server_run sv ops)"
  by (induction ops arbitrary: sv) (auto simp: server_run_def server_step_permits)

section \<open>One peer\<close>

definition peer_conns :: "server \<Rightarrow> peer_key \<Rightarrow> nat set" where
  "peer_conns sv p = conns_at (sv_conns sv) (\<lambda>q st. q = p \<and> permit st \<noteq> None)"

text \<open>No operation is later than the idle limit after the first, so no entry is evicted and every connection of
  a peer refers to the semaphore of its entry.\<close>

fun in_window :: "instant \<Rightarrow> conn_op \<Rightarrow> bool" where
  "in_window t0 (Accept _ _) = True"
| "in_window t0 (Advance _ now _) = (t0 \<le> now \<and> now < t0 + idle_evict_after)"

definition one_sem :: "instant \<Rightarrow> server \<Rightarrow> bool" where
  "one_sem t0 sv \<longleftrightarrow> (\<forall>k e. tbl_get (pl_peers (sv_limits sv)) k = Some e \<longrightarrow> t0 \<le> pe_last_seen e)
     \<and> (\<forall>c p st s. tbl_get (sv_conns sv) c = Some (p, st) \<longrightarrow> sem_ref st = Some s
          \<longrightarrow> map_option pe_sem (tbl_get (pl_peers (sv_limits sv)) p) = Some s)"

lemma one_sem_new: "one_sem t0 (server_new d (limits_new r b n) k)"
  by (simp add: one_sem_def server_new_def limits_new_def)

lemma evict_get:
  assumes "tbl_ok t" "\<And>k e. tbl_get t k = Some e \<Longrightarrow> t0 \<le> pe_last_seen e" "now < t0 + idle_evict_after"
  shows "tbl_get (evict t now) k = tbl_get t k"
  using assms(2) [of k] assms(1,3) by (auto simp: evict_def tbl_get_retain duration_since_def idle_evict_after_def from_secs_def split: option.splits)

lemma admit_check_entry:
  assumes "admit_check l p now = (r, l')"
  shows "\<exists>e. (\<forall>k. tbl_get (pl_peers l') k = (if k = p then Some e else tbl_get (evict (pl_peers l) now) k))
     \<and> pe_last_seen e = now \<and> (r = None \<or> r = Some (pe_sem e))
     \<and> (\<forall>e0. tbl_get (evict (pl_peers l) now) p = Some e0 \<longrightarrow> pe_sem e = pe_sem e0)"
  using assms by (auto simp: admit_check_def lookup_peer_def refill_def Let_def split: option.splits if_splits)

lemma one_sem_stage:
  assumes "one_sem t0 sv" "sv_conns sv' = sv_conns sv"
    and "\<And>k e. tbl_get (pl_peers (sv_limits sv')) k = Some e \<Longrightarrow> t0 \<le> pe_last_seen e"
    and "\<And>k s. map_option pe_sem (tbl_get (pl_peers (sv_limits sv)) k) = Some s
      \<Longrightarrow> map_option pe_sem (tbl_get (pl_peers (sv_limits sv')) k) = Some s"
    and "\<And>s. sem_ref new = Some s \<Longrightarrow> map_option pe_sem (tbl_get (pl_peers (sv_limits sv')) p) = Some s"
  shows "one_sem t0 (set_stage sv' c p new)"
  using assms unfolding one_sem_def by (auto simp: set_stage_def split: if_splits)

lemma advance_one_sem:
  assumes ok: "permits_ok sv" "one_sem t0 sv" and c: "tbl_get (sv_conns sv) c = Some (p, st)"
    and t: "t0 \<le> now" "now < t0 + idle_evict_after"
  shows "one_sem t0 (advance sv c p now input st)"
proof -
  have l: "sems_ok (sv_limits sv)" using ok(1) by (simp add: permits_ok_def)
  have ref: "sem_ref st = Some s \<Longrightarrow> s < pl_next (sv_limits sv) \<and> map_option pe_sem (tbl_get (pl_peers (sv_limits sv)) p) = Some s" for s
    using ok c unfolding permits_ok_def one_sem_def by blast
  have seen: "tbl_get (pl_peers (sv_limits sv)) k = Some e \<Longrightarrow> t0 \<le> pe_last_seen e" for k e
    using ok(2) by (simp add: one_sem_def)
  have ev: "tbl_get (evict (pl_peers (sv_limits sv)) now) k = tbl_get (pl_peers (sv_limits sv)) k" for k
    using l seen t(2) by (intro evict_get) (auto simp: sems_ok_def)
  note stage = one_sem_stage [OF ok(2)]
  show ?thesis
  proof (cases st)
    case Waiting
    obtain r l' where r: "admit_check (sv_limits sv) p now = (r, l')" by fastforce
    obtain e where "\<forall>k. tbl_get (pl_peers l') k = (if k = p then Some e else tbl_get (pl_peers (sv_limits sv)) k)"
      and e: "pe_last_seen e = now" "r = None \<or> r = Some (pe_sem e)"
        "\<And>e0. tbl_get (pl_peers (sv_limits sv)) p = Some e0 \<Longrightarrow> pe_sem e = pe_sem e0"
      using admit_check_entry [OF r] unfolding ev by blast
    then have "tbl_get (pl_peers l') k = (if k = p then Some e else tbl_get (pl_peers (sv_limits sv)) k)" for k by blast
    with Waiting r e t(1) seen show ?thesis
      by (auto simp: refuse_def split: option.splits if_splits intro!: stage)
  next
    case (Checked s)
    then show ?thesis using ref try_acquire_limits(4) [OF l, of s] seen
      by (auto simp: refuse_def split: option.splits intro!: stage)
  next
    case (Holding s)
    then show ?thesis using ref seen by (auto simp: admit_charge_def split: option.splits if_splits intro!: stage)
  next
    case (Admitted s)
    then show ?thesis using ref release_limits(4) [OF l, of s] seen by (auto simp: refuse_def split: nat.splits intro!: stage)
  next
    case (Serving s)
    then show ?thesis using ref release_limits(4) [OF l, of s] seen by (auto split: prod.splits intro!: stage)
  qed (simp add: ok)
qed

lemma spawn_one_sem: "one_sem t0 sv \<Longrightarrow> one_sem t0 (spawn_conn sv c p)"
  by (auto simp: spawn_conn_def one_sem_def set_stage_def split: if_splits)

lemma server_step_one_sem: "permits_ok sv \<Longrightarrow> one_sem t0 sv \<Longrightarrow> in_window t0 op \<Longrightarrow> one_sem t0 (server_step sv op)"
  by (cases op) (auto simp: advance_one_sem spawn_one_sem split: option.splits if_splits)

lemma server_run_one_sem: "permits_ok sv \<Longrightarrow> one_sem t0 sv \<Longrightarrow> list_all (in_window t0) ops \<Longrightarrow> one_sem t0 (server_run sv ops)"
  by (induction ops arbitrary: sv) (auto simp: server_run_def server_step_permits server_step_one_sem)

section \<open>Confinement\<close>

definition under_root :: "daemon \<Rightarrow> components \<Rightarrow> bool" where
  "under_root d c \<longleftrightarrow> (\<exists>r \<in> set (dm_roots d). starts_with c r)"

definition same_file :: "daemon \<Rightarrow> daemon \<Rightarrow> string \<Rightarrow> bool" where
  "same_file d d' p \<longleftrightarrow> fs_metadata (dm_files d) p = fs_metadata (dm_files d') p \<and> fs_open (dm_files d) p = fs_open (dm_files d') p
     \<and> fs_map (dm_files d) p = fs_map (dm_files d') p \<and> fs_walk (dm_files d) p = fs_walk (dm_files d') p"

text \<open>Two hosts with the same daemon and the same files under its roots; anything else on them may differ, what
  exists elsewhere and where links lead outside included.  A directory walk stays below where it starts, since
  \<^verbatim>\<open>WalkDir\<close> does not follow links.\<close>

definition same_inside :: "daemon \<Rightarrow> daemon \<Rightarrow> bool" where
  "same_inside d d' \<longleftrightarrow>
     dm_world d = dm_world d' \<and> dm_scanner d = dm_scanner d' \<and> dm_roots d = dm_roots d'
     \<and> dm_show_reason d = dm_show_reason d' \<and> dm_version d = dm_version d'
     \<and> (\<forall>req c. under_root d c \<longrightarrow> canonicalize (dm_paths d) req = Some c \<longleftrightarrow> canonicalize (dm_paths d') req = Some c)
     \<and> (\<forall>c. under_root d c \<longrightarrow> is_dir (dm_paths d) c = is_dir (dm_paths d') c \<and> show_path (dm_paths d) c = show_path (dm_paths d') c
          \<and> same_file d d' (show_path (dm_paths d) c)
          \<and> (\<forall>p. Inr (True, p) \<in> set (fs_walk (dm_files d) (show_path (dm_paths d) c)) \<longrightarrow> same_file d d' p))"

lemma check_path_same:
  assumes "same_inside d d'"
  shows "(\<exists>c. under_root d c \<and> check_path (dm_paths d) (dm_roots d) req = Inr c \<and> check_path (dm_paths d') (dm_roots d') req = Inr c)
     \<or> (\<exists>e e'. check_path (dm_paths d) (dm_roots d) req = Inl e \<and> check_path (dm_paths d') (dm_roots d') req = Inl e')"
proof -
  have roots: "dm_roots d' = dm_roots d" and canon: "\<And>c. under_root d c \<Longrightarrow>
      canonicalize (dm_paths d) req = Some c \<longleftrightarrow> canonicalize (dm_paths d') req = Some c"
    using assms unfolding same_inside_def by auto
  show ?thesis
    using canon by (cases "canonicalize (dm_paths d) req"; cases "canonicalize (dm_paths d') req")
      (auto simp: check_path_def roots under_root_def)
qed

lemma scan_path_same: "same_file d d' p \<Longrightarrow> scan_path W (dm_files d) sc p = scan_path W (dm_files d') sc p"
  by (simp add: same_file_def scan_path_def split: sum.splits option.splits)

definition walked_files :: "(string + bool \<times> string) list \<Rightarrow> string list" where
  "walked_files es = map snd (filter fst (List.map_filter (\<lambda>e. case e of Inl _ \<Rightarrow> None | Inr f \<Rightarrow> Some f) es))"

lemma walked_files_mem: "q \<in> set (walked_files es) \<Longrightarrow> Inr (True, q) \<in> set es"
  by (induction es) (auto simp: walked_files_def List.map_filter_def split: sum.splits if_splits)

lemma scan_directory_same:
  assumes "same_file d d' p" "\<And>q. Inr (True, q) \<in> set (fs_walk (dm_files d) p) \<Longrightarrow> same_file d d' q"
  shows "scan_directory W (dm_files d) sc p = scan_directory W (dm_files d') sc p"
proof -
  have walk: "fs_walk (dm_files d') p = fs_walk (dm_files d) p" using assms(1) by (simp add: same_file_def)
  have "scan_path W (dm_files d) sc q = scan_path W (dm_files d') sc q" if "q \<in> set (walked_files (fs_walk (dm_files d) p))" for q
    using that by (intro scan_path_same assms(2) walked_files_mem)
  then show ?thesis
    unfolding scan_directory_def walk Let_def walked_files_def [symmetric] by (simp cong: map_cong)
qed

lemma run_scan_same: "same_inside d d' \<Longrightarrow> run_scan d m req = run_scan d' m req"
proof -
  assume same: "same_inside d d'"
  from check_path_same [OF same, of req] show ?thesis
  proof
    assume "\<exists>c. under_root d c \<and> check_path (dm_paths d) (dm_roots d) req = Inr c \<and> check_path (dm_paths d') (dm_roots d') req = Inr c"
    then obtain c where c: "under_root d c" "check_path (dm_paths d) (dm_roots d) req = Inr c"
      "check_path (dm_paths d') (dm_roots d') req = Inr c" by blast
    have here: "same_file d d' (show_path (dm_paths d) c)" using same c(1) unfolding same_inside_def by blast
    have "scan_directory W (dm_files d) sc (show_path (dm_paths d) c) = scan_directory W (dm_files d') sc (show_path (dm_paths d) c)" for W sc
      using same c(1) by (intro scan_directory_same here) (auto simp: same_inside_def)
    note files = this scan_path_same [OF here]
    have "is_dir (dm_paths d') c = is_dir (dm_paths d) c" "show_path (dm_paths d') c = show_path (dm_paths d) c"
      "dm_world d' = dm_world d" "dm_scanner d' = dm_scanner d" "dm_show_reason d' = dm_show_reason d"
      using same c(1) by (simp_all add: same_inside_def)
    note eqs = this
    show ?thesis unfolding run_scan_def Let_def c(2,3) sum.case eqs files ..
  qed (auto simp: run_scan_def)
qed

lemma handle_conn_same:
  assumes "same_inside d d'"
  shows "handle_conn d m input = handle_conn d' m input"
proof -
  have "dm_version d = dm_version d'" using assms by (simp add: same_inside_def)
  then show ?thesis unfolding handle_conn_def run_scan_same [OF assms] by (simp only:)
qed

lemma server_step_frame:
  "sv_daemon (server_step sv op) = sv_daemon sv" "max_connections (server_step sv op) = max_connections sv"
  "max_concurrent (sv_limits (server_step sv op)) = max_concurrent (sv_limits sv)"
proof -
  have adm: "admit_check l p now = (r, l') \<Longrightarrow> max_concurrent l' = max_concurrent l" for l l' p now r
    by (auto simp: admit_check_def lookup_peer_def refill_def Let_def split: option.splits)
  have adv: "sv_daemon (advance sv c p now i st) = sv_daemon sv \<and> max_connections (advance sv c p now i st) = max_connections sv
      \<and> max_concurrent (sv_limits (advance sv c p now i st)) = max_concurrent (sv_limits sv)" for c p now i st
    by (cases st) (auto simp: refuse_def set_stage_def try_acquire_def release_def admit_charge_def
      split: option.splits nat.splits prod.splits dest: adm)
  show "sv_daemon (server_step sv op) = sv_daemon sv" "max_connections (server_step sv op) = max_connections sv"
    "max_concurrent (sv_limits (server_step sv op)) = max_concurrent (sv_limits sv)"
    using adv by (cases op; auto simp: spawn_conn_def set_stage_def split: option.splits)+
qed

lemma server_run_frame:
  "sv_daemon (server_run sv ops) = sv_daemon sv \<and> max_connections (server_run sv ops) = max_connections sv
     \<and> max_concurrent (sv_limits (server_run sv ops)) = max_concurrent (sv_limits sv)"
  by (induction ops arbitrary: sv) (auto simp: server_run_def server_step_frame)

lemma server_step_same:
  assumes "same_inside (sv_daemon sv) d'"
  shows "server_step (sv\<lparr>sv_daemon := d'\<rparr>) op = (server_step sv op)\<lparr>sv_daemon := d'\<rparr>"
proof -
  have "advance (sv\<lparr>sv_daemon := d'\<rparr>) c p now input st = (advance sv c p now input st)\<lparr>sv_daemon := d'\<rparr>" for c p now input st
    by (cases st) (auto simp: refuse_def set_stage_def handle_conn_same [OF assms] split: option.splits nat.splits prod.splits)
  then show ?thesis by (cases op) (auto simp: spawn_conn_def set_stage_def split: option.splits)
qed

lemma server_run_same:
  "same_inside (sv_daemon sv) d' \<Longrightarrow> server_run (sv\<lparr>sv_daemon := d'\<rparr>) ops = (server_run sv ops)\<lparr>sv_daemon := d'\<rparr>"
  by (induction ops arbitrary: sv) (auto simp: server_run_def server_step_same server_step_frame)


text \<open>C31: in every interleaving of admissions, scans and disconnections the permits of the global semaphore and of every
  peer semaphore are conserved: those free and those held by open connections add up to the configured number, so no more than
  \<^verbatim>\<open>--max-connections\<close> commands are served at a time, and no permit is lost or freed twice on any refusal path.\<close>

theorem permits_conserved:
  "let sv = server_run (server_new d (limits_new rate burst per_peer) cap) ops
   in sv_free sv + card (being_served sv) = cap \<and> (\<forall>s. free_permits (sv_limits sv) s + card (holders sv s) = per_peer)"
  using server_run_permits [OF permits_ok_new, of d rate burst per_peer cap ops]
    server_run_frame [of "server_new d (limits_new rate burst per_peer) cap" ops]
  by (simp add: Let_def permits_ok_def) (simp add: server_new_def limits_new_def)

text \<open>C32: as long as less than the idle limit of 600 seconds has passed since the first admission, no peer holds more
  connections than \<^verbatim>\<open>--peer-max-concurrent\<close>, in every interleaving.\<close>

theorem peer_capped:
  assumes "list_all (in_window t0) ops"
  shows "card (peer_conns (server_run (server_new d (limits_new rate burst per_peer) cap) ops) p) \<le> per_peer"
proof -
  let ?sv = "server_run (server_new d (limits_new rate burst per_peer) cap) ops"
  have ok: "permits_ok ?sv" and sem: "one_sem t0 ?sv"
    using assms by (simp_all add: server_run_permits permits_ok_new server_run_one_sem one_sem_new)
  define s where "s = the (map_option pe_sem (tbl_get (pl_peers (sv_limits ?sv)) p))"
  have "peer_conns ?sv p \<subseteq> holders ?sv s"
    using sem unfolding one_sem_def peer_conns_def holders_def conns_at_def s_def by (force dest: permit_ref)
  then have "card (peer_conns ?sv p) \<le> card (holders ?sv s)" by (intro card_mono) (auto simp: holders_def)
  also have "\<dots> \<le> max_concurrent (sv_limits ?sv)" using ok unfolding permits_ok_def by (metis le_add2)
  finally show ?thesis
    using server_run_frame [of "server_new d (limits_new rate burst per_peer) cap" ops] by (simp add: server_new_def limits_new_def)
qed

text \<open>Two hosts that differ in where a link below \<^verbatim>\<open>/srv\<close> leads, and a daemon confined to \<^verbatim>\<open>/srv\<close>.\<close>

definition sample_paths :: "bool \<Rightarrow> path_world" where
  "sample_paths b = \<lparr>canonicalize = (\<lambda>p. if p = ''/srv/a'' then Some [''srv'', ''a'']
       else if b \<and> p = ''/srv/link'' then Some [''etc'', ''shadow''] else None),
     is_dir = (\<lambda>c. c = [''srv'']), show_path = (\<lambda>c. concat (map (\<lambda>x. CHR ''/'' # x) c))\<rparr>"

definition sample_files :: "bool \<Rightarrow> file_system" where
  "sample_files b = \<lparr>fs_metadata = (\<lambda>p. if p = ''/etc/shadow'' then (if b then Inr (True, 7) else Inl ''not found'') else Inr (True, 0)),
     fs_open = (\<lambda>_. None), fs_map = (\<lambda>_. Inl ''unreadable''), fs_walk = (\<lambda>_. [])\<rparr>"

definition sample_daemon :: "bool \<Rightarrow> daemon" where
  "sample_daemon b = \<lparr>dm_world = sample_world, dm_files = sample_files b, dm_paths = sample_paths b, dm_scanner = sample_scanner,
     dm_roots = [[''srv'']], dm_show_reason = (\<lambda>_. ''limit''), dm_version = ''0.1.0''\<rparr>"

definition serve_one :: "nat \<Rightarrow> instant \<Rightarrow> conn_op list" where
  "serve_one c now = [Accept c (Uid 1000), Advance c now [], Advance c now [], Advance c now [], Advance c now []]"

lemma starts_with_srv: "starts_with c [''srv''] \<longleftrightarrow> (\<exists>cs. c = ''srv'' # cs)"
  by (cases c) (auto simp: starts_with_def)

lemma sample_same_inside: "same_inside (sample_daemon True) (sample_daemon False)"
  by (auto simp: same_inside_def sample_daemon_def sample_paths_def sample_files_def under_root_def starts_with_srv same_file_def)


theorem peer_capped_witness:
  "list_all (in_window 0) (serve_one 0 0 @ serve_one 1 5)
   \<and> card (peer_conns (server_run (server_new (sample_daemon True) (limits_new (Fin 5) (Fin 20) 1) 64) (serve_one 0 0 @ serve_one 1 5)) (Uid 1000)) \<le> 1"
proof -
  have "list_all (in_window 0) (serve_one 0 0 @ serve_one 1 5)"
    by (simp add: serve_one_def idle_evict_after_def from_secs_def)
  with peer_capped [OF this] show ?thesis by blast
qed

text \<open>Past the idle limit the cap is gone: the entry of a peer whose connection is still open is evicted, and the next
  connection of that peer gets a new semaphore.\<close>

lemma sample_f64: "mk_f64 0 = Fin 0" "mk_f64 20 = Fin 20"
  using mk_f64_nat_exact [of 0] mk_f64_nat_exact [of 20] by simp_all

lemma new_entry_served:
  assumes "\<not> sv_exited sv" "tbl_get (sv_conns sv) c = None" "sv_free sv = Suc n"
    and "rate_per_sec (sv_limits sv) = Fin 5" "pl_burst (sv_limits sv) = Fin 20" "max_concurrent (sv_limits sv) = 1"
    and "tbl_get (evict (pl_peers (sv_limits sv)) now) (Uid 1000) = None"
  shows "\<exists>s. let sv' = server_run sv (serve_one c now) in
     \<not> sv_exited sv' \<and> sv_free sv' = n \<and> rate_per_sec (sv_limits sv') = Fin 5 \<and> pl_burst (sv_limits sv') = Fin 20
     \<and> max_concurrent (sv_limits sv') = 1
     \<and> (\<forall>k. tbl_get (sv_conns sv') k = (if k = c then Some (Uid 1000, Serving s) else tbl_get (sv_conns sv) k))
     \<and> map_option pe_last_seen (tbl_get (pl_peers (sv_limits sv')) (Uid 1000)) = Some now"
  using assms by (simp add: serve_one_def server_run_def spawn_conn_def set_stage_def admit_check_def lookup_peer_def refill_def
    try_acquire_def admit_charge_def Let_def sample_f64 flt_min_def)

lemma eviction_lifts_cap:
  "peer_conns (server_run (server_new d (limits_new (Fin 5) (Fin 20) 1) 64) (serve_one 0 0 @ serve_one 1 idle_evict_after)) (Uid 1000)
   = {0, 1}"
proof -
  let ?sv0 = "server_new d (limits_new (Fin 5) (Fin 20) 1) 64"
  let ?sv1 = "server_run ?sv0 (serve_one 0 0)"
  have none: "tbl_get (sv_conns ?sv0) k = None" for k by (simp add: server_new_def)
  have first: "\<exists>s. let sv' = ?sv1 in \<not> sv_exited sv' \<and> sv_free sv' = 63 \<and> rate_per_sec (sv_limits sv') = Fin 5
     \<and> pl_burst (sv_limits sv') = Fin 20 \<and> max_concurrent (sv_limits sv') = 1
     \<and> (\<forall>k. tbl_get (sv_conns sv') k = (if k = 0 then Some (Uid 1000, Serving s) else tbl_get (sv_conns ?sv0) k))
     \<and> map_option pe_last_seen (tbl_get (pl_peers (sv_limits sv')) (Uid 1000)) = Some 0"
    by (rule new_entry_served) (simp_all add: server_new_def limits_new_def evict_def tbl_retain_def)
  obtain s where s: "\<not> sv_exited ?sv1" "sv_free ?sv1 = 63" "rate_per_sec (sv_limits ?sv1) = Fin 5" "pl_burst (sv_limits ?sv1) = Fin 20"
    "max_concurrent (sv_limits ?sv1) = 1" "\<And>k. tbl_get (sv_conns ?sv1) k = (if k = 0 then Some (Uid 1000, Serving s) else None)"
    "map_option pe_last_seen (tbl_get (pl_peers (sv_limits ?sv1)) (Uid 1000)) = Some 0"
    using first unfolding Let_def none by blast
  have "permits_ok ?sv1" by (intro server_run_permits permits_ok_new)
  then have "tbl_ok (pl_peers (sv_limits ?sv1))" by (simp add: permits_ok_def sems_ok_def)
  with s(7) have gone: "tbl_get (evict (pl_peers (sv_limits ?sv1)) idle_evict_after) (Uid 1000) = None"
    by (auto simp: evict_def tbl_get_retain duration_since_def split: option.splits)
  have free: "sv_free ?sv1 = Suc 62" using s(2) by simp
  have "tbl_get (sv_conns ?sv1) 1 = None" by (subst s(6)) simp
  from new_entry_served [OF s(1) this free s(3-5) gone]
  obtain s' where "\<And>k. tbl_get (sv_conns (server_run ?sv1 (serve_one 1 idle_evict_after))) k
     = (if k = 1 then Some (Uid 1000, Serving s') else if k = 0 then Some (Uid 1000, Serving s) else None)"
    unfolding Let_def s(6) by blast
  then show ?thesis by (auto simp: peer_conns_def conns_at_def server_run_def split: if_splits)
qed

end
