(* ===== verification/Sig_Update.thy ===== *)
theory Sig_Update
  imports Scan_Daemon
begin

text \<open>
  The signature updater (\<^verbatim>\<open>rust-clam/sig-update\<close>): manifest, integrity checks, and the swap of a staged directory for
  the live one.  The file system is a map from paths to directories and files; every system call may fail, as the environment
  says.  The functions return the states the file system goes through, since a scanner may read it, or the power fail, in any of
  them.  HTTP, the digest, the signature scheme, hexadecimal text and JSON are parameters.
\<close>

section \<open>Files\<close>

datatype node = Dir | Plain bytes

type_synonym tree = "components \<Rightarrow> node option"

definition is_directory :: "tree \<Rightarrow> components \<Rightarrow> bool" where
  "is_directory t p \<longleftrightarrow> t p = Some Dir"

text \<open>What is at a path and below it, by relative path.\<close>

definition generation :: "tree \<Rightarrow> components \<Rightarrow> tree" where
  "generation t p = (\<lambda>x. t (p @ x))"

text \<open>\<^verbatim>\<open>remove_dir_all\<close>; when it fails part-way, some of the entries are left.\<close>

definition remove_dir_all :: "(components \<Rightarrow> bool) option \<Rightarrow> tree \<Rightarrow> components \<Rightarrow> bool \<times> tree" where
  "remove_dir_all outcome t p =
     (if \<not> is_directory t p then (False, t)
      else case outcome of
             None \<Rightarrow> (True, \<lambda>x. if starts_with x p then None else t x)
           | Some left \<Rightarrow> (False, \<lambda>x. if starts_with x p \<and> \<not> left x then None else t x))"

text \<open>\<^verbatim>\<open>rename\<close> of a directory: refused when the source is missing or there is something at the target.  (An empty
  directory there would be replaced, but every caller has moved or removed the target before.)\<close>

definition rename :: "bool \<Rightarrow> tree \<Rightarrow> components \<Rightarrow> components \<Rightarrow> bool \<times> tree" where
  "rename ok t p q =
     (if ok \<and> t p \<noteq> None \<and> t q = None
      then (True, \<lambda>x. if starts_with x q then t (p @ drop (length q) x) else if starts_with x p then None else t x)
      else (False, t))"

section \<open>The swap\<close>

datatype apply_error = StagingMissing components | ApplyIo string

record apply_env =
  rm_previous :: "(components \<Rightarrow> bool) option"
  mv_current :: bool
  mv_staged :: bool
  mv_back :: bool

definition previous_path :: "components \<Rightarrow> components" where
  "previous_path sig_dir = butlast sig_dir @ [last sig_dir @ ''.previous'']"

definition apply_update :: "apply_env \<Rightarrow> tree \<Rightarrow> components \<Rightarrow> components \<Rightarrow> (apply_error + unit) \<times> tree list" where
  "apply_update env t staging_dir sig_dir =
     (if \<not> is_directory t staging_dir then (Inl (StagingMissing staging_dir), [])
      else
        (let previous = previous_path sig_dir;
             (ok1, t1) = (if t previous \<noteq> None then remove_dir_all (rm_previous env) t previous else (True, t))
         in if \<not> ok1 then (Inl (ApplyIo ''removing stale .previous directory''), [t1])
            else
              (let sig_dir_existed = (t1 sig_dir \<noteq> None);
                   (ok2, t2) = (if sig_dir_existed then rename (mv_current env) t1 sig_dir previous else (True, t1))
               in if \<not> ok2 then (Inl (ApplyIo ''moving current signatures to .previous''), [t1, t2])
                  else
                    (case rename (mv_staged env) t2 staging_dir sig_dir of
                       (True, t3) \<Rightarrow> (Inr (), [t1, t2, t3])
                     | (False, t3) \<Rightarrow>
                         (Inl (ApplyIo ''moving staged signatures into place''),
                          [t1, t2, t3] @ (if sig_dir_existed then [snd (rename (mv_back env) t3 previous sig_dir)] else []))))))"

record rollback_env =
  rm_current :: "(components \<Rightarrow> bool) option"
  mv_previous :: bool

definition rollback :: "rollback_env \<Rightarrow> tree \<Rightarrow> components \<Rightarrow> (apply_error + bool) \<times> tree list" where
  "rollback env t sig_dir =
     (let previous = previous_path sig_dir
      in if \<not> is_directory t previous then (Inr False, [])
         else
           (let (ok1, t1) = (if t sig_dir \<noteq> None then remove_dir_all (rm_current env) t sig_dir else (True, t))
            in if \<not> ok1 then (Inl (ApplyIo ''removing current signatures before rollback''), [t1])
               else (case rename (mv_previous env) t1 previous sig_dir of
                       (True, t2) \<Rightarrow> (Inr True, [t1, t2])
                     | (False, t2) \<Rightarrow> (Inl (ApplyIo ''restoring .previous signatures''), [t1, t2]))))"

text \<open>The file system after a call that went through these states.\<close>

definition final :: "tree \<Rightarrow> tree list \<Rightarrow> tree" where
  "final t ts = last (t # ts)"

section \<open>Manifest and verification\<close>

record manifest_file =
  mf_name :: string
  mf_sha256 :: string
  mf_url :: string

record manifest =
  mf_version :: string
  mf_files :: "manifest_file list"

datatype manifest_error = ManifestJson | ManifestEmpty | DuplicateName string

datatype verify_error = HashMismatch string string | InvalidPublicKey | InvalidSignatureEncoding | SignatureInvalid | BadHex

record update_libs =
  ul_get :: "string \<Rightarrow> string + bytes"
  ul_sha256_hex :: "bytes \<Rightarrow> string"
  ul_hex_decode :: "string \<Rightarrow> bytes option"
  ul_key_ok :: "bytes \<Rightarrow> bool"
  ul_verify :: "bytes \<Rightarrow> bytes \<Rightarrow> bytes \<Rightarrow> bool"
  ul_lossy :: "bytes \<Rightarrow> string"
  ul_from_json :: "bytes \<Rightarrow> manifest option"

fun first_duplicate :: "string set \<Rightarrow> manifest_file list \<Rightarrow> string option" where
  "first_duplicate seen [] = None"
| "first_duplicate seen (f # fs) =
     (if mf_name f \<in> seen then Some (mf_name f) else first_duplicate (insert (mf_name f) seen) fs)"

definition parse_manifest :: "update_libs \<Rightarrow> bytes \<Rightarrow> manifest_error + manifest" where
  "parse_manifest L json =
     (case ul_from_json L json of
        None \<Rightarrow> Inl ManifestJson
      | Some m \<Rightarrow>
          if mf_files m = [] then Inl ManifestEmpty
          else (case first_duplicate {} (mf_files m) of Some n \<Rightarrow> Inl (DuplicateName n) | None \<Rightarrow> Inr m))"

definition verify_sha256 :: "update_libs \<Rightarrow> bytes \<Rightarrow> string \<Rightarrow> verify_error + unit" where
  "verify_sha256 L data expected_hex =
     (let actual = ul_sha256_hex L data
      in case ul_hex_decode L expected_hex of
           None \<Rightarrow> Inl BadHex
         | Some expected_bytes \<Rightarrow>
             (case ul_hex_decode L actual of
                None \<Rightarrow> Inl BadHex
              | Some actual_bytes \<Rightarrow> if expected_bytes = actual_bytes then Inr () else Inl (HashMismatch expected_hex actual)))"

definition verify_manifest_signature :: "update_libs \<Rightarrow> bytes \<Rightarrow> string \<Rightarrow> string \<Rightarrow> verify_error + unit" where
  "verify_manifest_signature L manifest_bytes public_key_hex signature_hex =
     (case ul_hex_decode L public_key_hex of
        None \<Rightarrow> Inl BadHex
      | Some key \<Rightarrow>
          if length key \<noteq> 32 \<or> \<not> ul_key_ok L key then Inl InvalidPublicKey
          else case ul_hex_decode L signature_hex of
                 None \<Rightarrow> Inl BadHex
               | Some sg \<Rightarrow>
                   if length sg \<noteq> 64 then Inl InvalidSignatureEncoding
                   else if ul_verify L key manifest_bytes sg then Inr () else Inl SignatureInvalid)"

section \<open>The update\<close>

datatype update_error =
    FetchFailed string
  | SignatureFailed verify_error
  | ManifestNotUtf8
  | BadManifest manifest_error
  | StagingFailed
  | IntegrityFailed string verify_error
  | WriteFailed string
  | ApplyFailed apply_error

record update_args =
  manifest_url :: string
  sig_dir :: components
  public_key :: "string option"
  dry_run :: bool

text \<open>The outcome of creating and writing a file: \<open>None\<close> when it works, else what is left there, if anything.\<close>

record update_env =
  staging_name :: string
  staging_ok :: bool
  write_outcome :: "string \<Rightarrow> bytes option option"
  cleanup_outcome :: "(components \<Rightarrow> bool) option"
  swap :: apply_env

fun split_slash :: "string \<Rightarrow> string list" where
  "split_slash [] = [[]]"
| "split_slash (c # s) =
     (if c = CHR ''/'' then [] # split_slash s else (case split_slash s of w # ws \<Rightarrow> (c # w) # ws | [] \<Rightarrow> [[c]]))"

text \<open>How the operating system follows a path, from a directory on.\<close>

fun walk :: "tree \<Rightarrow> components \<Rightarrow> string list \<Rightarrow> components option" where
  "walk t cur [] = Some cur"
| "walk t cur (c # cs) =
     (if c = [] \<or> c = ''.'' then walk t cur cs
      else if \<not> is_directory t cur then None
      else walk t (if c = ''..'' then butlast cur else cur @ [c]) cs)"

text \<open>\<^verbatim>\<open>Path::join\<close>: an absolute name replaces the base.\<close>

definition join_path :: "tree \<Rightarrow> components \<Rightarrow> string \<Rightarrow> components option" where
  "join_path t base name = walk t (if name \<noteq> [] \<and> hd name = CHR ''/'' then [] else base) (split_slash name)"

definition write_file :: "update_env \<Rightarrow> tree \<Rightarrow> components \<Rightarrow> string \<Rightarrow> bytes \<Rightarrow> bool \<times> tree" where
  "write_file env t base name data =
     (case join_path t base name of
        None \<Rightarrow> (False, t)
      | Some p \<Rightarrow>
          if is_directory t p \<or> last name = CHR ''/'' then (False, t)
          else case write_outcome env name of
                 None \<Rightarrow> (True, t(p \<mapsto> Plain data))
               | Some None \<Rightarrow> (False, t)
               | Some (Some left) \<Rightarrow> (False, t(p \<mapsto> Plain left)))"

fun stage_files ::
  "update_libs \<Rightarrow> update_env \<Rightarrow> components \<Rightarrow> tree \<Rightarrow> manifest_file list \<Rightarrow> update_error option \<times> tree list"
where
  "stage_files L env staging t [] = (None, [])"
| "stage_files L env staging t (f # fs) =
     (case ul_get L (mf_url f) of
        Inl e \<Rightarrow> (Some (FetchFailed e), [])
      | Inr data \<Rightarrow>
          (case verify_sha256 L data (mf_sha256 f) of
             Inl e \<Rightarrow> (Some (IntegrityFailed (mf_name f) e), [])
           | Inr _ \<Rightarrow>
               (case write_file env t staging (mf_name f) data of
                  (False, t') \<Rightarrow> (Some (WriteFailed (mf_name f)), [t'])
                | (True, t') \<Rightarrow> (case stage_files L env staging t' fs of (r, ts) \<Rightarrow> (r, t' # ts)))))"

text \<open>Dropping the guard of a staging directory that was not handed over removes it; errors are ignored.\<close>

definition drop_staging :: "update_env \<Rightarrow> components \<Rightarrow> tree \<Rightarrow> tree list \<Rightarrow> tree list" where
  "drop_staging env staging t ts = ts @ [snd (remove_dir_all (cleanup_outcome env) (final t ts) staging)]"

definition sigversion :: string where
  "sigversion = ''.rclam-sigversion''"

definition version_bytes :: "manifest \<Rightarrow> bytes" where
  "version_bytes m = map (\<lambda>c. of_nat (of_char c)) (mf_version m) @ [0x0A]"

definition install :: "update_libs \<Rightarrow> update_env \<Rightarrow> tree \<Rightarrow> components \<Rightarrow> manifest \<Rightarrow> (update_error + string) \<times> tree list" where
  "install L env t sig m =
     (if \<not> staging_ok env then (Inl StagingFailed, [])
      else
        (let staging = butlast sig @ [staging_name env]; t0 = t(staging \<mapsto> Dir)
         in case stage_files L env staging t0 (mf_files m) of
              (Some e, ts) \<Rightarrow> (Inl e, drop_staging env staging t (t0 # ts))
            | (None, ts) \<Rightarrow>
                (case write_file env (final t0 ts) staging sigversion (version_bytes m) of
                   (False, t1) \<Rightarrow> (Inl (WriteFailed sigversion), drop_staging env staging t (t0 # ts @ [t1]))
                 | (True, t1) \<Rightarrow>
                     (case apply_update (swap env) t1 staging sig of
                        (Inl e, us) \<Rightarrow> (Inl (ApplyFailed e), t0 # ts @ t1 # us)
                      | (Inr _, us) \<Rightarrow> (Inr (mf_version m), t0 # ts @ t1 # us)))))"

definition check_signature :: "update_libs \<Rightarrow> update_args \<Rightarrow> bytes \<Rightarrow> update_error option" where
  "check_signature L args manifest_bytes =
     (case public_key args of
        None \<Rightarrow> None
      | Some pk \<Rightarrow>
          (case ul_get L (manifest_url args @ ''.sig'') of
             Inl e \<Rightarrow> Some (FetchFailed e)
           | Inr sig_bytes \<Rightarrow>
               (case verify_manifest_signature L manifest_bytes pk (trim (ul_lossy L sig_bytes)) of
                  Inl e \<Rightarrow> Some (SignatureFailed e)
                | Inr _ \<Rightarrow> None)))"

definition run_update :: "update_libs \<Rightarrow> update_env \<Rightarrow> update_args \<Rightarrow> tree \<Rightarrow> (update_error + string) \<times> tree list" where
  "run_update L env args t =
     (case ul_get L (manifest_url args) of
        Inl e \<Rightarrow> (Inl (FetchFailed e), [])
      | Inr manifest_bytes \<Rightarrow>
          (case check_signature L args manifest_bytes of
             Some e \<Rightarrow> (Inl e, [])
           | None \<Rightarrow>
               if \<not> utf8_ok manifest_bytes then (Inl ManifestNotUtf8, [])
               else (case parse_manifest L manifest_bytes of
                       Inl e \<Rightarrow> (Inl (BadManifest e), [])
                     | Inr m \<Rightarrow> if dry_run args then (Inr (mf_version m), []) else install L env t (sig_dir args) m)))"

section \<open>Generations\<close>

lemma starts_with_append [simp]: "starts_with (p @ x) p"
  by (simp add: starts_with_def)

lemma starts_with_sibling [simp]: "starts_with (par @ a # x) (par @ [b]) \<longleftrightarrow> a = b"
  by (simp add: starts_with_def)

lemma remove_generation:
  assumes "remove_dir_all out t (par @ [a]) = (ok, t')"
  shows "c \<noteq> a \<Longrightarrow> generation t' (par @ [c]) = generation t (par @ [c])" and "ok \<Longrightarrow> generation t' (par @ [a]) = Map.empty"
  using assms by (auto simp: remove_dir_all_def generation_def split: if_splits option.splits)

lemma rename_generation:
  assumes "rename ok t (par @ [a]) (par @ [b]) = (True, t')" "a \<noteq> b"
  shows "generation t' (par @ [b]) = generation t (par @ [a])" "generation t' (par @ [a]) = Map.empty"
    "c \<noteq> a \<Longrightarrow> c \<noteq> b \<Longrightarrow> generation t' (par @ [c]) = generation t (par @ [c])"
  using assms by (auto simp: rename_def generation_def split: if_splits)

lemma rename_False: "rename ok t p q = (False, t') \<Longrightarrow> t' = t \<and> \<not> (ok \<and> t p \<noteq> None \<and> t q = None)"
  by (auto simp: rename_def split: if_splits)

lemma generation_at: "t (par @ [a]) = generation t (par @ [a]) []"
  by (simp add: generation_def)

lemma previous_path_sibling [simp]: "previous_path (par @ [n]) = par @ [n @ ''.previous'']"
  by (simp add: previous_path_def)

text \<open>What a scanner finds at the live directory in a state of the swap: the old generation, the new one, or, between the
  two renames, nothing, with the old one next to it.\<close>

definition swap_state :: "tree \<Rightarrow> tree \<Rightarrow> components \<Rightarrow> tree \<Rightarrow> bool" where
  "swap_state old new sig u \<longleftrightarrow> generation u sig = old \<or> generation u sig = new
     \<or> generation u sig = Map.empty \<and> generation u (previous_path sig) = old"

text \<open>The two preparing calls of the swap: \<open>.previous\<close> is cleared, then takes the live generation if there is one.\<close>

lemma clear_previous:
  assumes "(if t (par @ [p]) \<noteq> None then remove_dir_all out t (par @ [p]) else (True, t)) = (ok, t')"
  shows "c \<noteq> p \<Longrightarrow> generation t' (par @ [c]) = generation t (par @ [c])" and "ok \<Longrightarrow> t' (par @ [p]) = None"
  using assms remove_generation [of out t par p ok t'] by (auto simp: generation_at split: if_splits)

lemma move_current:
  assumes "(if t (par @ [n]) \<noteq> None then rename ok0 t (par @ [n]) (par @ [p]) else (True, t)) = (ok, t')" "n \<noteq> p"
  shows "c \<noteq> n \<Longrightarrow> c \<noteq> p \<Longrightarrow> generation t' (par @ [c]) = generation t (par @ [c])"
    and "ok \<Longrightarrow> t' (par @ [n]) = None"
    and "ok \<Longrightarrow> t (par @ [n]) \<noteq> None \<Longrightarrow>
      generation t' (par @ [p]) = generation t (par @ [n]) \<and> generation t' (par @ [n]) = Map.empty"
    and "\<not> ok \<or> t (par @ [n]) = None \<Longrightarrow> t' = t"
  using assms rename_generation [of ok0 t par n p t'] rename_False [of ok0 t "par @ [n]" "par @ [p]" t']
  by (auto simp: generation_at split: if_splits; cases ok; simp)+

lemma move_back:
  assumes "p \<noteq> n"
  shows "snd (rename ok t (par @ [p]) (par @ [n])) = t
      \<or> generation (snd (rename ok t (par @ [p]) (par @ [n]))) (par @ [n]) = generation t (par @ [p])"
    and "ok \<Longrightarrow> t (par @ [p]) \<noteq> None \<Longrightarrow> t (par @ [n]) = None
      \<Longrightarrow> generation (snd (rename ok t (par @ [p]) (par @ [n]))) (par @ [n]) = generation t (par @ [p])"
  using assms by (auto simp: rename_def generation_def)

lemma apply_update_swap:
  assumes upd: "apply_update env t (par @ [s]) (par @ [n]) = (r, ts)" and s: "s \<noteq> n" "s \<noteq> n @ ''.previous''"
  shows "\<forall>u \<in> set ts. swap_state (generation t (par @ [n])) (generation t (par @ [s])) (par @ [n]) u"
    and "r = Inr () \<Longrightarrow> generation (final t ts) (par @ [n]) = generation t (par @ [s])"
    and "r = Inr () \<Longrightarrow> t (par @ [n]) \<noteq> None
      \<Longrightarrow> generation (final t ts) (par @ [n @ ''.previous'']) = generation t (par @ [n])"
    and "r = Inl e \<Longrightarrow> mv_back env \<Longrightarrow> generation (final t ts) (par @ [n]) = generation t (par @ [n])"
proof -
  define p where "p = n @ ''.previous''"
  have p: "n \<noteq> p" "p \<noteq> n" "s \<noteq> p" using s by (auto simp: p_def)
  obtain ok1 t1 where 1: "(if t (par @ [p]) \<noteq> None then remove_dir_all (rm_previous env) t (par @ [p]) else (True, t)) = (ok1, t1)"
    by fastforce
  obtain ok2 t2 where 2: "(if t1 (par @ [n]) \<noteq> None then rename (mv_current env) t1 (par @ [n]) (par @ [p]) else (True, t1)) = (ok2, t2)"
    by fastforce
  obtain ok3 t3 where 3: "rename (mv_staged env) t2 (par @ [s]) (par @ [n]) = (ok3, t3)" by fastforce
  note c1 = clear_previous [OF 1] and c2 = move_current [OF 2 p(1)]
  note g1 = c1(1) [OF p(1)] c1(1) [OF p(3)] and g2 = c2(1) [OF s(1) p(3)]
  note g3 = rename_generation [OF _ s(1), of "mv_staged env" t2 par t3]
  note defs = apply_update_def Let_def p_def [symmetric] 1 2 3 previous_path_sibling
  have cases: "(\<exists>e. r = Inl e \<and> ts = []) \<or> (\<exists>e. r = Inl e \<and> \<not> ok1 \<and> ts = [t1]) \<or> (\<exists>e. r = Inl e \<and> ok1 \<and> \<not> ok2 \<and> ts = [t1, t2])
     \<or> (ok1 \<and> ok2 \<and> ok3 \<and> r = Inr () \<and> ts = [t1, t2, t3])
     \<or> (\<exists>e. ok1 \<and> ok2 \<and> \<not> ok3 \<and> r = Inl e \<and> ts = [t1, t2, t3] @ (if t1 (par @ [n]) \<noteq> None then [snd (rename (mv_back env) t3 (par @ [p]) (par @ [n]))] else []))"
    using upd unfolding apply_update_def Let_def previous_path_sibling p_def [symmetric] 1 prod.case 2 3
    by (auto split: if_splits bool.splits)
  note st = swap_state_def [of "generation t (par @ [n])" "generation t (par @ [s])" "par @ [n]", unfolded previous_path_sibling,
    folded p_def]
  have s1: "generation t1 (par @ [n]) = generation t (par @ [n])" "generation t1 (par @ [s]) = generation t (par @ [s])"
    using g1 by simp_all
  have s2: "generation t2 (par @ [n]) = generation t (par @ [n])
      \<or> generation t2 (par @ [n]) = Map.empty \<and> generation t2 (par @ [p]) = generation t (par @ [n])"
    using c2(3,4) s1(1) by (cases "ok2 \<and> t1 (par @ [n]) \<noteq> None") auto
  have s3: "if ok3 then generation t3 (par @ [n]) = generation t (par @ [s]) else t3 = t2"
    using 3 g3(1) g2 s1(2) rename_False [of "mv_staged env" t2 "par @ [s]" "par @ [n]" t3] by auto
  have moved: "ok2 \<Longrightarrow> t1 (par @ [n]) \<noteq> None \<Longrightarrow> generation t2 (par @ [p]) = generation t (par @ [n])"
    using c2(3) s1(1) by simp
  note bk = move_back [OF p(2), of "mv_back env" t3 par]
  show "\<forall>u \<in> set ts. swap_state (generation t (par @ [n])) (generation t (par @ [s])) (par @ [n]) u"
    using cases s1(1) s2 s3 bk(1) moved unfolding st by (auto split: if_splits)
  show "r = Inr () \<Longrightarrow> generation (final t ts) (par @ [n]) = generation t (par @ [s])"
    using cases s3 by (auto simp: final_def)
  show "r = Inr () \<Longrightarrow> t (par @ [n]) \<noteq> None \<Longrightarrow> generation (final t ts) (par @ [n @ ''.previous'']) = generation t (par @ [n])"
    using cases 3 moved g3(3) [of p] p s1(1) by (auto simp: final_def p_def [symmetric] generation_at)
  assume r: "r = Inl e" and mv: "mv_back env"
  have "ok2 \<Longrightarrow> t1 (par @ [n]) \<noteq> None \<Longrightarrow> t2 (par @ [p]) \<noteq> None" using moved s1(1) by (simp add: generation_at)
  then show "generation (final t ts) (par @ [n]) = generation t (par @ [n])"
    using cases r s1(1) c2(2,4) s3 bk(2) [OF mv] moved by (auto simp: final_def split: if_splits)
qed

text \<open>Rolling back after a successful update brings the generation from before it back.\<close>

lemma rollback_after_update:
  assumes upd: "apply_update env t (par @ [s]) (par @ [n]) = (Inr (), ts)" and s: "s \<noteq> n" "s \<noteq> n @ ''.previous''"
    and live: "is_directory t (par @ [n])" and rolled: "rollback env' (final t ts) (par @ [n]) = (Inr b, us)"
  shows "b \<and> generation (final (final t ts) us) (par @ [n]) = generation t (par @ [n])"
proof -
  let ?t = "final t ts" and ?p = "n @ ''.previous''"
  have prev: "generation ?t (par @ [?p]) = generation t (par @ [n])"
    using apply_update_swap(3) [OF upd s] live by (simp add: is_directory_def)
  then have dir: "is_directory ?t (par @ [?p])" using live by (simp add: is_directory_def generation_at)
  obtain ok1 t1 where 1: "(if ?t (par @ [n]) \<noteq> None then remove_dir_all (rm_current env') ?t (par @ [n]) else (True, ?t)) = (ok1, t1)"
    by fastforce
  obtain ok2 t2 where 2: "rename (mv_previous env') t1 (par @ [?p]) (par @ [n]) = (ok2, t2)" by fastforce
  have "b" "ok2" "us = [t1, t2]"
    using rolled dir unfolding rollback_def Let_def previous_path_sibling 1 by (auto simp: 2 split: if_splits bool.splits)
  moreover have "generation t1 (par @ [?p]) = generation ?t (par @ [?p])" by (rule clear_previous(1) [OF 1]) simp
  ultimately show ?thesis using rename_generation(1) [of "mv_previous env'" t1 par ?p n t2] 2 prev by (simp add: final_def)
qed

section \<open>Staging\<close>

definition plain_name :: "string \<Rightarrow> bool" where
  "plain_name n \<longleftrightarrow> n \<notin> {[], ''.'', ''..''} \<and> CHR ''/'' \<notin> set n"

lemma split_slash_plain: "CHR ''/'' \<notin> set n \<Longrightarrow> split_slash n = [n]"
  by (induction n) auto

lemma write_plain:
  assumes "plain_name n" "is_directory t d"
  shows "write_file env t d n data = (case write_outcome env n of
      None \<Rightarrow> if is_directory t (d @ [n]) then (False, t) else (True, t(d @ [n] \<mapsto> Plain data))
    | Some None \<Rightarrow> (False, t)
    | Some (Some left) \<Rightarrow> if is_directory t (d @ [n]) then (False, t) else (False, t(d @ [n] \<mapsto> Plain left)))"
proof -
  have n: "split_slash n = [n]" "n \<noteq> []" "CHR ''/'' \<notin> set n" "n \<noteq> ''.''" "n \<noteq> ''..''"
    using assms(1) by (auto simp: plain_name_def split_slash_plain)
  moreover from n(2,3) have "hd n \<noteq> CHR ''/''" "last n \<noteq> CHR ''/''" using hd_in_set last_in_set by metis+
  ultimately show ?thesis using assms(2) by (simp add: write_file_def join_path_def split: option.splits)
qed

lemma write_sibling:
  assumes "write_file env t (par @ [s]) n data = (ok, t')" "plain_name n" "is_directory t (par @ [s])" "s \<noteq> c"
  shows "generation t' (par @ [c]) = generation t (par @ [c])"
  using assms by (auto simp: write_plain generation_def split: option.splits if_splits)

text \<open>Staging files with plain names writes those files below the staging directory and nothing else.\<close>

lemma stage_files_local:
  assumes "stage_files L env d t fs = (r, ts)" "is_directory t d" "\<forall>f \<in> set fs. plain_name (mf_name f)"
  shows "\<forall>u \<in> set ts. is_directory u d \<and> (\<forall>x. x \<notin> (\<lambda>f. d @ [mf_name f]) ` set fs \<longrightarrow> u x = t x)"
  using assms
proof (induction fs arbitrary: t r ts)
  case (Cons f fs)
  obtain data where data: "ul_get L (mf_url f) = Inr data \<and> verify_sha256 L data (mf_sha256 f) = Inr () \<or> ts = []"
    using Cons.prems(1) by (auto split: sum.splits)
  show ?case
  proof (cases "ts = []")
    case False
    obtain ok t' where w: "write_file env t d (mf_name f) data = (ok, t')" by fastforce
    have t': "is_directory t' d" "x \<noteq> d @ [mf_name f] \<Longrightarrow> t' x = t x" for x
      using w Cons.prems(2,3) by (auto simp: write_plain is_directory_def split: option.splits if_splits)
    obtain r' ts' where rest: "stage_files L env d t' fs = (r', ts')" by fastforce
    have "ts = [t'] \<or> ts = t' # ts'" using Cons.prems(1) data w rest False by (auto split: bool.splits)
    moreover have "\<forall>u \<in> set ts'. is_directory u d \<and> (\<forall>x. x \<notin> (\<lambda>f. d @ [mf_name f]) ` set fs \<longrightarrow> u x = t' x)"
      using Cons.IH [OF rest t'(1)] Cons.prems(3) by simp
    ultimately show ?thesis using t' by fastforce
  qed simp
qed simp

lemma stage_files_final:
  assumes "stage_files L env d t fs = (r, ts)" "is_directory t d" "\<forall>f \<in> set fs. plain_name (mf_name f)"
  shows "is_directory (final t ts) d" and "x \<notin> (\<lambda>f. d @ [mf_name f]) ` set fs \<Longrightarrow> final t ts x = t x"
  using stage_files_local [OF assms] assms(2) last_in_set [of ts] by (cases "ts = []"; force simp: final_def)+

lemma first_duplicate_None: "first_duplicate seen fs = None \<Longrightarrow> distinct (map mf_name fs) \<and> seen \<inter> mf_name ` set fs = {}"
  by (induction fs arbitrary: seen) (auto split: if_splits)

lemma stage_files_complete:
  assumes "stage_files L env d t fs = (None, ts)" "is_directory t d" "\<forall>f \<in> set fs. plain_name (mf_name f)"
    and "distinct (map mf_name fs)"
  shows "\<forall>f \<in> set fs. \<exists>data. ul_get L (mf_url f) = Inr data \<and> verify_sha256 L data (mf_sha256 f) = Inr ()
     \<and> final t ts (d @ [mf_name f]) = Some (Plain data)"
  using assms
proof (induction fs arbitrary: t ts)
  case (Cons f fs)
  obtain data where data: "ul_get L (mf_url f) = Inr data" "verify_sha256 L data (mf_sha256 f) = Inr ()"
    using Cons.prems(1) by (auto split: sum.splits)
  obtain ok t' where w: "write_file env t d (mf_name f) data = (ok, t')" by fastforce
  obtain r' ts' where rest: "stage_files L env d t' fs = (r', ts')" by fastforce
  have ts: "ok" "r' = None" "ts = t' # ts'" using Cons.prems(1) data w rest by (auto split: bool.splits)
  have t': "is_directory t' d" "t' (d @ [mf_name f]) = Some (Plain data)"
    using w ts(1) Cons.prems(2,3) by (auto simp: write_plain is_directory_def split: option.splits if_splits)
  have fin: "final t ts = final t' ts'" by (simp add: final_def ts(3))
  have "final t' ts' (d @ [mf_name f]) = t' (d @ [mf_name f])"
    using Cons.prems(3,4) by (intro stage_files_final(2) [OF rest t'(1)]) auto
  then show ?case using data t'(2) Cons.IH [OF _ t'(1), of ts'] rest ts Cons.prems(3,4) fin by auto
qed simp

section \<open>Updates\<close>

text \<open>A directory that holds what the manifest lists, verified, with the version, and nothing else.\<close>

definition installed :: "update_libs \<Rightarrow> manifest \<Rightarrow> tree \<Rightarrow> bool" where
  "installed L m g \<longleftrightarrow> g [] = Some Dir \<and> g [sigversion] = Some (Plain (version_bytes m))
     \<and> (\<forall>f \<in> set (mf_files m). mf_name f \<noteq> sigversion \<longrightarrow>
          (\<exists>data. ul_get L (mf_url f) = Inr data \<and> verify_sha256 L data (mf_sha256 f) = Inr () \<and> g [mf_name f] = Some (Plain data)))
     \<and> (\<forall>x. g x \<noteq> None \<longrightarrow> x = [] \<or> x = [sigversion] \<or> x \<in> (\<lambda>f. [mf_name f]) ` set (mf_files m))"

lemma staged_installed:
  assumes stage: "stage_files L env d (t(d \<mapsto> Dir)) (mf_files m) = (None, ts)"
    and wrote: "write_file env (final (t(d \<mapsto> Dir)) ts) d sigversion (version_bytes m) = (True, t1)"
    and fresh: "generation t d = Map.empty" and names: "\<forall>f \<in> set (mf_files m). plain_name (mf_name f)" "distinct (map mf_name (mf_files m))"
  shows "installed L m (generation t1 d)"
proof -
  let ?t0 = "t(d \<mapsto> Dir)"
  have dir: "is_directory ?t0 d" by (simp add: is_directory_def)
  have "plain_name sigversion" by (simp add: plain_name_def sigversion_def)
  then have t1: "t1 = (final ?t0 ts)(d @ [sigversion] \<mapsto> Plain (version_bytes m))"
    using wrote stage_files_final(1) [OF stage dir names(1)] by (auto simp: write_plain split: option.splits if_splits)
  have other: "x = [] \<or> x \<in> (\<lambda>f. [mf_name f]) ` set (mf_files m)" if "final ?t0 ts (d @ x) \<noteq> None" for x
  proof (rule ccontr)
    assume "\<not> ?thesis"
    then show False using stage_files_final(2) [OF stage dir names(1), of "d @ x"] fresh that
      by (auto simp: generation_def fun_eq_iff image_iff)
  qed
  have at: "final ?t0 ts d = Some Dir" using stage_files_final(1) [OF stage dir names(1)] by (simp add: is_directory_def)
  show ?thesis unfolding installed_def
  proof (intro conjI ballI allI impI)
    fix x assume "generation t1 d x \<noteq> None"
    then show "x = [] \<or> x = [sigversion] \<or> x \<in> (\<lambda>f. [mf_name f]) ` set (mf_files m)"
      using other [of x] by (auto simp: t1 generation_def split: if_splits)
  qed (use stage_files_complete [OF stage dir names] at in \<open>auto simp: t1 generation_def\<close>)
qed

text \<open>What a scanner finds at the live directory in a state of an update.\<close>

definition update_state :: "update_libs \<Rightarrow> manifest \<Rightarrow> tree \<Rightarrow> components \<Rightarrow> tree \<Rightarrow> bool" where
  "update_state L m old sig u \<longleftrightarrow> generation u sig = old \<or> installed L m (generation u sig)
     \<or> generation u sig = Map.empty \<and> generation u (previous_path sig) = old"

lemma stage_files_sibling:
  assumes "stage_files L env (par @ [s]) (t(par @ [s] \<mapsto> Dir)) fs = (r, ts)" "\<forall>f \<in> set fs. plain_name (mf_name f)" "s \<noteq> c"
  shows "\<forall>u \<in> set (t(par @ [s] \<mapsto> Dir) # ts). generation u (par @ [c]) = generation t (par @ [c])"
  using stage_files_local [OF assms(1) _ assms(2)] assms(3) by (auto simp: generation_def is_directory_def fun_eq_iff image_iff)

lemma drop_staging_sibling:
  assumes "\<forall>u \<in> set (t # ts). generation u (par @ [c]) = g" "s \<noteq> c"
  shows "\<forall>u \<in> set (drop_staging env (par @ [s]) t ts). generation u (par @ [c]) = g"
    "generation (final t (drop_staging env (par @ [s]) t ts)) (par @ [c]) = g"
proof -
  have "final t ts \<in> set (t # ts)" unfolding final_def by (rule last_in_set) simp
  then have "generation (snd (remove_dir_all (cleanup_outcome env) (final t ts) (par @ [s]))) (par @ [c]) = g"
    using assms remove_generation(1) [of "cleanup_outcome env" "final t ts" par s _ _ c]
    by (cases "remove_dir_all (cleanup_outcome env) (final t ts) (par @ [s])") auto
  then show "\<forall>u \<in> set (drop_staging env (par @ [s]) t ts). generation u (par @ [c]) = g"
    "generation (final t (drop_staging env (par @ [s]) t ts)) (par @ [c]) = g"
    using assms(1) by (auto simp: drop_staging_def final_def)
qed

lemma install_states:
  assumes inst: "install L env t (par @ [n]) m = (r, ts)" and s: "staging_name env \<noteq> n" "staging_name env \<noteq> n @ ''.previous''"
    and fresh: "generation t (par @ [staging_name env]) = Map.empty"
    and names: "\<forall>f \<in> set (mf_files m). plain_name (mf_name f)" "distinct (map mf_name (mf_files m))"
  shows "\<forall>u \<in> set ts. update_state L m (generation t (par @ [n])) (par @ [n]) u"
    and "r = Inr v \<Longrightarrow> v = mf_version m \<and> installed L m (generation (final t ts) (par @ [n]))"
    and "r = Inl e \<Longrightarrow> mv_back (swap env) \<Longrightarrow> generation (final t ts) (par @ [n]) = generation t (par @ [n])"
proof -
  define d where "d = par @ [staging_name env]"
  let ?t0 = "t(d \<mapsto> Dir)" and ?old = "generation t (par @ [n])"
  obtain e ts0 where stage: "stage_files L env d ?t0 (mf_files m) = (e, ts0)" by fastforce
  obtain ok t1 where wrote: "write_file env (final ?t0 ts0) d sigversion (version_bytes m) = (ok, t1)" by fastforce
  obtain r' us where swp: "apply_update (swap env) t1 d (par @ [n]) = (r', us)" by fastforce
  note staged = stage_files_sibling [OF stage [unfolded d_def] names(1) s(1), folded d_def]
  have dir: "is_directory (final ?t0 ts0) d" by (rule stage_files_final(1) [OF stage _ names(1)]) (simp add: is_directory_def)
  have "plain_name sigversion" by (simp add: plain_name_def sigversion_def)
  from write_sibling [OF wrote [unfolded d_def] this dir [unfolded d_def] s(1), folded d_def]
  have t1: "generation t1 (par @ [n]) = ?old"
    using bspec [OF staged last_in_set [of "?t0 # ts0"]] by (simp add: final_def)
  have new: "e = None \<Longrightarrow> ok \<Longrightarrow> installed L m (generation t1 d)"
    using staged_installed [of L env d t m ts0 t1] stage wrote fresh names by (simp add: d_def)
  note sw = apply_update_swap [OF swp [unfolded d_def] s, unfolded t1, folded d_def]
  have drop: "\<forall>u \<in> set (drop_staging env d t xs). update_state L m ?old (par @ [n]) u"
      "generation (final t (drop_staging env d t xs)) (par @ [n]) = ?old"
    if "\<forall>u \<in> set xs. generation u (par @ [n]) = ?old" for xs
    using drop_staging_sibling [of t xs par n ?old "staging_name env" env] that s(1) by (simp_all add: d_def update_state_def)
  have us: "e = None \<Longrightarrow> ok \<Longrightarrow> \<forall>u \<in> set us. update_state L m ?old (par @ [n]) u"
    using sw(1) new by (auto simp: swap_state_def update_state_def)
  have fin: "final t (?t0 # ts0 @ t1 # us) = final t1 us" by (simp add: final_def)
  have "\<forall>u \<in> set (?t0 # ts0 @ [t1]). generation u (par @ [n]) = ?old" using staged t1 by auto
  note keep = this drop(1) [OF staged] drop(2) [OF staged] drop(1) [OF this] drop(2) [OF this]
  have cases: "ts = [] \<and> r = Inl StagingFailed
     \<or> (\<exists>e'. e = Some e' \<and> r = Inl e' \<and> ts = drop_staging env d t (?t0 # ts0))
     \<or> e = None \<and> \<not> ok \<and> r = Inl (WriteFailed sigversion) \<and> ts = drop_staging env d t (?t0 # ts0 @ [t1])
     \<or> e = None \<and> ok \<and> ts = ?t0 # ts0 @ t1 # us \<and> (r' = Inr () \<and> r = Inr (mf_version m) \<or> (\<exists>e'. r' = Inl e' \<and> r = Inl (ApplyFailed e')))"
    using inst unfolding install_def by (auto simp: Let_def d_def [symmetric] stage wrote swp split: if_splits option.splits bool.splits sum.splits)
  show "\<forall>u \<in> set ts. update_state L m ?old (par @ [n]) u"
    using cases keep us by (auto simp: update_state_def)
  show "r = Inr v \<Longrightarrow> v = mf_version m \<and> installed L m (generation (final t ts) (par @ [n]))"
    using cases sw(2) new fin by auto
  show "r = Inl e2 \<Longrightarrow> mv_back (swap env) \<Longrightarrow> generation (final t ts) (par @ [n]) = ?old" for e2
    using cases keep sw(4) fin by (auto simp: final_def)
qed

definition names_plain :: "update_libs \<Rightarrow> update_args \<Rightarrow> bool" where
  "names_plain L args \<longleftrightarrow> (\<forall>b m. ul_get L (manifest_url args) = Inr b \<longrightarrow> parse_manifest L b = Inr m
     \<longrightarrow> list_all (\<lambda>f. plain_name (mf_name f)) (mf_files m))"

definition staging_fresh :: "update_env \<Rightarrow> update_args \<Rightarrow> tree \<Rightarrow> bool" where
  "staging_fresh env args t \<longleftrightarrow> sig_dir args \<noteq> [] \<and> staging_name env \<noteq> last (sig_dir args)
     \<and> staging_name env \<noteq> last (sig_dir args) @ ''.previous'' \<and> generation t (butlast (sig_dir args) @ [staging_name env]) = Map.empty"

text \<open>The manifest that an update accepts: fetched, signed if a key is configured, and well formed.\<close>

definition accepted :: "update_libs \<Rightarrow> update_args \<Rightarrow> manifest \<Rightarrow> bool" where
  "accepted L args m \<longleftrightarrow> (\<exists>b. ul_get L (manifest_url args) = Inr b \<and> check_signature L args b = None \<and> parse_manifest L b = Inr m)"

lemma run_update_cases:
  assumes "run_update L env args t = (r, ts)"
  shows "ts = [] \<and> ((\<exists>e. r = Inl e) \<or> dry_run args)
     \<or> (\<exists>m. accepted L args m \<and> \<not> dry_run args \<and> install L env t (sig_dir args) m = (r, ts))"
  using assms unfolding run_update_def accepted_def by (auto split: sum.splits option.splits if_splits)

lemma parse_manifest_distinct: "parse_manifest L b = Inr m \<Longrightarrow> distinct (map mf_name (mf_files m))"
  using first_duplicate_None by (force simp: parse_manifest_def split: option.splits if_splits)


text \<open>The new generation takes the place of the old one in two renames: a successful update over a live directory goes through a
  state without one.\<close>

lemma swap_has_gap:
  assumes "apply_update env t (par @ [s]) (par @ [n]) = (Inr (), ts)" "t (par @ [n]) \<noteq> None"
  shows "\<exists>u \<in> set ts. u (par @ [n]) = None"
  using assms by (auto simp: apply_update_def Let_def rename_def split: if_splits prod.splits)

text \<open>A live directory with one file, and a distribution point.\<close>

definition sample_tree :: tree where
  "sample_tree p = (if p = [] \<or> p = [''s''] then Some Dir else if p = [''s'', ''a''] then Some (Plain [0]) else None)"

definition sample_update_libs :: "manifest_file list \<Rightarrow> update_libs" where
  "sample_update_libs fs = \<lparr>ul_get = (\<lambda>u. if u = ''m'' then Inr [1] else if u = ''f'' then Inr [7] else Inr [9]),
     ul_sha256_hex = (\<lambda>d. if d = [7] then ''aa'' else ''bb''), ul_hex_decode = (\<lambda>s. if s = ''aa'' then Some [0xAA] else Some [0xBB]),
     ul_key_ok = (\<lambda>_. True), ul_verify = (\<lambda>_ _ _. True), ul_lossy = (\<lambda>_. []),
     ul_from_json = (\<lambda>_. Some \<lparr>mf_version = ''v1'', mf_files = fs\<rparr>)\<rparr>"

definition sample_update_env :: update_env where
  "sample_update_env = \<lparr>staging_name = ''.st'', staging_ok = True, write_outcome = (\<lambda>_. None), cleanup_outcome = None,
     swap = \<lparr>rm_previous = None, mv_current = True, mv_staged = True, mv_back = True\<rparr>\<rparr>"

definition sample_args :: update_args where
  "sample_args = \<lparr>manifest_url = ''m'', sig_dir = [''s''], public_key = None, dry_run = False\<rparr>"

definition entry :: "string \<Rightarrow> string \<Rightarrow> manifest_file" where
  "entry n u = \<lparr>mf_name = n, mf_sha256 = ''aa'', mf_url = u\<rparr>"

lemmas sample_update_defs = sample_update_libs_def sample_update_env_def sample_args_def entry_def run_update_def check_signature_def
  parse_manifest_def install_def verify_sha256_def

lemma sample_staging_fresh: "staging_fresh sample_update_env sample_args sample_tree"
  by (simp add: staging_fresh_def sample_update_env_def sample_args_def generation_def sample_tree_def fun_eq_iff)

lemma sample_update_run:
  "fst (run_update (sample_update_libs [entry ''a'' ''f'']) sample_update_env sample_args sample_tree) = Inr ''v1''"
  by (simp add: sample_update_defs Let_def write_file_def join_path_def sigversion_def version_bytes_def is_directory_def
    sample_tree_def final_def apply_update_def previous_path_def rename_def starts_with_def)


text \<open>Names are joined to the staging directory unchecked.  A manifest whose first name leads out of it and into the live directory
  has that file written there at once, although the update then fails on the next file.\<close>

lemma traversal_changes_live:
  "\<exists>e ts. run_update (sample_update_libs [entry ''../s/a'' ''f'', entry ''b'' ''g'']) sample_update_env sample_args sample_tree = (Inl e, ts)
     \<and> sample_tree [''s'', ''a''] = Some (Plain [0]) \<and> final sample_tree ts [''s'', ''a''] = Some (Plain [7])"
  by (simp add: sample_update_defs Let_def write_file_def join_path_def is_directory_def sample_tree_def final_def drop_staging_def
    remove_dir_all_def starts_with_def)

end
