(* ===== verification/Realtime_Scan.thy ===== *)
theory Realtime_Scan
  imports Scan_Daemon Siem_Correlation "HOL-Library.List_Lexorder" "HOL-Library.Char_ord"
begin

text \<open>
  The two loops that react to changed files: the on-access monitor (\<^verbatim>\<open>rust-clam/crates/rclam-watch\<close>) and the ClamAV lane of the
  correlation engine (\<^verbatim>\<open>bridges/asd-clamav-bridge\<close>).  Both scan what they read with the scanner, put detected files into the
  vault and remove them; the lane also submits evidence.  File notification is a parameter: the events, in the order in which they are
  received, are the input, and so is what happens to files in between and during a reaction.
\<close>

section \<open>Paths\<close>

definition path_text :: "components \<Rightarrow> string" where
  "path_text p = concat (map (\<lambda>c. CHR ''/'' # c) p)"

text \<open>\<^verbatim>\<open>Path::extension\<close>: what follows the last dot of the file name, unless that dot is its first character.\<close>

definition extension :: "components \<Rightarrow> string option" where
  "extension p =
     (if p = [] then None
      else let n = last p; ext = rev (takeWhile (\<lambda>c. c \<noteq> CHR ''.'') (rev n))
           in if length n \<le> length ext + 1 then None else Some ext)"

section \<open>Reactions\<close>

text \<open>What the system does during one reaction: the time, whether the file can be read, the quarantine, a write by somebody else between
  the read and the removal, and whether the removal works.\<close>

record react_env =
  re_now :: instant
  re_read_error :: "string option"
  re_quarantine :: quarantine_env
  re_race :: "bytes option"
  re_remove :: bool

definition read_file :: "react_env \<Rightarrow> vault \<Rightarrow> string \<Rightarrow> string + bytes" where
  "read_file env v path =
     (case re_read_error env of
        Some e \<Rightarrow> Inl e
      | None \<Rightarrow> (case outside v path of None \<Rightarrow> Inl ''No such file or directory'' | Some data \<Rightarrow> Inr data))"

definition race :: "react_env \<Rightarrow> vault \<Rightarrow> string \<Rightarrow> vault" where
  "race env v path = (case re_race env of None \<Rightarrow> v | Some b \<Rightarrow> v\<lparr>outside := (outside v)(path \<mapsto> b)\<rparr>)"

definition remove_file :: "react_env \<Rightarrow> vault \<Rightarrow> string \<Rightarrow> bool \<times> vault" where
  "remove_file env v path =
     (if re_remove env \<and> outside v path \<noteq> None then (True, v\<lparr>outside := (outside v)(path := None)\<rparr>) else (False, v))"

section \<open>The monitor\<close>

record watch_config =
  excluded_paths :: "components list"
  excluded_extensions :: "string list"
  wc_debounce :: duration
  auto_quarantine :: bool

definition watch_config_default :: watch_config where
  "watch_config_default = \<lparr>excluded_paths = [], excluded_extensions = [], wc_debounce = 500000000, auto_quarantine = False\<rparr>"

definition is_excluded :: "watch_config \<Rightarrow> components \<Rightarrow> bool" where
  "is_excluded cfg path \<longleftrightarrow> (\<exists>p \<in> set (excluded_paths cfg). starts_with path p)
     \<or> (case extension path of None \<Rightarrow> False | Some ext \<Rightarrow> \<exists>e \<in> set (excluded_extensions cfg). eq_ignore_ascii_case e ext)"

datatype reaction =
    ReactClean
  | Quarantined "string list" string
  | InfectedNotQuarantined "string list"
  | ReactSkipped scan_reason
  | ReactError string

fun report_detections :: "file_report \<Rightarrow> string list" where
  "report_detections r =
     (case fr_verdict r of Infected ds \<Rightarrow> map d_name ds | LimitExceeded ds _ \<Rightarrow> map d_name ds | _ \<Rightarrow> [])"

fun first_reason :: "file_report list \<Rightarrow> scan_reason option" where
  "first_reason [] = None"
| "first_reason (r # rs) =
     (case fr_verdict r of Skipped reason \<Rightarrow> Some reason | LimitExceeded _ reason \<Rightarrow> Some reason | _ \<Rightarrow> first_reason rs)"

definition scan_and_react ::
  "scan_world \<Rightarrow> scanner \<Rightarrow> crypto \<Rightarrow> watch_config \<Rightarrow> react_env \<Rightarrow> vault \<Rightarrow> components \<Rightarrow> reaction \<times> vault"
where
  "scan_and_react W sc cr cfg env v p =
     (let path = path_text p
      in case read_file env v path of
           Inl e \<Rightarrow> (ReactError e, v)
         | Inr data \<Rightarrow>
             (let reports = scan_in_memory W sc path data;
                  found = concat (map report_detections reports)
              in if found \<noteq> [] then
                   (let names = remdups_adj (sort found)
                    in if auto_quarantine cfg then
                         (case quarantine_bytes cr (re_quarantine env) v path data (join_with '', '' names) of
                            (VOk r, v') \<Rightarrow> (Quarantined names (vr_id r), snd (remove_file env (race env v' path) path))
                          | (_, v') \<Rightarrow> (InfectedNotQuarantined names, v'))
                       else (InfectedNotQuarantined names, v))
                 else (case first_reason reports of Some reason \<Rightarrow> (ReactSkipped reason, v) | None \<Rightarrow> (ReactClean, v))))"

datatype event_kind = Create | Modify | OtherKind

text \<open>The loop over the paths of an event, with the environment of each reaction.  The debounce test of both loops is the same.\<close>

definition debounced :: "(components, instant) tbl \<Rightarrow> duration \<Rightarrow> instant \<Rightarrow> components \<Rightarrow> bool" where
  "debounced last_seen debounce now p \<longleftrightarrow>
     (case tbl_get last_seen p of None \<Rightarrow> False | Some prev \<Rightarrow> duration_since now prev < debounce)"

record monitor =
  mo_last_seen :: "(components, instant) tbl"
  mo_vault :: vault
  mo_outcomes :: "(components \<times> reaction) list"

definition monitor_path ::
  "scan_world \<Rightarrow> scanner \<Rightarrow> crypto \<Rightarrow> watch_config \<Rightarrow> monitor \<Rightarrow> components \<times> react_env \<Rightarrow> monitor"
where
  "monitor_path W sc cr cfg mo pe =
     (case pe of (p, env) \<Rightarrow>
        if outside (mo_vault mo) (path_text p) = None \<or> is_excluded cfg p then mo
        else if debounced (mo_last_seen mo) (wc_debounce cfg) (re_now env) p then mo
        else (case scan_and_react W sc cr cfg env (mo_vault mo) p of
                (r, v) \<Rightarrow> \<lparr>mo_last_seen = tbl_insert (mo_last_seen mo) p (re_now env), mo_vault = v, mo_outcomes = mo_outcomes mo @ [(p, r)]\<rparr>))"

definition handle_event ::
  "scan_world \<Rightarrow> scanner \<Rightarrow> crypto \<Rightarrow> watch_config \<Rightarrow> monitor \<Rightarrow> event_kind \<Rightarrow> (components \<times> react_env) list \<Rightarrow> monitor"
where
  "handle_event W sc cr cfg mo kind paths =
     (if kind = Create \<or> kind = Modify then foldl (monitor_path W sc cr cfg) mo paths else mo)"

section \<open>The lane\<close>

record host_watch_target =
  ht_path :: components
  ht_host :: ipaddr

definition host_by_path :: "host_watch_target list \<Rightarrow> (components, ipaddr) tbl" where
  "host_by_path targets = foldl (\<lambda>t g. tbl_insert t (ht_path g) (ht_host g)) [] targets"

fun report_worst :: "file_report \<Rightarrow> detection list option" where
  "report_worst r =
     (case fr_verdict r of
        Infected ds \<Rightarrow> Some ds
      | LimitExceeded ds _ \<Rightarrow> if ds \<noteq> [] then Some ds else None
      | _ \<Rightarrow> None)"

fun worst_detections :: "file_report list \<Rightarrow> detection list option" where
  "worst_detections [] = None"
| "worst_detections (r # rs) = (case report_worst r of Some ds \<Rightarrow> Some ds | None \<Rightarrow> worst_detections rs)"

record lane =
  ln_last_seen :: "(components, instant) tbl"
  ln_vault :: vault
  ln_inbox :: "corr_event list \<times> corr_metrics"

definition scan_react_and_submit ::
  "scan_world \<Rightarrow> scanner \<Rightarrow> crypto \<Rightarrow> react_env \<Rightarrow> bool \<Rightarrow> components \<Rightarrow> ipaddr \<Rightarrow> lane \<Rightarrow> lane"
where
  "scan_react_and_submit W sc cr env accepted p host la =
     (let path = path_text p
      in case read_file env (ln_vault la) path of
           Inl _ \<Rightarrow> la
         | Inr data \<Rightarrow>
             (case worst_detections (scan_in_memory W sc path data) of
                None \<Rightarrow> la
              | Some ds \<Rightarrow>
                  (let signature = join_with '', '' (map d_name ds);
                       (quarantined, v) =
                         (case quarantine_bytes cr (re_quarantine env) (ln_vault la) path data signature of
                            (VOk r, v') \<Rightarrow> remove_file env (race env v' path) path
                          | (_, v') \<Rightarrow> (False, v'))
                   in la\<lparr>ln_vault := v,
                       ln_inbox := Siem_Correlation.submit (clamav_event host (last p) signature quarantined (re_now env)) accepted (ln_inbox la)\<rparr>)))"

definition lane_debounce :: duration where
  "lane_debounce = 500000000"

definition lane_path ::
  "scan_world \<Rightarrow> scanner \<Rightarrow> crypto \<Rightarrow> (components, ipaddr) tbl \<Rightarrow> lane \<Rightarrow> components \<times> react_env \<times> bool \<Rightarrow> lane"
where
  "lane_path W sc cr hosts la pe =
     (case pe of (p, env, accepted) \<Rightarrow>
        if outside (ln_vault la) (path_text p) = None then la
        else if debounced (ln_last_seen la) lane_debounce (re_now env) p then la
        else
          (let la = la\<lparr>ln_last_seen := tbl_insert (ln_last_seen la) p (re_now env)\<rparr>
           in if p = [] then la
              else case tbl_get hosts (butlast p) of
                     None \<Rightarrow> la
                   | Some host \<Rightarrow> scan_react_and_submit W sc cr env accepted p host la))"

text \<open>An event, or a change to a file by somebody else between two events.\<close>

datatype lane_op =
    FileEvent event_kind "(components \<times> react_env \<times> bool) list"
  | Foreign string "bytes option"

fun lane_step :: "scan_world \<Rightarrow> scanner \<Rightarrow> crypto \<Rightarrow> (components, ipaddr) tbl \<Rightarrow> lane \<Rightarrow> lane_op \<Rightarrow> lane" where
  "lane_step W sc cr hosts la (FileEvent kind paths) =
     (if kind = Create \<or> kind = Modify then foldl (lane_path W sc cr hosts) la paths else la)"
| "lane_step W sc cr hosts la (Foreign path b) = la\<lparr>ln_vault := (ln_vault la)\<lparr>outside := (outside (ln_vault la))(path := b)\<rparr>\<rparr>"

definition lane_run :: "scan_world \<Rightarrow> scanner \<Rightarrow> crypto \<Rightarrow> host_watch_target list \<Rightarrow> lane \<Rightarrow> lane_op list \<Rightarrow> lane" where
  "lane_run W sc cr targets la ops = foldl (lane_step W sc cr (host_by_path targets)) la ops"

section \<open>Nothing is lost\<close>

text \<open>From one state of store and files to another: what the store holds stays, a file keeps its content or is removed, and only
  when the store holds that content under its path.\<close>

definition preserves :: "crypto \<Rightarrow> vault \<Rightarrow> vault \<Rightarrow> bool" where
  "preserves cr v v' \<longleftrightarrow> vault_ok cr v' \<and> (\<forall>i p d. i \<noteq> [] \<longrightarrow> held cr v i p d \<longrightarrow> held cr v' i p d)
     \<and> (\<forall>path d. outside v path = Some d \<longrightarrow> outside v' path = Some d \<or> outside v' path = None \<and> (\<exists>i. i \<noteq> [] \<and> held cr v' i path d))
     \<and> (\<forall>path. outside v path = None \<longrightarrow> outside v' path = None)"

lemma preserves_refl: "vault_ok cr v \<Longrightarrow> preserves cr v v"
  by (simp add: preserves_def)

lemma preservesD:
  assumes "preserves cr v v'"
  shows "vault_ok cr v'" and "i \<noteq> [] \<Longrightarrow> held cr v i p d \<Longrightarrow> held cr v' i p d"
    and "outside v path = Some d \<Longrightarrow> outside v' path = Some d \<or> outside v' path = None \<and> (\<exists>i. i \<noteq> [] \<and> held cr v' i path d)"
    and "outside v path = None \<Longrightarrow> outside v' path = None"
  using assms unfolding preserves_def by blast+

lemma preserves_trans:
  assumes a: "preserves cr v v'" and b: "preserves cr v' v''"
  shows "preserves cr v v''"
  unfolding preserves_def
proof (intro conjI allI impI)
  fix path d assume "outside v path = Some d"
  from preservesD(3) [OF a this]
  show "outside v'' path = Some d \<or> outside v'' path = None \<and> (\<exists>i. i \<noteq> [] \<and> held cr v'' i path d)"
    using preservesD(2-4) [OF b] by blast
qed (use preservesD [OF a] preservesD [OF b] in auto)

lemma held_dir: "vault_dir v' = vault_dir v \<Longrightarrow> held cr v' i p d = held cr v i p d"
  by (simp add: held_def find_record_def list_records_def decrypt_record_def)

lemma quarantine_keeps_held:
  assumes "crypto_ok cr" "vault_ok cr v" "env_ok cr v env" "quarantine_bytes cr env v path data sig = (res, v')" "i \<noteq> []" "held cr v i p d"
  shows "held cr v' i p d"
proof -
  note q = quarantine_bytes_ok [OF assms(1-4)]
  have "rand_id env \<noteq> i" using held_entry [OF assms(2,5,6)] assms(3) by (auto simp: env_ok_def)
  then show ?thesis using q assms(2,5,6) by (auto simp: names_differ intro!: held_cong [OF assms(2), of v'])
qed

text \<open>Quarantining what was read and removing the file, when nobody writes to it in between.\<close>

lemma quarantine_remove:
  assumes cr: "crypto_ok cr" and ok: "vault_ok cr v" and env: "env_ok cr v (re_quarantine env)" and there: "outside v path = Some data"
    and q: "quarantine_bytes cr (re_quarantine env) v path data sig = (VOk r, v')" and quiet: "re_race env = None"
    and rm: "remove_file env (race env v' path) path = (b, v'')"
  shows "preserves cr v v''" and "vr_id r \<noteq> [] \<and> held cr v'' (vr_id r) path data"
proof -
  note qb = quarantine_bytes_ok [OF cr ok env q] quarantine_bytes_held [OF cr ok env q] quarantine_keeps_held [OF cr ok env q]
  have dir: "vault_dir v'' = vault_dir v'" and out: "outside v'' = outside v' \<or> outside v'' = (outside v')(path := None)"
    using rm quiet by (auto simp: remove_file_def race_def split: if_splits)
  have id: "vr_id r \<noteq> []" using qb(2) env by (auto simp: env_ok_def)
  show "vr_id r \<noteq> [] \<and> held cr v'' (vr_id r) path data" using qb(2) id by (simp add: held_dir [OF dir])
  then show "preserves cr v v''" unfolding preserves_def
    using qb(1,3) out there by (auto simp: held_dir [OF dir] dir split: if_splits)
qed

lemma quarantine_failed:
  assumes "crypto_ok cr" "vault_ok cr v" "env_ok cr v env" "quarantine_bytes cr env v path data sig = (res, v')"
  shows "preserves cr v v'"
  using quarantine_bytes_ok [OF assms] quarantine_keeps_held [OF assms] by (auto simp: preserves_def)

lemma read_file_outside: "read_file env v path = Inr data \<Longrightarrow> outside v path = Some data"
  by (auto simp: read_file_def split: option.splits)

lemma scan_and_react_preserves:
  assumes "crypto_ok cr" "vault_ok cr v" "env_ok cr v (re_quarantine env)" "re_race env = None"
  shows "preserves cr v (snd (scan_and_react W sc cr cfg env v p))"
proof (cases "read_file env v (path_text p)")
  case (Inr data)
  let ?q = "\<lambda>sig. quarantine_bytes cr (re_quarantine env) v (path_text p) data sig"
  have "?q sig = (VOk r, v') \<Longrightarrow> preserves cr v (snd (remove_file env (race env v' (path_text p)) (path_text p)))" for sig r v'
    by (rule quarantine_remove(1) [OF assms(1-3) read_file_outside [OF Inr] _ assms(4) prod.collapse [symmetric]])
  moreover have "?q sig = (res, v') \<Longrightarrow> preserves cr v v'" for sig res v' by (rule quarantine_failed [OF assms(1-3)])
  ultimately show ?thesis using preserves_refl [OF assms(2)]
    by (auto simp: scan_and_react_def Inr Let_def split: prod.splits vault_result.splits option.splits)
qed (simp add: scan_and_react_def preserves_refl assms(2))

lemma lane_path_inbox:
  "fst (Siem_Correlation.submit ev ok inbox) = fst inbox \<or> fst (Siem_Correlation.submit ev ok inbox) = fst inbox @ [ev]"
  by (simp add: Siem_Correlation.submit_def split: prod.splits)

text \<open>Evidence that is true of a state of the store: the event names a file that was scanned with a detection in a directory of that host, and
  says that it was quarantined only if the store holds it.\<close>

definition evidence_true ::
  "scan_world \<Rightarrow> scanner \<Rightarrow> crypto \<Rightarrow> (components, ipaddr) tbl \<Rightarrow> vault \<Rightarrow> corr_event \<Rightarrow> bool"
where
  "evidence_true W sc cr hosts v ev \<longleftrightarrow> ev_source ev = LaneClamAv \<and>
     (\<exists>p data ds quarantined. p \<noteq> [] \<and> tbl_get hosts (butlast p) = Some (ev_host ev)
        \<and> worst_detections (scan_in_memory W sc (path_text p) data) = Some ds
        \<and> ev_detail ev = DClamAv (last p) (join_with '', '' (map d_name ds)) quarantined
        \<and> (quarantined \<longrightarrow> (\<exists>i. i \<noteq> [] \<and> held cr v i (path_text p) data)))"

lemma evidence_preserved:
  assumes "preserves cr v v'" "evidence_true W sc cr hosts v ev"
  shows "evidence_true W sc cr hosts v' ev"
  using assms(2) preservesD(2) [OF assms(1)] unfolding evidence_true_def by blast

text \<open>One reaction of the lane.\<close>

lemma react_and_submit:
  assumes ok: "crypto_ok cr" "vault_ok cr (ln_vault la)" "env_ok cr (ln_vault la) (re_quarantine env)" "re_race env = None"
    and p: "p \<noteq> []" "tbl_get hosts (butlast p) = Some host"
  shows "preserves cr (ln_vault la) (ln_vault (scan_react_and_submit W sc cr env acc p host la))
    \<and> (\<forall>ev \<in> set (fst (ln_inbox (scan_react_and_submit W sc cr env acc p host la))).
         ev \<in> set (fst (ln_inbox la)) \<or> evidence_true W sc cr hosts (ln_vault (scan_react_and_submit W sc cr env acc p host la)) ev)"
proof (cases "read_file env (ln_vault la) (path_text p)")
  case (Inl e)
  then show ?thesis using ok(2) by (simp add: scan_react_and_submit_def preserves_refl)
next
  case (Inr data)
  show ?thesis
  proof (cases "worst_detections (scan_in_memory W sc (path_text p) data)")
    case None
    then show ?thesis using ok(2) by (simp add: scan_react_and_submit_def Inr preserves_refl)
  next
    case (Some ds)
    define sig where "sig = join_with '', '' (map d_name ds)"
    obtain res v1 where q: "quarantine_bytes cr (re_quarantine env) (ln_vault la) (path_text p) data sig = (res, v1)" by fastforce
    define qv where "qv = (case res of VOk r \<Rightarrow> remove_file env (race env v1 (path_text p)) (path_text p) | _ \<Rightarrow> (False, v1))"
    have stored: "preserves cr (ln_vault la) (snd qv) \<and> (\<exists>i. i \<noteq> [] \<and> held cr (snd qv) i (path_text p) data)" if "res = VOk r" for r
      using quarantine_remove [OF ok(1-3) read_file_outside [OF Inr] q [unfolded that] ok(4), of "fst qv" "snd qv"]
      by (auto simp: qv_def that)
    have pres: "preserves cr (ln_vault la) (snd qv)"
      and held: "fst qv \<Longrightarrow> \<exists>i. i \<noteq> [] \<and> held cr (snd qv) i (path_text p) data"
      using stored quarantine_failed [OF ok(1-3) q] by (cases res; simp add: qv_def)+
    let ?ev = "clamav_event host (last p) sig (fst qv) (re_now env)"
    have "scan_react_and_submit W sc cr env acc p host la = la\<lparr>ln_vault := snd qv, ln_inbox := Siem_Correlation.submit ?ev acc (ln_inbox la)\<rparr>"
      unfolding scan_react_and_submit_def Let_def Inr sum.case Some option.case sig_def [symmetric] q prod.case qv_def [symmetric]
      by (cases qv) (simp split: vault_result.splits)
    moreover have "evidence_true W sc cr hosts (snd qv) ?ev"
      using p Some held unfolding evidence_true_def by (force simp: clamav_event_def sig_def)
    ultimately show ?thesis using pres lane_path_inbox [of ?ev acc "ln_inbox la"] by auto
  qed
qed

definition lane_ok :: "scan_world \<Rightarrow> scanner \<Rightarrow> crypto \<Rightarrow> (components, ipaddr) tbl \<Rightarrow> lane \<Rightarrow> bool" where
  "lane_ok W sc cr hosts la \<longleftrightarrow> vault_ok cr (ln_vault la) \<and> (\<forall>ev \<in> set (fst (ln_inbox la)). evidence_true W sc cr hosts (ln_vault la) ev)"

text \<open>Every reaction draws fresh random values, and nobody writes to a file while the lane reacts to it.\<close>

fun paths_quiet ::
  "scan_world \<Rightarrow> scanner \<Rightarrow> crypto \<Rightarrow> (components, ipaddr) tbl \<Rightarrow> lane \<Rightarrow> (components \<times> react_env \<times> bool) list \<Rightarrow> bool"
where
  "paths_quiet W sc cr hosts la [] = True"
| "paths_quiet W sc cr hosts la (pe # pes) =
     (env_ok cr (ln_vault la) (re_quarantine (fst (snd pe))) \<and> re_race (fst (snd pe)) = None
      \<and> paths_quiet W sc cr hosts (lane_path W sc cr hosts la pe) pes)"

fun run_quiet :: "scan_world \<Rightarrow> scanner \<Rightarrow> crypto \<Rightarrow> (components, ipaddr) tbl \<Rightarrow> lane \<Rightarrow> lane_op list \<Rightarrow> bool" where
  "run_quiet W sc cr hosts la [] = True"
| "run_quiet W sc cr hosts la (op # ops) =
     ((case op of FileEvent _ pes \<Rightarrow> paths_quiet W sc cr hosts la pes | Foreign _ _ \<Rightarrow> True)
      \<and> run_quiet W sc cr hosts (lane_step W sc cr hosts la op) ops)"

lemma lane_path_safe:
  assumes cr: "crypto_ok cr" and ok: "lane_ok W sc cr hosts la"
    and env: "env_ok cr (ln_vault la) (re_quarantine (fst (snd pe)))" "re_race (fst (snd pe)) = None"
  shows "lane_ok W sc cr hosts (lane_path W sc cr hosts la pe)
    \<and> preserves cr (ln_vault la) (ln_vault (lane_path W sc cr hosts la pe))"
proof -
  obtain p env' acc where pe: "pe = (p, env', acc)" by (cases pe)
  let ?la = "la\<lparr>ln_last_seen := tbl_insert (ln_last_seen la) p (re_now env')\<rparr>"
  have v: "vault_ok cr (ln_vault la)" and evs: "\<forall>ev \<in> set (fst (ln_inbox la)). evidence_true W sc cr hosts (ln_vault la) ev"
    using ok by (simp_all add: lane_ok_def)
  show ?thesis
  proof (cases "p \<noteq> [] \<and> (\<exists>host. tbl_get hosts (butlast p) = Some host \<and> lane_path W sc cr hosts la pe = scan_react_and_submit W sc cr env' acc p host ?la)")
    case True
    then obtain host where p: "p \<noteq> []" "tbl_get hosts (butlast p) = Some host"
      and eq: "lane_path W sc cr hosts la pe = scan_react_and_submit W sc cr env' acc p host ?la" by blast
    have pres: "preserves cr (ln_vault la) (ln_vault (lane_path W sc cr hosts la pe))"
      and new: "\<forall>ev \<in> set (fst (ln_inbox (lane_path W sc cr hosts la pe))). ev \<in> set (fst (ln_inbox la)) \<or>
        evidence_true W sc cr hosts (ln_vault (lane_path W sc cr hosts la pe)) ev"
      using react_and_submit [OF cr _ _ _ p, of ?la env' W sc acc] v env [unfolded pe] unfolding eq by simp_all
    show ?thesis using new evs evidence_preserved [OF pres] preservesD(1) [OF pres] pres by (auto simp: lane_ok_def)
  next
    case False
    then have "ln_vault (lane_path W sc cr hosts la pe) = ln_vault la \<and> ln_inbox (lane_path W sc cr hosts la pe) = ln_inbox la"
      by (auto simp: pe lane_path_def Let_def split: option.splits)
    then show ?thesis using ok v by (simp add: lane_ok_def preserves_refl)
  qed
qed

lemma lane_paths_safe:
  assumes "crypto_ok cr" "lane_ok W sc cr hosts la" "paths_quiet W sc cr hosts la pes"
  shows "lane_ok W sc cr hosts (foldl (lane_path W sc cr hosts) la pes)
    \<and> preserves cr (ln_vault la) (ln_vault (foldl (lane_path W sc cr hosts) la pes))"
  using assms(2,3)
proof (induction pes arbitrary: la)
  case (Cons pe pes)
  then show ?case using lane_path_safe [OF assms(1) Cons.prems(1), of pe] preserves_trans by fastforce
qed (simp add: lane_ok_def preserves_refl)

text \<open>The file at a path has kept its content, or is gone and held.\<close>

definition kept :: "crypto \<Rightarrow> string \<Rightarrow> bytes \<Rightarrow> vault \<Rightarrow> bool" where
  "kept cr path d v \<longleftrightarrow> outside v path = Some d \<or> outside v path = None \<and> (\<exists>i. i \<noteq> [] \<and> held cr v i path d)"

lemma lane_step_safe:
  assumes cr: "crypto_ok cr" and ok: "lane_ok W sc cr hosts la" and quiet: "run_quiet W sc cr hosts la [op]"
  shows "lane_ok W sc cr hosts (lane_step W sc cr hosts la op)"
    and "(\<And>b. op \<noteq> Foreign path b) \<Longrightarrow> kept cr path d (ln_vault la) \<Longrightarrow> kept cr path d (ln_vault (lane_step W sc cr hosts la op))"
proof -
  have v: "vault_ok cr (ln_vault la)" using ok by (simp add: lane_ok_def)
  have dir: "held cr (ln_vault la\<lparr>outside := f\<rparr>) i p x = held cr (ln_vault la) i p x" for f i p x by (rule held_dir) simp
  show "lane_ok W sc cr hosts (lane_step W sc cr hosts la op)"
    using ok quiet lane_paths_safe [OF cr ok] by (cases op) (auto simp: lane_ok_def dir evidence_true_def)
  assume other: "\<And>b. op \<noteq> Foreign path b" and k: "kept cr path d (ln_vault la)"
  show "kept cr path d (ln_vault (lane_step W sc cr hosts la op))"
  proof (cases op)
    case (FileEvent kind pes)
    then have "preserves cr (ln_vault la) (ln_vault (lane_step W sc cr hosts la op))"
      using quiet lane_paths_safe [OF cr ok] v by (simp add: preserves_refl)
    then show ?thesis using k preservesD(2-4) unfolding kept_def by blast
  next
    case (Foreign p b)
    then show ?thesis using k other by (auto simp: kept_def dir)
  qed
qed

lemma lane_run_ok:
  assumes "crypto_ok cr" "lane_ok W sc cr hosts la" "run_quiet W sc cr hosts la ops"
  shows "lane_ok W sc cr hosts (foldl (lane_step W sc cr hosts) la ops)"
  using assms(2,3)
proof (induction ops arbitrary: la)
  case (Cons op ops)
  then show ?case using lane_step_safe(1) [OF assms(1) Cons.prems(1), of op] by simp
qed simp

lemma lane_run_kept:
  assumes "crypto_ok cr" "lane_ok W sc cr hosts la" "run_quiet W sc cr hosts la ops" "\<And>b. Foreign path b \<notin> set ops"
    and "kept cr path d (ln_vault la)"
  shows "kept cr path d (ln_vault (foldl (lane_step W sc cr hosts) la ops))"
  using assms(2-)
proof (induction ops arbitrary: la)
  case (Cons op ops)
  have "run_quiet W sc cr hosts la [op]" using Cons.prems(2) by simp
  note step = lane_step_safe [OF assms(1) Cons.prems(1) this]
  have "op \<noteq> Foreign path b" for b using Cons.prems(3) [of b] by auto
  then have "kept cr path d (ln_vault (lane_step W sc cr hosts la op))" using step(2) Cons.prems(4) by blast
  then show ?case using Cons.IH [OF step(1)] Cons.prems(2,3) by simp
qed simp

section \<open>Properties\<close>

definition lane_new :: "vault \<Rightarrow> corr_metrics \<Rightarrow> lane" where
  "lane_new v m = \<lparr>ln_last_seen = [], ln_vault = v, ln_inbox = ([], m)\<rparr>"

lemma lane_ok_new: "vault_ok cr v \<Longrightarrow> lane_ok W sc cr hosts (lane_new v m)"
  by (simp add: lane_ok_def lane_new_def)


text \<open>C29: The lane loses no data.  Over any run in which nobody else writes to a file, the file keeps its content, or it is gone and
  the store holds that content under its path.\<close>

theorem lane_loses_nothing:
  assumes "crypto_ok cr" "vault_ok cr v" "run_quiet W sc cr (host_by_path targets) (lane_new v m) ops"
    and "\<And>b. Foreign path b \<notin> set ops" and "outside v path = Some d"
  shows "kept cr path d (ln_vault (lane_run W sc cr targets (lane_new v m) ops))"
  using lane_run_kept [OF assms(1) lane_ok_new [OF assms(2)] assms(3,4), of d] assms(5)
  by (simp add: kept_def lane_run_def lane_new_def)

text \<open>The same of one reaction of the monitor.\<close>

lemma monitor_loses_nothing:
  assumes "crypto_ok cr" "vault_ok cr (mo_vault mo)" "env_ok cr (mo_vault mo) (re_quarantine env)" "re_race env = None"
  shows "preserves cr (mo_vault mo) (mo_vault (monitor_path W sc cr cfg mo (p, env)))"
  using scan_and_react_preserves [OF assms, of W sc cfg p] preserves_refl [OF assms(2)]
  by (auto simp: monitor_path_def split: prod.splits)

text \<open>The debounce keeps the first event of a burst and drops the later ones: a file that is completed within half a second of
  its first event is not looked at, however the burst ends.\<close>

lemma burst_end_unscanned:
  assumes "tbl_get (ln_last_seen la) p = Some t" "t \<le> re_now env" "re_now env < t + lane_debounce"
  shows "lane_step W sc cr hosts (lane_step W sc cr hosts la (Foreign (path_text p) (Some malware))) (FileEvent kind [(p, env, acc)])
    = la\<lparr>ln_vault := (ln_vault la)\<lparr>outside := (outside (ln_vault la))(path_text p \<mapsto> malware)\<rparr>\<rparr>"
  using assms by (simp add: lane_path_def debounced_def duration_since_def less_diff_conv2)

text \<open>What is written between the read and the removal is removed without having been stored.\<close>

lemma race_loses_content:
  assumes "re_race env = Some b" "re_remove env"
  shows "outside (race env v path) path = Some b \<and> outside (snd (remove_file env (race env v path) path)) path = None
    \<and> vault_dir (snd (remove_file env (race env v path) path)) = vault_dir v"
  using assms by (simp add: race_def remove_file_def)

text \<open>A scanner with one hash signature, and a watched directory.\<close>

definition eicar_scanner :: scanner where
  "eicar_scanner = scanner_new \<lparr>hex_sigs = [], se_hash_db = hash_db_new\<lparr>hd_md5 := [([], \<lparr>hh_name = ''Eicar'', expected_size = Some 3\<rparr>)]\<rparr>\<rparr>"

definition drop_dir :: host_watch_target where
  "drop_dir = \<lparr>ht_path = [''tmp''], ht_host = V4 7\<rparr>"

definition react_ok :: react_env where
  "react_ok = \<lparr>re_now = 0, re_read_error = None, re_quarantine = sample_quarantine, re_race = None, re_remove = True\<rparr>"

definition sample_ops :: "lane_op list" where
  "sample_ops = [FileEvent Create [([''tmp'', ''x''], react_ok, True)]]"

lemma eicar_detected: "worst_detections (scan_in_memory sample_world eicar_scanner path [1, 2, 3]) =
    Some [\<lparr>d_name = ''Eicar'', d_kind = KHashMd5, d_offset = None\<rparr>]"
proof -
  have "archive_kind_of [1, 2, 3] = None"
    by (simp add: archive_kind_of_def looks_like_tar_def looks_like_7z_def looks_like_cab_def)
  then show ?thesis
    by (simp add: scan_in_memory_def scan_bytes.simps own_report_def scan_buffer_def hash_detections_def hash_detection_def
      hash_lookup_def hash_count_def eicar_scanner_def scanner_new_def hash_db_new_def sample_world_def sample_libs_def size_matches_def
      hex_detections_def tbl_get_def tbl_len_def Let_def)
qed

lemma sample_lane_ok: "vault_ok sample_crypto sample_vault"
  "run_quiet sample_world eicar_scanner sample_crypto (host_by_path [drop_dir]) (lane_new sample_vault m) sample_ops"
  by (simp_all add: dir_ok_def sample_vault_def sample_ops_def lane_new_def env_ok_def react_ok_def sample_quarantine_def)

text \<open>The file is detected, stored and removed, and the event accuses the host of its directory.\<close>

lemma sample_lane_event:
  "fst (ln_inbox (lane_run sample_world eicar_scanner sample_crypto [drop_dir] (lane_new sample_vault m) sample_ops)) =
     [clamav_event (V4 7) ''x'' ''Eicar'' True 0]"
proof -
  have path: "path_text [''tmp'', ''x''] = ''/tmp/x''" by (simp add: path_text_def)
  obtain v where q: "quarantine_bytes sample_crypto sample_quarantine sample_vault ''/tmp/x'' [1, 2, 3] ''Eicar'' = (VOk sample_item, v)"
    by (simp add: quarantine_bytes_def sample_crypto_def sample_item_def new_record_def Let_def sample_crypto0_def,
        simp add: sample_quarantine_def)
  have there: "outside sample_vault ''/tmp/x'' = Some [1, 2, 3]" by (simp add: sample_vault_def)
  from q have "outside v ''/tmp/x'' = Some [1, 2, 3]" by (cases rule: quarantine_bytes_cases) (simp_all add: there)
  then show ?thesis using q
    by (simp add: lane_run_def sample_ops_def lane_path_def lane_new_def path debounced_def host_by_path_def drop_dir_def
      scan_react_and_submit_def read_file_def react_ok_def eicar_detected race_def remove_file_def Siem_Correlation.submit_def Let_def there)
qed


theorem lane_loses_nothing_witness:
  "\<forall>m. kept sample_crypto ''/tmp/x'' [1, 2, 3]
     (ln_vault (lane_run sample_world eicar_scanner sample_crypto [drop_dir] (lane_new sample_vault m) sample_ops))"
proof
  fix m
  have "Foreign ''/tmp/x'' b \<notin> set sample_ops" for b by (simp add: sample_ops_def)
  moreover have "outside sample_vault ''/tmp/x'' = Some [1, 2, 3]" by (simp add: sample_vault_def)
  ultimately show "kept sample_crypto ''/tmp/x'' [1, 2, 3]
     (ln_vault (lane_run sample_world eicar_scanner sample_crypto [drop_dir] (lane_new sample_vault m) sample_ops))"
    by (rule lane_loses_nothing [OF sample_crypto_ok sample_lane_ok])
qed

end
