(* ===== verification/Spectral_Graph.thy ===== *)
theory Spectral_Graph
  imports Floats
begin

text \<open>
  The graphs of the spectral engine (\<^verbatim>\<open>spec-engine/src/spectral_graph/graph.rs\<close> and the hub
  construction of \<^verbatim>\<open>embedding.rs\<close>): the validated adjacency lists, breadth-first search, the
  Laplacian, and the builder that makes any edge set connected.  An unvisited node of the search
  is \<open>None\<close>, also where the code writes \<^verbatim>\<open>usize::MAX\<close>: a hop count is below the number of nodes.
  Reading a neighbour outside the graph, where Rust panics, leaves the search unchanged; the
  invariant \<open>graph_wf\<close> that every constructor establishes excludes it.
\<close>

section \<open>Graphs\<close>

datatype graph_error =
    EmptyGraph
  | NodeOutOfRange nat nat
  | EigenConvergenceFailed nat f64
  | InsufficientNodesForEmbedding nat
  | DimensionOutOfRange nat nat
  | NoPath nat nat

record graph =
  num_nodes :: nat
  adjacency :: "nat list list"

definition graph_new :: "nat \<Rightarrow> graph_error + graph" where
  "graph_new n = (if n = 0 then Inl EmptyGraph else Inr \<lparr>num_nodes = n, adjacency = replicate n []\<rparr>)"

definition validate_node :: "graph \<Rightarrow> nat \<Rightarrow> graph_error option" where
  "validate_node g idx = (if idx \<ge> num_nodes g then Some (NodeOutOfRange idx (num_nodes g)) else None)"

definition add_edge :: "graph \<Rightarrow> nat \<Rightarrow> nat \<Rightarrow> graph_error + graph" where
  "add_edge g u v =
     (case validate_node g u of
        Some e \<Rightarrow> Inl e
      | None \<Rightarrow>
          (case validate_node g v of
             Some e \<Rightarrow> Inl e
           | None \<Rightarrow>
               if u = v then Inr g
               else if v \<notin> set (adjacency g ! u)
               then let adj = (adjacency g)[u := adjacency g ! u @ [v]]
                    in Inr (g\<lparr>adjacency := adj[v := adj ! v @ [u]]\<rparr>)
               else Inr g))"

fun add_edges :: "graph \<Rightarrow> (nat \<times> nat) list \<Rightarrow> graph_error + graph" where
  "add_edges g [] = Inr g"
| "add_edges g ((u, v) # es) = (case add_edge g u v of Inl e \<Rightarrow> Inl e | Inr g' \<Rightarrow> add_edges g' es)"

definition from_edges :: "nat \<Rightarrow> (nat \<times> nat) list \<Rightarrow> graph_error + graph" where
  "from_edges n es = (case graph_new n of Inl e \<Rightarrow> Inl e | Inr g \<Rightarrow> add_edges g es)"

definition degree :: "graph \<Rightarrow> nat \<Rightarrow> graph_error + nat" where
  "degree g idx = (case validate_node g idx of Some e \<Rightarrow> Inl e | None \<Rightarrow> Inr (length (adjacency g ! idx)))"

definition neighbours :: "graph \<Rightarrow> nat \<Rightarrow> graph_error + nat list" where
  "neighbours g idx = (case validate_node g idx of Some e \<Rightarrow> Inl e | None \<Rightarrow> Inr (adjacency g ! idx))"

section \<open>Breadth-first search\<close>

fun visit :: "nat \<Rightarrow> nat option list \<times> nat list \<Rightarrow> nat \<Rightarrow> nat option list \<times> nat list" where
  "visit d (hops, queue) nbr =
     (if nbr < length hops \<and> hops ! nbr = None then (hops[nbr := Some (d + 1)], queue @ [nbr]) else (hops, queue))"

definition unseen :: "nat option list \<Rightarrow> nat" where
  "unseen hops = length (filter (\<lambda>d. d = None) hops)"

lemma unseen_update: "i < length hops \<Longrightarrow> hops ! i = None \<Longrightarrow> Suc (unseen (hops[i := Some d])) = unseen hops"
proof -
  assume a: "i < length hops" "hops ! i = None"
  define xs ys where "xs = take i hops" "ys = drop (Suc i) hops"
  have "hops = xs @ None # ys" using a unfolding xs_ys_def by (metis id_take_nth_drop)
  moreover have "hops[i := Some d] = xs @ Some d # ys" using a unfolding xs_ys_def by (simp add: upd_conv_take_nth_drop)
  ultimately show ?thesis by (simp add: unseen_def)
qed

lemma visits_measure [simp]:
  "(case foldl (visit d) (hops, queue) ns of (hops', queue') \<Rightarrow> length queue' + unseen hops') = length queue + unseen hops"
proof (induction ns arbitrary: hops queue)
  case (Cons a ns)
  show ?case using unseen_update [of a hops "Suc d"] by (simp add: Cons.IH)
qed simp

function bfs_loop :: "nat list list \<Rightarrow> nat option list \<Rightarrow> nat list \<Rightarrow> nat option list" where
  "bfs_loop adj hops [] = hops"
| "bfs_loop adj hops (node # queue) =
     (case foldl (visit (the (hops ! node))) (hops, queue) (adj ! node) of (hops', queue') \<Rightarrow> bfs_loop adj hops' queue')"
  by pat_completeness auto

termination
  by (relation "measure (\<lambda>(adj, hops, queue). length queue + unseen hops)") auto

function topo_loop :: "nat list list \<Rightarrow> nat \<Rightarrow> nat option list \<Rightarrow> nat list \<Rightarrow> nat option" where
  "topo_loop adj target hops [] = None"
| "topo_loop adj target hops (node # queue) =
     (if node = target then hops ! node
      else case foldl (visit (the (hops ! node))) (hops, queue) (adj ! node) of
             (hops', queue') \<Rightarrow> topo_loop adj target hops' queue')"
  by pat_completeness auto

termination
  by (relation "measure (\<lambda>(adj, target, hops, queue). length queue + unseen hops)") auto

definition bfs_distances :: "graph \<Rightarrow> nat \<Rightarrow> graph_error + nat option list" where
  "bfs_distances g start =
     (case validate_node g start of
        Some e \<Rightarrow> Inl e
      | None \<Rightarrow> Inr (bfs_loop (adjacency g) ((replicate (num_nodes g) None)[start := Some 0]) [start]))"

definition topological_distance :: "graph \<Rightarrow> nat \<Rightarrow> nat \<Rightarrow> graph_error + nat" where
  "topological_distance g start target =
     (case validate_node g start of
        Some e \<Rightarrow> Inl e
      | None \<Rightarrow>
          (case validate_node g target of
             Some e \<Rightarrow> Inl e
           | None \<Rightarrow>
               if start = target then Inr 0
               else case topo_loop (adjacency g) target ((replicate (num_nodes g) None)[start := Some 0]) [start] of
                      Some d \<Rightarrow> Inr d
                    | None \<Rightarrow> Inl (NoPath start target)))"

definition is_connected :: "graph \<Rightarrow> bool" where
  "is_connected g =
     (if num_nodes g \<le> 1 then True
      else case bfs_distances g 0 of Inr dists \<Rightarrow> list_all (\<lambda>d. d \<noteq> None) dists | Inl _ \<Rightarrow> False)"

section \<open>The Laplacian\<close>

definition laplacian :: "graph \<Rightarrow> f64 list list" where
  "laplacian g = map (\<lambda>i. foldl (\<lambda>row j. row[j := Fin (- 1)])
       ((replicate (num_nodes g) (Fin 0))[i := f64_of_nat (length (adjacency g ! i))]) (adjacency g ! i)) [0..<num_nodes g]"

definition laplacian_matvec :: "graph \<Rightarrow> f64 list \<Rightarrow> f64 list" where
  "laplacian_matvec g v = map (\<lambda>i. foldl (\<lambda>acc j. f64_sub acc (v ! j))
       (f64_mul (f64_of_nat (length (adjacency g ! i))) (v ! i)) (adjacency g ! i)) [0..<num_nodes g]"

section \<open>The connected supergraph\<close>

definition build_connected_graph :: "nat \<Rightarrow> (nat \<times> nat) list \<Rightarrow> graph_error + graph \<times> bool" where
  "build_connected_graph n raw_edges =
     (case from_edges n raw_edges of
        Inl e \<Rightarrow> Inl e
      | Inr phys \<Rightarrow>
          if is_connected phys then Inr (phys, False)
          else case bfs_distances phys 0 of
                 Inl e \<Rightarrow> Inl e
               | Inr bfs0 \<Rightarrow>
                   (let hub = n;
                        aug_edges = raw_edges @ [(0, hub)] @ map (\<lambda>i. (i, hub)) (filter (\<lambda>i. bfs0 ! i = None) [0..<length bfs0])
                    in case from_edges (n + 1) aug_edges of Inl e \<Rightarrow> Inl e | Inr aug \<Rightarrow> Inr (aug, True)))"

section \<open>Well-formed graphs\<close>

definition edge :: "graph \<Rightarrow> (nat \<times> nat) set" where
  "edge g = {(u, v). u < num_nodes g \<and> v \<in> set (adjacency g ! u)}"

definition graph_wf :: "graph \<Rightarrow> bool" where
  "graph_wf g \<longleftrightarrow> 0 < num_nodes g \<and> length (adjacency g) = num_nodes g \<and> sym (edge g) \<and> irrefl (edge g)
     \<and> edge g \<subseteq> {..<num_nodes g} \<times> {..<num_nodes g} \<and> (\<forall>ns \<in> set (adjacency g). distinct ns)"

lemma graph_new_wf: "graph_new n = Inr g \<Longrightarrow> graph_wf g \<and> edge g = {} \<and> num_nodes g = n"
  by (auto simp: graph_new_def graph_wf_def edge_def sym_def irrefl_def split: if_splits)

lemma add_edge_wf:
  assumes g: "graph_wf g" and a: "add_edge g u v = Inr g'"
  shows "graph_wf g' \<and> edge g' = edge g \<union> (if u = v then {} else {(u, v), (v, u)}) \<and> num_nodes g' = num_nodes g"
proof -
  have uv: "u < num_nodes g" "v < num_nodes g"
    using a by (auto simp: add_edge_def validate_node_def split: if_splits)
  have len: "length (adjacency g) = num_nodes g" using g by (simp add: graph_wf_def)
  have "sym (edge g)" using g by (simp add: graph_wf_def)
  then have sym: "v \<in> set (adjacency g ! u) \<longleftrightarrow> u \<in> set (adjacency g ! v)"
    using uv unfolding edge_def sym_def by blast
  show ?thesis
  proof (cases "u = v \<or> v \<in> set (adjacency g ! u)")
    case True
    then show ?thesis using a g uv sym by (auto simp: add_edge_def validate_node_def edge_def)
  next
    case False
    then have nu: "u \<notin> set (adjacency g ! v)" using sym by simp
    have g': "g' = g\<lparr>adjacency := (adjacency g)[u := adjacency g ! u @ [v], v := adjacency g ! v @ [u]]\<rparr>"
      using a False uv len by (auto simp: add_edge_def validate_node_def Let_def)
    have nth: "adjacency g' ! x = (if x = u then adjacency g ! u @ [v] else if x = v then adjacency g ! v @ [u] else adjacency g ! x)" for x
      using False uv len by (simp add: g' nth_list_update)
    have "num_nodes g' = num_nodes g" by (simp add: g')
    then have e: "edge g' = edge g \<union> {(u, v), (v, u)}"
      unfolding edge_def nth using False uv by (auto split: if_splits)
    have d: "distinct (adjacency g ! u)" "distinct (adjacency g ! v)"
      using g uv by (auto simp: graph_wf_def)
    have "\<forall>ns \<in> set (adjacency g'). distinct ns"
      using g d False nu unfolding g' graph_wf_def by (auto dest!: set_update_subset_insert [THEN subsetD])
    then show ?thesis using g e False uv len unfolding graph_wf_def
      by (auto simp: g' sym_def irrefl_def)
  qed
qed

lemma add_edges_wf:
  "graph_wf g \<Longrightarrow> add_edges g es = Inr g' \<Longrightarrow>
     graph_wf g' \<and> num_nodes g' = num_nodes g \<and> edge g' = edge g \<union> {(u, v). u \<noteq> v \<and> ((u, v) \<in> set es \<or> (v, u) \<in> set es)}"
proof (induction g es rule: add_edges.induct)
  case (2 g u v es)
  obtain g1 where g1: "add_edge g u v = Inr g1" "add_edges g1 es = Inr g'" using "2.prems"(2) by (auto split: sum.splits)
  note w = add_edge_wf [OF "2.prems"(1) g1(1)]
  note IH = "2.IH" [OF g1(1) conjunct1 [OF w] g1(2)]
  have "edge g' = edge g1 \<union> {(u, v). u \<noteq> v \<and> ((u, v) \<in> set es \<or> (v, u) \<in> set es)}" using IH by blast
  also have "edge g1 = edge g \<union> (if u = v then {} else {(u, v), (v, u)})" using w by blast
  finally show ?case using IH w by auto
qed auto

lemma from_edges_wf:
  "from_edges n es = Inr g \<Longrightarrow>
     graph_wf g \<and> num_nodes g = n \<and> edge g = {(u, v). u \<noteq> v \<and> ((u, v) \<in> set es \<or> (v, u) \<in> set es)}"
  using graph_new_wf [of n] add_edges_wf [of _ es g] by (auto simp: from_edges_def split: sum.splits)

lemma add_edges_total: "graph_wf g \<Longrightarrow> set es \<subseteq> {..<num_nodes g} \<times> {..<num_nodes g} \<Longrightarrow> \<exists>g'. add_edges g es = Inr g'"
proof (induction g es rule: add_edges.induct)
  case (2 g u v es)
  have "\<exists>g1. add_edge g u v = Inr g1" using "2.prems" by (auto simp: add_edge_def validate_node_def Let_def)
  then obtain g1 where g1: "add_edge g u v = Inr g1" by blast
  show ?case using "2.IH" [OF g1] add_edge_wf [OF "2.prems"(1) g1] "2.prems" by (simp add: g1)
qed auto

lemma from_edges_total: "0 < n \<Longrightarrow> set es \<subseteq> {..<n} \<times> {..<n} \<Longrightarrow> \<exists>g. from_edges n es = Inr g"
  using graph_new_wf [of n] add_edges_total [of _ es] by (auto simp: from_edges_def graph_new_def)

section \<open>The search is exact\<close>

lemma visits:
  "foldl (visit d) (hops, queue) ns = (hops', queue') \<Longrightarrow> length hops' = length hops
     \<and> (\<forall>v < length hops. hops' ! v = (if v \<in> set ns \<and> hops ! v = None then Some (d + 1) else hops ! v))
     \<and> (\<exists>new. queue' = queue @ new \<and> set new = {v. v < length hops \<and> v \<in> set ns \<and> hops ! v = None})"
proof (induction ns arbitrary: hops queue)
  case (Cons a ns)
  show ?case
  proof (cases "a < length hops \<and> hops ! a = None")
    case True
    then have "foldl (visit d) (hops[a := Some (d + 1)], queue @ [a]) ns = (hops', queue')" using Cons.prems by simp
    note IH = Cons.IH [OF this]
    then obtain new where new: "queue' = queue @ a # new"
      "set new = {v. v < length hops \<and> v \<in> set ns \<and> hops[a := Some (d + 1)] ! v = None}" by auto
    have "set (a # new) = {v. v < length hops \<and> v \<in> set (a # ns) \<and> hops ! v = None}"
      using True by (auto simp: new(2) nth_list_update split: if_splits)
    moreover have "\<forall>v < length hops. hops' ! v = (if v \<in> set (a # ns) \<and> hops ! v = None then Some (d + 1) else hops ! v)"
      using IH True by (auto simp: nth_list_update)
    ultimately show ?thesis using IH new(1) by (intro conjI exI [of _ "a # new"]) auto
  next
    case False
    then have "foldl (visit d) (hops, queue) ns = (hops', queue')" using Cons.prems by auto
    note IH = Cons.IH [OF this]
    moreover have "{v. v < length hops \<and> v \<in> set (a # ns) \<and> hops ! v = None} = {v. v < length hops \<and> v \<in> set ns \<and> hops ! v = None}"
      using False by auto
    ultimately show ?thesis using False by auto
  qed
qed auto

definition bfs_inv :: "graph \<Rightarrow> nat \<Rightarrow> nat option list \<Rightarrow> nat list \<Rightarrow> bool" where
  "bfs_inv g s hops queue \<longleftrightarrow> length hops = num_nodes g \<and> s < num_nodes g \<and> hops ! s = Some 0
     \<and> (\<forall>v < num_nodes g. \<forall>d. hops ! v = Some d \<longrightarrow> (s, v) \<in> edge g ^^ d)
     \<and> (\<forall>q \<in> set queue. q < num_nodes g \<and> hops ! q \<noteq> None)
     \<and> sorted (map (\<lambda>q. the (hops ! q)) queue)
     \<and> (\<forall>q \<in> set queue. \<forall>v < num_nodes g. \<forall>d. hops ! v = Some d \<longrightarrow> d \<le> the (hops ! q) + 1)
     \<and> (\<forall>u < num_nodes g. \<forall>d. hops ! u = Some d \<longrightarrow> u \<notin> set queue \<longrightarrow>
          (\<forall>v \<in> set (adjacency g ! u). \<exists>d'. hops ! v = Some d' \<and> d' \<le> d + 1))"

lemma bfs_inv_step:
  assumes g: "graph_wf g" and inv: "bfs_inv g s hops (node # queue)"
    and f: "foldl (visit (the (hops ! node))) (hops, queue) (adjacency g ! node) = (hops', queue')"
  shows "bfs_inv g s hops' queue' \<and> (\<forall>v < num_nodes g. hops ! v \<noteq> None \<longrightarrow> hops' ! v = hops ! v)
    \<and> set queue' \<supseteq> set queue \<union> {v. v < num_nodes g \<and> hops ! v = None \<and> hops' ! v \<noteq> None}"
proof -
  let ?n = "num_nodes g"
  obtain d where d: "hops ! node = Some d" and node: "node < ?n" using inv unfolding bfs_inv_def by auto
  have len: "length hops = ?n" using inv by (simp add: bfs_inv_def)
  note vis = visits [OF f]
  have nth: "v < ?n \<Longrightarrow> hops' ! v = (if v \<in> set (adjacency g ! node) \<and> hops ! v = None then Some (d + 1) else hops ! v)" for v
    using vis by (simp add: len d)
  obtain new where new: "queue' = queue @ new" "set new = {v. v < ?n \<and> v \<in> set (adjacency g ! node) \<and> hops ! v = None}"
    using vis by (auto simp: len)
  have adj: "v < ?n" if "u < ?n" "v \<in> set (adjacency g ! u)" for u v
    using g that unfolding graph_wf_def edge_def by auto
  have keep: "v < ?n \<Longrightarrow> hops ! v \<noteq> None \<Longrightarrow> hops' ! v = hops ! v" for v using nth by simp
  have le: "v < ?n \<Longrightarrow> hops ! v = Some k \<Longrightarrow> k \<le> d + 1" for v k using inv by (auto simp: bfs_inv_def d)
  have ge: "q < ?n \<and> (\<exists>k. hops ! q = Some k \<and> d \<le> k)" if q: "q \<in> set queue" for q
  proof -
    have "q < ?n" "hops ! q \<noteq> None" "d \<le> the (hops ! q)" using inv q by (auto simp: bfs_inv_def d)
    then show ?thesis by auto
  qed
  have le': "v < ?n \<Longrightarrow> hops' ! v = Some k \<Longrightarrow> k \<le> d + 1" for v k using nth le by (auto split: if_splits)
  have q': "q < ?n \<and> (\<exists>k. hops' ! q = Some k \<and> d \<le> k)" if "q \<in> set queue'" for q
    using that ge [of q] keep [of q] nth [of q] by (auto simp: new)
  have sound: "(s, v) \<in> edge g ^^ k" if "v < ?n" "hops' ! v = Some k" for v k
  proof (cases "hops ! v")
    case None
    then have "v \<in> set (adjacency g ! node)" "k = Suc d" using nth [OF that(1)] that(2) by (auto split: if_splits)
    then show ?thesis using inv node d by (auto simp: bfs_inv_def edge_def)
  next
    case (Some x)
    then show ?thesis using inv that keep by (auto simp: bfs_inv_def)
  qed
  have sorted: "sorted (map (\<lambda>q. the (hops' ! q)) queue')"
  proof -
    have m: "map (\<lambda>q. the (hops' ! q)) queue' = map (\<lambda>q. the (hops ! q)) queue @ replicate (length new) (d + 1)"
    proof -
      have "map (\<lambda>q. the (hops' ! q)) queue = map (\<lambda>q. the (hops ! q)) queue"
        using ge keep by (metis (no_types, lifting) map_cong option.distinct(1))
      moreover have "map (\<lambda>q. the (hops' ! q)) new = replicate (length new) (d + 1)"
        using nth by (auto simp: new(2) intro!: replicate_eqI)
      ultimately show ?thesis by (simp only: new(1) map_append)
    qed
    have "sorted (map (\<lambda>q. the (hops ! q)) queue)" using inv by (simp add: bfs_inv_def)
    moreover have "k \<le> d + 1" if "k \<in> set (map (\<lambda>q. the (hops ! q)) queue)" for k using that ge le by fastforce
    ultimately show ?thesis unfolding m by (simp add: sorted_append)
  qed
  have closed: "\<exists>k'. hops' ! v = Some k' \<and> k' \<le> k + 1"
    if u: "u < ?n" "hops' ! u = Some k" "u \<notin> set queue'" "v \<in> set (adjacency g ! u)" for u v k
  proof (cases "u = node")
    case True
    then show ?thesis using u d keep [OF node] nth [OF adj [OF u(1,4)]] le' [OF adj [OF u(1,4)]]
      by (cases "hops ! v") auto
  next
    case False
    have "hops ! u \<noteq> None" using u nth [OF u(1)] by (auto simp: new split: if_splits)
    then have "hops ! u = Some k" using keep [OF u(1)] u(2) by simp
    then show ?thesis using inv u False keep [OF adj [OF u(1,4)]] by (fastforce simp: bfs_inv_def new(1))
  qed
  have near: "k \<le> the (hops' ! q) + 1" if "q \<in> set queue'" "v < ?n" "hops' ! v = Some k" for q v k
    using q' [OF that(1)] le' [OF that(2,3)] by auto
  have start: "length hops' = ?n" "s < ?n" "hops' ! s = Some 0" "\<forall>q \<in> set queue'. q < ?n \<and> hops' ! q \<noteq> None"
    using vis len inv keep [of s] q' by (auto simp: bfs_inv_def)
  have "bfs_inv g s hops' queue'" unfolding bfs_inv_def
    by (intro conjI start allI impI ballI) (simp_all only: sound sorted near, rule closed)
  moreover have "v \<in> set queue'" if "v < ?n" "hops ! v = None" "hops' ! v \<noteq> None" for v
    using nth [OF that(1)] that by (auto simp: new split: if_splits)
  ultimately show ?thesis using keep new(1) by auto
qed

lemma bfs_loop_inv:
  assumes "graph_wf g"
  shows "bfs_inv g s hops queue \<Longrightarrow> bfs_inv g s (bfs_loop (adjacency g) hops queue) []
    \<and> (\<forall>v < num_nodes g. hops ! v \<noteq> None \<longrightarrow> bfs_loop (adjacency g) hops queue ! v = hops ! v)"
proof (induction "adjacency g" hops queue rule: bfs_loop.induct)
  case (2 hops node queue)
  obtain hops' queue' where f: "foldl (visit (the (hops ! node))) (hops, queue) (adjacency g ! node) = (hops', queue')" by fastforce
  note st = bfs_inv_step [OF assms "2.prems" f]
  show ?case using "2.hyps" [OF f [symmetric] conjunct1 [OF st]] st by (simp add: f)
qed auto

lemma bfs_inv_start: "start < num_nodes g \<Longrightarrow> bfs_inv g start ((replicate (num_nodes g) None)[start := Some 0]) [start]"
  by (auto simp: bfs_inv_def nth_list_update split: if_splits)

text \<open>A search that has emptied its queue holds the least hop count of every node that can be reached.\<close>

lemma bfs_inv_least:
  assumes g: "graph_wf g" and inv: "bfs_inv g s hops []" and v: "v < num_nodes g"
  shows "hops ! v = (if \<exists>k. (s, v) \<in> edge g ^^ k then Some (LEAST k. (s, v) \<in> edge g ^^ k) else None)"
proof -
  have reach: "(s, v) \<in> edge g ^^ k \<Longrightarrow> v < num_nodes g \<and> (\<exists>d. hops ! v = Some d \<and> d \<le> k)" for v k
  proof (induction k arbitrary: v)
    case 0
    then show ?case using inv by (auto simp: bfs_inv_def)
  next
    case (Suc k)
    then obtain u where u: "(s, u) \<in> edge g ^^ k" "(u, v) \<in> edge g" by auto
    then have "v \<in> set (adjacency g ! u)" "v < num_nodes g" using g by (auto simp: edge_def graph_wf_def)
    moreover obtain d where "u < num_nodes g" "hops ! u = Some d" "d \<le> k" using Suc.IH [OF u(1)] by blast
    ultimately show ?case using inv by (fastforce simp: bfs_inv_def)
  qed
  have sound: "hops ! v = Some d \<Longrightarrow> (s, v) \<in> edge g ^^ d" for d using inv v by (auto simp: bfs_inv_def)
  show ?thesis
  proof (cases "\<exists>k. (s, v) \<in> edge g ^^ k")
    case True
    then obtain d where d: "hops ! v = Some d" using reach by blast
    have "(LEAST k. (s, v) \<in> edge g ^^ k) = d"
      using sound [OF d] reach [of v] d by (intro Least_equality) auto
    then show ?thesis using True d by simp
  next
    case False
    then show ?thesis using sound by (cases "hops ! v") auto
  qed
qed

lemma bfs_distances_exact:
  assumes g: "graph_wf g" and s: "start < num_nodes g"
  shows "\<exists>hops. bfs_distances g start = Inr hops \<and> length hops = num_nodes g \<and> (\<forall>v < num_nodes g. hops ! v =
    (if \<exists>k. (start, v) \<in> edge g ^^ k then Some (LEAST k. (start, v) \<in> edge g ^^ k) else None))"
proof -
  let ?hops = "bfs_loop (adjacency g) ((replicate (num_nodes g) None)[start := Some 0]) [start]"
  have inv: "bfs_inv g start ?hops []" using bfs_loop_inv [OF g bfs_inv_start [OF s]] by blast
  have "length ?hops = num_nodes g" using inv unfolding bfs_inv_def by blast
  moreover have "bfs_distances g start = Inr ?hops" using s by (simp add: bfs_distances_def validate_node_def)
  ultimately show ?thesis using bfs_inv_least [OF g inv] by blast
qed

text \<open>The search with an early exit finds what the full search does.\<close>

lemma topo_loop_bfs:
  assumes "graph_wf g"
  shows "target < num_nodes g \<Longrightarrow> bfs_inv g s hops queue \<Longrightarrow> target \<in> set queue \<or> hops ! target = None \<Longrightarrow>
    topo_loop (adjacency g) target hops queue = bfs_loop (adjacency g) hops queue ! target"
proof (induction "adjacency g" target hops queue rule: topo_loop.induct)
  case (2 target hops node queue)
  obtain hops' queue' where f: "foldl (visit (the (hops ! node))) (hops, queue) (adjacency g ! node) = (hops', queue')" by fastforce
  note st = bfs_inv_step [OF assms "2.prems"(2) f]
  show ?case
  proof (cases "node = target")
    case True
    have "hops ! node \<noteq> None" "node < num_nodes g" using "2.prems"(2) by (auto simp: bfs_inv_def)
    then show ?thesis using bfs_loop_inv [OF assms "2.prems"(2)] True by simp
  next
    case False
    then have "target \<in> set queue \<or> hops ! target = None" using "2.prems"(3) by auto
    then have "target \<in> set queue' \<or> hops' ! target = None" using st "2.prems"(1) by blast
    then show ?thesis using "2.hyps" [OF False f [symmetric] "2.prems"(1) conjunct1 [OF st]] False by (simp add: f)
  qed
qed auto

lemma topological_distance_exact:
  assumes g: "graph_wf g" and s: "s < num_nodes g" and t: "t < num_nodes g"
  shows "topological_distance g s t =
    (if \<exists>k. (s, t) \<in> edge g ^^ k then Inr (LEAST k. (s, t) \<in> edge g ^^ k) else Inl (NoPath s t))"
proof (cases "s = t")
  case True
  have "(s, s) \<in> edge g ^^ 0" by simp
  then have "(LEAST k. (s, s) \<in> edge g ^^ k) = 0" by (rule Least_equality) simp
  moreover have "\<exists>k. (s, s) \<in> edge g ^^ k" by (rule exI [of _ 0]) simp
  ultimately show ?thesis using True s by (simp add: topological_distance_def validate_node_def)
next
  case False
  let ?hops = "(replicate (num_nodes g) None)[s := Some 0]"
  note inv = bfs_inv_start [OF s]
  have "topo_loop (adjacency g) t ?hops [s] = bfs_loop (adjacency g) ?hops [s] ! t"
    using False t by (intro topo_loop_bfs [OF g t inv]) simp
  also have "\<dots> = (if \<exists>k. (s, t) \<in> edge g ^^ k then Some (LEAST k. (s, t) \<in> edge g ^^ k) else None)"
    using bfs_inv_least [OF g conjunct1 [OF bfs_loop_inv [OF g inv]] t] .
  finally show ?thesis using False s t by (simp add: topological_distance_def validate_node_def del: topo_loop.simps)
qed

lemma is_connected_iff:
  assumes g: "graph_wf g"
  shows "is_connected g \<longleftrightarrow> (\<forall>v < num_nodes g. (0, v) \<in> (edge g)\<^sup>*)"
proof (cases "num_nodes g \<le> 1")
  case True
  have "(0, v) \<in> (edge g)\<^sup>*" if "v < num_nodes g" for v
  proof -
    have "v = 0" using that True by simp
    then show ?thesis by simp
  qed
  then show ?thesis using True by (simp add: is_connected_def)
next
  case False
  then obtain hops where "bfs_distances g 0 = Inr hops" "length hops = num_nodes g"
    "\<forall>v < num_nodes g. hops ! v = None \<longleftrightarrow> \<not> (\<exists>k. (0, v) \<in> edge g ^^ k)"
    using bfs_distances_exact [OF g, of 0] by auto
  then show ?thesis using False by (simp add: is_connected_def list_all_length rtrancl_is_UN_relpow del: not_None_eq)
qed

lemma connected_all:
  assumes "graph_wf g" "\<forall>v < num_nodes g. (0, v) \<in> (edge g)\<^sup>*" "u < num_nodes g" "v < num_nodes g"
  shows "(u, v) \<in> (edge g)\<^sup>*"
proof -
  have "sym ((edge g)\<^sup>*)" using assms(1) by (simp add: graph_wf_def sym_rtrancl)
  then have "(u, 0) \<in> (edge g)\<^sup>*" using assms(2,3) by (blast dest: symD)
  then show ?thesis using assms(2,4) by (meson rtrancl_trans)
qed

text \<open>The undirected edges that a list of pairs describes.\<close>

definition undirected :: "(nat \<times> nat) list \<Rightarrow> (nat \<times> nat) set" where
  "undirected es = {(u, v). u \<noteq> v \<and> ((u, v) \<in> set es \<or> (v, u) \<in> set es)}"

text \<open>C36: The hop distance of two nodes is exact: for the graph of any edge list it is the length of a
  shortest path, and the error for a missing path is returned only when there is none.\<close>

theorem hop_distance_exact:
  assumes "from_edges n es = Inr g" "s < n" "t < n"
  shows "topological_distance g s t =
    (if \<exists>k. (s, t) \<in> undirected es ^^ k then Inr (LEAST k. (s, t) \<in> undirected es ^^ k) else Inl (NoPath s t))"
  using topological_distance_exact [of g s t] from_edges_wf [OF assms(1)] assms(2,3) by (simp add: undirected_def)

text \<open>A hub tied to node 0 and to every node that node 0 does not reach makes all nodes reachable from node 0.\<close>

lemma hub_reaches:
  assumes E: "E = R \<union> {(0, n), (n, 0)} \<union> (\<lambda>i. (i, n)) ` L \<union> Pair n ` L" and L: "L = {v. v < n \<and> (0, v) \<notin> R\<^sup>*}"
    and v: "v < n + (1 :: nat)"
  shows "(0, v) \<in> E\<^sup>*"
proof -
  have hub: "(0, n) \<in> E\<^sup>*" using E by auto
  consider "v = n" | "v \<in> L" | "(0, v) \<in> R\<^sup>*" using v L by fastforce
  then show ?thesis
  proof cases
    case 2
    then have "(n, v) \<in> E" by (auto simp: E)
    then show ?thesis using hub by (rule rtrancl_into_rtrancl [rotated])
  next
    case 3
    moreover have "R\<^sup>* \<subseteq> E\<^sup>*" unfolding E by (rule rtrancl_mono) blast
    ultimately show ?thesis by blast
  qed (simp add: hub)
qed

text \<open>C35: The builder never fails on valid edges and always gives a connected graph: without a hub
  exactly when the edges connect the nodes already, and otherwise with one extra node, which adds
  no edge between the given nodes.\<close>

theorem connected_supergraph:
  assumes n: "0 < n" and es: "set es \<subseteq> {..<n} \<times> {..<n}"
  shows "\<exists>g hub. build_connected_graph n es = Inr (g, hub) \<and> num_nodes g = (if hub then n + 1 else n)
    \<and> (hub \<longleftrightarrow> (\<exists>v < n. (0, v) \<notin> (undirected es)\<^sup>*))
    \<and> (\<forall>u < num_nodes g. \<forall>v < num_nodes g. (u, v) \<in> (edge g)\<^sup>*)
    \<and> edge g \<inter> {..<n} \<times> {..<n} = undirected es"
proof -
  obtain g where g: "from_edges n es = Inr g" using from_edges_total [OF n es] by blast
  note w = from_edges_wf [OF g, folded undirected_def]
  have within: "undirected es \<subseteq> {..<n} \<times> {..<n}" using es by (auto simp: undirected_def)
  note conn = is_connected_iff [OF conjunct1 [OF w]]
  show ?thesis
  proof (cases "is_connected g")
    case True
    then show ?thesis using g w conn within connected_all [OF conjunct1 [OF w]]
      by (simp add: build_connected_graph_def Int_absorb2)
  next
    case False
    obtain hops where hops: "bfs_distances g 0 = Inr hops" "length hops = n"
      "\<forall>v < n. hops ! v = None \<longleftrightarrow> \<not> (\<exists>k. (0, v) \<in> undirected es ^^ k)"
      using bfs_distances_exact [OF conjunct1 [OF w], of 0] w n by auto
    define lost where "lost = filter (\<lambda>i. hops ! i = None) [0..<length hops]"
    have lost: "set lost = {v. v < n \<and> (0, v) \<notin> (undirected es)\<^sup>*}"
      using hops(2,3) by (auto simp: lost_def rtrancl_is_UN_relpow)
    let ?aug = "es @ [(0, n)] @ map (\<lambda>i. (i, n)) lost"
    have "set ?aug \<subseteq> {..<n + 1} \<times> {..<n + 1}" using es lost by fastforce
    then obtain h where h: "from_edges (n + 1) ?aug = Inr h" using from_edges_total [of "n + 1" ?aug] by auto
    note wh = from_edges_wf [OF h, folded undirected_def]
    have eh: "edge h = undirected es \<union> {(0, n), (n, 0)} \<union> (\<lambda>i. (i, n)) ` set lost \<union> Pair n ` set lost"
      using wh n lost by (auto simp: undirected_def)
    have "(0, v) \<in> (edge h)\<^sup>*" if "v < n + 1" for v using hub_reaches [OF eh lost that] .
    then have "\<forall>u < n + 1. \<forall>v < n + 1. (u, v) \<in> (edge h)\<^sup>*" using connected_all [OF conjunct1 [OF wh]] wh by simp
    moreover have "edge h \<inter> {..<n} \<times> {..<n} = undirected es" using within by (auto simp: eh)
    moreover have "build_connected_graph n es = Inr (h, True)"
      using h False by (simp add: build_connected_graph_def g hops(1) Let_def lost_def)
    moreover have "\<exists>v < n. (0, v) \<notin> (undirected es)\<^sup>*" using False conn w by simp
    ultimately show ?thesis using wh by auto
  qed
qed

definition sample_edges :: "(nat \<times> nat) list" where
  "sample_edges = [(0, 1), (2, 3), (3, 4), (1, 0)]"

theorem connected_supergraph_witness:
  "\<exists>g. build_connected_graph 5 sample_edges = Inr (g, True) \<and> num_nodes g = 6 \<and> (1, 4) \<in> (edge g)\<^sup>*"
proof -
  have "\<exists>g hub. build_connected_graph 5 sample_edges = Inr (g, hub) \<and> num_nodes g = (if hub then 5 + 1 else 5)
    \<and> (hub \<longleftrightarrow> (\<exists>v < 5. (0, v) \<notin> (undirected sample_edges)\<^sup>*))
    \<and> (\<forall>u < num_nodes g. \<forall>v < num_nodes g. (u, v) \<in> (edge g)\<^sup>*)
    \<and> edge g \<inter> {..<5} \<times> {..<5} = undirected sample_edges"
    by (rule connected_supergraph) (auto simp: sample_edges_def)
  moreover have "case build_connected_graph 5 sample_edges of Inl _ \<Rightarrow> False | Inr (g, hub) \<Rightarrow> hub" by code_simp
  ultimately show ?thesis by auto
qed

theorem hop_distance_exact_witness:
  "\<exists>g. from_edges 5 sample_edges = Inr g \<and> (LEAST k. (2, 4) \<in> undirected sample_edges ^^ k) = 2"
proof -
  have "case from_edges 5 sample_edges of Inl _ \<Rightarrow> False | Inr g \<Rightarrow> topological_distance g 2 4 = Inr 2" by code_simp
  then obtain g where g: "from_edges 5 sample_edges = Inr g" "topological_distance g 2 4 = Inr 2" by (auto split: sum.splits)
  show ?thesis using hop_distance_exact [OF g(1), of 2 4] g by (auto split: if_splits)
qed

end
