(* ===== verification/Spectral_Embedding.thy ===== *)
theory Spectral_Embedding
  imports Spectral_Graph ASD_Prelude "HOL-Library.Multiset"
begin

text \<open>
  The spectral embedding (\<^verbatim>\<open>spec-engine/src/spectral_graph/embedding.rs\<close>, \<^verbatim>\<open>report.rs\<close>) and the
  entity graph over it (\<^verbatim>\<open>SpectralSecurityGraph\<close> of \<^verbatim>\<open>lib.rs\<close>): the Jacobi rotations, the sorted
  spectrum and the distances, in the double arithmetic of the code, rounding included.  The square
  root is the parameter \<open>sq\<close>; the theorems hold for every one.
\<close>

section \<open>Jacobi rotations\<close>

record jacobi_config =
  max_iterations :: nat
  jc_epsilon :: f64
  jc_dimensions :: "nat option"

definition jacobi_default :: jacobi_config where
  "jacobi_default = \<lparr>max_iterations = 2000, jc_epsilon = mk_f64 (1 / 10 ^ 9), jc_dimensions = None\<rparr>"

definition jacobi_relaxed :: jacobi_config where
  "jacobi_relaxed = \<lparr>max_iterations = 20000, jc_epsilon = mk_f64 (1 / 10 ^ 6), jc_dimensions = None\<rparr>"

record embedding =
  em_nodes :: nat
  em_dims :: nat
  eigenvector_matrix :: "f64 list list"
  eigenvalues :: "f64 list"
  algebraic_connectivity :: f64

type_synonym matrix = "f64 list list"

fun flt_abs :: "flt \<Rightarrow> flt" where
  "flt_abs NaN = NaN"
| "flt_abs (Inf _) = Inf False"
| "flt_abs (Fin a) = Fin \<bar>a\<bar>"

definition put :: "matrix \<Rightarrow> nat \<Rightarrow> nat \<Rightarrow> f64 \<Rightarrow> matrix" where
  "put l i j x = l[i := (l ! i)[j := x]]"

definition upper :: "nat \<Rightarrow> (nat \<times> nat) list" where
  "upper n = concat (map (\<lambda>i. map (\<lambda>j. (i, j)) [i + 1..<n]) [0..<n])"

definition off_diagonal_max :: "matrix \<Rightarrow> nat \<Rightarrow> f64 \<times> nat \<times> nat" where
  "off_diagonal_max l n =
     foldl (\<lambda>(max_val, p, q) (i, j). if flt_lt max_val (flt_abs (l ! i ! j)) then (flt_abs (l ! i ! j), i, j) else (max_val, p, q))
       (Fin 0, 0, 1) (upper n)"

definition jacobi_cs :: "(f64 \<Rightarrow> f64) \<Rightarrow> f64 \<Rightarrow> f64 \<Rightarrow> f64 \<Rightarrow> f64 \<times> f64" where
  "jacobi_cs sq l_pp l_qq l_pq =
     (let theta = f64_div (f64_sub l_qq l_pp) (f64_mul (Fin 2) l_pq);
          hyp = sq (f64_add (f64_mul theta theta) (Fin 1));
          t = (if flt_ge theta (Fin 0) then f64_div (Fin 1) (f64_add theta hyp)
               else f64_div (Fin (- 1)) (f64_add (flt_neg theta) hyp));
          c = f64_div (Fin 1) (sq (f64_add (Fin 1) (f64_mul t t)))
      in (c, f64_mul t c))"

definition rotate_row :: "nat \<Rightarrow> nat \<Rightarrow> f64 \<Rightarrow> f64 \<Rightarrow> matrix \<Rightarrow> nat \<Rightarrow> matrix" where
  "rotate_row p q c s l i =
     (if i \<noteq> p \<and> i \<noteq> q
      then let l_ip = l ! i ! p; l_iq = l ! i ! q;
               x = f64_sub (f64_mul c l_ip) (f64_mul s l_iq);
               y = f64_add (f64_mul s l_ip) (f64_mul c l_iq)
           in put (put (put (put l i p x) p i x) i q y) q i y
      else l)"

definition apply_jacobi_rotation_to_l :: "matrix \<Rightarrow> nat \<Rightarrow> nat \<Rightarrow> nat \<Rightarrow> f64 \<Rightarrow> f64 \<Rightarrow> matrix" where
  "apply_jacobi_rotation_to_l l n p q c s =
     (let l_pp = l ! p ! p; l_qq = l ! q ! q; l_pq = l ! p ! q;
          cross = f64_mul (f64_mul (f64_mul (Fin 2) s) c) l_pq;
          l = put l p p (f64_add (f64_sub (f64_mul (f64_mul c c) l_pp) cross) (f64_mul (f64_mul s s) l_qq));
          l = put l q q (f64_add (f64_add (f64_mul (f64_mul s s) l_pp) cross) (f64_mul (f64_mul c c) l_qq));
          l = put (put l p q (Fin 0)) q p (Fin 0)
      in foldl (rotate_row p q c s) l [0..<n])"

definition rotate_vector :: "nat \<Rightarrow> nat \<Rightarrow> f64 \<Rightarrow> f64 \<Rightarrow> f64 list \<Rightarrow> f64 list" where
  "rotate_vector p q c s row =
     (let u_ip = row ! p; u_iq = row ! q
      in row[p := f64_sub (f64_mul c u_ip) (f64_mul s u_iq), q := f64_add (f64_mul s u_ip) (f64_mul c u_iq)])"

fun jacobi_loop :: "(f64 \<Rightarrow> f64) \<Rightarrow> nat \<Rightarrow> f64 \<Rightarrow> nat \<Rightarrow> matrix \<Rightarrow> matrix \<Rightarrow> bool \<times> matrix \<times> matrix" where
  "jacobi_loop sq n eps 0 l u = (False, l, u)"
| "jacobi_loop sq n eps (Suc k) l u =
     (case off_diagonal_max l n of (max_val, p, q) \<Rightarrow>
        if flt_lt max_val eps then (True, l, u)
        else case jacobi_cs sq (l ! p ! p) (l ! q ! q) (l ! p ! q) of
               (c, s) \<Rightarrow> jacobi_loop sq n eps k (apply_jacobi_rotation_to_l l n p q c s) (map (rotate_vector p q c s) u))"

section \<open>Sorting\<close>

text \<open>\<^verbatim>\<open>sort_by\<close> with \<^verbatim>\<open>partial_cmp\<close>: the stable ascending order by a key that is never NaN.\<close>

fun insert_by :: "('a \<Rightarrow> flt) \<Rightarrow> 'a \<Rightarrow> 'a list \<Rightarrow> 'a list" where
  "insert_by k x [] = [x]"
| "insert_by k x (y # ys) = (if flt_lt (k y) (k x) then y # insert_by k x ys else x # y # ys)"

definition sort_by_key :: "('a \<Rightarrow> flt) \<Rightarrow> 'a list \<Rightarrow> 'a list" where
  "sort_by_key k xs = foldr (insert_by k) xs []"

section \<open>The embedding\<close>

definition embed :: "(f64 \<Rightarrow> f64) \<Rightarrow> graph \<Rightarrow> jacobi_config \<Rightarrow> graph_error + embedding" where
  "embed sq g cfg =
     (let n = num_nodes g
      in if n < 2 then Inl (InsufficientNodesForEmbedding n)
         else
           let l = laplacian g;
               u = map (\<lambda>i. (replicate n (Fin 0))[i := Fin 1]) [0..<n];
               scale = foldl flt_max (Fin 1) (map (\<lambda>i. flt_abs (l ! i ! i)) [0..<n])
           in case jacobi_loop sq n (f64_mul (jc_epsilon cfg) scale) (max_iterations cfg) l u of (converged, l, u) \<Rightarrow>
                let residual = fst (off_diagonal_max l n)
                in if \<not> converged \<and> flt_lt (mk_f64 (1 / 1000)) (f64_div residual scale)
                   then Inl (EigenConvergenceFailed (max_iterations cfg) residual)
                   else
                     let pairs = sort_by_key fst (map (\<lambda>i. (flt_max (l ! i ! i) (Fin 0), i)) [0..<n]);
                         dims = min (case jc_dimensions cfg of None \<Rightarrow> n | Some d \<Rightarrow> d) n;
                         evs = map fst (take dims pairs)
                     in Inr \<lparr>em_nodes = n, em_dims = dims,
                             eigenvector_matrix = map (\<lambda>i. map (\<lambda>(_, c). u ! i ! c) (take dims pairs)) [0..<n],
                             eigenvalues = evs, algebraic_connectivity = (if dims > 1 then evs ! 1 else Fin 0)\<rparr>)"

definition em_validate :: "embedding \<Rightarrow> nat \<Rightarrow> graph_error option" where
  "em_validate e idx = (if idx \<ge> em_nodes e then Some (NodeOutOfRange idx (em_nodes e)) else None)"

text \<open>The two validations that open every distance.\<close>

abbreviation both_valid :: "embedding \<Rightarrow> nat \<Rightarrow> nat \<Rightarrow> 'a \<Rightarrow> graph_error + 'a" where
  "both_valid e u v x \<equiv>
     (case em_validate e u of Some err \<Rightarrow> Inl err
      | None \<Rightarrow> (case em_validate e v of Some err \<Rightarrow> Inl err | None \<Rightarrow> Inr x))"

definition tiny :: f64 where
  "tiny = mk_f64 (1 / 10 ^ 10)"

definition coord_diff :: "embedding \<Rightarrow> nat \<Rightarrow> nat \<Rightarrow> nat \<Rightarrow> f64" where
  "coord_diff e u v k = f64_sub (eigenvector_matrix e ! u ! k) (eigenvector_matrix e ! v ! k)"

definition geometric_distance :: "(f64 \<Rightarrow> f64) \<Rightarrow> embedding \<Rightarrow> nat \<Rightarrow> nat \<Rightarrow> graph_error + f64" where
  "geometric_distance sq e u v =
     (if em_dims e < 2 then Inl (InsufficientNodesForEmbedding (em_dims e))
      else both_valid e u v
        (sq (foldl f64_add (Fin 0)
           (map (\<lambda>k. let d = coord_diff e u v k in f64_div (f64_mul d d) (eigenvalues e ! k))
              (filter (\<lambda>k. \<not> flt_lt (eigenvalues e ! k) tiny) [1..<em_dims e])))))"

definition euclidean_distance :: "(f64 \<Rightarrow> f64) \<Rightarrow> embedding \<Rightarrow> nat \<Rightarrow> nat \<Rightarrow> graph_error + f64" where
  "euclidean_distance sq e u v =
     both_valid e u v
       (sq (foldl f64_add (Fin 0) (map (\<lambda>k. let d = coord_diff e u v k in f64_mul d d) [0..<em_dims e])))"

definition first_nontrivial :: "embedding \<Rightarrow> nat" where
  "first_nontrivial e =
     (case find (\<lambda>k. flt_lt tiny (eigenvalues e ! k)) [0..<length (eigenvalues e)] of None \<Rightarrow> 1 | Some k \<Rightarrow> k)"

definition fiedler_distance :: "embedding \<Rightarrow> nat \<Rightarrow> nat \<Rightarrow> graph_error + f64" where
  "fiedler_distance e u v =
     (if em_dims e < 2 then Inl (InsufficientNodesForEmbedding (em_dims e))
      else both_valid e u v (flt_abs (coord_diff e u v (first_nontrivial e))))"

definition coordinate :: "embedding \<Rightarrow> nat \<Rightarrow> nat \<Rightarrow> graph_error + f64" where
  "coordinate e node k =
     (case em_validate e node of
        Some err \<Rightarrow> Inl err
      | None \<Rightarrow> if k \<ge> em_dims e then Inl (DimensionOutOfRange k (em_dims e)) else Inr (eigenvector_matrix e ! node ! k))"

definition fiedler_vector :: "embedding \<Rightarrow> graph_error + f64 list" where
  "fiedler_vector e =
     (if em_dims e < 2 then Inl (InsufficientNodesForEmbedding (em_dims e))
      else Inr (map (\<lambda>i. eigenvector_matrix e ! i ! 1) [0..<em_nodes e]))"

definition node_coords_f32 :: "embedding \<Rightarrow> nat \<Rightarrow> graph_error + f32 list" where
  "node_coords_f32 e node =
     (case em_validate e node of Some err \<Rightarrow> Inl err | None \<Rightarrow> Inr (map f64_to_f32 (eigenvector_matrix e ! node)))"

section \<open>Reports\<close>

record pairwise_result =
  pw_from :: nat
  pw_to :: nat
  pw_label :: string
  topological_hops :: "nat option" \<comment> \<open>\<^verbatim>\<open>usize::MAX\<close> without a path\<close>
  pw_commute :: f64
  pw_fiedler :: f64
  pw_euclidean :: f64

record graph_report =
  gr_nodes :: nat
  gr_connectivity :: f64
  gr_connected :: bool
  gr_eigenvalues :: "f64 list"
  gr_fiedler :: "f64 list"
  gr_pairwise :: "pairwise_result list"

definition report_pair :: "(f64 \<Rightarrow> f64) \<Rightarrow> graph \<Rightarrow> embedding \<Rightarrow> nat \<times> nat \<times> string \<Rightarrow> graph_error + pairwise_result" where
  "report_pair sq g e = (\<lambda>(u, v, label).
     (case geometric_distance sq e u v of Inl err \<Rightarrow> Inl err
      | Inr ct \<Rightarrow>
          (case fiedler_distance e u v of Inl err \<Rightarrow> Inl err
           | Inr fd \<Rightarrow>
               (case euclidean_distance sq e u v of Inl err \<Rightarrow> Inl err
                | Inr eu \<Rightarrow>
                    Inr \<lparr>pw_from = u, pw_to = v, pw_label = label,
                         topological_hops = (case topological_distance g u v of Inl _ \<Rightarrow> None | Inr h \<Rightarrow> Some h),
                         pw_commute = ct, pw_fiedler = fd, pw_euclidean = eu\<rparr>))))"

fun report_pairs :: "(f64 \<Rightarrow> f64) \<Rightarrow> graph \<Rightarrow> embedding \<Rightarrow> (nat \<times> nat \<times> string) list \<Rightarrow> graph_error + pairwise_result list" where
  "report_pairs sq g e [] = Inr []"
| "report_pairs sq g e (x # xs) =
     (case report_pair sq g e x of
        Inl err \<Rightarrow> Inl err
      | Inr r \<Rightarrow> (case report_pairs sq g e xs of Inl err \<Rightarrow> Inl err | Inr rs \<Rightarrow> Inr (r # rs)))"

definition report_build :: "(f64 \<Rightarrow> f64) \<Rightarrow> graph \<Rightarrow> embedding \<Rightarrow> (nat \<times> nat \<times> string) list \<Rightarrow> graph_error + graph_report" where
  "report_build sq g e pairs =
     (case report_pairs sq g e pairs of
        Inl err \<Rightarrow> Inl err
      | Inr rs \<Rightarrow> Inr \<lparr>gr_nodes = num_nodes g, gr_connectivity = algebraic_connectivity e,
           gr_connected = flt_lt tiny (algebraic_connectivity e), gr_eigenvalues = eigenvalues e,
           gr_fiedler = (case fiedler_vector e of Inl _ \<Rightarrow> [] | Inr v \<Rightarrow> v), gr_pairwise = rs\<rparr>)"

section \<open>The entity graph\<close>

record security_graph =
  sg_graph :: graph
  sg_embedding :: embedding
  entity_index :: "string list"
  entity_to_node :: "(string, nat) tbl"
  hub_injected :: bool

record blast_node =
  bn_entity :: string
  bn_commute :: f64
  bn_fiedler :: f64

type_synonym interner = "string list \<times> (string, nat) tbl"

definition intern :: "interner \<Rightarrow> string \<Rightarrow> nat \<times> interner" where
  "intern = (\<lambda>(index, m) x.
     (case tbl_get m x of
        Some i \<Rightarrow> (i, (index, m))
      | None \<Rightarrow> (length index, (index @ [x], tbl_insert m x (length index)))))"

fun intern_edges :: "interner \<Rightarrow> (string \<times> string) list \<Rightarrow> (nat \<times> nat) list \<times> interner" where
  "intern_edges t [] = ([], t)"
| "intern_edges t ((src, dst) # es) =
     (case intern t src of (u, t1) \<Rightarrow>
        case intern t1 dst of (v, t2) \<Rightarrow>
          case intern_edges t2 es of (raw, t3) \<Rightarrow> ((u, v) # raw, t3))"

definition sg_build :: "(f64 \<Rightarrow> f64) \<Rightarrow> (string \<times> string) list \<Rightarrow> jacobi_config \<Rightarrow> graph_error + security_graph" where
  "sg_build sq edges cfg =
     (case intern_edges ([], []) edges of (raw_edges, index, m) \<Rightarrow>
        case build_connected_graph (max (length index) 2) raw_edges of
          Inl err \<Rightarrow> Inl err
        | Inr (g, hub) \<Rightarrow>
            (case embed sq g cfg of
               Inl err \<Rightarrow> Inl err
             | Inr e \<Rightarrow> Inr \<lparr>sg_graph = g, sg_embedding = e, entity_index = index, entity_to_node = m, hub_injected = hub\<rparr>))"

definition or_zero :: "graph_error + f64 \<Rightarrow> f64" where
  "or_zero r = (case r of Inl _ \<Rightarrow> Fin 0 | Inr d \<Rightarrow> d)"

definition pair_distances :: "(f64 \<Rightarrow> f64) \<Rightarrow> security_graph \<Rightarrow> string \<Rightarrow> string \<Rightarrow> f64 \<times> f64" where
  "pair_distances sq sg src dst =
     (case (tbl_get (entity_to_node sg) src, tbl_get (entity_to_node sg) dst) of
        (Some u, Some v) \<Rightarrow> (or_zero (geometric_distance sq (sg_embedding sg) u v), or_zero (fiedler_distance (sg_embedding sg) u v))
      | _ \<Rightarrow> (Fin 0, Fin 0))"

definition blast_candidates :: "(f64 \<Rightarrow> f64) \<Rightarrow> security_graph \<Rightarrow> nat \<Rightarrow> blast_node list" where
  "blast_candidates sq sg seed_idx =
     List.map_filter (\<lambda>(i, entity).
         case (geometric_distance sq (sg_embedding sg) seed_idx i, fiedler_distance (sg_embedding sg) seed_idx i) of
           (Inr ct, Inr fd) \<Rightarrow> Some \<lparr>bn_entity = entity, bn_commute = ct, bn_fiedler = fd\<rparr>
         | _ \<Rightarrow> None)
       (filter (\<lambda>(i, _). i \<noteq> seed_idx) (enumerate 0 (entity_index sg)))"

definition spectral_blast_radius :: "(f64 \<Rightarrow> f64) \<Rightarrow> security_graph \<Rightarrow> string \<Rightarrow> nat \<Rightarrow> blast_node list" where
  "spectral_blast_radius sq sg seed max_nodes =
     (case tbl_get (entity_to_node sg) seed of
        None \<Rightarrow> []
      | Some seed_idx \<Rightarrow> take max_nodes (sort_by_key bn_commute (blast_candidates sq sg seed_idx)))"

definition sg_report :: "(f64 \<Rightarrow> f64) \<Rightarrow> security_graph \<Rightarrow> (string \<times> string \<times> string) list \<Rightarrow> graph_error + graph_report" where
  "sg_report sq sg pairs =
     report_build sq (sg_graph sg) (sg_embedding sg)
       (List.map_filter (\<lambda>(src, dst, label).
           case (tbl_get (entity_to_node sg) src, tbl_get (entity_to_node sg) dst) of
             (Some u, Some v) \<Rightarrow> Some (u, v, label) | _ \<Rightarrow> None) pairs)"

section \<open>The sort\<close>

lemma flt_le_trans: "flt_le x y \<Longrightarrow> flt_le y z \<Longrightarrow> flt_le x z"
  by (cases x; cases y; cases z) auto

lemma flt_le_not_lt: "x \<noteq> NaN \<Longrightarrow> y \<noteq> NaN \<Longrightarrow> \<not> flt_lt y x \<longleftrightarrow> flt_le x y"
  by (cases x; cases y) auto

lemma flt_lt_le: "flt_lt x y \<Longrightarrow> flt_le x y"
  by (cases x; cases y) auto

lemma mset_insert_by [simp]: "mset (insert_by k x ys) = add_mset x (mset ys)"
  by (induction ys) auto

lemma mset_sort_by_key [simp]: "mset (sort_by_key k xs) = mset xs"
  by (induction xs) (simp_all add: sort_by_key_def)

lemma set_sort_by_key [simp]: "set (sort_by_key k xs) = set xs"
  by (metis mset_eq_setD mset_sort_by_key)

lemma length_sort_by_key [simp]: "length (sort_by_key k xs) = length xs"
  by (metis mset_eq_length mset_sort_by_key)

lemma sorted_insert_by:
  "\<forall>y \<in> set (x # ys). k y \<noteq> NaN \<Longrightarrow> sorted_wrt (\<lambda>a b. flt_le (k a) (k b)) ys \<Longrightarrow>
     sorted_wrt (\<lambda>a b. flt_le (k a) (k b)) (insert_by k x ys)"
proof (induction ys)
  case (Cons y ys)
  have set: "set (insert_by k x ys) = insert x (set ys)"
    by (metis mset_insert_by set_mset_add_mset_insert set_mset_mset)
  show ?case
  proof (cases "flt_lt (k y) (k x)")
    case True
    then show ?thesis using Cons flt_lt_le [OF True] by (simp add: set)
  next
    case False
    then have "flt_le (k x) (k y)" using Cons.prems(1) by (simp add: flt_le_not_lt)
    then show ?thesis using Cons.prems(2) False flt_le_trans [of "k x" "k y"] by auto
  qed
qed simp

lemma sorted_sort_by_key:
  "\<forall>x \<in> set xs. k x \<noteq> NaN \<Longrightarrow> sorted_wrt (\<lambda>a b. flt_le (k a) (k b)) (sort_by_key k xs)"
proof (induction xs)
  case (Cons x xs)
  have "sort_by_key k (x # xs) = insert_by k x (sort_by_key k xs)" by (simp add: sort_by_key_def)
  then show ?case using Cons sorted_insert_by [of x "sort_by_key k xs" k] by simp
qed (simp add: sort_by_key_def)

text \<open>The first elements of the sorted list are the least ones.\<close>

lemma take_sort_least:
  assumes "\<forall>x \<in> set xs. key x \<noteq> NaN" "out = take k (sort_by_key key xs)"
  shows "sorted_wrt (\<lambda>a b. flt_le (key a) (key b)) out" "set out \<subseteq> set xs" "length out = min k (length xs)"
    "distinct (map f xs) \<Longrightarrow> distinct (map f out)"
    "\<lbrakk>r \<in> set out; y \<in> set xs; y \<notin> set out\<rbrakk> \<Longrightarrow> flt_le (key r) (key y)"
proof -
  let ?ys = "sort_by_key key xs"
  note srt = sorted_sort_by_key [OF assms(1)]
  then show "sorted_wrt (\<lambda>a b. flt_le (key a) (key b)) out" by (simp add: assms(2) sorted_wrt_take)
  show "set out \<subseteq> set xs" unfolding assms(2) by (metis set_sort_by_key set_take_subset)
  show "length out = min k (length xs)" by (simp add: assms(2))
  show "distinct (map f out)" if "distinct (map f xs)"
  proof -
    have "mset (map f ?ys) = mset (map f xs)" by simp
    then have "distinct (map f ?ys)" using \<open>distinct (map f xs)\<close> by (metis mset_eq_imp_distinct_iff)
    then show ?thesis by (simp add: assms(2) take_map [symmetric])
  qed
  show "flt_le (key r) (key y)" if m: "r \<in> set out" "y \<in> set xs" "y \<notin> set out"
  proof -
    have "set ?ys = set out \<union> set (drop k ?ys)" unfolding assms(2) by (metis append_take_drop_id set_append)
    then have "y \<in> set (drop k ?ys)" using m(2,3) by auto
    moreover have "sorted_wrt (\<lambda>a b. flt_le (key a) (key b)) (out @ drop k ?ys)" using srt by (simp add: assms(2))
    ultimately show ?thesis using m(1) by (auto simp: sorted_wrt_append)
  qed
qed

section \<open>The spectrum\<close>

lemma flt_max_0: "flt_nonneg (flt_max x (Fin 0))"
  by (cases x) (auto simp: flt_max_def)

lemma nonneg_not_NaN: "flt_nonneg x \<Longrightarrow> x \<noteq> NaN"
  by auto

text \<open> Whatever the rounding, a spectral embedding that is returned is well shaped: a row per node and
  a column per retained dimension, the eigenvalues never negative and never NaN, in ascending
  order, and the algebraic connectivity is the second of them.\<close>

theorem embedding_spectrum:
  assumes "embed sq g cfg = Inr e"
  shows "em_nodes e = num_nodes g \<and> 2 \<le> em_nodes e
    \<and> em_dims e = min (case jc_dimensions cfg of None \<Rightarrow> num_nodes g | Some d \<Rightarrow> d) (num_nodes g)
    \<and> length (eigenvalues e) = em_dims e \<and> length (eigenvector_matrix e) = em_nodes e
    \<and> (\<forall>row \<in> set (eigenvector_matrix e). length row = em_dims e)
    \<and> (\<forall>ev \<in> set (eigenvalues e). flt_nonneg ev) \<and> sorted_wrt flt_le (eigenvalues e)
    \<and> algebraic_connectivity e = (if em_dims e > 1 then eigenvalues e ! 1 else Fin 0)"
proof -
  let ?n = "num_nodes g"
  let ?l0 = "laplacian g" and ?u0 = "map (\<lambda>i. (replicate ?n (Fin 0))[i := Fin 1]) [0..<?n]"
  obtain conv l u where j: "jacobi_loop sq ?n (f64_mul (jc_epsilon cfg) (foldl flt_max (Fin 1) (map (\<lambda>i. flt_abs (?l0 ! i ! i)) [0..<?n])))
    (max_iterations cfg) ?l0 ?u0 = (conv, l, u)" by (rule prod_cases3)
  define pairs where "pairs = sort_by_key fst (map (\<lambda>i. (flt_max (l ! i ! i) (Fin 0), i)) [0..<?n])"
  define dims where "dims = min (case jc_dimensions cfg of None \<Rightarrow> ?n | Some d \<Rightarrow> d) ?n"
  have e: "2 \<le> ?n" "e = \<lparr>em_nodes = ?n, em_dims = dims,
      eigenvector_matrix = map (\<lambda>i. map (\<lambda>(_, c). u ! i ! c) (take dims pairs)) [0..<?n],
      eigenvalues = map fst (take dims pairs), algebraic_connectivity = (if dims > 1 then map fst (take dims pairs) ! 1 else Fin 0)\<rparr>"
    using assms unfolding embed_def Let_def j pairs_def dims_def by (auto split: if_splits)
  have len: "length pairs = ?n" by (simp add: pairs_def)
  have nonneg: "\<forall>x \<in> set pairs. flt_nonneg (fst x)" by (auto simp: pairs_def flt_max_0)
  have "sorted_wrt (\<lambda>a b. flt_le (fst a) (fst b)) pairs"
    unfolding pairs_def by (rule sorted_sort_by_key) (auto dest: flt_max_0 [THEN nonneg_not_NaN, THEN notE])
  then have srt: "sorted_wrt flt_le (map fst (take dims pairs))" by (simp add: sorted_wrt_map sorted_wrt_take)
  have nn: "\<forall>ev \<in> set (map fst (take dims pairs)). flt_nonneg ev" using nonneg by (auto dest: in_set_takeD)
  have "length (take dims pairs) = dims" using len by (simp add: dims_def)
  then show ?thesis unfolding e(2) using e(1) srt nn by (simp add: dims_def [symmetric])
qed

section \<open>The distances\<close>

lemma mk_f64_minus: "mk_f64 (- x) = flt_neg (mk_f64 x)"
proof -
  have "rnd 53 (- 1074) (- x) = - rnd 53 (- 1074) x" by (rule rnd_minus)
  moreover have "(2::rat) powi 1024 \<le> \<bar>r\<bar> \<Longrightarrow> r \<noteq> 0" for r :: rat
    using two_powi_pos [of 1024] by auto
  ultimately show ?thesis by (auto simp: mk_f64_def mk_flt_def Let_def)
qed

lemma flt_neg_neg [simp]: "flt_neg (flt_neg x) = x"
  by (cases x) auto

lemma flt_sub_swap: "f64_sub y x = flt_neg (f64_sub x y)"
  by (cases x; cases y) (auto simp: flt_sub_def mk_f64_minus [symmetric])

lemma flt_neg_square: "f64_mul (flt_neg d) (flt_neg d) = f64_mul d d"
  by (cases d) auto

lemma flt_abs_neg: "flt_abs (flt_neg d) = flt_abs d"
  by (cases d) auto

lemma coord_diff_swap: "coord_diff e v u k = flt_neg (coord_diff e u v k)"
  unfolding coord_diff_def by (rule flt_sub_swap)

text \<open> The distances of the embedding do not depend on the direction, bit for bit: commute-time, Euclidean
  and Fiedler distance of two nodes of the graph are the same both ways, although every difference
  is rounded.\<close>

theorem distances_symmetric:
  assumes "u < em_nodes e" "v < em_nodes e"
  shows "geometric_distance sq e u v = geometric_distance sq e v u \<and> euclidean_distance sq e u v = euclidean_distance sq e v u
    \<and> fiedler_distance e u v = fiedler_distance e v u"
  using assms
  by (simp add: geometric_distance_def euclidean_distance_def fiedler_distance_def em_validate_def Let_def
      coord_diff_swap [of e v u] flt_neg_square flt_abs_neg)

section \<open>Convergence\<close>

definition mat_sym :: "nat \<Rightarrow> matrix \<Rightarrow> bool" where
  "mat_sym n l \<longleftrightarrow> length l = n \<and> (\<forall>row \<in> set l. length row = n) \<and> (\<forall>i < n. \<forall>j < n. l ! i ! j = l ! j ! i)"

lemma put_sym:
  assumes l: "mat_sym n l" and i: "i < n" and j: "j < n"
  shows "mat_sym n (put (put l i j x) j i x)"
proof -
  have "length (l ! i) = n" "length (l ! j) = n" "length l = n" using assms by (auto simp: mat_sym_def)
  then have nth: "put (put l i j x) j i x ! a ! b = (if (a = i \<and> b = j) \<or> (a = j \<and> b = i) then x else l ! a ! b)"
    if "a < n" "b < n" for a b
    using that i j by (cases "i = j") (auto simp: put_def nth_list_update)
  have "length (put (put l i j x) j i x) = n" using l by (simp add: put_def mat_sym_def)
  moreover have "length row = n" if "row \<in> set (put (put l i j x) j i x)" for row
  proof -
    have "\<forall>k < n. length (put (put l i j x) j i x ! k) = n"
      using l i j by (auto simp: put_def mat_sym_def nth_list_update)
    then show ?thesis using that calculation by (metis in_set_conv_nth)
  qed
  ultimately show ?thesis using l nth unfolding mat_sym_def by auto
qed

lemma put_diag: "mat_sym n l \<Longrightarrow> i < n \<Longrightarrow> mat_sym n (put l i i x)"
  using put_sym [of n l i i x] by (simp add: put_def mat_sym_def)

lemma rotate_row_sym: "mat_sym n l \<Longrightarrow> i < n \<Longrightarrow> p < n \<Longrightarrow> q < n \<Longrightarrow> mat_sym n (rotate_row p q c s l i)"
  by (simp add: rotate_row_def Let_def put_sym)

lemma rotation_sym:
  assumes "mat_sym n l" "p < n" "q < n"
  shows "mat_sym n (apply_jacobi_rotation_to_l l n p q c s)"
proof -
  have "mat_sym n (foldl (rotate_row p q c s) l' ks)" if "mat_sym n l'" "set ks \<subseteq> {..<n}" for l' ks
    using that assms(2,3) by (induction ks arbitrary: l') (auto simp: rotate_row_sym)
  then show ?thesis using assms by (simp add: apply_jacobi_rotation_to_l_def Let_def put_sym put_diag subset_eq)
qed

lemma upper_set: "set (upper n) = {(i, j). i < j \<and> j < n}"
  by (force simp: upper_def)

lemma off_diagonal_fold:
  "foldl (\<lambda>(m, p, q) (i, j). if flt_lt m (flt_abs (l ! i ! j)) then (flt_abs (l ! i ! j), i, j) else (m, p, q)) (m0, p0, q0) xs = (m, p, q) \<Longrightarrow>
     m0 \<noteq> NaN \<Longrightarrow> m \<noteq> NaN \<and> flt_le m0 m \<and> ((p, q) \<in> set xs \<or> (p, q) = (p0, q0))
       \<and> (\<forall>(i, j) \<in> set xs. l ! i ! j \<noteq> NaN \<longrightarrow> flt_le (flt_abs (l ! i ! j)) m)"
proof (induction xs arbitrary: m0 p0 q0)
  case Nil
  then show ?case by (cases m0) auto
next
  case (Cons x xs)
  obtain i j where x: "x = (i, j)" by fastforce
  let ?a = "flt_abs (l ! i ! j)"
  have a: "l ! i ! j \<noteq> NaN \<Longrightarrow> ?a \<noteq> NaN" by (cases "l ! i ! j") auto
  show ?case
  proof (cases "flt_lt m0 ?a")
    case True
    then have nn: "?a \<noteq> NaN" by auto
    then show ?thesis using Cons.IH [of ?a i j] Cons.prems True flt_lt_le [OF True] flt_le_trans by (auto simp: x)
  next
    case False
    then have "l ! i ! j \<noteq> NaN \<Longrightarrow> flt_le ?a m0" using a Cons.prems(2) by (simp add: flt_le_not_lt)
    then show ?thesis using Cons.IH [of m0 p0 q0] Cons.prems False flt_le_trans by (auto simp: x)
  qed
qed

lemma off_diagonal_max_bounds:
  assumes "off_diagonal_max l n = (m, p, q)" "2 \<le> n"
  shows "p < q \<and> q < n \<and> m \<noteq> NaN \<and> (\<forall>i j. i < j \<and> j < n \<longrightarrow> l ! i ! j \<noteq> NaN \<longrightarrow> flt_le (flt_abs (l ! i ! j)) m)"
  using off_diagonal_fold [OF assms(1) [unfolded off_diagonal_max_def]] assms(2) by (auto simp: upper_set)

lemma fold_update_nth: "k < length row \<Longrightarrow> foldl (\<lambda>row j. row[j := x]) row js ! k = (if k \<in> set js then x else row ! k)"
  by (induction js arbitrary: row) (auto simp: nth_list_update)

lemma fold_update_length: "length (foldl (\<lambda>row j. row[j := x]) row js) = length row"
  by (induction js arbitrary: row) auto

lemma laplacian_nth:
  assumes "graph_wf g" "i < num_nodes g" "j < num_nodes g"
  shows "laplacian g ! i ! j = (if (i, j) \<in> edge g then Fin (- 1) else if i = j then f64_of_nat (length (adjacency g ! i)) else Fin 0)"
  using assms by (auto simp: laplacian_def fold_update_nth edge_def nth_list_update)

lemma laplacian_sym:
  assumes g: "graph_wf g"
  shows "mat_sym (num_nodes g) (laplacian g)"
proof -
  have "sym (edge g)" using g by (simp add: graph_wf_def)
  then have "(i, j) \<in> edge g \<longleftrightarrow> (j, i) \<in> edge g" for i j by (auto dest: symD)
  then have "laplacian g ! i ! j = laplacian g ! j ! i" if "i < num_nodes g" "j < num_nodes g" for i j
    using laplacian_nth [OF g that] laplacian_nth [OF g that(2,1)] by auto
  then show ?thesis by (auto simp: mat_sym_def laplacian_def fold_update_length)
qed

lemma jacobi_loop_small:
  "mat_sym n l \<Longrightarrow> 2 \<le> n \<Longrightarrow> jacobi_loop sq n eps k l u = (True, l', u') \<Longrightarrow>
     mat_sym n l' \<and> (\<forall>i j. i < j \<and> j < n \<longrightarrow> l' ! i ! j \<noteq> NaN \<longrightarrow> flt_lt (flt_abs (l' ! i ! j)) eps)"
proof (induction k arbitrary: l u)
  case (Suc k)
  obtain m p q where o: "off_diagonal_max l n = (m, p, q)" by (rule prod_cases3)
  note b = off_diagonal_max_bounds [OF o Suc.prems(2)]
  have lt: "flt_le x m \<Longrightarrow> flt_lt m eps \<Longrightarrow> flt_lt x eps" for x by (cases x; cases m; cases eps) auto
  obtain c s where cs: "jacobi_cs sq (l ! p ! p) (l ! q ! q) (l ! p ! q) = (c, s)" by fastforce
  show ?case
  proof (cases "flt_lt m eps")
    case True
    then show ?thesis using Suc.prems b lt by (auto simp: o)
  next
    case False
    then have "jacobi_loop sq n eps k (apply_jacobi_rotation_to_l l n p q c s) (map (rotate_vector p q c s) u) = (True, l', u')"
      using Suc.prems(3) by (simp add: o cs)
    moreover have "p < n" "q < n" using b by auto
    ultimately show ?thesis using Suc.IH [OF rotation_sym [OF Suc.prems(1)] Suc.prems(2)] by blast
  qed
qed simp

text \<open> When the rotations report convergence they have converged: starting from the Laplacian of any edge
  list, the matrix is still exactly symmetric and every off-diagonal entry, in both triangles, is
  below the threshold, unless it is not a number.\<close>

theorem jacobi_converged:
  assumes "from_edges n es = Inr g" "2 \<le> n" "jacobi_loop sq n eps k (laplacian g) u = (True, l, u')"
  shows "\<forall>i < n. \<forall>j < n. l ! i ! j = l ! j ! i \<and> (i = j \<or> l ! i ! j = NaN \<or> flt_lt (flt_abs (l ! i ! j)) eps)"
proof -
  have "graph_wf g" "num_nodes g = n" using from_edges_wf [OF assms(1)] by auto
  then have "mat_sym n l" and small: "\<forall>i j. i < j \<and> j < n \<longrightarrow> l ! i ! j \<noteq> NaN \<longrightarrow> flt_lt (flt_abs (l ! i ! j)) eps"
    using jacobi_loop_small [OF _ assms(2,3)] laplacian_sym [of g] by auto
  then show ?thesis unfolding mat_sym_def by (metis nat_neq_iff)
qed

theorem jacobi_converged_witness:
  "\<exists>g u. from_edges 2 [] = Inr g \<and> (case jacobi_loop (\<lambda>x. x) 2 (Fin (1/2)) 1 (laplacian g) u of (conv, l, _) \<Rightarrow> conv \<and> l ! 1 ! 0 = Fin 0 \<and> l ! 0 ! 1 = l ! 1 ! 0)"
proof -
  define g where "g = \<lparr>num_nodes = 2, adjacency = [[], []]\<rparr>"
  have g: "from_edges 2 [] = Inr g" "adjacency g = [[], []]" "num_nodes g = 2"
    by (simp_all add: g_def from_edges_def graph_new_def numeral_2_eq_2)
  have l: "laplacian g = [[Fin 0, Fin 0], [Fin 0, Fin 0]]"
    using g by (simp add: laplacian_def upt_rec numeral_2_eq_2)
  then have j: "jacobi_loop (\<lambda>x. x) 2 (Fin (1/2)) 1 (laplacian g) [] = (True, laplacian g, [])"
    by (simp add: off_diagonal_max_def upper_def upt_rec numeral_2_eq_2)
  show ?thesis using jacobi_converged [OF g(1) _ j, simplified] g l j
    by (intro exI [of _ g] exI [of _ "[]"]) auto
qed

section \<open>Entities and their blast radius\<close>

definition interned :: "interner \<Rightarrow> bool" where
  "interned = (\<lambda>(index, m). distinct index \<and> (\<forall>x i. tbl_get m x = Some i \<longleftrightarrow> i < length index \<and> index ! i = x))"

lemma intern_ok:
  assumes t: "interned t" and i: "intern t x = (i, t')"
  shows "interned t' \<and> i < length (fst t') \<and> fst t' ! i = x \<and> length (fst t) \<le> length (fst t') \<and> set (fst t') = insert x (set (fst t))"
proof -
  obtain index m where tt: "t = (index, m)" by fastforce
  note int = t [unfolded tt interned_def, simplified]
  show ?thesis
  proof (cases "tbl_get m x")
    case None
    then have "x \<notin> set index" using int by (metis in_set_conv_nth option.distinct(1))
    moreover have "t' = (index @ [x], tbl_insert m x (length index))" "i = length index" using i None by (auto simp: intern_def tt)
    moreover have "interned (index @ [x], tbl_insert m x (length index))"
      using int \<open>x \<notin> set index\<close> by (auto simp: interned_def nth_append less_Suc_eq split: if_splits)
    ultimately show ?thesis by (auto simp: tt)
  next
    case (Some k)
    then have "i = k" "t' = (index, m)" using i by (auto simp: intern_def tt)
    moreover have "k < length index" "index ! k = x" using int Some by blast+
    ultimately show ?thesis using t by (auto simp: tt)
  qed
qed

lemma intern_edges_ok:
  "interned t \<Longrightarrow> intern_edges t es = (raw, t') \<Longrightarrow>
     interned t' \<and> length (fst t) \<le> length (fst t') \<and> set raw \<subseteq> {..<length (fst t')} \<times> {..<length (fst t')}
     \<and> set (fst t') = set (fst t) \<union> fst ` set es \<union> snd ` set es"
proof (induction t es arbitrary: raw t' rule: intern_edges.induct)
  case (2 t src dst es)
  obtain u t1 where i1: "intern t src = (u, t1)" by (rule prod.exhaust)
  obtain v t2 where i2: "intern t1 dst = (v, t2)" by (rule prod.exhaust)
  obtain r t3 where i3: "intern_edges t2 es = (r, t3)" by (rule prod.exhaust)
  note k1 = intern_ok [OF "2.prems"(1) i1]
  note k2 = intern_ok [OF conjunct1 [OF k1] i2]
  note k3 = "2.IH" [OF i1 [symmetric] i2 [symmetric] conjunct1 [OF k2] i3]
  have "raw = (u, v) # r" "t' = t3" using "2.prems"(2) by (auto simp: i1 i2 i3)
  then show ?case using k1 k2 k3 by auto
qed auto

lemma distance_total:
  assumes "2 \<le> em_dims e" "u < em_nodes e" "v < em_nodes e"
  shows "geometric_distance sq e u v = Inr (or_zero (geometric_distance sq e u v))"
    "fiedler_distance e u v = Inr (or_zero (fiedler_distance e u v))"
  using assms by (simp_all add: geometric_distance_def fiedler_distance_def em_validate_def or_zero_def)

lemma sg_build_ok:
  assumes b: "sg_build sq edges cfg = Inr sg" and d: "jc_dimensions cfg = None"
  shows "interned (entity_index sg, entity_to_node sg)" "set (entity_index sg) = fst ` set edges \<union> snd ` set edges"
    "2 \<le> em_dims (sg_embedding sg)" "length (entity_index sg) \<le> em_nodes (sg_embedding sg)"
proof -
  obtain raw index m where i: "intern_edges ([], []) edges = (raw, index, m)" by (rule prod_cases3)
  have "interned ([], [])" by (simp add: interned_def)
  note int = intern_edges_ok [OF this i]
  obtain g hub e where g: "build_connected_graph (max (length index) 2) raw = Inr (g, hub)" and e: "embed sq g cfg = Inr e"
    and sg: "sg = \<lparr>sg_graph = g, sg_embedding = e, entity_index = index, entity_to_node = m, hub_injected = hub\<rparr>"
    using b by (auto simp: sg_build_def i split: sum.splits)
  have "num_nodes g \<ge> max (length index) 2"
    using g from_edges_wf by (auto simp: build_connected_graph_def Let_def split: sum.splits if_splits)
  moreover have "em_nodes e = num_nodes g" "em_dims e = num_nodes g"
    using e d by (auto simp: embed_def Let_def split: if_splits prod.splits)
  ultimately show "interned (entity_index sg, entity_to_node sg)" "set (entity_index sg) = fst ` set edges \<union> snd ` set edges"
    "2 \<le> em_dims (sg_embedding sg)" "length (entity_index sg) \<le> em_nodes (sg_embedding sg)"
    using int by (auto simp: sg)
qed

lemma blast_candidates_eq:
  assumes "2 \<le> em_dims (sg_embedding sg)" "length (entity_index sg) \<le> em_nodes (sg_embedding sg)" "s < length (entity_index sg)"
  shows "blast_candidates sq sg s = map (\<lambda>i. \<lparr>bn_entity = entity_index sg ! i, bn_commute = or_zero (geometric_distance sq (sg_embedding sg) s i),
     bn_fiedler = or_zero (fiedler_distance (sg_embedding sg) s i)\<rparr>) (filter (\<lambda>i. i \<noteq> s) [0..<length (entity_index sg)])"
proof -
  let ?e = "sg_embedding sg" and ?ix = "entity_index sg"
  let ?f = "\<lambda>(i, entity). case (geometric_distance sq ?e s i, fiedler_distance ?e s i) of
      (Inr ct, Inr fd) \<Rightarrow> Some \<lparr>bn_entity = entity, bn_commute = ct, bn_fiedler = fd\<rparr> | _ \<Rightarrow> None"
  have "enumerate 0 ?ix = map (\<lambda>i. (i, ?ix ! i)) [0..<length ?ix]"
    by (rule nth_equalityI) (simp_all add: nth_enumerate_eq)
  then have en: "filter (\<lambda>(i, _). i \<noteq> s) (enumerate 0 ?ix) = map (\<lambda>i. (i, ?ix ! i)) (filter (\<lambda>i. i \<noteq> s) [0..<length ?ix])"
    by (simp add: filter_map o_def)
  have "List.map_filter ?f (map (\<lambda>i. (i, ?ix ! i)) xs) = map (\<lambda>i. \<lparr>bn_entity = ?ix ! i, bn_commute = or_zero (geometric_distance sq ?e s i),
     bn_fiedler = or_zero (fiedler_distance ?e s i)\<rparr>) xs" if "set xs \<subseteq> {..<length ?ix}" for xs
    using that
  proof (induction xs)
    case (Cons i xs)
    have "geometric_distance sq ?e s i = Inr (or_zero (geometric_distance sq ?e s i))"
      "fiedler_distance ?e s i = Inr (or_zero (fiedler_distance ?e s i))"
      using distance_total assms Cons.prems by simp_all
    then have "?f (i, ?ix ! i) = Some \<lparr>bn_entity = ?ix ! i, bn_commute = or_zero (geometric_distance sq ?e s i),
     bn_fiedler = or_zero (fiedler_distance ?e s i)\<rparr>" by (metis (no_types, lifting) case_prod_conv sum.case(2))
    then show ?case using Cons by (simp add: map_filter_simps)
  qed (simp add: map_filter_simps)
  from this [of "filter (\<lambda>i. i \<noteq> s) [0..<length ?ix]"] show ?thesis unfolding blast_candidates_def en by auto
qed

text \<open>The candidates are the other entities, each once, with the distances that a pair query gives.\<close>

lemma blast_candidates_ok:
  assumes b: "sg_build sq edges cfg = Inr sg" and d: "jc_dimensions cfg = None"
    and seed: "seed \<in> fst ` set edges \<union> snd ` set edges"
  obtains s where "tbl_get (entity_to_node sg) seed = Some s" "distinct (map bn_entity (blast_candidates sq sg s))"
    "bn_entity ` set (blast_candidates sq sg s) = (fst ` set edges \<union> snd ` set edges) - {seed}"
    "\<forall>r \<in> set (blast_candidates sq sg s). pair_distances sq sg seed (bn_entity r) = (bn_commute r, bn_fiedler r)"
proof -
  let ?ix = "entity_index sg" and ?e = "sg_embedding sg"
  note ok = sg_build_ok [OF b d]
  have dist: "distinct ?ix" and get: "\<And>x i. tbl_get (entity_to_node sg) x = Some i \<longleftrightarrow> i < length ?ix \<and> ?ix ! i = x"
    using ok(1) by (auto simp: interned_def)
  obtain s where s: "s < length ?ix" "?ix ! s = seed" using seed ok(2) by (metis in_set_conv_nth)
  define js where "js = filter (\<lambda>i. i \<noteq> s) [0..<length ?ix]"
  define node where "node i = \<lparr>bn_entity = ?ix ! i, bn_commute = or_zero (geometric_distance sq ?e s i),
    bn_fiedler = or_zero (fiedler_distance ?e s i)\<rparr>" for i
  have cand: "blast_candidates sq sg s = map node js" unfolding js_def node_def by (rule blast_candidates_eq [OF ok(3,4) s(1)])
  have pd: "pair_distances sq sg seed (?ix ! i) = (bn_commute (node i), bn_fiedler (node i))" if "i < length ?ix" for i
    using get [of seed s] get [of "?ix ! i" i] s that by (simp add: pair_distances_def node_def)
  have js: "set js = {i. i < length ?ix \<and> i \<noteq> s}" "distinct js" by (auto simp: js_def)
  have ents: "map bn_entity (map node js) = map ((!) ?ix) js" by (simp add: node_def)
  have "inj_on ((!) ?ix) (set js)" using dist js(1) by (auto simp: inj_on_def nth_eq_iff_index_eq)
  then have "distinct (map bn_entity (map node js))" using js(2) by (simp only: ents distinct_map)
  moreover have "(!) ?ix ` set js = (fst ` set edges \<union> snd ` set edges) - {seed}"
    unfolding js(1) ok(2) [symmetric] using s dist by (force simp: in_set_conv_nth nth_eq_iff_index_eq)
  then have "bn_entity ` set (map node js) = (fst ` set edges \<union> snd ` set edges) - {seed}"
    using ents by (metis image_set)
  moreover have "pair_distances sq sg seed (bn_entity r) = (bn_commute r, bn_fiedler r)" if "r \<in> set (map node js)" for r
    using that pd js(1) by (auto simp: node_def)
  ultimately show ?thesis using get [of seed s] s that [of s] unfolding cand by blast
qed

text \<open>C37: The blast radius of an entity is its nearest neighbours: for any observed edges whose embedding
  succeeds, the answer lists other entities of the edges, each once and never the injected hub, as
  many as asked for or all there are, in ascending commute-time distance, and no entity left out is
  nearer than one listed.\<close>

theorem blast_radius_nearest:
  assumes b: "sg_build sq edges cfg = Inr sg" and d: "jc_dimensions cfg = None"
    and seed: "seed \<in> fst ` set edges \<union> snd ` set edges"
    and num: "\<forall>x \<in> fst ` set edges \<union> snd ` set edges. fst (pair_distances sq sg seed x) \<noteq> NaN"
  shows "let out = spectral_blast_radius sq sg seed k; others = (fst ` set edges \<union> snd ` set edges) - {seed} in
    bn_entity ` set out \<subseteq> others \<and> distinct (map bn_entity out) \<and> length out = min k (card others)
    \<and> sorted_wrt (\<lambda>a b. flt_le (bn_commute a) (bn_commute b)) out
    \<and> (\<forall>r \<in> set out. pair_distances sq sg seed (bn_entity r) = (bn_commute r, bn_fiedler r))
    \<and> (\<forall>r \<in> set out. \<forall>x \<in> others - bn_entity ` set out. flt_le (bn_commute r) (fst (pair_distances sq sg seed x)))"
proof -
  let ?others = "(fst ` set edges \<union> snd ` set edges) - {seed}"
  obtain s where s: "tbl_get (entity_to_node sg) seed = Some s" and de: "distinct (map bn_entity (blast_candidates sq sg s))"
    and ce: "bn_entity ` set (blast_candidates sq sg s) = ?others"
    and pd: "\<forall>r \<in> set (blast_candidates sq sg s). pair_distances sq sg seed (bn_entity r) = (bn_commute r, bn_fiedler r)"
    by (rule blast_candidates_ok [OF b d seed])
  define cand where "cand = blast_candidates sq sg s"
  have nn: "\<forall>x \<in> set cand. bn_commute x \<noteq> NaN" using num pd ce unfolding cand_def by (metis DiffE fst_conv imageI)
  have o: "spectral_blast_radius sq sg seed k = take k (sort_by_key bn_commute cand)"
    using s by (simp add: spectral_blast_radius_def cand_def)
  note least = take_sort_least [OF nn o]
  have "length cand = card ?others" using de ce unfolding cand_def by (metis distinct_card length_map list.set_map)
  then have len: "length (spectral_blast_radius sq sg seed k) = min k (card ?others)" using least(3) by simp
  have near: "flt_le (bn_commute r) (fst (pair_distances sq sg seed x))"
    if rx: "r \<in> set (spectral_blast_radius sq sg seed k)" "x \<in> ?others - bn_entity ` set (spectral_blast_radius sq sg seed k)" for r x
  proof -
    have "x \<in> bn_entity ` set cand" using rx(2) unfolding cand_def ce by (rule DiffD1)
    then obtain y where y: "y \<in> set cand" "bn_entity y = x" by (auto simp: image_iff)
    then have "y \<notin> set (spectral_blast_radius sq sg seed k)" using rx(2) by blast
    then have "flt_le (bn_commute r) (bn_commute y)" by (rule least(5) [OF rx(1) y(1)])
    moreover have "pair_distances sq sg seed x = (bn_commute y, bn_fiedler y)" using pd y by (auto simp: cand_def)
    ultimately show ?thesis by simp
  qed
  have sub: "bn_entity ` set (spectral_blast_radius sq sg seed k) \<subseteq> ?others"
    using image_mono [OF least(2), of bn_entity] ce by (simp add: cand_def)
  have "\<forall>r \<in> set (spectral_blast_radius sq sg seed k). pair_distances sq sg seed (bn_entity r) = (bn_commute r, bn_fiedler r)"
    using pd least(2) unfolding cand_def by blast
  then show ?thesis unfolding Let_def
    using sub least(1) least(4) [OF de [folded cand_def]] len near by (intro conjI ballI) (assumption | simp | blast)+
qed

text \<open>Two nodes and one edge, with a threshold under which the Laplacian counts as diagonal.\<close>

definition loose_config :: jacobi_config where
  "loose_config = \<lparr>max_iterations = 1, jc_epsilon = Fin 2, jc_dimensions = None\<rparr>"

definition pair_graph :: graph where
  "pair_graph = \<lparr>num_nodes = 2, adjacency = [[1], [0]]\<rparr>"

definition pair_embedding :: embedding where
  "pair_embedding = \<lparr>em_nodes = 2, em_dims = 2, eigenvector_matrix = [[Fin 1, Fin 0], [Fin 0, Fin 1]], eigenvalues = [Fin 1, Fin 1],
     algebraic_connectivity = Fin 1\<rparr>"

lemma f64_small [simp]: "mk_f64 0 = Fin 0" "mk_f64 1 = Fin 1" "mk_f64 2 = Fin 2" "mk_f64 (- 1) = Fin (- 1)"
  using mk_f64_nat_exact [of 0] mk_f64_nat_exact [of 1] mk_f64_nat_exact [of 2] mk_f64_minus [of 1] by simp_all

lemma f64_of_nat_Suc_0 [simp]: "f64_of_nat (Suc 0) = Fin 1"
  using f64_of_nat_exact [of 1] by simp

lemma tiny_small: "\<not> flt_lt (Fin 1) tiny"
  using mk_f64_le_nat [of "1 / 10 ^ 10" 1] by (auto simp: tiny_def)

lemma pair_laplacian: "laplacian pair_graph = [[Fin 1, Fin (- 1)], [Fin (- 1), Fin 1]]"
  by (simp add: laplacian_def pair_graph_def upt_rec numeral_2_eq_2)

lemma pair_embed: "embed sq pair_graph loose_config = Inr pair_embedding"
  by (simp add: embed_def pair_laplacian loose_config_def pair_embedding_def Let_def off_diagonal_max_def upper_def upt_rec
      sort_by_key_def flt_max_def numeral_2_eq_2 pair_graph_def [THEN arg_cong [of _ _ num_nodes]])

lemma pair_from_edges: "from_edges 2 [(0, 1)] = Inr pair_graph"
  by (simp add: from_edges_def graph_new_def add_edge_def validate_node_def pair_graph_def numeral_2_eq_2)

lemma pair_connected: "build_connected_graph 2 [(0, 1)] = Inr (pair_graph, False)"
  unfolding build_connected_graph_def pair_from_edges
  by (simp add: is_connected_def bfs_distances_def validate_node_def pair_graph_def numeral_2_eq_2)

definition pair_security :: security_graph where
  "pair_security = \<lparr>sg_graph = pair_graph, sg_embedding = pair_embedding, entity_index = [''a'', ''b''],
     entity_to_node = tbl_insert (tbl_insert [] ''a'' 0) ''b'' 1, hub_injected = False\<rparr>"

lemma pair_build: "sg_build sq [(''a'', ''b'')] loose_config = Inr pair_security"
  by (simp add: sg_build_def intern_def pair_connected [unfolded numeral_2_eq_2 One_nat_def] pair_embed pair_security_def)

lemma pair_numbers: "\<forall>x \<in> {''a'', ''b''}. fst (pair_distances (\<lambda>x. x) pair_security ''a'' x) \<noteq> NaN"
  using tiny_small
  by (simp add: pair_distances_def pair_security_def geometric_distance_def em_validate_def pair_embedding_def or_zero_def
      coord_diff_def flt_sub_def Let_def upt_rec numeral_2_eq_2)

theorem blast_radius_nearest_witness:
  "length (spectral_blast_radius (\<lambda>x. x) pair_security ''a'' 5) = 1 \<and> bn_entity ` set (spectral_blast_radius (\<lambda>x. x) pair_security ''a'' 5) \<subseteq> {''b''}"
proof -
  have "{''a'', ''b''} - {''a''} = {''b''}" by auto
  then show ?thesis using blast_radius_nearest [OF pair_build, of "''a''" "\<lambda>x. x" 5] pair_numbers
    by (simp add: loose_config_def Let_def insert_commute)
qed

theorem embedding_spectrum_witness: "length (eigenvalues pair_embedding) = 2 \<and> sorted_wrt flt_le (eigenvalues pair_embedding)"
  using embedding_spectrum [OF pair_embed] by (simp add: pair_embedding_def)

theorem distances_symmetric_witness: "geometric_distance (\<lambda>x. x) pair_embedding 0 1 = geometric_distance (\<lambda>x. x) pair_embedding 1 0"
  by (rule distances_symmetric [THEN conjunct1]) (simp_all add: pair_embedding_def)

end
